(* ===== verification/Rust_Prelude.thy ===== *)
theory Rust_Prelude
  imports Main "HOL-Library.Sublist" "HOL-Library.Code_Target_Nat"
begin

text \<open>
  The part of Rust and of its standard library that the modelled crates share: characters as
  Unicode scalar values, \<open>str\<close> operations on lists of them, \<open>Result\<close> as a sum whose left side is
  the error, the slice and vector operations of the sources, and the generic list lemmas the
  component theories use.

  A Rust \<open>char\<close> is a code point, so the model's character is a number and a string a list of
  numbers. All string offsets of the modelled code are offsets the code itself obtained from
  \<open>find\<close>, \<open>len\<close> or a prefix test, so they lie on character boundaries, and a model that
  counts characters computes the same slices as the code that counts bytes; where the code
  compares byte lengths the model uses \<open>utf8_len\<close>.
\<close>

section \<open>Characters and strings\<close>

type_synonym uchar = nat
type_synonym ustring = "uchar list"

text \<open>A string literal of the source.\<close>

definition lit :: "string \<Rightarrow> ustring" where
  "lit s = map of_char s"

abbreviation nl :: uchar where "nl \<equiv> 10"
abbreviation cr :: uchar where "cr \<equiv> 13"
abbreviation sp :: uchar where "sp \<equiv> 32"

text \<open>\<open>char::is_whitespace\<close>: the Unicode property \<open>White_Space\<close>.\<close>

definition is_whitespace :: "uchar \<Rightarrow> bool" where
  "is_whitespace c \<longleftrightarrow>
     (9 \<le> c \<and> c \<le> 13) \<or> c = 32 \<or> c = 133 \<or> c = 160 \<or> c = 5760 \<or>
     (8192 \<le> c \<and> c \<le> 8202) \<or> c = 8232 \<or> c = 8233 \<or> c = 8239 \<or> c = 8287 \<or> c = 12288"

text \<open>\<open>char::len_utf8\<close> and \<open>str::len\<close> in bytes.\<close>

definition len_utf8 :: "uchar \<Rightarrow> nat" where
  "len_utf8 c = (if c < 128 then 1 else if c < 2048 then 2 else if c < 65536 then 3 else 4)"

definition utf8_len :: "ustring \<Rightarrow> nat" where
  "utf8_len s = sum_list (map len_utf8 s)"

definition trim_start :: "ustring \<Rightarrow> ustring" where
  "trim_start s = dropWhile is_whitespace s"

definition trim_end :: "ustring \<Rightarrow> ustring" where
  "trim_end s = rev (dropWhile is_whitespace (rev s))"

definition trim :: "ustring \<Rightarrow> ustring" where
  "trim s = trim_end (trim_start s)"

definition starts_with :: "'a list \<Rightarrow> 'a list \<Rightarrow> bool" where
  "starts_with s p \<longleftrightarrow> take (length p) s = p"

definition ends_with :: "'a list \<Rightarrow> 'a list \<Rightarrow> bool" where
  "ends_with s p \<longleftrightarrow> length p \<le> length s \<and> drop (length s - length p) s = p"

definition strip_prefix :: "'a list \<Rightarrow> 'a list \<Rightarrow> 'a list option" where
  "strip_prefix p s = (if take (length p) s = p then Some (drop (length p) s) else None)"

text \<open>\<open>str::strip_suffix\<close> for a single character.\<close>

definition strip_suffix_char :: "'a \<Rightarrow> 'a list \<Rightarrow> 'a list option" where
  "strip_suffix_char c s = (if s \<noteq> [] \<and> last s = c then Some (butlast s) else None)"

text \<open>\<open>str::split\<close> on a character; never empty.\<close>

fun split_on :: "'a \<Rightarrow> 'a list \<Rightarrow> 'a list list" where
  "split_on c [] = [[]]"
| "split_on c (x # xs) =
     (if x = c then [] # split_on c xs
      else (case split_on c xs of [] \<Rightarrow> [[x]] | l # ls \<Rightarrow> (x # l) # ls))"

text \<open>\<open>[S]::join\<close>.\<close>

fun join :: "'a list \<Rightarrow> 'a list list \<Rightarrow> 'a list" where
  "join sep [] = []"
| "join sep [x] = x"
| "join sep (x # y # ys) = x @ sep @ join sep (y # ys)"

text \<open>\<open>str::lines\<close>: each line ends at a line feed, a carriage return before it belongs to the
  terminator, and the last line may lack a terminator.\<close>

definition strip_cr :: "ustring \<Rightarrow> ustring" where
  "strip_cr l = (case strip_suffix_char cr l of Some l' \<Rightarrow> l' | None \<Rightarrow> l)"

definition str_lines :: "ustring \<Rightarrow> ustring list" where
  "str_lines s =
     (let parts = split_on nl s
      in map strip_cr (butlast parts) @ (if last parts = [] then [] else [last parts]))"

text \<open>\<open>str::find\<close> of a substring: the least position where it occurs.\<close>

fun str_find :: "'a list \<Rightarrow> 'a list \<Rightarrow> nat option" where
  "str_find [] p = (if p = [] then Some 0 else None)"
| "str_find (x # xs) p =
     (if starts_with (x # xs) p then Some 0 else map_option Suc (str_find xs p))"

text \<open>Decimal output of an unsigned integer, as in \<open>format!("{n}")\<close>.\<close>

fun show_nat :: "nat \<Rightarrow> ustring" where
  "show_nat n = (if n < 10 then [48 + n] else show_nat (n div 10) @ [48 + n mod 10])"

declare show_nat.simps [simp del]

text \<open>\<open>char::to_ascii_lowercase\<close> lifted to strings, and \<open>eq_ignore_ascii_case\<close>.\<close>

definition ascii_lower :: "uchar \<Rightarrow> uchar" where
  "ascii_lower c = (if 65 \<le> c \<and> c \<le> 90 then c + 32 else c)"

definition to_ascii_lowercase :: "ustring \<Rightarrow> ustring" where
  "to_ascii_lowercase s = map ascii_lower s"

definition eq_ignore_ascii_case :: "ustring \<Rightarrow> ustring \<Rightarrow> bool" where
  "eq_ignore_ascii_case a b \<longleftrightarrow> to_ascii_lowercase a = to_ascii_lowercase b"

text \<open>\<open>str::split_once\<close>.\<close>

definition split_once :: "ustring \<Rightarrow> ustring \<Rightarrow> (ustring \<times> ustring) option" where
  "split_once s sep =
     (case str_find s sep of
        None \<Rightarrow> None
      | Some i \<Rightarrow> Some (take i s, drop (i + length sep) s))"

text \<open>\<open>str::rsplit_once\<close> and \<open>str::trim_end_matches\<close> of a character.\<close>

definition rsplit_once :: "'a \<Rightarrow> 'a list \<Rightarrow> ('a list \<times> 'a list) option" where
  "rsplit_once c s =
     (if c \<in> set s
      then Some (rev (tl (dropWhile (\<lambda>x. x \<noteq> c) (rev s))), rev (takeWhile (\<lambda>x. x \<noteq> c) (rev s)))
      else None)"

definition trim_end_char :: "'a \<Rightarrow> 'a list \<Rightarrow> 'a list" where
  "trim_end_char c s = rev (dropWhile (\<lambda>x. x = c) (rev s))"

text \<open>\<open>char::is_ascii_lowercase\<close> and \<open>char::is_ascii_digit\<close>.\<close>

definition is_ascii_lowercase :: "uchar \<Rightarrow> bool" where
  "is_ascii_lowercase c \<longleftrightarrow> 97 \<le> c \<and> c \<le> 122"

definition is_ascii_digit :: "uchar \<Rightarrow> bool" where
  "is_ascii_digit c \<longleftrightarrow> 48 \<le> c \<and> c \<le> 57"

section \<open>Vectors and results\<close>

text \<open>\<open>slice::last\<close>, and the two uses the sources make of \<open>last_mut\<close>.\<close>

definition last_opt :: "'a list \<Rightarrow> 'a option" where
  "last_opt xs = (if xs = [] then None else Some (last xs))"

definition modify_last :: "('a \<Rightarrow> 'a) \<Rightarrow> 'a list \<Rightarrow> 'a list" where
  "modify_last f xs = (if xs = [] then [] else butlast xs @ [f (last xs)])"

text \<open>\<open>Iterator::find_map\<close>.\<close>

fun find_map :: "('a \<Rightarrow> 'b option) \<Rightarrow> 'a list \<Rightarrow> 'b option" where
  "find_map f [] = None"
| "find_map f (x # xs) = (case f x of Some y \<Rightarrow> Some y | None \<Rightarrow> find_map f xs)"

text \<open>\<open>max_by_key\<close>: the last of the greatest elements.\<close>

definition max_by_key :: "('a \<Rightarrow> 'k :: linorder) \<Rightarrow> 'a list \<Rightarrow> 'a option" where
  "max_by_key key xs =
     foldl (\<lambda>best x. case best of None \<Rightarrow> Some x | Some b \<Rightarrow> if key b \<le> key x then Some x else Some b) None xs"

definition is_some_and :: "'a option \<Rightarrow> ('a \<Rightarrow> bool) \<Rightarrow> bool" where
  "is_some_and x p = (case x of None \<Rightarrow> False | Some y \<Rightarrow> p y)"

text \<open>\<open>Result\<close>: \<open>Inl\<close> is \<open>Err\<close>, \<open>Inr\<close> is \<open>Ok\<close>; \<open>and_then\<close> is the \<open>?\<close> operator.\<close>

type_synonym ('e, 'a) result = "'e + 'a"

fun and_then :: "('e, 'a) result \<Rightarrow> ('a \<Rightarrow> ('e, 'b) result) \<Rightarrow> ('e, 'b) result" where
  "and_then (Inl e) f = Inl e"
| "and_then (Inr x) f = f x"

definition is_ok :: "('e, 'a) result \<Rightarrow> bool" where
  "is_ok r = (case r of Inl _ \<Rightarrow> False | Inr _ \<Rightarrow> True)"

section \<open>Lemmas\<close>

named_theorems str_defs \<open>definitions of the string operations, for evaluation\<close>

declare lit_def [str_defs] is_whitespace_def [str_defs] trim_start_def [str_defs]
  trim_end_def [str_defs] trim_def [str_defs] starts_with_def [str_defs] ends_with_def [str_defs]
  strip_prefix_def [str_defs] strip_suffix_char_def [str_defs] strip_cr_def [str_defs]
  str_lines_def [str_defs] last_opt_def [str_defs] modify_last_def [str_defs]
  is_some_and_def [str_defs]

lemma and_then_Inr_iff [simp]:
  "and_then r f = Inr y \<longleftrightarrow> (\<exists>x. r = Inr x \<and> f x = Inr y)"
  by (cases r) auto

lemma and_then_Inl_iff [simp]:
  "and_then r f = Inl e \<longleftrightarrow> r = Inl e \<or> (\<exists>x. r = Inr x \<and> f x = Inl e)"
  by (cases r) auto

subsection \<open>Prefixes\<close>

lemma starts_with_iff: "starts_with s p \<longleftrightarrow> prefix p s"
  unfolding starts_with_def by (metis append_eq_conv_conj prefix_def take_is_prefix)

lemma starts_with_append [simp]: "starts_with (p @ s) p"
  by (simp add: starts_with_def)

lemma strip_prefix_append [simp]: "strip_prefix p (p @ s) = Some s"
  by (simp add: strip_prefix_def)

lemma strip_prefix_Some_iff: "strip_prefix p s = Some r \<longleftrightarrow> s = p @ r"
  unfolding strip_prefix_def by (auto simp: append_eq_conv_conj) (metis append_take_drop_id)

lemma strip_prefix_None_iff: "strip_prefix p s = None \<longleftrightarrow> \<not> starts_with s p"
  by (simp add: strip_prefix_def starts_with_def)

lemma strip_prefix_char [simp]:
  "strip_prefix [c] [] = None"
  "strip_prefix [c] (x # xs) = (if x = c then Some xs else None)"
  by (simp_all add: strip_prefix_def)

lemma ends_with_iff: "ends_with s p \<longleftrightarrow> suffix p s"
proof
  assume "ends_with s p"
  then show "suffix p s"
    unfolding ends_with_def suffix_def by (metis append_take_drop_id)
next
  assume "suffix p s"
  then show "ends_with s p"
    by (auto simp: ends_with_def suffix_def)
qed

subsection \<open>Trimming\<close>

lemma trim_start_id: "s = [] \<or> \<not> is_whitespace (hd s) \<Longrightarrow> trim_start s = s"
  by (cases s) (auto simp: trim_start_def)

lemma trim_end_id: "s = [] \<or> \<not> is_whitespace (last s) \<Longrightarrow> trim_end s = s"
  by (cases s rule: rev_cases) (auto simp: trim_end_def)

lemma trim_id:
  "s = [] \<or> (\<not> is_whitespace (hd s) \<and> \<not> is_whitespace (last s)) \<Longrightarrow> trim s = s"
  using trim_start_id [of s] trim_end_id [of s] by (auto simp: trim_def)

lemma trim_end_prefix: "prefix (trim_end s) s"
proof -
  have "suffix (dropWhile is_whitespace (rev s)) (rev s)"
    by (rule suffix_dropWhile)
  then show ?thesis
    by (simp add: trim_end_def suffix_to_prefix)
qed

lemma trim_end_last: "trim_end s \<noteq> [] \<Longrightarrow> \<not> is_whitespace (last (trim_end s))"
  unfolding trim_end_def by (metis hd_dropWhile last_rev rev_is_Nil_conv)

lemma trim_start_hd: "trim_start s \<noteq> [] \<Longrightarrow> \<not> is_whitespace (hd (trim_start s))"
  unfolding trim_start_def by (metis hd_dropWhile)

lemma trim_hd: "trim s \<noteq> [] \<Longrightarrow> \<not> is_whitespace (hd (trim s))"
proof -
  assume ne: "trim s \<noteq> []"
  then have "hd (trim s) = hd (trim_start s)"
    unfolding trim_def
    by (metis trim_end_prefix hd_append2 prefix_def)
  moreover have "trim_start s \<noteq> []"
    using ne by (auto simp: trim_def trim_end_def)
  ultimately show ?thesis
    using trim_start_hd by simp
qed

lemma trim_last: "trim s \<noteq> [] \<Longrightarrow> \<not> is_whitespace (last (trim s))"
  by (simp add: trim_def trim_end_last)

lemma trim_trim [simp]: "trim (trim s) = trim s"
  by (rule trim_id) (auto dest: trim_hd trim_last)

lemma trim_end_trim_end [simp]: "trim_end (trim_end s) = trim_end s"
  by (rule trim_end_id) (auto dest: trim_end_last)

lemma trim_trim_end [simp]: "trim (trim_end s) = trim s"
proof (induction s rule: rev_induct)
  case Nil
  then show ?case by (simp add: trim_def trim_end_def trim_start_def)
next
  case (snoc x xs)
  show ?case
  proof (cases "is_whitespace x")
    case True
    then have "trim_end (xs @ [x]) = trim_end xs"
      by (simp add: trim_end_def)
    moreover have "trim (xs @ [x]) = trim xs"
    proof (cases "\<forall>y\<in>set xs. is_whitespace y")
      case True
      with \<open>is_whitespace x\<close> show ?thesis
        by (auto simp: trim_def trim_start_def trim_end_def dropWhile_append
            dest: set_dropWhileD)
    next
      case False
      with \<open>is_whitespace x\<close> show ?thesis
        by (auto simp: trim_def trim_start_def trim_end_def dropWhile_append)
    qed
    ultimately show ?thesis using snoc by simp
  next
    case False
    then show ?thesis by (simp add: trim_end_def)
  qed
qed

lemma trim_Nil [simp]: "trim [] = []" "trim_end [] = []" "trim_start [] = []"
  by (simp_all add: trim_def trim_end_def trim_start_def)

lemma trim_eq_Nil_iff: "trim s = [] \<longleftrightarrow> (\<forall>c\<in>set s. is_whitespace c)"
proof -
  have "trim_start s = [] \<longleftrightarrow> (\<forall>c\<in>set s. is_whitespace c)"
    by (simp add: trim_start_def)
  moreover have "trim_end t = [] \<longleftrightarrow> (\<forall>c\<in>set t. is_whitespace c)" for t
    by (simp add: trim_end_def)
  moreover have "trim_start s \<noteq> [] \<Longrightarrow> \<not> (\<forall>c\<in>set (trim_start s). is_whitespace c)"
    using trim_start_hd by fastforce
  ultimately show ?thesis
    unfolding trim_def by auto
qed

subsection \<open>Splitting and joining\<close>

lemma split_on_neq_Nil [simp]: "split_on c s \<noteq> []"
  by (cases s) (auto split: list.splits)

lemma split_on_no_sep: "c \<notin> set s \<Longrightarrow> split_on c s = [s]"
  by (induction s) auto

lemma split_on_append_sep: "c \<notin> set a \<Longrightarrow> split_on c (a @ c # s) = a # split_on c s"
  by (induction a) auto

lemma join_Cons: "join sep (x # xs) = (if xs = [] then x else x @ sep @ join sep xs)"
  by (cases xs) auto

lemma join_split_on: "join [c] (split_on c s) = s"
proof (induction s)
  case Nil
  then show ?case by simp
next
  case (Cons x xs)
  then show ?case
    by (cases "split_on c xs") (auto simp: join_Cons)
qed

lemma split_on_join:
  "xs \<noteq> [] \<Longrightarrow> \<forall>x\<in>set xs. c \<notin> set x \<Longrightarrow> split_on c (join [c] xs) = xs"
proof (induction xs)
  case Nil
  then show ?case by simp
next
  case (Cons x xs)
  then show ?case
    by (cases "xs = []") (auto simp: join_Cons split_on_no_sep split_on_append_sep)
qed

lemma split_on_sep_free: "x \<in> set (split_on c s) \<Longrightarrow> c \<notin> set x"
  by (induction s arbitrary: x) (auto split: if_splits list.splits)

subsection \<open>Searching\<close>

lemma str_find_Some_iff:
  "str_find s p = Some n \<longleftrightarrow>
     n \<le> length s \<and> starts_with (drop n s) p \<and> (\<forall>m<n. \<not> starts_with (drop m s) p)"
proof (induction s arbitrary: n)
  case Nil
  then show ?case by (auto simp: starts_with_def)
next
  case (Cons x xs)
  show ?case
  proof (cases "starts_with (x # xs) p")
    case True
    then show ?thesis by (cases n) auto
  next
    case False
    show ?thesis
    proof (cases n)
      case 0
      with False show ?thesis by simp
    next
      case (Suc k)
      have "(\<forall>m<Suc k. \<not> starts_with (drop m (x # xs)) p) \<longleftrightarrow>
            (\<forall>m<k. \<not> starts_with (drop m xs) p)"
        using False less_Suc_eq_0_disj by auto
      with False Suc Cons show ?thesis by auto
    qed
  qed
qed

lemma str_find_None_iff:
  "str_find s p = None \<longleftrightarrow> (\<forall>m\<le>length s. \<not> starts_with (drop m s) p)"
proof (induction s)
  case Nil
  then show ?case by (simp add: starts_with_def)
next
  case (Cons x xs)
  have "(\<forall>m\<le>length (x # xs). \<not> starts_with (drop m (x # xs)) p) \<longleftrightarrow>
        \<not> starts_with (x # xs) p \<and> (\<forall>m\<le>length xs. \<not> starts_with (drop m xs) p)"
    by (simp add: All_less_Suc2 less_Suc_eq_le[symmetric])
  with Cons show ?case by simp
qed

lemma split_once_Some:
  "split_once s sep = Some (a, b) \<Longrightarrow> s = a @ sep @ b \<and> str_find s sep = Some (length a)"
  by (auto simp: split_once_def str_find_Some_iff starts_with_def split: option.splits)
    (metis append_take_drop_id drop_drop add.commute)

lemma split_once_char: "c \<notin> set a \<Longrightarrow> split_once (a @ c # b) [c] = Some (a, b)"
proof -
  assume "c \<notin> set a"
  then have "str_find (a @ c # b) [c] = Some (length a)"
    by (induction a) (auto simp: starts_with_def)
  then show ?thesis
    by (simp add: split_once_def)
qed

subsection \<open>Last elements\<close>

lemma last_opt_snoc [simp]: "last_opt (xs @ [x]) = Some x"
  by (simp add: last_opt_def)

lemma last_opt_Nil [simp]: "last_opt [] = None"
  by (simp add: last_opt_def)

lemma last_opt_None_iff [simp]: "last_opt xs = None \<longleftrightarrow> xs = []"
  by (simp add: last_opt_def)

lemma last_opt_Some_iff: "last_opt xs = Some x \<longleftrightarrow> (\<exists>ys. xs = ys @ [x])"
  by (cases xs rule: rev_cases) (auto simp: last_opt_def)

lemma modify_last_snoc [simp]: "modify_last f (xs @ [x]) = xs @ [f x]"
  by (simp add: modify_last_def)

lemma modify_last_Nil [simp]: "modify_last f [] = []"
  by (simp add: modify_last_def)

lemma modify_last_eq_Nil [simp]: "modify_last f xs = [] \<longleftrightarrow> xs = []"
  by (simp add: modify_last_def)

lemma is_some_and_simps [simp]: "is_some_and None p = False" "is_some_and (Some x) p = p x"
  by (simp_all add: is_some_and_def)

lemma utf8_len_append [simp]: "utf8_len (a @ b) = utf8_len a + utf8_len b"
  by (simp add: utf8_len_def)

lemma lit_append: "lit (a @ b) = lit a @ lit b"
  by (simp add: lit_def)

lemma lit_inj [simp]: "lit a = lit b \<longleftrightarrow> a = b"
  unfolding lit_def by (rule inj_map_eq_map) (simp add: inj_def)

lemma find_map_None_iff: "find_map f xs = None \<longleftrightarrow> (\<forall>x\<in>set xs. f x = None)"
  by (induction xs) (auto split: option.splits)

lemma find_map_Some: "find_map f xs = Some y \<Longrightarrow> \<exists>x\<in>set xs. f x = Some y"
  by (induction xs) (auto split: option.splits)

end
