(* ===== verification/Patch_Parser.thy ===== *)
theory Patch_Parser
  imports Rust_Prelude
begin

text \<open>
  The patch language of \<^verbatim>\<open>codex-rs/apply-patch\<close>: the data of \<^verbatim>\<open>parser.rs\<close> (hunks, chunks, parse
  errors), the line-oriented state machine of \<^verbatim>\<open>streaming_parser.rs\<close> and the batch entry points
  of \<^verbatim>\<open>parser.rs\<close>, which feed the state machine. Every method that takes \<^verbatim>\<open>&mut self\<close> returns
  the new parser next to its result, also when the result is an error.
\<close>

section \<open>Markers and data\<close>

definition BEGIN_PATCH_MARKER :: ustring where "BEGIN_PATCH_MARKER = lit ''*** Begin Patch''"
definition END_PATCH_MARKER :: ustring where "END_PATCH_MARKER = lit ''*** End Patch''"
definition ADD_FILE_MARKER :: ustring where "ADD_FILE_MARKER = lit ''*** Add File: ''"
definition DELETE_FILE_MARKER :: ustring where "DELETE_FILE_MARKER = lit ''*** Delete File: ''"
definition UPDATE_FILE_MARKER :: ustring where "UPDATE_FILE_MARKER = lit ''*** Update File: ''"
definition MOVE_TO_MARKER :: ustring where "MOVE_TO_MARKER = lit ''*** Move to: ''"
definition EOF_MARKER :: ustring where "EOF_MARKER = lit ''*** End of File''"
definition CHANGE_CONTEXT_MARKER :: ustring where "CHANGE_CONTEXT_MARKER = lit ''@@ ''"
definition EMPTY_CHANGE_CONTEXT_MARKER :: ustring where "EMPTY_CHANGE_CONTEXT_MARKER = lit ''@@''"
definition ENVIRONMENT_ID_MARKER :: ustring where
  "ENVIRONMENT_ID_MARKER = lit ''*** Environment ID:''"

named_theorems marker_defs \<open>definitions of the markers\<close>

declare BEGIN_PATCH_MARKER_def [marker_defs] END_PATCH_MARKER_def [marker_defs]
  ADD_FILE_MARKER_def [marker_defs] DELETE_FILE_MARKER_def [marker_defs]
  UPDATE_FILE_MARKER_def [marker_defs] MOVE_TO_MARKER_def [marker_defs]
  EOF_MARKER_def [marker_defs] CHANGE_CONTEXT_MARKER_def [marker_defs]
  EMPTY_CHANGE_CONTEXT_MARKER_def [marker_defs] ENVIRONMENT_ID_MARKER_def [marker_defs]

datatype ParseError =
    InvalidPatchError ustring
  | InvalidHunkError ustring nat

record UpdateFileChunk =
  change_context :: "ustring option"
  old_lines :: "ustring list"
  new_lines :: "ustring list"
  context_line_indices :: "(nat \<times> nat) list"
  is_end_of_file :: bool

text \<open>\<open>UpdateFileChunk::default\<close> (derived).\<close>

definition default_chunk :: UpdateFileChunk where
  "default_chunk = \<lparr>change_context = None, old_lines = [], new_lines = [],
     context_line_indices = [], is_end_of_file = False\<rparr>"

datatype Hunk =
    AddFile (hunk_path: ustring) ustring
  | DeleteFile (hunk_path: ustring)
  | UpdateFile (hunk_path: ustring) "ustring option" "UpdateFileChunk list"

text \<open>\<open>Hunk::path\<close>: the move destination for a rename.\<close>

fun affected_path :: "Hunk \<Rightarrow> ustring" where
  "affected_path (AddFile path _) = path"
| "affected_path (DeleteFile path) = path"
| "affected_path (UpdateFile _ (Some path) _) = path"
| "affected_path (UpdateFile path None _) = path"

definition push_context_line :: "UpdateFileChunk \<Rightarrow> ustring \<Rightarrow> UpdateFileChunk" where
  "push_context_line chunk line =
     chunk\<lparr>context_line_indices := context_line_indices chunk @
             [(length (old_lines chunk), length (new_lines chunk))],
           old_lines := old_lines chunk @ [line],
           new_lines := new_lines chunk @ [line]\<rparr>"

definition push_new_line :: "UpdateFileChunk \<Rightarrow> ustring \<Rightarrow> UpdateFileChunk" where
  "push_new_line chunk line = chunk\<lparr>new_lines := new_lines chunk @ [line]\<rparr>"

definition push_old_line :: "UpdateFileChunk \<Rightarrow> ustring \<Rightarrow> UpdateFileChunk" where
  "push_old_line chunk line = chunk\<lparr>old_lines := old_lines chunk @ [line]\<rparr>"

section \<open>The streaming parser\<close>

datatype StreamingParserMode =
    NotStarted
  | StartedPatch
  | ModeAddFile
  | ModeDeleteFile
  | ModeUpdateFile nat
  | EndedPatch

record StreamingParserState =
  mode :: StreamingParserMode
  hunks :: "Hunk list"
  environment_id :: "ustring option"

record StreamingPatchParser =
  line_buffer :: ustring
  state :: StreamingParserState
  line_number :: nat

definition default_parser :: StreamingPatchParser where
  "default_parser = \<lparr>line_buffer = [],
     state = \<lparr>mode = NotStarted, hunks = [], environment_id = None\<rparr>, line_number = 0\<rparr>"

type_synonym 'a parse_step = "StreamingPatchParser \<times> (ParseError, 'a) result"

definition set_mode :: "StreamingParserMode \<Rightarrow> StreamingPatchParser \<Rightarrow> StreamingPatchParser" where
  "set_mode m self = self\<lparr>state := (state self)\<lparr>mode := m\<rparr>\<rparr>"

definition set_hunks :: "Hunk list \<Rightarrow> StreamingPatchParser \<Rightarrow> StreamingPatchParser" where
  "set_hunks hs self = self\<lparr>state := (state self)\<lparr>hunks := hs\<rparr>\<rparr>"

definition chunk_has_no_lines :: "UpdateFileChunk \<Rightarrow> bool" where
  "chunk_has_no_lines chunk \<longleftrightarrow> old_lines chunk = [] \<and> new_lines chunk = []"

definition unexpected_line_message :: "ustring \<Rightarrow> ustring" where
  "unexpected_line_message line =
     lit ''Unexpected line found in update hunk: '' @ [39] @ line @ [39] @
     lit ''. Every line should start with '' @ [39, 32, 39] @ lit '' (context line), '' @
     [39, 43, 39] @ lit '' (added line), or '' @ [39, 45, 39] @ lit '' (removed line)''"

definition invalid_header_message :: "ustring \<Rightarrow> ustring" where
  "invalid_header_message trimmed =
     [39] @ trimmed @ [39] @ lit '' is not a valid hunk header. Valid hunk headers: '' @
     [39] @ lit ''*** Add File: {path}'' @ [39, 44, 32, 39] @ lit ''*** Delete File: {path}'' @
     [39, 44, 32, 39] @ lit ''*** Update File: {path}'' @ [39]"

definition expected_context_message :: "ustring \<Rightarrow> ustring" where
  "expected_context_message line =
     lit ''Expected update hunk to start with a @@ context marker, got: '' @ [39] @ line @ [39]"

definition first_line_message :: ustring where
  "first_line_message = lit ''The first line of the patch must be '' @ [39] @
     BEGIN_PATCH_MARKER @ [39]"

definition last_line_message :: ustring where
  "last_line_message = lit ''The last line of the patch must be '' @ [39] @
     END_PATCH_MARKER @ [39]"

definition ensure_update_hunk_is_not_empty ::
  "StreamingPatchParser \<Rightarrow> ustring \<Rightarrow> (ParseError, unit) result" where
  "ensure_update_hunk_is_not_empty self line =
     (case last_opt (hunks (state self)) of
        Some (UpdateFile path _ chunks) \<Rightarrow>
          (case (chunks, mode (state self)) of
             ([], ModeUpdateFile hunk_line_number) \<Rightarrow>
               Inl (InvalidHunkError
                 (lit ''Update file hunk for path '' @ [39] @ path @ [39] @ lit '' is empty'')
                 hunk_line_number)
           | _ \<Rightarrow>
               if is_some_and (last_opt chunks) chunk_has_no_lines
               then if line = END_PATCH_MARKER
                    then Inl (InvalidHunkError (lit ''Update hunk does not contain any lines'')
                           (line_number self))
                    else Inl (InvalidHunkError (unexpected_line_message line) (line_number self))
               else Inr ())
      | _ \<Rightarrow> Inr ())"

text \<open>The early return of a header branch: check the hunk that ends here, then update the state.\<close>

definition close_hunk_then ::
  "StreamingPatchParser \<Rightarrow> ustring \<Rightarrow> (StreamingPatchParser \<Rightarrow> StreamingPatchParser) \<Rightarrow>
   bool parse_step" where
  "close_hunk_then self trimmed update =
     (case ensure_update_hunk_is_not_empty self trimmed of
        Inl e \<Rightarrow> (self, Inl e)
      | Inr _ \<Rightarrow> (update self, Inr True))"

definition start_hunk ::
  "Hunk \<Rightarrow> StreamingParserMode \<Rightarrow> StreamingPatchParser \<Rightarrow> StreamingPatchParser" where
  "start_hunk h m self = set_mode m (set_hunks (hunks (state self) @ [h]) self)"

definition handle_environment_id ::
  "StreamingPatchParser \<Rightarrow> ustring \<Rightarrow> bool parse_step" where
  "handle_environment_id self env =
     (if environment_id (state self) \<noteq> None
      then (self, Inl (InvalidPatchError
             (lit ''apply_patch environment_id cannot be specified more than once'')))
      else if trim env = []
      then (self, Inl (InvalidPatchError (lit ''apply_patch environment_id cannot be empty'')))
      else (self\<lparr>state := (state self)\<lparr>environment_id := Some (trim env)\<rparr>\<rparr>, Inr True))"

definition handle_hunk_headers_and_end_patch ::
  "StreamingPatchParser \<Rightarrow> ustring \<Rightarrow> bool parse_step" where
  "handle_hunk_headers_and_end_patch self trimmed =
     (case (mode (state self), strip_prefix ENVIRONMENT_ID_MARKER trimmed) of
        (StartedPatch, Some env) \<Rightarrow> handle_environment_id self env
      | _ \<Rightarrow>
        if trimmed = END_PATCH_MARKER
        then close_hunk_then self trimmed (set_mode EndedPatch)
        else (case strip_prefix ADD_FILE_MARKER trimmed of
          Some path \<Rightarrow> close_hunk_then self trimmed (start_hunk (AddFile path []) ModeAddFile)
        | None \<Rightarrow> (case strip_prefix DELETE_FILE_MARKER trimmed of
            Some path \<Rightarrow> close_hunk_then self trimmed (start_hunk (DeleteFile path) ModeDeleteFile)
          | None \<Rightarrow> (case strip_prefix UPDATE_FILE_MARKER trimmed of
              Some path \<Rightarrow> close_hunk_then self trimmed
                (start_hunk (UpdateFile path None []) (ModeUpdateFile (line_number self)))
            | None \<Rightarrow> (self, Inr False)))))"

text \<open>The chunk list after the source's \<open>if chunks.is_empty() { push default }\<close> and the change of
  \<open>chunks.last_mut()\<close>.\<close>

definition edit_last_chunk ::
  "(UpdateFileChunk \<Rightarrow> UpdateFileChunk) \<Rightarrow> UpdateFileChunk list \<Rightarrow> UpdateFileChunk list" where
  "edit_last_chunk f chunks = modify_last f (if chunks = [] then [default_chunk] else chunks)"

definition is_context_marker :: "ustring \<Rightarrow> bool" where
  "is_context_marker update_line \<longleftrightarrow>
     update_line = EMPTY_CHANGE_CONTEXT_MARKER \<or> starts_with update_line CHANGE_CONTEXT_MARKER"

text \<open>The body of the \<open>UpdateFile\<close> mode on the hunk being parsed: \<open>Inr\<close> carries the hunk's new
  move target and chunks; every such branch keeps the mode.\<close>

definition process_update_line ::
  "nat \<Rightarrow> ustring \<Rightarrow> ustring option \<Rightarrow> UpdateFileChunk list \<Rightarrow>
   (ParseError, ustring option \<times> UpdateFileChunk list) result" where
  "process_update_line lnum line move_path chunks =
     (let update_line = trim_end line;
          after_eof = is_some_and (last_opt chunks) is_end_of_file
      in
      if after_eof \<and> update_line = [] then Inr (move_path, chunks)
      else if after_eof \<and> \<not> is_context_marker update_line
      then Inl (InvalidHunkError (expected_context_message line) lnum)
      else if chunks = [] \<and> move_path = None \<and> starts_with update_line MOVE_TO_MARKER
      then Inr (Some (drop (length MOVE_TO_MARKER) update_line), chunks)
      else if is_context_marker update_line \<and> is_some_and (last_opt chunks) chunk_has_no_lines
      then Inl (InvalidHunkError (unexpected_line_message line) lnum)
      else if update_line = EMPTY_CHANGE_CONTEXT_MARKER
      then Inr (move_path, chunks @ [default_chunk])
      else if starts_with update_line CHANGE_CONTEXT_MARKER
      then Inr (move_path, chunks @
             [default_chunk\<lparr>change_context := Some (drop (length CHANGE_CONTEXT_MARKER) update_line)\<rparr>])
      else if update_line = EOF_MARKER
      then if is_some_and (last_opt chunks) chunk_has_no_lines
           then Inl (InvalidHunkError (lit ''Update hunk does not contain any lines'') lnum)
           else Inr (move_path, modify_last (\<lambda>chunk. chunk\<lparr>is_end_of_file := True\<rparr>) chunks)
      else (case line of
          [] \<Rightarrow> Inr (move_path, edit_last_chunk (\<lambda>chunk. push_context_line chunk []) chunks)
        | ch # rest \<Rightarrow>
            if ch = 32 then Inr (move_path, edit_last_chunk (\<lambda>chunk. push_context_line chunk rest) chunks)
            else if ch = 43 then Inr (move_path, edit_last_chunk (\<lambda>chunk. push_new_line chunk rest) chunks)
            else if ch = 45 then Inr (move_path, edit_last_chunk (\<lambda>chunk. push_old_line chunk rest) chunks)
            else if is_some_and (last_opt chunks) (\<lambda>chunk. \<not> chunk_has_no_lines chunk)
            then Inl (InvalidHunkError (expected_context_message line) lnum)
            else Inl (InvalidHunkError (unexpected_line_message line) lnum)))"

definition process_line_update :: "StreamingPatchParser \<Rightarrow> ustring \<Rightarrow> unit parse_step" where
  "process_line_update self line =
     (case handle_hunk_headers_and_end_patch self (trim_end line) of
        (self', Inl e) \<Rightarrow> (self', Inl e)
      | (self', Inr True) \<Rightarrow> (self', Inr ())
      | (self', Inr False) \<Rightarrow>
          (case last_opt (hunks (state self')) of
             Some (UpdateFile path move_path chunks) \<Rightarrow>
               (case process_update_line (line_number self') line move_path chunks of
                  Inl e \<Rightarrow> (self', Inl e)
                | Inr (move_path', chunks') \<Rightarrow>
                    (set_hunks (modify_last (\<lambda>_. UpdateFile path move_path' chunks')
                       (hunks (state self'))) self', Inr ()))
           | _ \<Rightarrow> (self', Inl (InvalidHunkError (unexpected_line_message line) (line_number self')))))"

definition process_line_add :: "StreamingPatchParser \<Rightarrow> ustring \<Rightarrow> unit parse_step" where
  "process_line_add self line =
     (case handle_hunk_headers_and_end_patch self (trim line) of
        (self', Inl e) \<Rightarrow> (self', Inl e)
      | (self', Inr True) \<Rightarrow> (self', Inr ())
      | (self', Inr False) \<Rightarrow>
          (case (strip_prefix [43] line, last_opt (hunks (state self'))) of
             (Some line_to_add, Some (AddFile path contents)) \<Rightarrow>
               (set_hunks (modify_last (\<lambda>_. AddFile path (contents @ line_to_add @ [nl]))
                  (hunks (state self'))) self', Inr ())
           | _ \<Rightarrow> (self', Inl (InvalidHunkError (invalid_header_message (trim line))
                     (line_number self')))))"

definition process_line_header :: "StreamingPatchParser \<Rightarrow> ustring \<Rightarrow> unit parse_step" where
  "process_line_header self line =
     (case handle_hunk_headers_and_end_patch self (trim line) of
        (self', Inl e) \<Rightarrow> (self', Inl e)
      | (self', Inr True) \<Rightarrow> (self', Inr ())
      | (self', Inr False) \<Rightarrow>
          (self', Inl (InvalidHunkError (invalid_header_message (trim line)) (line_number self'))))"

definition process_line :: "StreamingPatchParser \<Rightarrow> ustring \<Rightarrow> unit parse_step" where
  "process_line self line =
     (case mode (state self) of
        NotStarted \<Rightarrow>
          if trim line = BEGIN_PATCH_MARKER then (set_mode StartedPatch self, Inr ())
          else (self, Inl (InvalidPatchError first_line_message))
      | StartedPatch \<Rightarrow> process_line_header self line
      | ModeAddFile \<Rightarrow> process_line_add self line
      | ModeDeleteFile \<Rightarrow> process_line_header self line
      | ModeUpdateFile _ \<Rightarrow> process_line_update self line
      | EndedPatch \<Rightarrow>
          if trim line = [] then (self, Inr ())
          else (self, Inl (InvalidPatchError last_line_message)))"

text \<open>\<open>push_delta\<close>: one character at a time; an error leaves the rest of the delta unread.\<close>

fun push_chars :: "StreamingPatchParser \<Rightarrow> ustring \<Rightarrow> unit parse_step" where
  "push_chars self [] = (self, Inr ())"
| "push_chars self (ch # cs) =
     (if ch = nl
      then (case process_line (self\<lparr>line_buffer := [], line_number := line_number self + 1\<rparr>)
                   (strip_cr (line_buffer self)) of
              (self', Inl e) \<Rightarrow> (self', Inl e)
            | (self', Inr _) \<Rightarrow> push_chars self' cs)
      else push_chars (self\<lparr>line_buffer := line_buffer self @ [ch]\<rparr>) cs)"

definition push_delta :: "StreamingPatchParser \<Rightarrow> ustring \<Rightarrow> Hunk list parse_step" where
  "push_delta self delta =
     (case push_chars self delta of
        (self', Inl e) \<Rightarrow> (self', Inl e)
      | (self', Inr _) \<Rightarrow> (self', Inr (hunks (state self'))))"

definition finish_last_line :: "StreamingPatchParser \<Rightarrow> unit parse_step" where
  "finish_last_line self =
     (if line_buffer self = [] then (self, Inr ())
      else let line = line_buffer self;
               self1 = self\<lparr>line_buffer := [], line_number := line_number self + 1\<rparr>
           in if trim line = END_PATCH_MARKER
              then (case ensure_update_hunk_is_not_empty self1 (trim line) of
                      Inl e \<Rightarrow> (self1, Inl e)
                    | Inr _ \<Rightarrow> (set_mode EndedPatch self1, Inr ()))
              else process_line self1 line)"

definition finish :: "StreamingPatchParser \<Rightarrow> Hunk list parse_step" where
  "finish self =
     (case finish_last_line self of
        (self', Inl e) \<Rightarrow> (self', Inl e)
      | (self', Inr _) \<Rightarrow>
          if mode (state self') = EndedPatch then (self', Inr (hunks (state self')))
          else (self', Inl (InvalidPatchError last_line_message)))"

section \<open>Batch parsing\<close>

datatype ParseMode = Strict | Lenient

record ApplyPatchArgs =
  args_patch :: ustring
  args_hunks :: "Hunk list"
  args_workdir :: "ustring option"
  args_environment_id :: "ustring option"

definition check_start_and_end_lines_strict ::
  "ustring option \<Rightarrow> ustring option \<Rightarrow> (ParseError, unit) result" where
  "check_start_and_end_lines_strict first_line last_line =
     (case (map_option trim first_line, map_option trim last_line) of
        (Some first, Some lst) \<Rightarrow>
          if first = BEGIN_PATCH_MARKER \<and> lst = END_PATCH_MARKER then Inr ()
          else if first \<noteq> BEGIN_PATCH_MARKER then Inl (InvalidPatchError first_line_message)
          else Inl (InvalidPatchError last_line_message)
      | (Some first, None) \<Rightarrow>
          if first \<noteq> BEGIN_PATCH_MARKER then Inl (InvalidPatchError first_line_message)
          else Inl (InvalidPatchError last_line_message)
      | (None, _) \<Rightarrow> Inl (InvalidPatchError last_line_message))"

definition check_patch_boundaries_strict ::
  "ustring list \<Rightarrow> (ParseError, ustring list) result" where
  "check_patch_boundaries_strict lines =
     and_then
       (case lines of
          [] \<Rightarrow> check_start_and_end_lines_strict None None
        | first # _ \<Rightarrow> check_start_and_end_lines_strict (Some first) (Some (last lines)))
       (\<lambda>_. Inr lines)"

definition heredoc_openers :: "ustring list" where
  "heredoc_openers = [lit ''<<EOF'', lit ''<<'' @ [39] @ lit ''EOF'' @ [39],
     lit ''<<'' @ [34] @ lit ''EOF'' @ [34]]"

definition check_patch_boundaries_lenient ::
  "ustring list \<Rightarrow> (ParseError, ustring list) result" where
  "check_patch_boundaries_lenient original_lines =
     (case check_patch_boundaries_strict original_lines of
        Inr lines \<Rightarrow> Inr lines
      | Inl original_parse_error \<Rightarrow>
          (case original_lines of
             first # second # others \<Rightarrow>
               if first \<in> set heredoc_openers \<and> ends_with (last original_lines) (lit ''EOF'')
                  \<and> length original_lines \<ge> 4
               then check_patch_boundaries_strict (butlast (tl original_lines))
               else Inl original_parse_error
           | _ \<Rightarrow> Inl original_parse_error))"

definition parse_patch_text :: "ustring \<Rightarrow> ParseMode \<Rightarrow> (ParseError, ApplyPatchArgs) result" where
  "parse_patch_text patch pmode =
     (let lines = str_lines (trim patch) in
      and_then
        (case pmode of
           Strict \<Rightarrow> check_patch_boundaries_strict lines
         | Lenient \<Rightarrow> check_patch_boundaries_lenient lines)
        (\<lambda>patch_lines.
          let patch' = join [nl] patch_lines in
          (case push_delta default_parser patch' of
             (_, Inl e) \<Rightarrow> Inl e
           | (parser, Inr _) \<Rightarrow>
               (case finish parser of
                  (_, Inl e) \<Rightarrow> Inl e
                | (parser', Inr hs) \<Rightarrow>
                    Inr \<lparr>args_patch = patch', args_hunks = hs, args_workdir = None,
                      args_environment_id = environment_id (state parser')\<rparr>))))"

definition parse_patch :: "ustring \<Rightarrow> (ParseError, ApplyPatchArgs) result" where
  "parse_patch patch = parse_patch_text patch Lenient"

section \<open>Chunking\<close>

text \<open>The parser reads characters, so splitting a delta changes nothing but the returned
  snapshots.\<close>

lemma push_chars_append:
  "push_chars self (a @ b) =
     (case push_chars self a of
        (self', Inl e) \<Rightarrow> (self', Inl e)
      | (self', Inr _) \<Rightarrow> push_chars self' b)"
  by (induction a arbitrary: self) (auto split: prod.splits sum.splits)

section \<open>Well-formed hunks\<close>

definition context_indices_ok :: "UpdateFileChunk \<Rightarrow> bool" where
  "context_indices_ok c \<longleftrightarrow>
     sorted_wrt (\<lambda>(i, j) (i', j'). i < i' \<and> j < j') (context_line_indices c) \<and>
     (\<forall>(i, j) \<in> set (context_line_indices c).
        i < length (old_lines c) \<and> j < length (new_lines c) \<and> old_lines c ! i = new_lines c ! j)"

definition chunk_wf :: "UpdateFileChunk \<Rightarrow> bool" where
  "chunk_wf c \<longleftrightarrow> \<not> chunk_has_no_lines c \<and> context_indices_ok c"

fun hunk_wf :: "Hunk \<Rightarrow> bool" where
  "hunk_wf (AddFile path contents) \<longleftrightarrow> path \<noteq> [] \<and> (contents = [] \<or> last contents = nl)"
| "hunk_wf (DeleteFile path) \<longleftrightarrow> path \<noteq> []"
| "hunk_wf (UpdateFile path move_path chunks) \<longleftrightarrow>
     path \<noteq> [] \<and> move_path \<noteq> Some [] \<and> chunks \<noteq> [] \<and> (\<forall>c\<in>set chunks. chunk_wf c)"

text \<open>The update hunk being parsed: only its last chunk may still lack lines.\<close>

definition chunks_open :: "UpdateFileChunk list \<Rightarrow> bool" where
  "chunks_open chunks \<longleftrightarrow>
     (\<forall>c\<in>set (butlast chunks). chunk_wf c) \<and> (\<forall>c\<in>set chunks. context_indices_ok c)"

fun hunk_open :: "Hunk \<Rightarrow> bool" where
  "hunk_open (UpdateFile path move_path chunks) \<longleftrightarrow>
     path \<noteq> [] \<and> move_path \<noteq> Some [] \<and> chunks_open chunks"
| "hunk_open _ \<longleftrightarrow> False"

fun mode_inv :: "StreamingParserMode \<Rightarrow> nat \<Rightarrow> Hunk list \<Rightarrow> bool" where
  "mode_inv NotStarted n hs \<longleftrightarrow> hs = []"
| "mode_inv StartedPatch n hs \<longleftrightarrow> hs = []"
| "mode_inv ModeAddFile n hs \<longleftrightarrow>
     (\<exists>hs' path contents. hs = hs' @ [AddFile path contents] \<and> (\<forall>h\<in>set hs. hunk_wf h))"
| "mode_inv ModeDeleteFile n hs \<longleftrightarrow>
     (\<exists>hs' path. hs = hs' @ [DeleteFile path] \<and> (\<forall>h\<in>set hs. hunk_wf h))"
| "mode_inv (ModeUpdateFile m) n hs \<longleftrightarrow>
     1 \<le> m \<and> m \<le> n \<and> (\<exists>hs' h. hs = hs' @ [h] \<and> hunk_open h \<and> (\<forall>h\<in>set hs'. hunk_wf h))"
| "mode_inv EndedPatch n hs \<longleftrightarrow> (\<forall>h\<in>set hs. hunk_wf h)"

definition parser_inv :: "StreamingPatchParser \<Rightarrow> bool" where
  "parser_inv self \<longleftrightarrow> mode_inv (mode (state self)) (line_number self) (hunks (state self))"

subsection \<open>Chunk editing keeps the context indices\<close>

lemma context_indices_ok_default [simp]: "context_indices_ok default_chunk"
  by (simp add: context_indices_ok_def default_chunk_def)

lemma context_indices_ok_change_context [simp]:
  "context_indices_ok (c\<lparr>change_context := x\<rparr>) = context_indices_ok c"
  "context_indices_ok (c\<lparr>is_end_of_file := b\<rparr>) = context_indices_ok c"
  by (simp_all add: context_indices_ok_def)

lemma push_context_line_ok:
  assumes "context_indices_ok c"
  shows "chunk_wf (push_context_line c line)"
  using assms
  by (fastforce simp: chunk_wf_def chunk_has_no_lines_def context_indices_ok_def
      push_context_line_def sorted_wrt_append nth_append)

lemma push_new_line_ok: "context_indices_ok c \<Longrightarrow> chunk_wf (push_new_line c line)"
  by (fastforce simp: chunk_wf_def chunk_has_no_lines_def context_indices_ok_def
      push_new_line_def nth_append)

lemma push_old_line_ok: "context_indices_ok c \<Longrightarrow> chunk_wf (push_old_line c line)"
  by (fastforce simp: chunk_wf_def chunk_has_no_lines_def context_indices_ok_def
      push_old_line_def nth_append)

lemma chunks_open_edit_last:
  assumes "chunks_open chunks" and "\<And>c. context_indices_ok c \<Longrightarrow> chunk_wf (f c)"
  shows "chunks_open (edit_last_chunk f chunks)"
proof (cases chunks rule: rev_cases)
  case Nil
  then show ?thesis
    using assms(2) [of default_chunk]
    by (simp add: edit_last_chunk_def chunks_open_def modify_last_def chunk_wf_def)
next
  case (snoc cs c)
  then show ?thesis
    using assms by (auto simp: edit_last_chunk_def chunks_open_def chunk_wf_def)
qed

lemma chunks_open_append:
  assumes "chunks_open chunks" and "\<not> is_some_and (last_opt chunks) chunk_has_no_lines"
    and "context_indices_ok c"
  shows "chunks_open (chunks @ [c])"
  using assms
  by (cases chunks rule: rev_cases) (auto simp: chunks_open_def chunk_wf_def butlast_append)

lemma chunks_open_eof:
  "chunks_open chunks \<Longrightarrow> chunks_open (modify_last (\<lambda>c. c\<lparr>is_end_of_file := True\<rparr>) chunks)"
  by (cases chunks rule: rev_cases) (auto simp: chunks_open_def)

lemma trimmed_marker_path:
  assumes "trim_end s = s" and "strip_prefix m s = Some path" and "m \<noteq> []"
    and "is_whitespace (last m)"
  shows "path \<noteq> []"
proof
  assume "path = []"
  with assms(2) have "s = m" by (simp add: strip_prefix_Some_iff)
  with assms trim_end_last [of s] show False by simp
qed

lemma marker_last_space [simp]:
  "is_whitespace (last ADD_FILE_MARKER)" "is_whitespace (last DELETE_FILE_MARKER)"
  "is_whitespace (last UPDATE_FILE_MARKER)" "is_whitespace (last MOVE_TO_MARKER)"
  "ADD_FILE_MARKER \<noteq> []" "DELETE_FILE_MARKER \<noteq> []" "UPDATE_FILE_MARKER \<noteq> []"
  "MOVE_TO_MARKER \<noteq> []"
  by (simp_all add: marker_defs lit_def is_whitespace_def)

lemma process_update_line_inv:
  assumes "process_update_line n line mv chunks = Inr (mv', chunks')"
    and "chunks_open chunks" and "mv \<noteq> Some []"
  shows "chunks_open chunks' \<and> mv' \<noteq> Some []"
proof -
  have mv: "drop (length MOVE_TO_MARKER) (trim_end line) \<noteq> []"
    if "starts_with (trim_end line) MOVE_TO_MARKER"
    using that trimmed_marker_path [of "trim_end line" MOVE_TO_MARKER]
    by (simp add: strip_prefix_def starts_with_def)
  show ?thesis
    using assms mv
    unfolding process_update_line_def Let_def
    by (auto split: if_splits list.splits
        intro!: chunks_open_edit_last chunks_open_append chunks_open_eof
        simp: push_context_line_ok push_new_line_ok push_old_line_ok is_context_marker_def)
qed

subsection \<open>Every step keeps the parser invariant\<close>

lemma set_mode_simps [simp]:
  "mode (state (set_mode m self)) = m" "hunks (state (set_mode m self)) = hunks (state self)"
  "environment_id (state (set_mode m self)) = environment_id (state self)"
  "line_number (set_mode m self) = line_number self"
  "line_buffer (set_mode m self) = line_buffer self"
  by (simp_all add: set_mode_def)

lemma set_hunks_simps [simp]:
  "mode (state (set_hunks hs self)) = mode (state self)" "hunks (state (set_hunks hs self)) = hs"
  "environment_id (state (set_hunks hs self)) = environment_id (state self)"
  "line_number (set_hunks hs self) = line_number self"
  "line_buffer (set_hunks hs self) = line_buffer self"
  by (simp_all add: set_hunks_def)

lemma ensure_update_hunk_wf:
  assumes inv: "parser_inv self" and ok: "ensure_update_hunk_is_not_empty self line = Inr ()"
  shows "\<forall>h\<in>set (hunks (state self)). hunk_wf h"
proof (cases "mode (state self)")
  case (ModeUpdateFile m)
  with inv obtain hs' h where hs: "hunks (state self) = hs' @ [h]" "hunk_open h"
    "\<forall>h\<in>set hs'. hunk_wf h"
    by (auto simp: parser_inv_def)
  then obtain path mv chunks where h: "h = UpdateFile path mv chunks"
    by (cases h) auto
  have ne: "chunks \<noteq> []"
    using ok hs(1) h ModeUpdateFile
    by (auto simp: ensure_update_hunk_is_not_empty_def split: list.splits)
  then obtain cs c where chunks: "chunks = cs @ [c]"
    by (cases chunks rule: rev_cases) auto
  have "\<not> is_some_and (last_opt chunks) chunk_has_no_lines"
    using ok hs(1) h ModeUpdateFile ne
    by (auto simp: ensure_update_hunk_is_not_empty_def split: list.splits if_splits)
  with hs h chunks show ?thesis
    by (auto simp: chunks_open_def chunk_wf_def)
qed (use inv in \<open>auto simp: parser_inv_def\<close>)

lemma close_hunk_then_cases:
  "close_hunk_then self t f = (self', r) \<Longrightarrow>
     (\<exists>e. r = Inl e \<and> self' = self \<and> ensure_update_hunk_is_not_empty self t = Inl e) \<or>
     (r = Inr True \<and> self' = f self \<and> ensure_update_hunk_is_not_empty self t = Inr ())"
  by (auto simp: close_hunk_then_def split: sum.splits)

lemma start_hunk_inv:
  assumes "\<forall>h\<in>set (hunks (state self)). hunk_wf h"
    and "mode_inv m (line_number self) [h] "
    and "m \<noteq> NotStarted" "m \<noteq> StartedPatch"
  shows "parser_inv (start_hunk h m self)"
  using assms by (cases m) (auto simp: parser_inv_def start_hunk_def)

text \<open>One header line: an error leaves the parser as it was, a line that is no header too, and
  a header leads to a state that satisfies the invariant.\<close>

lemma handle_hunk_headers_inv:
  assumes inv: "parser_inv self" and t: "trim_end t = t" and pos: "1 \<le> line_number self"
    and h: "handle_hunk_headers_and_end_patch self t = (self', r)"
  shows "parser_inv self' \<and> line_number self' = line_number self \<and>
    (r \<noteq> Inr True \<longrightarrow> self' = self)"
proof -
  have wf: "ensure_update_hunk_is_not_empty self t = Inr () \<Longrightarrow>
      \<forall>h\<in>set (hunks (state self)). hunk_wf h"
    using inv ensure_update_hunk_wf by blast
  have headers: ?thesis if m: "close_hunk_then self t f = (self', r)"
    and f: "\<forall>h\<in>set (hunks (state self)). hunk_wf h \<Longrightarrow>
      parser_inv (f self) \<and> line_number (f self) = line_number self" for f
    using close_hunk_then_cases [OF m] inv wf f by auto
  have started: "mode (state self) = StartedPatch \<Longrightarrow>
      handle_environment_id self env = (self', r) \<Longrightarrow> ?thesis" for env
    using inv by (auto simp: handle_environment_id_def parser_inv_def split: if_splits)
  have startl [simp]: "line_number (start_hunk x m self) = line_number self" for x m
    by (simp add: start_hunk_def)
  note paths = trimmed_marker_path [OF t]
  show ?thesis
  proof (cases "mode (state self) = StartedPatch \<and> strip_prefix ENVIRONMENT_ID_MARKER t \<noteq> None")
    case True
    then show ?thesis
      using h started by (auto simp: handle_hunk_headers_and_end_patch_def)
  next
    case False
    then have "(if t = END_PATCH_MARKER then close_hunk_then self t (set_mode EndedPatch)
        else (case strip_prefix ADD_FILE_MARKER t of
          Some path \<Rightarrow> close_hunk_then self t (start_hunk (AddFile path []) ModeAddFile)
        | None \<Rightarrow> (case strip_prefix DELETE_FILE_MARKER t of
            Some path \<Rightarrow> close_hunk_then self t (start_hunk (DeleteFile path) ModeDeleteFile)
          | None \<Rightarrow> (case strip_prefix UPDATE_FILE_MARKER t of
              Some path \<Rightarrow> close_hunk_then self t
                (start_hunk (UpdateFile path None []) (ModeUpdateFile (line_number self)))
            | None \<Rightarrow> (self, Inr False))))) = (self', r)" (is "?rhs = _")
      using h
      by (auto simp: handle_hunk_headers_and_end_patch_def
          split: StreamingParserMode.splits option.splits)
    then show ?thesis
    proof (cases "t = END_PATCH_MARKER")
      case True
      with \<open>?rhs = (self', r)\<close> have "close_hunk_then self t (set_mode EndedPatch) = (self', r)"
        by simp
      then show ?thesis
        by (rule headers) (simp add: parser_inv_def)
    next
      case False
      with \<open>?rhs = (self', r)\<close> show ?thesis
        using inv pos
        by (auto split: option.splits elim!: headers intro!: start_hunk_inv
            simp: chunks_open_def dest: paths)
    qed
  qed
qed

text \<open>The line number of a hunk error is the number of a line that was read.\<close>

definition error_line_ok :: "nat \<Rightarrow> (ParseError, 'a) result \<Rightarrow> bool" where
  "error_line_ok n r \<longleftrightarrow> (\<forall>msg k. r = Inl (InvalidHunkError msg k) \<longrightarrow> 1 \<le> k \<and> k \<le> n)"

lemma error_line_ok_simps [simp]:
  "error_line_ok n (Inr x)" "error_line_ok n (Inl (InvalidPatchError m))"
  "error_line_ok n (Inl (InvalidHunkError m k)) \<longleftrightarrow> 1 \<le> k \<and> k \<le> n"
  by (simp_all add: error_line_ok_def)

lemma ensure_update_hunk_error_line:
  assumes "parser_inv self" and "1 \<le> line_number self"
  shows "error_line_ok (line_number self) (ensure_update_hunk_is_not_empty self line)"
proof -
  have m: "mode (state self) = ModeUpdateFile k \<Longrightarrow> 1 \<le> k \<and> k \<le> line_number self" for k
    using assms(1) by (simp add: parser_inv_def)
  show ?thesis
    unfolding ensure_update_hunk_is_not_empty_def
    using assms(2) m
    by (simp split: option.split Hunk.split list.split StreamingParserMode.split)
qed

lemma handle_hunk_headers_error_line:
  assumes "parser_inv self" and "1 \<le> line_number self"
  shows "error_line_ok (line_number self) (snd (handle_hunk_headers_and_end_patch self t))"
proof -
  have close: "error_line_ok (line_number self) (snd (close_hunk_then self u f))" for u f
    using ensure_update_hunk_error_line [OF assms, of u]
    by (auto simp: close_hunk_then_def error_line_ok_def split: sum.splits)
  have env: "error_line_ok (line_number self) (snd (handle_environment_id self e))" for e
    by (auto simp: handle_environment_id_def)
  show ?thesis
    unfolding handle_hunk_headers_and_end_patch_def
    by (simp add: close env split: StreamingParserMode.split option.split)
qed

lemma process_update_line_error_line:
  "1 \<le> n \<Longrightarrow> error_line_ok n (process_update_line n line mv chunks)"
  by (auto simp: process_update_line_def Let_def split: list.splits)

definition step_ok :: "StreamingPatchParser \<Rightarrow> 'a parse_step \<Rightarrow> bool" where
  "step_ok self s \<longleftrightarrow> parser_inv (fst s) \<and> line_number (fst s) = line_number self \<and>
     error_line_ok (line_number self) (snd s)"

lemma header_step:
  assumes inv: "parser_inv self" and pos: "1 \<le> line_number self"
    and h: "handle_hunk_headers_and_end_patch self t = (self', r)" and t: "trim_end t = t"
  shows "parser_inv self'" "line_number self' = line_number self"
    "error_line_ok (line_number self) r" "r = Inr False \<Longrightarrow> self' = self"
  using handle_hunk_headers_inv [OF inv t pos h]
    handle_hunk_headers_error_line [OF inv pos, of t] h
  by auto

lemma process_line_header_ok:
  assumes "parser_inv self" and "1 \<le> line_number self"
  shows "step_ok self (process_line_header self line)"
proof (cases "handle_hunk_headers_and_end_patch self (trim line)")
  case (Pair self' r)
  note step = header_step [OF assms Pair]
  show ?thesis
    using step Pair assms
    by (auto simp: process_line_header_def step_ok_def error_line_ok_def trim_def
        split: sum.splits bool.splits)
qed

lemma process_line_add_ok:
  assumes inv: "parser_inv self" and "1 \<le> line_number self" and m: "mode (state self) = ModeAddFile"
  shows "step_ok self (process_line_add self line)"
proof (cases "handle_hunk_headers_and_end_patch self (trim line)")
  case (Pair self' r)
  note step = header_step [OF assms(1,2) Pair]
  from inv m obtain hs path contents where hs: "hunks (state self) = hs @ [AddFile path contents]"
    "\<forall>h\<in>set hs. hunk_wf h" "path \<noteq> []"
    by (auto simp: parser_inv_def)
  have set: "parser_inv (set_hunks (hs @ [AddFile path (contents @ l @ [nl])]) self)" for l
    using hs m by (simp add: parser_inv_def)
  show ?thesis
  proof (cases "r = Inr False")
    case True
    with step have "self' = self" by (simp add: trim_def)
    then show ?thesis
      using Pair True hs set assms
      by (auto simp: process_line_add_def step_ok_def split: option.split)
  next
    case False
    then show ?thesis
      using step Pair
      by (auto simp: process_line_add_def step_ok_def error_line_ok_def trim_def
          split: sum.splits bool.splits)
  qed
qed

lemma process_line_update_ok:
  assumes inv: "parser_inv self" and pos: "1 \<le> line_number self"
    and m: "mode (state self) = ModeUpdateFile k"
  shows "step_ok self (process_line_update self line)"
proof (cases "handle_hunk_headers_and_end_patch self (trim_end line)")
  case (Pair self' r)
  note step = header_step [OF assms(1,2) Pair]
  from inv m obtain hs path mv chunks where hs:
    "hunks (state self) = hs @ [UpdateFile path mv chunks]" "chunks_open chunks" "mv \<noteq> Some []"
    "\<forall>h\<in>set hs. hunk_wf h" "path \<noteq> []" "1 \<le> k" "k \<le> line_number self"
    by (fastforce simp: parser_inv_def elim: hunk_open.elims)
  have set: "parser_inv (set_hunks (hs @ [UpdateFile path mv' chunks']) self)"
    if "process_update_line (line_number self) line mv chunks = Inr (mv', chunks')" for mv' chunks'
    using process_update_line_inv [OF that hs(2,3)] hs m by (simp add: parser_inv_def)
  show ?thesis
  proof (cases "r = Inr False")
    case True
    with step have "self' = self" by simp
    then show ?thesis
      using Pair True hs set inv process_update_line_error_line [OF pos, of line mv chunks]
      by (auto simp: process_line_update_def step_ok_def error_line_ok_def split: sum.split)
  next
    case False
    then show ?thesis
      using step Pair
      by (auto simp: process_line_update_def step_ok_def error_line_ok_def
          split: sum.splits bool.splits)
  qed
qed

lemma process_line_ok:
  assumes "parser_inv self" and "1 \<le> line_number self"
  shows "step_ok self (process_line self line)"
proof (cases "mode (state self)")
  case (ModeUpdateFile k)
  with process_line_update_ok [OF assms] show ?thesis by (simp add: process_line_def)
next
  case ModeAddFile
  with process_line_add_ok [OF assms] show ?thesis by (simp add: process_line_def)
next
  case StartedPatch
  with process_line_header_ok [OF assms] show ?thesis by (simp add: process_line_def)
next
  case ModeDeleteFile
  with process_line_header_ok [OF assms] show ?thesis by (simp add: process_line_def)
qed (use assms in \<open>auto simp: process_line_def step_ok_def parser_inv_def\<close>)

lemma push_chars_ok:
  assumes "parser_inv self" and "push_chars self cs = (self', r)"
  shows "parser_inv self' \<and> line_number self' \<le> line_number self + count_list cs nl \<and>
    line_number self \<le> line_number self' \<and> error_line_ok (line_number self') r \<and>
    (\<forall>u. r = Inr u \<longrightarrow> line_number self' = line_number self + count_list cs nl)"
  using assms
proof (induction cs arbitrary: self)
  case Nil
  then show ?case by auto
next
  case (Cons c cs)
  show ?case
  proof (cases "c = nl")
    case True
    let ?s = "self\<lparr>line_buffer := [], line_number := line_number self + 1\<rparr>"
    obtain t q where tq: "process_line ?s (strip_cr (line_buffer self)) = (t, q)"
      by fastforce
    have inv: "parser_inv ?s"
      using Cons.prems(1) unfolding parser_inv_def
      by (cases "mode (state self)") auto
    have ok: "step_ok ?s (t, q)"
      using process_line_ok [OF inv] by (simp flip: tq)
    show ?thesis
    proof (cases q)
      case (Inl e)
      with Cons.prems True tq ok show ?thesis by (auto simp: step_ok_def)
    next
      case (Inr u)
      with Cons.prems True tq have "push_chars t cs = (self', r)" by simp
      with Cons.IH [of t] ok True show ?thesis by (auto simp: step_ok_def)
    qed
  next
    case False
    let ?s = "self\<lparr>line_buffer := line_buffer self @ [c]\<rparr>"
    have "parser_inv ?s" using Cons.prems(1) by (simp add: parser_inv_def)
    with Cons.IH [of ?s] Cons.prems(2) False show ?thesis by simp
  qed
qed

lemma parser_inv_default [simp]: "parser_inv default_parser"
  by (simp add: parser_inv_def default_parser_def)

lemma finish_last_line_ok:
  assumes "parser_inv self"
  shows "step_ok (self\<lparr>line_number := line_number (fst (finish_last_line self))\<rparr>)
      (finish_last_line self)" and "line_number (fst (finish_last_line self)) \<le> line_number self + 1"
proof -
  let ?s = "self\<lparr>line_buffer := [], line_number := line_number self + 1\<rparr>"
  have inv: "parser_inv ?s"
    using assms unfolding parser_inv_def by (cases "mode (state self)") auto
  have ens: "error_line_ok (line_number self + 1) (ensure_update_hunk_is_not_empty ?s t)" for t
    using ensure_update_hunk_error_line [OF inv, of t] by simp
  have ended: "ensure_update_hunk_is_not_empty ?s t = Inr () \<Longrightarrow> parser_inv (set_mode EndedPatch ?s)"
    for t using ensure_update_hunk_wf [OF inv, of t] by (simp add: parser_inv_def)
  have pl: "step_ok ?s (process_line ?s line)" for line
    using process_line_ok [OF inv] by simp
  show "step_ok (self\<lparr>line_number := line_number (fst (finish_last_line self))\<rparr>)
      (finish_last_line self)"
    using assms inv ens [of "trim (line_buffer self)"] ended [of "trim (line_buffer self)"]
      pl [of "line_buffer self"]
    by (auto simp: finish_last_line_def Let_def step_ok_def error_line_ok_def split: sum.splits)
  show "line_number (fst (finish_last_line self)) \<le> line_number self + 1"
    using pl [of "line_buffer self"]
    by (auto simp: finish_last_line_def Let_def step_ok_def split: sum.splits)
qed

lemma finish_ok:
  assumes "parser_inv self" and "finish self = (self', r)"
  shows "(\<forall>hs. r = Inr hs \<longrightarrow> (\<forall>h\<in>set hs. hunk_wf h)) \<and> error_line_ok (line_number self + 1) r"
proof -
  obtain t q where tq: "finish_last_line self = (t, q)" by fastforce
  with finish_last_line_ok [OF assms(1)] have ok: "step_ok (self\<lparr>line_number := line_number t\<rparr>) (t, q)"
    "line_number t \<le> line_number self + 1"
    by auto
  then have "parser_inv t" "error_line_ok (line_number t) q"
    by (simp_all add: step_ok_def)
  with ok(2) tq assms(2) show ?thesis
    by (auto simp: finish_def error_line_ok_def parser_inv_def split: sum.splits if_splits)
qed

lemma length_split_on: "length (split_on c s) = count_list s c + 1"
  by (induction s) (auto split: list.splits)

lemma length_join_lines:
  "xs \<noteq> [] \<Longrightarrow> \<forall>x\<in>set xs. c \<notin> set x \<Longrightarrow> count_list (join [c] xs) c + 1 = length xs"
  by (metis length_split_on split_on_join)

lemma push_delta_ok:
  assumes "parser_inv self" and "push_delta self d = (self', r)"
  shows "parser_inv self' \<and> line_number self' \<le> line_number self + count_list d nl \<and>
    error_line_ok (line_number self') r"
  using push_chars_ok [OF assms(1)] assms(2)
  by (fastforce simp: push_delta_def error_line_ok_def split: prod.splits sum.splits)

lemma check_patch_boundaries_lenient_subset:
  "check_patch_boundaries_lenient ls = Inr ls' \<Longrightarrow>
     ls' \<noteq> [] \<and> set ls' \<subseteq> set ls \<and> length ls' \<le> length ls"
proof -
  have strict: "check_patch_boundaries_strict xs = Inr ys \<Longrightarrow> ys = xs \<and> xs \<noteq> []" for xs ys
    by (cases xs) (auto simp: check_patch_boundaries_strict_def check_start_and_end_lines_strict_def)
  show "check_patch_boundaries_lenient ls = Inr ls' \<Longrightarrow> ?thesis"
    by (auto simp: check_patch_boundaries_lenient_def split: sum.splits list.splits if_splits
        dest!: strict dest: in_set_butlastD)
qed

lemma str_lines_no_nl: "l \<in> set (str_lines s) \<Longrightarrow> nl \<notin> set l"
proof -
  have strip: "nl \<notin> set x \<Longrightarrow> nl \<notin> set (strip_cr x)" for x
    by (auto simp: strip_cr_def strip_suffix_char_def dest: in_set_butlastD)
  assume "l \<in> set (str_lines s)"
  then show ?thesis
    using split_on_sep_free [of _ nl s] last_in_set [of "split_on nl s"]
    by (auto simp: str_lines_def Let_def dest!: in_set_butlastD strip split: if_splits)
qed

lemma parse_patch_text_run:
  assumes "parse_patch_text patch Lenient = r"
  shows "(\<forall>args. r = Inr args \<longrightarrow> (\<forall>h\<in>set (args_hunks args). hunk_wf h)) \<and>
    error_line_ok (length (str_lines (trim patch))) r"
proof (cases "check_patch_boundaries_lenient (str_lines (trim patch))")
  case (Inl e)
  then have "\<exists>m. e = InvalidPatchError m"
    by (auto simp: check_patch_boundaries_lenient_def check_patch_boundaries_strict_def
        check_start_and_end_lines_strict_def split: list.splits sum.splits if_splits)
  with Inl assms show ?thesis by (auto simp: parse_patch_text_def)
next
  case (Inr ls)
  note sub = check_patch_boundaries_lenient_subset [OF this]
  obtain p q where pq: "push_delta default_parser (join [nl] ls) = (p, q)" by fastforce
  note pd = push_delta_ok [OF parser_inv_default pq]
  obtain p' q' where pq': "finish p = (p', q')" by fastforce
  note fin = finish_ok [OF _ pq']
  have "\<forall>l\<in>set ls. nl \<notin> set l"
    using sub str_lines_no_nl [of _ "trim patch"] by (meson subsetD)
  then have "count_list (join [nl] ls) nl + 1 = length ls"
    using length_join_lines [of ls nl] sub by simp
  then have n: "line_number p + 1 \<le> length (str_lines (trim patch))"
    using pd sub by (simp add: default_parser_def)
  show ?thesis
  proof (cases q)
    case (Inl e)
    with assms Inr pq have "r = Inl e" by (simp add: parse_patch_text_def)
    with pd n Inl show ?thesis by (auto simp: error_line_ok_def)
  next
    case (Inr u)
    with assms \<open>check_patch_boundaries_lenient _ = Inr ls\<close> pq pq'
    have r: "r = (case q' of Inl e \<Rightarrow> Inl e | Inr hs \<Rightarrow>
       Inr \<lparr>args_patch = join [nl] ls, args_hunks = hs, args_workdir = None,
         args_environment_id = environment_id (state p')\<rparr>)"
      by (auto simp: parse_patch_text_def Let_def split: sum.splits)
    show ?thesis
      using fin pd n r by (fastforce simp: error_line_ok_def split: sum.splits)
  qed
qed

section \<open>Properties\<close>

text \<open>Every hunk that \<open>parse_patch\<close> returns is well formed: its path is not empty, an added file's
  contents are empty or end in a newline, and an update hunk has at least one chunk, each chunk has
  at least one line, and its recorded context indices are strictly increasing on both sides, in
  range, and point at equal lines.\<close>

theorem parse_patch_hunks_wf:
  assumes "parse_patch patch = Inr args" and "h \<in> set (args_hunks args)"
  shows "hunk_wf h"
  using assms parse_patch_text_run by (auto simp: parse_patch_def)

definition example_patch :: ustring where
  "example_patch = join [nl] [lit ''*** Begin Patch'', lit ''*** Update File: f'', lit ''@@'',
     lit ''-a'', lit ''+b'', lit ''*** End Patch'']"

definition example_chunks :: "UpdateFileChunk list" where
  "example_chunks = [\<lparr>change_context = None, old_lines = [lit ''a''], new_lines = [lit ''b''],
     context_line_indices = [], is_end_of_file = False\<rparr>]"

definition example_update :: Hunk where
  "example_update = UpdateFile (lit ''f'') None example_chunks"

lemma parse_example_patch:
  "parse_patch example_patch = Inr \<lparr>args_patch = example_patch, args_hunks = [example_update],
     args_workdir = None, args_environment_id = None\<rparr>"
  by code_simp

theorem parse_patch_hunks_wf_witness:
  "(\<exists>args. parse_patch example_patch = Inr args \<and> example_update \<in> set (args_hunks args)) \<and>
   hunk_wf example_update"
  using parse_patch_hunks_wf [OF parse_example_patch, of example_update] parse_example_patch by simp

text \<open>A hunk error names a line of the patch: the line number of an \<open>InvalidHunkError\<close> from
  \<open>parse_patch\<close> is at least 1 and at most the number of lines of the trimmed patch text.\<close>

theorem parse_patch_error_line:
  assumes "parse_patch patch = Inl (InvalidHunkError msg n)"
  shows "1 \<le> n \<and> n \<le> length (str_lines (trim patch))"
  using assms parse_patch_text_run [of patch] by (force simp: parse_patch_def error_line_ok_def)

definition example_bad_patch :: ustring where
  "example_bad_patch = join [nl] [lit ''*** Begin Patch'', lit ''*** Frobnicate File: f'',
     lit ''*** End Patch'']"

theorem parse_patch_error_line_witness:
  "parse_patch example_bad_patch =
     Inl (InvalidHunkError (invalid_header_message (lit ''*** Frobnicate File: f'')) 2) \<and>
   1 \<le> (2::nat) \<and> 2 \<le> length (str_lines (trim example_bad_patch))"
proof -
  have e: "parse_patch example_bad_patch =
     Inl (InvalidHunkError (invalid_header_message (lit ''*** Frobnicate File: f'')) 2)"
    by code_simp
  show ?thesis using e parse_patch_error_line [OF e] by simp
qed

end
