(* ===== verification/Patch_Roundtrip.thy ===== *)
theory Patch_Roundtrip
  imports Patch_Parser
begin

text \<open>
  The patch grammar of the header comment of \<^verbatim>\<open>parser.rs\<close> as a printer over an abstract syntax,
  and the proof that the parser reads back exactly the hunks that were printed.
\<close>

section \<open>Abstract patches and their text\<close>

datatype diff_line = Context ustring | Added ustring | Removed ustring

record pchunk =
  pc_context :: "ustring option"
  pc_lines :: "diff_line list"
  pc_eof :: bool

datatype phunk =
    PAdd ustring "ustring list"
  | PDelete ustring
  | PUpdate ustring "ustring option" "pchunk list"

fun render_diff_line :: "diff_line \<Rightarrow> ustring" where
  "render_diff_line (Context l) = 32 # l"
| "render_diff_line (Added l) = 43 # l"
| "render_diff_line (Removed l) = 45 # l"

definition render_chunk :: "pchunk \<Rightarrow> ustring list" where
  "render_chunk c =
     (case pc_context c of None \<Rightarrow> EMPTY_CHANGE_CONTEXT_MARKER | Some x \<Rightarrow> CHANGE_CONTEXT_MARKER @ x)
     # map render_diff_line (pc_lines c) @ (if pc_eof c then [EOF_MARKER] else [])"

fun render_hunk :: "phunk \<Rightarrow> ustring list" where
  "render_hunk (PAdd path ls) = (ADD_FILE_MARKER @ path) # map ((#) 43) ls"
| "render_hunk (PDelete path) = [DELETE_FILE_MARKER @ path]"
| "render_hunk (PUpdate path mv chunks) =
     (UPDATE_FILE_MARKER @ path) # (case mv of None \<Rightarrow> [] | Some m \<Rightarrow> [MOVE_TO_MARKER @ m])
     @ concat (map render_chunk chunks)"

definition render_patch :: "ustring option \<Rightarrow> phunk list \<Rightarrow> ustring" where
  "render_patch env hs = join [nl]
     (BEGIN_PATCH_MARKER # (case env of None \<Rightarrow> [] | Some e \<Rightarrow> [ENVIRONMENT_ID_MARKER @ 32 # e])
      @ concat (map render_hunk hs) @ [END_PATCH_MARKER])"

section \<open>What they denote\<close>

fun add_diff_line :: "UpdateFileChunk \<Rightarrow> diff_line \<Rightarrow> UpdateFileChunk" where
  "add_diff_line c (Context l) = push_context_line c l"
| "add_diff_line c (Added l) = push_new_line c l"
| "add_diff_line c (Removed l) = push_old_line c l"

definition chunk_of :: "pchunk \<Rightarrow> UpdateFileChunk" where
  "chunk_of c = (foldl add_diff_line (default_chunk\<lparr>change_context := pc_context c\<rparr>) (pc_lines c))
     \<lparr>is_end_of_file := pc_eof c\<rparr>"

fun hunk_of :: "phunk \<Rightarrow> Hunk" where
  "hunk_of (PAdd path ls) = AddFile path (concat (map (\<lambda>l. l @ [nl]) ls))"
| "hunk_of (PDelete path) = DeleteFile path"
| "hunk_of (PUpdate path mv chunks) = UpdateFile path mv (map chunk_of chunks)"

section \<open>Which abstract patches have a text\<close>

definition line_ok :: "ustring \<Rightarrow> bool" where
  "line_ok l \<longleftrightarrow> nl \<notin> set l \<and> (l = [] \<or> last l \<noteq> cr)"

definition name_ok :: "ustring \<Rightarrow> bool" where
  "name_ok p \<longleftrightarrow> p \<noteq> [] \<and> nl \<notin> set p \<and> \<not> is_whitespace (last p)"

fun diff_text :: "diff_line \<Rightarrow> ustring" where
  "diff_text (Context l) = l"
| "diff_text (Added l) = l"
| "diff_text (Removed l) = l"

definition pchunk_ok :: "pchunk \<Rightarrow> bool" where
  "pchunk_ok c \<longleftrightarrow> pc_lines c \<noteq> [] \<and> (\<forall>d\<in>set (pc_lines c). line_ok (diff_text d)) \<and>
     (\<forall>x. pc_context c = Some x \<longrightarrow> name_ok x)"

fun phunk_ok :: "phunk \<Rightarrow> bool" where
  "phunk_ok (PAdd path ls) \<longleftrightarrow> name_ok path \<and> (\<forall>l\<in>set ls. line_ok l)"
| "phunk_ok (PDelete path) \<longleftrightarrow> name_ok path"
| "phunk_ok (PUpdate path mv chunks) \<longleftrightarrow> name_ok path \<and> (\<forall>m. mv = Some m \<longrightarrow> name_ok m) \<and>
     chunks \<noteq> [] \<and> (\<forall>c\<in>set chunks. pchunk_ok c)"

definition env_ok :: "ustring option \<Rightarrow> bool" where
  "env_ok env \<longleftrightarrow> (\<forall>e. env = Some e \<longrightarrow> name_ok e \<and> \<not> is_whitespace (hd e))"

section \<open>Reading whole lines\<close>

fun process_lines :: "StreamingPatchParser \<Rightarrow> ustring list \<Rightarrow> unit parse_step" where
  "process_lines self [] = (self, Inr ())"
| "process_lines self (l # ls) =
     (case process_line (self\<lparr>line_number := line_number self + 1\<rparr>) l of
        (self', Inl e) \<Rightarrow> (self', Inl e)
      | (self', Inr _) \<Rightarrow> process_lines self' ls)"

lemma process_lines_append:
  "process_lines self (a @ b) =
     (case process_lines self a of
        (self', Inl e) \<Rightarrow> (self', Inl e)
      | (self', Inr _) \<Rightarrow> process_lines self' b)"
  by (induction a arbitrary: self) (auto split: prod.splits sum.splits)

lemma push_chars_no_nl:
  "nl \<notin> set l \<Longrightarrow> push_chars self l = (self\<lparr>line_buffer := line_buffer self @ l\<rparr>, Inr ())"
  by (induction l arbitrary: self) auto

lemma strip_cr_line_ok: "line_ok l \<Longrightarrow> strip_cr l = l"
  by (auto simp: line_ok_def strip_cr_def strip_suffix_char_def)

lemma push_chars_line:
  assumes "line_ok l" and "line_buffer self = []"
  shows "push_chars self (l @ nl # rest) =
     (case process_line (self\<lparr>line_number := line_number self + 1\<rparr>) l of
        (self', Inl e) \<Rightarrow> (self', Inl e)
      | (self', Inr _) \<Rightarrow> push_chars self' rest)"
proof -
  have "push_chars self (l @ nl # rest) = push_chars (self\<lparr>line_buffer := l\<rparr>) (nl # rest)"
    using assms push_chars_no_nl [of l self] by (simp add: push_chars_append line_ok_def)
  moreover have "self\<lparr>line_buffer := [], line_number := n\<rparr> = self\<lparr>line_number := n\<rparr>" for n
    using assms(2) by (cases self) simp
  ultimately show ?thesis
    using strip_cr_line_ok [OF assms(1)] by (simp split: prod.splits sum.splits)
qed

text \<open>Header processing never touches the line buffer.\<close>

lemma handle_hunk_headers_buffer:
  "line_buffer (fst (handle_hunk_headers_and_end_patch self t)) = line_buffer self"
proof -
  have close: "(\<And>s. line_buffer (f s) = line_buffer s) \<Longrightarrow>
      line_buffer (fst (close_hunk_then self u f)) = line_buffer self" for u f
    by (simp add: close_hunk_then_def split: sum.split)
  have env: "line_buffer (fst (handle_environment_id self e)) = line_buffer self" for e
    by (simp add: handle_environment_id_def)
  show ?thesis
    unfolding handle_hunk_headers_and_end_patch_def
    by (simp add: close env start_hunk_def split: StreamingParserMode.split option.split)
qed

lemma handle_hunk_headers_buffer_eq:
  "handle_hunk_headers_and_end_patch self t = (self', r) \<Longrightarrow> line_buffer self' = line_buffer self"
  by (metis fst_conv handle_hunk_headers_buffer)

lemma process_line_header_buffer:
  "line_buffer (fst (process_line_header self l)) = line_buffer self"
  by (simp add: process_line_header_def handle_hunk_headers_buffer_eq
      split: prod.split sum.split bool.split)

lemma process_line_add_buffer:
  "line_buffer (fst (process_line_add self l)) = line_buffer self"
  by (simp add: process_line_add_def handle_hunk_headers_buffer_eq
      split: prod.split sum.split bool.split option.split Hunk.split)

lemma process_line_update_buffer:
  "line_buffer (fst (process_line_update self l)) = line_buffer self"
  by (simp add: process_line_update_def handle_hunk_headers_buffer_eq
      split: prod.split sum.split bool.split option.split Hunk.split)

lemma process_line_buffer: "line_buffer (fst (process_line self l)) = line_buffer self"
  by (simp add: process_line_def process_line_header_buffer process_line_add_buffer
      process_line_update_buffer split: StreamingParserMode.split)

lemma push_chars_lines:
  assumes "\<forall>l\<in>set ls. line_ok l" and "line_buffer self = []" and "line_ok lst"
  shows "push_chars self (join [nl] (ls @ [lst])) =
     (case process_lines self ls of
        (self', Inl e) \<Rightarrow> (self', Inl e)
      | (self', Inr _) \<Rightarrow> (self'\<lparr>line_buffer := lst\<rparr>, Inr ()))"
  using assms
proof (induction ls arbitrary: self)
  case Nil
  then show ?case using push_chars_no_nl [of lst self] by (simp add: line_ok_def)
next
  case (Cons l ls)
  have "line_buffer (fst (process_line (self\<lparr>line_number := line_number self + 1\<rparr>) l)) = []"
    using Cons.prems(2) by (simp add: process_line_buffer)
  then show ?case
    using Cons by (auto simp: push_chars_line join_Cons split: prod.splits sum.splits)
qed

section \<open>Parser states between lines\<close>

definition at :: "StreamingParserMode \<Rightarrow> Hunk list \<Rightarrow> ustring option \<Rightarrow> nat \<Rightarrow> StreamingPatchParser"
  where
  "at m hs env n = \<lparr>line_buffer = [], state = \<lparr>mode = m, hunks = hs, environment_id = env\<rparr>,
     line_number = n\<rparr>"

lemma at_simps [simp]:
  "line_buffer (at m hs env n) = []" "mode (state (at m hs env n)) = m"
  "hunks (state (at m hs env n)) = hs" "environment_id (state (at m hs env n)) = env"
  "line_number (at m hs env n) = n" "(at m hs env n)\<lparr>line_number := k\<rparr> = at m hs env k"
  "set_mode m' (at m hs env n) = at m' hs env n" "set_hunks hs' (at m hs env n) = at m hs' env n"
  "start_hunk h m' (at m hs env n) = at m' (hs @ [h]) env n"
  by (simp_all add: at_def set_mode_def set_hunks_def start_hunk_def)

text \<open>A state in which the next header line is accepted.\<close>

definition closable :: "StreamingParserMode \<Rightarrow> Hunk list \<Rightarrow> bool" where
  "closable m hs \<longleftrightarrow> m \<noteq> NotStarted \<and> m \<noteq> EndedPatch \<and>
     (\<forall>env n t. ensure_update_hunk_is_not_empty (at m hs env n) t = Inr ())"

lemma closable_simps [simp]:
  "closable StartedPatch []"
  "closable ModeAddFile (hs @ [AddFile p c])"
  "closable ModeDeleteFile (hs @ [DeleteFile p])"
  by (simp_all add: closable_def ensure_update_hunk_is_not_empty_def)

lemma closable_update [simp]:
  "closable (ModeUpdateFile k) (hs @ [UpdateFile p mv (cs @ [c])]) \<longleftrightarrow> \<not> chunk_has_no_lines c"
  by (cases cs) (auto simp: closable_def ensure_update_hunk_is_not_empty_def last_opt_def)

subsection \<open>Markers are told apart\<close>

lemma marker_hd:
  "\<exists>t. BEGIN_PATCH_MARKER = 42 # t" "\<exists>t. END_PATCH_MARKER = 42 # t"
  "\<exists>t. ADD_FILE_MARKER = 42 # t" "\<exists>t. DELETE_FILE_MARKER = 42 # t"
  "\<exists>t. UPDATE_FILE_MARKER = 42 # t" "\<exists>t. ENVIRONMENT_ID_MARKER = 42 # t"
  "\<exists>t. MOVE_TO_MARKER = 42 # t" "\<exists>t. EOF_MARKER = 42 # t"
  "EMPTY_CHANGE_CONTEXT_MARKER = [64, 64]" "CHANGE_CONTEXT_MARKER = [64, 64, 32]"
  by (simp_all add: marker_defs lit_def)

lemma marker_disjoint [simp]:
  "strip_prefix ENVIRONMENT_ID_MARKER (ADD_FILE_MARKER @ p) = None"
  "strip_prefix ENVIRONMENT_ID_MARKER (DELETE_FILE_MARKER @ p) = None"
  "strip_prefix ENVIRONMENT_ID_MARKER (UPDATE_FILE_MARKER @ p) = None"
  "strip_prefix ENVIRONMENT_ID_MARKER END_PATCH_MARKER = None"
  "strip_prefix ADD_FILE_MARKER (DELETE_FILE_MARKER @ p) = None"
  "strip_prefix ADD_FILE_MARKER (UPDATE_FILE_MARKER @ p) = None"
  "strip_prefix DELETE_FILE_MARKER (UPDATE_FILE_MARKER @ p) = None"
  "ADD_FILE_MARKER @ p \<noteq> END_PATCH_MARKER" "DELETE_FILE_MARKER @ p \<noteq> END_PATCH_MARKER"
  "UPDATE_FILE_MARKER @ p \<noteq> END_PATCH_MARKER"
  by (simp_all add: marker_defs lit_def strip_prefix_def)

lemma marker_disjoint_update [simp]:
  "strip_prefix ADD_FILE_MARKER (MOVE_TO_MARKER @ p) = None"
  "strip_prefix DELETE_FILE_MARKER (MOVE_TO_MARKER @ p) = None"
  "strip_prefix UPDATE_FILE_MARKER (MOVE_TO_MARKER @ p) = None"
  "MOVE_TO_MARKER @ p \<noteq> END_PATCH_MARKER"
  "strip_prefix ADD_FILE_MARKER EOF_MARKER = None"
  "strip_prefix DELETE_FILE_MARKER EOF_MARKER = None"
  "strip_prefix UPDATE_FILE_MARKER EOF_MARKER = None"
  "EOF_MARKER \<noteq> END_PATCH_MARKER"
  by (simp_all add: marker_defs lit_def strip_prefix_def)

lemma trim_marker_name:
  assumes "m = 42 # t" and "name_ok p"
  shows "trim (m @ p) = m @ p" "trim_end (m @ p) = m @ p"
proof -
  have "\<not> is_whitespace (hd (m @ p))" "\<not> is_whitespace (last (m @ p))"
    using assms by (auto simp: name_ok_def is_whitespace_def)
  then show "trim (m @ p) = m @ p" "trim_end (m @ p) = m @ p"
    by (auto intro: trim_id trim_end_id)
qed

lemma trim_names [simp]:
  assumes "name_ok p"
  shows "trim (ADD_FILE_MARKER @ p) = ADD_FILE_MARKER @ p"
    "trim (DELETE_FILE_MARKER @ p) = DELETE_FILE_MARKER @ p"
    "trim (UPDATE_FILE_MARKER @ p) = UPDATE_FILE_MARKER @ p"
    "trim_end (ADD_FILE_MARKER @ p) = ADD_FILE_MARKER @ p"
    "trim_end (DELETE_FILE_MARKER @ p) = DELETE_FILE_MARKER @ p"
    "trim_end (UPDATE_FILE_MARKER @ p) = UPDATE_FILE_MARKER @ p"
    "trim_end (MOVE_TO_MARKER @ p) = MOVE_TO_MARKER @ p"
  using marker_hd trim_marker_name [OF _ assms] by metis+

subsection \<open>Header lines\<close>

lemma close_hunk_then_closable:
  "closable m hs \<Longrightarrow>
     close_hunk_then (at m hs env n) t f = (f (at m hs env n), Inr True)"
  by (simp add: close_hunk_then_def closable_def)

lemma handle_headers_closable:
  assumes "closable m hs"
  shows
    "handle_hunk_headers_and_end_patch (at m hs env n) (ADD_FILE_MARKER @ p) =
       (at ModeAddFile (hs @ [AddFile p []]) env n, Inr True)"
    "handle_hunk_headers_and_end_patch (at m hs env n) (DELETE_FILE_MARKER @ p) =
       (at ModeDeleteFile (hs @ [DeleteFile p]) env n, Inr True)"
    "handle_hunk_headers_and_end_patch (at m hs env n) (UPDATE_FILE_MARKER @ p) =
       (at (ModeUpdateFile n) (hs @ [UpdateFile p None []]) env n, Inr True)"
  using assms
  by (cases m; simp add: handle_hunk_headers_and_end_patch_def close_hunk_then_closable)+

lemma process_header_line:
  assumes "closable m hs" and "name_ok p"
  shows
    "process_line (at m hs env n) (ADD_FILE_MARKER @ p) =
       (at ModeAddFile (hs @ [AddFile p []]) env n, Inr ())"
    "process_line (at m hs env n) (DELETE_FILE_MARKER @ p) =
       (at ModeDeleteFile (hs @ [DeleteFile p]) env n, Inr ())"
    "process_line (at m hs env n) (UPDATE_FILE_MARKER @ p) =
       (at (ModeUpdateFile n) (hs @ [UpdateFile p None []]) env n, Inr ())"
  using assms
  by (cases m; simp add: closable_def process_line_def process_line_header_def
      process_line_add_def process_line_update_def handle_headers_closable)+

text \<open>A line that does not start with an asterisk is no header.\<close>

lemma handle_headers_other:
  assumes "t = [] \<or> hd t \<noteq> 42"
  shows "handle_hunk_headers_and_end_patch self t = (self, Inr False)"
proof -
  have sp: "strip_prefix m t = None" if "\<exists>r. m = 42 # r" for m
    using assms that by (cases t) (auto simp: strip_prefix_def)
  have ne: "t \<noteq> m" if "\<exists>r. m = 42 # r" for m
    using assms that by auto
  show ?thesis
    by (simp add: handle_hunk_headers_and_end_patch_def sp [OF marker_hd(3)] sp [OF marker_hd(4)]
        sp [OF marker_hd(5)] sp [OF marker_hd(6)] ne [OF marker_hd(2)]
        split: StreamingParserMode.split)
qed

lemma trim_end_Cons: "trim_end (c # l) = (if is_whitespace c \<and> trim_end l = [] then [] else c # trim_end l)"
proof (cases "dropWhile is_whitespace (rev l) = []")
  case True
  then show ?thesis by (auto simp: trim_end_def dropWhile_append)
next
  case False
  then have "\<exists>x\<in>set (rev l). \<not> is_whitespace x" by (simp add: dropWhile_eq_Nil_conv)
  then show ?thesis by (auto simp: trim_end_def dropWhile_append)
qed

lemma trim_Cons: "\<not> is_whitespace c \<Longrightarrow> trim (c # l) = c # trim_end l"
  by (simp add: trim_def trim_start_def trim_end_Cons)

subsection \<open>The lines of an added file\<close>

lemma process_add_line:
  "process_line (at ModeAddFile (hs @ [AddFile p c]) env n) (43 # l) =
     (at ModeAddFile (hs @ [AddFile p (c @ l @ [nl])]) env n, Inr ())"
proof -
  have "trim (43 # l) = 43 # trim_end l"
    by (simp add: trim_Cons is_whitespace_def)
  then show ?thesis
    by (simp add: process_line_def process_line_add_def handle_headers_other)
qed

lemma process_add_lines:
  "process_lines (at ModeAddFile (hs @ [AddFile p c]) env n) (map ((#) 43) ls) =
     (at ModeAddFile (hs @ [AddFile p (c @ concat (map (\<lambda>l. l @ [nl]) ls))]) env (n + length ls), Inr ())"
  by (induction ls arbitrary: c n) (simp_all add: process_add_line)

subsection \<open>The lines of an update\<close>

lemma add_diff_line_eof [simp]: "is_end_of_file (add_diff_line c d) = is_end_of_file c"
  by (cases d) (simp_all add: push_context_line_def push_new_line_def push_old_line_def)

lemma foldl_add_diff_line_eof [simp]:
  "is_end_of_file (foldl add_diff_line c ds) = is_end_of_file c"
  by (induction ds arbitrary: c) simp_all

lemma add_diff_line_has_lines [simp]: "\<not> chunk_has_no_lines (add_diff_line c d)"
  by (cases d)
    (simp_all add: chunk_has_no_lines_def push_context_line_def push_new_line_def push_old_line_def)

lemma foldl_add_diff_line_has_lines: "ds \<noteq> [] \<Longrightarrow> \<not> chunk_has_no_lines (foldl add_diff_line c ds)"
  by (cases ds rule: rev_cases) simp_all

lemma chunk_has_no_lines_eof [simp]:
  "chunk_has_no_lines (c\<lparr>is_end_of_file := b\<rparr>) = chunk_has_no_lines c"
  by (simp add: chunk_has_no_lines_def)

lemma chunk_of_has_lines [simp]: "pchunk_ok c \<Longrightarrow> \<not> chunk_has_no_lines (chunk_of c)"
  by (simp add: chunk_of_def pchunk_ok_def foldl_add_diff_line_has_lines)

lemma process_update_diff_line:
  assumes "\<not> is_end_of_file c"
  shows "process_update_line n (render_diff_line d) mv (cs @ [c]) = Inr (mv, cs @ [add_diff_line c d])"
proof -
  obtain ch l where r: "render_diff_line d = ch # l" and ch: "ch \<noteq> 42" "ch \<noteq> 64"
    by (cases d) auto
  define u where "u = trim_end (render_diff_line d)"
  have u: "u = [] \<or> hd u = ch"
    by (simp add: u_def r trim_end_Cons)
  have ctx: "u \<noteq> EMPTY_CHANGE_CONTEXT_MARKER" "\<not> starts_with u CHANGE_CONTEXT_MARKER"
    using u ch(2) by (cases u; simp add: starts_with_def marker_hd(9,10))+
  have eof: "u \<noteq> EOF_MARKER"
    using u ch(1) marker_hd(8) by (metis list.distinct(1) list.sel(1))
  have "\<not> is_context_marker u"
    using ctx by (simp add: is_context_marker_def)
  with ctx eof show ?thesis
    unfolding process_update_line_def Let_def u_def [symmetric]
    using assms by (cases d) (simp_all add: edit_last_chunk_def)
qed

lemma update_mode_line:
  assumes "trim_end l = [] \<or> hd (trim_end l) \<noteq> 42"
    and "process_update_line n l mv cs = Inr (mv', cs')"
  shows "process_line (at (ModeUpdateFile k) (hs @ [UpdateFile p mv cs]) env n) l =
    (at (ModeUpdateFile k) (hs @ [UpdateFile p mv' cs']) env n, Inr ())"
  using assms by (simp add: process_line_def process_line_update_def handle_headers_other)

lemma process_diff_lines:
  assumes "\<not> is_end_of_file c"
  shows "process_lines (at (ModeUpdateFile k) (hs @ [UpdateFile p mv (cs @ [c])]) env n)
      (map render_diff_line ds) =
    (at (ModeUpdateFile k) (hs @ [UpdateFile p mv (cs @ [foldl add_diff_line c ds])]) env
      (n + length ds), Inr ())"
  using assms
proof (induction ds arbitrary: c n)
  case Nil
  then show ?case by simp
next
  case (Cons d ds)
  have "trim_end (render_diff_line d) = [] \<or> hd (trim_end (render_diff_line d)) \<noteq> 42"
    by (cases d) (auto simp: trim_end_Cons)
  then show ?case
    using Cons by (simp add: update_mode_line [OF _ process_update_diff_line])
qed

lemma process_context_header:
  assumes "\<forall>x. ctx = Some x \<longrightarrow> name_ok x" and "cs \<noteq> [] \<longrightarrow> \<not> chunk_has_no_lines (last cs)"
  shows "process_line (at (ModeUpdateFile k) (hs @ [UpdateFile p mv cs]) env n)
      (case ctx of None \<Rightarrow> EMPTY_CHANGE_CONTEXT_MARKER | Some x \<Rightarrow> CHANGE_CONTEXT_MARKER @ x) =
    (at (ModeUpdateFile k)
      (hs @ [UpdateFile p mv (cs @ [default_chunk\<lparr>change_context := ctx\<rparr>])]) env n, Inr ())"
proof -
  define l where "l = (case ctx of None \<Rightarrow> EMPTY_CHANGE_CONTEXT_MARKER | Some x \<Rightarrow> CHANGE_CONTEXT_MARKER @ x)"
  have l: "l = [64, 64] \<and> ctx = None \<or> (\<exists>x. l = 64 # 64 # 32 # x \<and> ctx = Some x \<and> name_ok x)"
    using assms(1) by (auto simp: l_def marker_hd(9,10) split: option.splits)
  have at: "\<not> is_whitespace 64" by (simp add: is_whitespace_def)
  have "\<not> is_whitespace (last l)"
    using l at by (auto simp: name_ok_def)
  then have t: "trim_end l = l"
    by (simp add: trim_end_id)
  have blank: "\<not> is_some_and (last_opt cs) chunk_has_no_lines"
    using assms(2) by (simp add: last_opt_def is_some_and_def)
  have mv: "\<not> starts_with l MOVE_TO_MARKER"
  proof -
    obtain r where "MOVE_TO_MARKER = 42 # r" using marker_hd(7) by blast
    moreover have "\<not> starts_with (64 # q) (42 # r)" for q by (simp add: starts_with_def)
    ultimately show ?thesis using l by auto
  qed
  have "process_update_line n l mv cs = Inr (mv, cs @ [default_chunk\<lparr>change_context := ctx\<rparr>])"
    using t l blank mv
    by (elim disjE exE conjE) (simp_all add: process_update_line_def Let_def is_context_marker_def
        marker_hd(9,10) starts_with_def default_chunk_def)
  moreover have "hd (trim_end l) \<noteq> 42" using l t by auto
  ultimately show ?thesis
    unfolding l_def [symmetric] by (simp add: update_mode_line)
qed

lemma process_eof_line:
  assumes "\<not> chunk_has_no_lines c" and "\<not> is_end_of_file c"
  shows "process_line (at (ModeUpdateFile k) (hs @ [UpdateFile p mv (cs @ [c])]) env n) EOF_MARKER =
    (at (ModeUpdateFile k) (hs @ [UpdateFile p mv (cs @ [c\<lparr>is_end_of_file := True\<rparr>])]) env n, Inr ())"
proof -
  have t: "trim_end EOF_MARKER = EOF_MARKER"
    by (intro trim_end_id) (simp add: marker_defs lit_def is_whitespace_def)
  have "process_update_line n EOF_MARKER mv (cs @ [c]) = Inr (mv, cs @ [c\<lparr>is_end_of_file := True\<rparr>])"
    using assms
    by (simp add: process_update_line_def Let_def is_context_marker_def starts_with_def
        marker_defs lit_def trim_end_def is_whitespace_def)
  moreover have "handle_hunk_headers_and_end_patch
      (at (ModeUpdateFile k) (hs @ [UpdateFile p mv (cs @ [c])]) env n) EOF_MARKER =
      (at (ModeUpdateFile k) (hs @ [UpdateFile p mv (cs @ [c])]) env n, Inr False)"
    by (simp add: handle_hunk_headers_and_end_patch_def)
  ultimately show ?thesis
    by (simp add: process_line_def process_line_update_def t)
qed

lemma process_move_line:
  assumes "name_ok m"
  shows "process_line (at (ModeUpdateFile k) (hs @ [UpdateFile p None []]) env n) (MOVE_TO_MARKER @ m) =
    (at (ModeUpdateFile k) (hs @ [UpdateFile p (Some m) []]) env n, Inr ())"
  using assms
  by (simp add: process_line_def process_line_update_def handle_hunk_headers_and_end_patch_def
      process_update_line_def)

section \<open>Whole hunks and patches\<close>

lemma process_lines_Cons_ok:
  "process_line (at m hs env (n + 1)) l = (at m' hs' env' (n + 1), Inr ()) \<Longrightarrow>
   process_lines (at m hs env n) (l # ls) = process_lines (at m' hs' env' (n + 1)) ls"
  by simp

lemma process_chunk:
  assumes "pchunk_ok c" and "cs \<noteq> [] \<longrightarrow> \<not> chunk_has_no_lines (last cs)"
  shows "process_lines (at (ModeUpdateFile k) (hs @ [UpdateFile p mv cs]) env n) (render_chunk c) =
    (at (ModeUpdateFile k) (hs @ [UpdateFile p mv (cs @ [chunk_of c])]) env (n + length (render_chunk c)),
     Inr ())"
proof -
  have ctx: "\<forall>x. pc_context c = Some x \<longrightarrow> name_ok x"
    using assms(1) by (simp add: pchunk_ok_def)
  let ?d = "default_chunk\<lparr>change_context := pc_context c\<rparr>"
  let ?body = "foldl add_diff_line ?d (pc_lines c)"
  have d: "\<not> is_end_of_file ?d" by (simp add: default_chunk_def)
  have body: "\<not> chunk_has_no_lines ?body" "\<not> is_end_of_file ?body"
    using assms(1) d by (simp_all add: pchunk_ok_def foldl_add_diff_line_has_lines)
  have noeof: "?body\<lparr>is_end_of_file := False\<rparr> = ?body"
    using body(2) by simp
  show ?thesis
    unfolding render_chunk_def
    using process_eof_line [OF body] noeof
    by (simp add: process_context_header [OF ctx assms(2)] process_lines_append
        process_diff_lines [OF d] chunk_of_def)
qed

lemma process_chunks:
  assumes "\<forall>c\<in>set pcs. pchunk_ok c" and "cs \<noteq> [] \<longrightarrow> \<not> chunk_has_no_lines (last cs)"
  shows "process_lines (at (ModeUpdateFile k) (hs @ [UpdateFile p mv cs]) env n)
      (concat (map render_chunk pcs)) =
    (at (ModeUpdateFile k) (hs @ [UpdateFile p mv (cs @ map chunk_of pcs)]) env
      (n + length (concat (map render_chunk pcs))), Inr ())"
  using assms
proof (induction pcs arbitrary: cs n)
  case Nil
  then show ?case by simp
next
  case (Cons c pcs)
  then show ?case
    by (simp add: process_lines_append process_chunk)
qed

fun hunk_mode :: "phunk \<Rightarrow> nat \<Rightarrow> StreamingParserMode" where
  "hunk_mode (PAdd _ _) n = ModeAddFile"
| "hunk_mode (PDelete _) n = ModeDeleteFile"
| "hunk_mode (PUpdate _ _ _) n = ModeUpdateFile (Suc n)"

lemma process_hunk:
  assumes "phunk_ok h" and "closable m hs"
  shows "process_lines (at m hs env n) (render_hunk h) =
    (at (hunk_mode h n) (hs @ [hunk_of h]) env (n + length (render_hunk h)), Inr ())"
proof (cases h)
  case (PAdd path ls)
  with assms process_add_lines [of hs path "[]" env "Suc n" ls] show ?thesis
    by (simp add: process_header_line)
next
  case (PDelete path)
  with assms show ?thesis by (simp add: process_header_line)
next
  case (PUpdate path mv chunks)
  with assms show ?thesis
    using process_chunks [of chunks "[]"]
    by (auto simp: process_header_line process_move_line split: option.split)
qed

lemma closable_hunk:
  assumes "phunk_ok h"
  shows "closable (hunk_mode h n) (hs @ [hunk_of h])"
proof (cases h)
  case (PUpdate path mv chunks)
  with assms obtain cs c where "chunks = cs @ [c]" "pchunk_ok c"
    by (cases chunks rule: rev_cases) auto
  with PUpdate show ?thesis by simp
qed simp_all

lemma process_hunks:
  assumes "\<forall>h\<in>set phs. phunk_ok h" and "closable m hs"
  shows "\<exists>m' n'. process_lines (at m hs env n) (concat (map render_hunk phs)) =
      (at m' (hs @ map hunk_of phs) env n', Inr ()) \<and> closable m' (hs @ map hunk_of phs)"
  using assms
proof (induction phs arbitrary: m hs n)
  case Nil
  then show ?case by auto
next
  case (Cons h phs)
  then have h: "phunk_ok h" by simp
  obtain m' n' where "process_lines (at (hunk_mode h n) (hs @ [hunk_of h]) env (n + length (render_hunk h)))
      (concat (map render_hunk phs)) = (at m' ((hs @ [hunk_of h]) @ map hunk_of phs) env n', Inr ())"
    "closable m' ((hs @ [hunk_of h]) @ map hunk_of phs)"
    using Cons.IH [OF _ closable_hunk [OF h]] Cons.prems(1) by (metis list.set_intros(2))
  then show ?case
    using h Cons.prems(2) by (auto simp: process_lines_append process_hunk)
qed

subsection \<open>Printed lines survive line splitting\<close>

lemma name_ok_line_ok: "name_ok p \<Longrightarrow> nl \<notin> set m \<Longrightarrow> line_ok (m @ p)"
proof -
  have "is_whitespace cr" by (simp add: is_whitespace_def)
  then show "name_ok p \<Longrightarrow> nl \<notin> set m \<Longrightarrow> line_ok (m @ p)"
    by (auto simp: name_ok_def line_ok_def)
qed

lemma markers_no_nl [simp]:
  "nl \<notin> set ADD_FILE_MARKER" "nl \<notin> set DELETE_FILE_MARKER" "nl \<notin> set UPDATE_FILE_MARKER"
  "nl \<notin> set MOVE_TO_MARKER" "nl \<notin> set CHANGE_CONTEXT_MARKER" "nl \<notin> set ENVIRONMENT_ID_MARKER"
  "line_ok BEGIN_PATCH_MARKER" "line_ok END_PATCH_MARKER" "line_ok EOF_MARKER"
  "line_ok EMPTY_CHANGE_CONTEXT_MARKER"
  by (simp_all add: marker_defs lit_def line_ok_def)

lemma line_ok_Cons: "line_ok l \<Longrightarrow> c \<noteq> nl \<Longrightarrow> c \<noteq> cr \<Longrightarrow> line_ok (c # l)"
  by (auto simp: line_ok_def)

lemma render_diff_line_ok: "line_ok (diff_text d) \<Longrightarrow> line_ok (render_diff_line d)"
  by (cases d) (auto intro: line_ok_Cons)

lemma render_chunk_ok: "pchunk_ok c \<Longrightarrow> l \<in> set (render_chunk c) \<Longrightarrow> line_ok l"
  by (auto simp: render_chunk_def pchunk_ok_def render_diff_line_ok intro: name_ok_line_ok
      split: option.splits if_splits)

lemma render_hunk_ok: "phunk_ok h \<Longrightarrow> l \<in> set (render_hunk h) \<Longrightarrow> line_ok l"
  by (cases h) (auto intro: name_ok_line_ok line_ok_Cons dest: render_chunk_ok split: option.splits)

definition patch_lines :: "ustring option \<Rightarrow> phunk list \<Rightarrow> ustring list" where
  "patch_lines env hs =
     BEGIN_PATCH_MARKER # (case env of None \<Rightarrow> [] | Some e \<Rightarrow> [ENVIRONMENT_ID_MARKER @ 32 # e])
     @ concat (map render_hunk hs)"

lemma render_patch_lines: "render_patch env hs = join [nl] (patch_lines env hs @ [END_PATCH_MARKER])"
  by (simp add: render_patch_def patch_lines_def)

lemma patch_lines_ok:
  assumes "\<forall>h\<in>set hs. phunk_ok h" and "env_ok env"
  shows "\<forall>l\<in>set (patch_lines env hs). line_ok l"
proof -
  have "line_ok (ENVIRONMENT_ID_MARKER @ 32 # e)" if "env = Some e" for e
    using assms(2) that name_ok_line_ok [of e "ENVIRONMENT_ID_MARKER @ [32]"] by (simp add: env_ok_def)
  then show ?thesis
    using assms(1) render_hunk_ok by (auto simp: patch_lines_def split: option.splits)
qed

lemma str_lines_join:
  assumes "\<forall>l\<in>set ls. line_ok l" and "line_ok lst" and "lst \<noteq> []"
  shows "str_lines (join [nl] (ls @ [lst])) = ls @ [lst]"
proof -
  have "split_on nl (join [nl] (ls @ [lst])) = ls @ [lst]"
    using assms by (intro split_on_join) (auto simp: line_ok_def)
  moreover have "map strip_cr ls = ls"
    using assms(1) by (intro map_idI) (simp add: strip_cr_line_ok)
  ultimately show ?thesis
    using assms(3) by (simp add: str_lines_def)
qed

lemma last_join: "lst \<noteq> [] \<Longrightarrow> join sep (ls @ [lst]) \<noteq> [] \<and> last (join sep (ls @ [lst])) = last lst"
  by (induction ls) (auto simp: join_Cons)

lemma trim_join:
  assumes "x \<noteq> []" "\<not> is_whitespace (hd x)" "lst \<noteq> []" "\<not> is_whitespace (last lst)"
  shows "trim (join sep (x # ls @ [lst])) = join sep (x # ls @ [lst])"
proof (rule trim_id)
  have "hd (join sep (x # ls @ [lst])) = hd x"
    using assms(1) by (simp add: join_Cons)
  then show "join sep (x # ls @ [lst]) = [] \<or>
      \<not> is_whitespace (hd (join sep (x # ls @ [lst]))) \<and> \<not> is_whitespace (last (join sep (x # ls @ [lst])))"
    using assms last_join [of lst sep "x # ls"] by simp
qed

lemma process_env_line:
  assumes "env_ok (Some e)"
  shows "process_line (at StartedPatch [] None n) (ENVIRONMENT_ID_MARKER @ 32 # e) =
    (at StartedPatch [] (Some e) n, Inr ())"
proof -
  from assms have e: "name_ok e" "\<not> is_whitespace (hd e)" by (simp_all add: env_ok_def)
  obtain r where "ENVIRONMENT_ID_MARKER = 42 # r" using marker_hd(6) by blast
  then have "trim ((ENVIRONMENT_ID_MARKER @ [32]) @ e) = (ENVIRONMENT_ID_MARKER @ [32]) @ e"
    using e(1) by (intro trim_marker_name [where t = "r @ [32]"]) auto
  moreover have "trim (32 # e) = e"
  proof -
    have "trim_start (32 # e) = e"
      using trim_start_id [of e] e by (simp add: trim_start_def is_whitespace_def)
    then show ?thesis using e trim_end_id [of e] by (simp add: trim_def name_ok_def)
  qed
  ultimately show ?thesis
    using e(1)
    by (simp add: process_line_def process_line_header_def handle_hunk_headers_and_end_patch_def
        handle_environment_id_def name_ok_def at_def)
qed

lemma process_patch_lines:
  assumes "\<forall>h\<in>set hs. phunk_ok h" and "env_ok env"
  shows "\<exists>m n. process_lines default_parser (patch_lines env hs) = (at m (map hunk_of hs) env n, Inr ()) \<and>
    closable m (map hunk_of hs)"
proof -
  have d: "default_parser = at NotStarted [] None 0"
    by (simp add: default_parser_def at_def)
  have b: "process_line (at NotStarted [] None n) BEGIN_PATCH_MARKER = (at StartedPatch [] None n, Inr ())" for n
    using trim_id [of BEGIN_PATCH_MARKER]
    by (simp add: process_line_def marker_defs lit_def is_whitespace_def)
  show ?thesis
    using process_hunks [OF assms(1) closable_simps(1)] process_env_line assms(2)
    by (cases env) (simp_all add: d patch_lines_def b)
qed

lemma parse_patch_text_lines:
  assumes "\<forall>h\<in>set hs. phunk_ok h" and "env_ok env"
  shows "parse_patch_text (render_patch env hs) Lenient =
    Inr \<lparr>args_patch = render_patch env hs, args_hunks = map hunk_of hs, args_workdir = None,
      args_environment_id = env\<rparr>"
proof -
  let ?lines = "patch_lines env hs @ [END_PATCH_MARKER]"
  have e: "END_PATCH_MARKER \<noteq> []" "\<not> is_whitespace (last END_PATCH_MARKER)"
    "trim END_PATCH_MARKER = END_PATCH_MARKER" "trim BEGIN_PATCH_MARKER = BEGIN_PATCH_MARKER"
    "BEGIN_PATCH_MARKER \<noteq> []" "\<not> is_whitespace (hd BEGIN_PATCH_MARKER)"
    using trim_id [of END_PATCH_MARKER] trim_id [of BEGIN_PATCH_MARKER]
    by (simp_all add: marker_defs lit_def is_whitespace_def)
  note ok = patch_lines_ok [OF assms]
  have t: "trim (render_patch env hs) = render_patch env hs"
    unfolding render_patch_lines patch_lines_def append_Cons
    using trim_join [OF e(5,6,1,2)] by blast
  have lines: "str_lines (render_patch env hs) = ?lines"
    unfolding render_patch_lines using ok e by (intro str_lines_join) simp_all
  have strict: "check_patch_boundaries_strict ?lines = Inr ?lines"
    using e by (simp add: check_patch_boundaries_strict_def check_start_and_end_lines_strict_def
        patch_lines_def)
  obtain m n where run: "process_lines default_parser (patch_lines env hs) =
      (at m (map hunk_of hs) env n, Inr ())" and cl: "closable m (map hunk_of hs)"
    using process_patch_lines [OF assms] by blast
  have push: "push_delta default_parser (render_patch env hs) =
      ((at m (map hunk_of hs) env n)\<lparr>line_buffer := END_PATCH_MARKER\<rparr>, Inr (map hunk_of hs))"
    using push_chars_lines [OF ok, of default_parser END_PATCH_MARKER] run
    by (simp add: push_delta_def render_patch_lines default_parser_def)
  have buf: "(at m (map hunk_of hs) env n)\<lparr>line_buffer := [], line_number := k\<rparr> = at m (map hunk_of hs) env k" for k
    by (simp add: at_def)
  have fin: "finish ((at m (map hunk_of hs) env n)\<lparr>line_buffer := END_PATCH_MARKER\<rparr>) =
      (at EndedPatch (map hunk_of hs) env (Suc n), Inr (map hunk_of hs))"
    using cl e by (simp add: finish_def finish_last_line_def Let_def closable_def buf)
  show ?thesis
    using t lines strict push fin
    by (simp add: parse_patch_text_def check_patch_boundaries_lenient_def render_patch_lines)
qed

section \<open>Properties\<close>

text \<open>C10: Printing then parsing is the identity: for every list of hunks (files to add, to delete and
  to update, with moves, context headers, context, added and removed lines and end-of-file marks)
  whose names and lines fit on one line of text, and every optional environment id, \<open>parse_patch\<close>
  accepts the printed patch and returns exactly those hunks and that environment id, with the
  printed text as the raw patch. The parser therefore implements the grammar in its header comment.\<close>

theorem parse_patch_roundtrip:
  assumes "\<forall>h\<in>set hs. phunk_ok h" and "env_ok env"
  shows "parse_patch (render_patch env hs) =
    Inr \<lparr>args_patch = render_patch env hs, args_hunks = map hunk_of hs, args_workdir = None,
      args_environment_id = env\<rparr>"
  unfolding parse_patch_def using assms by (rule parse_patch_text_lines)

definition example_hunks :: "phunk list" where
  "example_hunks =
     [PAdd (lit ''a.txt'') [lit ''hi'', []], PDelete (lit ''old''),
      PUpdate (lit ''b.rs'') (Some (lit ''c.rs''))
        [\<lparr>pc_context = Some (lit ''fn main''),
          pc_lines = [Context (lit ''x''), Removed (lit ''y''), Added (lit ''z'')], pc_eof = True\<rparr>]]"

theorem parse_patch_roundtrip_witness:
  "list_all phunk_ok example_hunks \<and> env_ok (Some (lit ''env'')) \<and>
   parse_patch (render_patch (Some (lit ''env'')) example_hunks) =
    Inr \<lparr>args_patch = render_patch (Some (lit ''env'')) example_hunks,
      args_hunks = map hunk_of example_hunks, args_workdir = None,
      args_environment_id = Some (lit ''env'')\<rparr>"
proof -
  have 1: "\<forall>h\<in>set example_hunks. phunk_ok h"
    by (simp add: example_hunks_def name_ok_def line_ok_def pchunk_ok_def lit_def is_whitespace_def)
  have 2: "env_ok (Some (lit ''env''))"
    by (simp add: env_ok_def name_ok_def lit_def is_whitespace_def)
  show ?thesis
    using 1 2 parse_patch_roundtrip [OF 1 2] by (auto simp: list_all_iff)
qed

end
