(* ===== verification/Seek_Sequence.thy ===== *)
theory Seek_Sequence
  imports Rust_Prelude
begin

text \<open>
  \<^verbatim>\<open>codex-rs/apply-patch/src/seek_sequence.rs\<close>: locating the lines a patch chunk replaces, with four
  passes of decreasing strictness.
\<close>

section \<open>Model\<close>

datatype ApplyPatchFileUpdateMode = NormalizeToLf | PreserveLineEndings

text \<open>The character map of the local function \<open>normalise\<close>.\<close>

definition normalise_char :: "uchar \<Rightarrow> uchar" where
  "normalise_char c =
     (if c \<in> {8208, 8209, 8210, 8211, 8212, 8213, 8722} then 45
      else if c \<in> {8216, 8217, 8218, 8219} then 39
      else if c \<in> {8220, 8221, 8222, 8223} then 34
      else if c \<in> {160, 8194, 8195, 8196, 8197, 8198, 8199, 8200, 8201, 8202, 8239, 8287, 12288}
      then 32
      else c)"

definition normalise :: "ustring \<Rightarrow> ustring" where
  "normalise s = map normalise_char (trim s)"

text \<open>The comparison at position \<open>i\<close> and one pass over the positions that are left.\<close>

definition lines_match :: "('a \<Rightarrow> 'b) \<Rightarrow> 'a list \<Rightarrow> 'a list \<Rightarrow> nat \<Rightarrow> bool" where
  "lines_match f lines pattern i \<longleftrightarrow>
     map f (take (length pattern) (drop i lines)) = map f pattern"

definition search_pass :: "('a \<Rightarrow> 'b) \<Rightarrow> 'a list \<Rightarrow> 'a list \<Rightarrow> nat \<Rightarrow> nat option" where
  "search_pass f lines pattern search_start =
     find (lines_match f lines pattern) [search_start..<Suc (length lines - length pattern)]"

definition search_start_of ::
  "'a list \<Rightarrow> 'a list \<Rightarrow> nat \<Rightarrow> bool \<Rightarrow> ApplyPatchFileUpdateMode \<Rightarrow> nat" where
  "search_start_of lines pattern start eof update_file_mode =
     (if eof \<and> length lines \<ge> length pattern
      then let eof_start = length lines - length pattern
           in (case update_file_mode of
                 NormalizeToLf \<Rightarrow> eof_start
               | PreserveLineEndings \<Rightarrow> max eof_start start)
      else start)"

definition seek_sequence ::
  "ustring list \<Rightarrow> ustring list \<Rightarrow> nat \<Rightarrow> bool \<Rightarrow> ApplyPatchFileUpdateMode \<Rightarrow> nat option" where
  "seek_sequence lines pattern start eof update_file_mode =
     (if pattern = [] then Some start
      else if length pattern > length lines then None
      else
        let search_start = search_start_of lines pattern start eof update_file_mode
        in (case search_pass id lines pattern search_start of
              Some i \<Rightarrow> Some i
            | None \<Rightarrow> (case search_pass trim_end lines pattern search_start of
                Some i \<Rightarrow> Some i
              | None \<Rightarrow> (case search_pass trim lines pattern search_start of
                  Some i \<Rightarrow> Some i
                | None \<Rightarrow> search_pass normalise lines pattern search_start))))"

section \<open>Lemmas\<close>

lemma find_upt_Some_iff:
  "find P [a..<b] = Some i \<longleftrightarrow> a \<le> i \<and> i < b \<and> P i \<and> (\<forall>j. a \<le> j \<and> j < i \<longrightarrow> \<not> P j)"
proof
  assume "find P [a..<b] = Some i"
  then obtain k where k: "k < length [a..<b]" "P ([a..<b] ! k)" "i = [a..<b] ! k"
    "\<forall>j<k. \<not> P ([a..<b] ! j)"
    by (auto simp: find_Some_iff)
  then have "i = a + k" "a + k < b" by (auto)
  moreover have "\<not> P j" if "a \<le> j" "j < i" for j
    using k(4) that \<open>i = a + k\<close> \<open>a + k < b\<close>
    by (metis add_diff_inverse_nat linorder_not_less nat_add_left_cancel_less nth_upt order.strict_trans)
  ultimately show "a \<le> i \<and> i < b \<and> P i \<and> (\<forall>j. a \<le> j \<and> j < i \<longrightarrow> \<not> P j)"
    using k by auto
next
  assume r: "a \<le> i \<and> i < b \<and> P i \<and> (\<forall>j. a \<le> j \<and> j < i \<longrightarrow> \<not> P j)"
  then show "find P [a..<b] = Some i"
    by (auto simp: find_Some_iff intro!: exI [of _ "i - a"])
qed

lemma search_pass_Some_iff:
  assumes "length pattern \<le> length lines"
  shows "search_pass f lines pattern s = Some i \<longleftrightarrow>
    s \<le> i \<and> i + length pattern \<le> length lines \<and> lines_match f lines pattern i \<and>
    (\<forall>j. s \<le> j \<and> j < i \<longrightarrow> \<not> lines_match f lines pattern j)"
  using assms unfolding search_pass_def find_upt_Some_iff by auto

lemma search_pass_None_iff:
  assumes "length pattern \<le> length lines"
  shows "search_pass f lines pattern s = None \<longleftrightarrow>
    (\<forall>i. s \<le> i \<and> i + length pattern \<le> length lines \<longrightarrow> \<not> lines_match f lines pattern i)"
  using assms unfolding search_pass_def find_None_iff by auto

text \<open>Each pass accepts what the stricter ones accept.\<close>

lemma lines_match_weaken:
  assumes "lines_match f lines pattern i" and "\<And>x y. f x = f y \<Longrightarrow> g x = g y"
  shows "lines_match g lines pattern i"
proof -
  have "map f xs = map f ys \<Longrightarrow> map g xs = map g ys" for xs ys
    by (induction xs ys rule: list_induct2') (auto intro: assms(2))
  then show ?thesis using assms(1) unfolding lines_match_def by blast
qed

lemma trim_end_eq_trim: "trim_end x = trim_end y \<Longrightarrow> trim x = trim y"
  by (metis trim_trim_end)

lemma lines_match_normalise:
  "lines_match id lines pattern i \<Longrightarrow> lines_match normalise lines pattern i"
  "lines_match trim_end lines pattern i \<Longrightarrow> lines_match normalise lines pattern i"
  "lines_match trim lines pattern i \<Longrightarrow> lines_match normalise lines pattern i"
  using lines_match_weaken [of id lines pattern i normalise]
    lines_match_weaken [of trim_end lines pattern i normalise]
    lines_match_weaken [of trim lines pattern i normalise] trim_end_eq_trim
  unfolding normalise_def id_apply by metis+

lemma lines_match_id: "lines_match id lines pattern i \<longleftrightarrow> take (length pattern) (drop i lines) = pattern"
  by (simp add: lines_match_def)

lemma seek_sequence_Some:
  assumes "seek_sequence lines pattern start eof m = Some i" and "pattern \<noteq> []"
  shows "search_start_of lines pattern start eof m \<le> i" "i + length pattern \<le> length lines"
    "lines_match normalise lines pattern i"
  using assms lines_match_normalise
  by (fastforce simp: seek_sequence_def Let_def search_pass_Some_iff split: option.splits if_splits)+

lemma seek_sequence_None_iff:
  assumes "pattern \<noteq> []"
  shows "seek_sequence lines pattern start eof m = None \<longleftrightarrow>
    (\<forall>i. search_start_of lines pattern start eof m \<le> i \<and> i + length pattern \<le> length lines
       \<longrightarrow> \<not> lines_match normalise lines pattern i)"
proof (cases "length pattern > length lines")
  case True
  with assms show ?thesis by (simp add: seek_sequence_def)
next
  case False
  then have le: "length pattern \<le> length lines" by simp
  let ?s = "search_start_of lines pattern start eof m"
  have "seek_sequence lines pattern start eof m = None \<longleftrightarrow>
     search_pass id lines pattern ?s = None \<and> search_pass trim_end lines pattern ?s = None \<and>
     search_pass trim lines pattern ?s = None \<and> search_pass normalise lines pattern ?s = None"
    using assms False by (simp add: seek_sequence_def Let_def split: option.splits)
  also have "\<dots> \<longleftrightarrow> search_pass normalise lines pattern ?s = None"
    using lines_match_normalise unfolding search_pass_None_iff [OF le] by blast
  finally show ?thesis unfolding search_pass_None_iff [OF le] .
qed

lemma search_start_preserve_ge: "start \<le> search_start_of lines pattern start eof PreserveLineEndings"
  by (simp add: search_start_of_def Let_def)

lemma seek_sequence_exact:
  assumes "pattern \<noteq> []" and "take (length pattern) (drop i lines) = pattern" and "start \<le> i"
    and "\<forall>j. start \<le> j \<and> j < i \<longrightarrow> take (length pattern) (drop j lines) \<noteq> pattern"
  shows "seek_sequence lines pattern start False m = Some i"
proof -
  have "length (take (length pattern) (drop i lines)) = length pattern" using assms(2) by simp
  moreover have "i \<le> length lines"
  proof (rule ccontr)
    assume "\<not> i \<le> length lines"
    then have "drop i lines = []" by simp
    with assms(1,2) show False by simp
  qed
  ultimately have "i + length pattern \<le> length lines" by simp
  then have "search_pass id lines pattern start = Some i"
    using assms by (simp add: search_pass_Some_iff lines_match_id)
  with \<open>i + length pattern \<le> length lines\<close> assms(1) show ?thesis
    by (simp add: seek_sequence_def search_start_of_def)
qed

section \<open>Properties\<close>

definition passes :: "(ustring \<Rightarrow> ustring) list" where
  "passes = [id, trim_end, trim, normalise]"

text \<open>Where a match may begin. At the end of the file only the last position counts; it may lie before
  \<open>start\<close> unless line endings are preserved.\<close>

definition may_begin :: "'a list \<Rightarrow> 'a list \<Rightarrow> nat \<Rightarrow> bool \<Rightarrow> ApplyPatchFileUpdateMode \<Rightarrow> nat \<Rightarrow> bool" where
  "may_begin lines pattern start eof m i \<longleftrightarrow>
     (if eof then i + length pattern = length lines \<and> (m = PreserveLineEndings \<longrightarrow> start \<le> i)
      else start \<le> i \<and> i + length pattern \<le> length lines)"

lemma may_begin_search_start:
  "search_start_of lines pattern start eof m \<le> i \<and> i + length pattern \<le> length lines \<longleftrightarrow> may_begin lines pattern start eof m i"
  by (cases m) (auto simp: search_start_of_def may_begin_def Let_def)

text \<open>C36: What \<open>seek_sequence\<close> finds: for a non-empty pattern it returns \<open>i\<close> exactly when some pass
  (exact, ignoring trailing space, ignoring surrounding space, ignoring typographic variants) has
  its first match at \<open>i\<close> among the positions where a match may begin, and no stricter pass has any.
  For a pattern at the end of the file the only such position is the last one that fits: there is no
  second search from \<open>start\<close>, and when endings are normalized the position may lie before \<open>start\<close>.\<close>

theorem seek_sequence_spec:
  assumes "pattern \<noteq> []"
  shows "seek_sequence lines pattern start eof m = Some i \<longleftrightarrow>
    (\<exists>k<length passes. may_begin lines pattern start eof m i \<and> lines_match (passes ! k) lines pattern i \<and>
       (\<forall>j<i. may_begin lines pattern start eof m j \<longrightarrow> \<not> lines_match (passes ! k) lines pattern j) \<and>
       (\<forall>k'<k. \<forall>j. may_begin lines pattern start eof m j \<longrightarrow> \<not> lines_match (passes ! k') lines pattern j))"
proof (cases "length pattern > length lines")
  case True
  with assms show ?thesis by (auto simp: seek_sequence_def may_begin_def)
next
  case False
  then have le: "length pattern \<le> length lines" by simp
  define s where "s = search_start_of lines pattern start eof m"
  note inside = may_begin_search_start [of lines pattern start eof m, folded s_def]
  have none: "search_pass f lines pattern s = None \<longleftrightarrow>
      (\<forall>j. may_begin lines pattern start eof m j \<longrightarrow> \<not> lines_match f lines pattern j)" for f :: "ustring \<Rightarrow> ustring"
    unfolding search_pass_None_iff [OF le] inside ..
  have some: "search_pass f lines pattern s = Some i \<longleftrightarrow>
      may_begin lines pattern start eof m i \<and> lines_match f lines pattern i \<and>
      (\<forall>j<i. may_begin lines pattern start eof m j \<longrightarrow> \<not> lines_match f lines pattern j)" for f :: "ustring \<Rightarrow> ustring"
    unfolding search_pass_Some_iff [OF le] inside [symmetric] by auto
  have ex4: "(\<exists>k<length passes. P k) \<longleftrightarrow> P 0 \<or> P 1 \<or> P 2 \<or> P 3" for P :: "nat \<Rightarrow> bool"
    by (auto simp: passes_def less_Suc_eq numeral_eq_Suc)
  have nth: "passes ! 0 = id" "passes ! 1 = trim_end" "passes ! 2 = trim" "passes ! 3 = normalise"
    by (simp_all add: passes_def)
  have all: "(\<forall>k'<0. P k') \<longleftrightarrow> True" "(\<forall>k'<1. P k') \<longleftrightarrow> P 0" "(\<forall>k'<2. P k') \<longleftrightarrow> P 0 \<and> P 1"
    "(\<forall>k'<3. P k') \<longleftrightarrow> P 0 \<and> P 1 \<and> P 2" for P :: "nat \<Rightarrow> bool"
    by (auto simp: less_Suc_eq numeral_eq_Suc)
  have "seek_sequence lines pattern start eof m = Some i \<longleftrightarrow>
      search_pass id lines pattern s = Some i \<or>
      search_pass id lines pattern s = None \<and> (search_pass trim_end lines pattern s = Some i \<or>
        search_pass trim_end lines pattern s = None \<and> (search_pass trim lines pattern s = Some i \<or>
          search_pass trim lines pattern s = None \<and> search_pass normalise lines pattern s = Some i))"
    using assms False by (simp add: seek_sequence_def Let_def s_def split: option.splits)
  then show ?thesis
    unfolding ex4 nth all none some by blast
qed

text \<open>The pattern occurs at the start of the search, but not at the end of the file.\<close>

theorem seek_sequence_spec_witness:
  "seek_sequence [lit ''a'', lit ''b'', lit ''c''] [lit ''b ''] 0 False NormalizeToLf = Some 1 \<and>
   seek_sequence [lit ''a'', lit ''b'', lit ''c''] [lit ''b ''] 0 True NormalizeToLf \<noteq> Some 1 \<and>
   seek_sequence [lit ''a'', lit ''b'', lit ''c''] [lit ''c''] 3 True NormalizeToLf = Some 2"
proof (intro conjI)
  have ne: "[lit ''b ''] \<noteq> []" by simp
  show "seek_sequence [lit ''a'', lit ''b'', lit ''c''] [lit ''b ''] 0 True NormalizeToLf \<noteq> Some 1"
    unfolding seek_sequence_spec [OF ne] by (simp add: may_begin_def)
qed code_simp+

end
