(* ===== verification/Text_File.thy ===== *)
theory Text_File
  imports Rust_Prelude
begin

text \<open>
  \<^verbatim>\<open>codex-rs/apply-patch/src/text_file.rs\<close>: a source file as lines with their own terminators, and
  the one-pass rebuild from replacements. The cursor loop of \<open>parse\<close> is a recursion over the
  characters that are left, with the text since \<open>line_start\<close> as accumulator.
\<close>

section \<open>Model\<close>

type_synonym Replacement = "nat \<times> nat \<times> ustring list"

datatype LineEnding = Lf | CrLf | Cr

fun ending_str :: "LineEnding \<Rightarrow> ustring" where
  "ending_str Lf = [nl]"
| "ending_str CrLf = [cr, nl]"
| "ending_str Cr = [cr]"

record SourceLine =
  line_text :: ustring
  line_ending :: "LineEnding option"

record SourceFile =
  sf_lines :: "SourceLine list"
  preferred_ending :: LineEnding

abbreviation mk_line :: "ustring \<Rightarrow> LineEnding option \<Rightarrow> SourceLine" where
  "mk_line t e \<equiv> \<lparr>line_text = t, line_ending = e\<rparr>"

function parse_lines :: "ustring \<Rightarrow> ustring \<Rightarrow> SourceLine list" where
  "parse_lines acc [] = (if acc = [] then [] else [mk_line acc None])"
| "parse_lines acc (c # cs) =
     (if c = cr \<and> cs \<noteq> [] \<and> hd cs = nl then mk_line acc (Some CrLf) # parse_lines [] (tl cs)
      else if c = cr then mk_line acc (Some Cr) # parse_lines [] cs
      else if c = nl then mk_line acc (Some Lf) # parse_lines [] cs
      else parse_lines (acc @ [c]) cs)"
  by pat_completeness auto
termination
  by (relation "measure (\<lambda>(acc, cs). length cs)") auto

fun first_ending :: "SourceLine list \<Rightarrow> LineEnding option" where
  "first_ending [] = None"
| "first_ending (l # ls) = (case line_ending l of Some e \<Rightarrow> Some e | None \<Rightarrow> first_ending ls)"

definition parse_source :: "ustring \<Rightarrow> SourceFile" where
  "parse_source contents =
     (let ls = parse_lines [] contents
      in \<lparr>sf_lines = ls,
          preferred_ending = (case first_ending ls of Some e \<Rightarrow> e | None \<Rightarrow> Lf)\<rparr>)"

definition line_texts :: "SourceFile \<Rightarrow> ustring list" where
  "line_texts sf = map line_text (sf_lines sf)"

text \<open>The loop over the replacements; \<open>None\<close> is the failed \<open>debug_assert\<close> (the unsigned
  subtraction that follows it would wrap).\<close>

fun rebuild ::
  "LineEnding \<Rightarrow> Replacement list \<Rightarrow> nat \<Rightarrow> SourceLine list \<Rightarrow> SourceLine list option" where
  "rebuild e [] source_index source_lines = Some source_lines"
| "rebuild e ((start_idx, old_len, new_segment) # rs) source_index source_lines =
     (if start_idx < source_index then None
      else map_option
        (\<lambda>rest. take (start_idx - source_index) source_lines @
           map (\<lambda>t. mk_line t (Some e)) new_segment @ rest)
        (rebuild e rs (start_idx + old_len)
           (drop old_len (drop (start_idx - source_index) source_lines))))"

definition terminate_line :: "LineEnding \<Rightarrow> SourceLine \<Rightarrow> SourceLine" where
  "terminate_line e l = (case line_ending l of None \<Rightarrow> l\<lparr>line_ending := Some e\<rparr> | Some _ \<Rightarrow> l)"

definition source_apply_replacements :: "SourceFile \<Rightarrow> Replacement list \<Rightarrow> SourceFile option" where
  "source_apply_replacements sf replacements =
     map_option
       (\<lambda>ls. sf\<lparr>sf_lines := map (terminate_line (preferred_ending sf)) ls\<rparr>)
       (rebuild (preferred_ending sf) replacements 0 (sf_lines sf))"

definition line_contents :: "SourceLine \<Rightarrow> ustring" where
  "line_contents l = line_text l @ (case line_ending l of None \<Rightarrow> [] | Some e \<Rightarrow> ending_str e)"

definition into_contents :: "SourceFile \<Rightarrow> ustring" where
  "into_contents sf = concat (map line_contents (sf_lines sf))"

section \<open>Parsing and printing\<close>

lemma parse_lines_contents: "concat (map line_contents (parse_lines acc s)) = acc @ s"
proof (induction acc s rule: parse_lines.induct)
  case (1 acc)
  then show ?case by (simp add: line_contents_def)
next
  case (2 acc c cs)
  then show ?case by (cases cs) (auto simp: line_contents_def)
qed

definition terminator_free :: "ustring \<Rightarrow> bool" where
  "terminator_free t \<longleftrightarrow> nl \<notin> set t \<and> cr \<notin> set t"

lemma parse_lines_texts:
  "terminator_free acc \<Longrightarrow> l \<in> set (parse_lines acc s) \<Longrightarrow> terminator_free (line_text l)"
  by (induction acc s arbitrary: l rule: parse_lines.induct)
    (auto simp: terminator_free_def split: if_splits)

text \<open>Only the last line may lack a terminator, and then it is not empty.\<close>

lemma parse_lines_endings:
  "(\<forall>l\<in>set (butlast (parse_lines acc s)). line_ending l \<noteq> None) \<and>
   (parse_lines acc s \<noteq> [] \<longrightarrow>
      line_ending (last (parse_lines acc s)) \<noteq> None \<or> line_text (last (parse_lines acc s)) \<noteq> [])"
  by (induction acc s rule: parse_lines.induct) auto

lemma into_contents_parse_source: "into_contents (parse_source s) = s"
  by (simp add: into_contents_def parse_source_def parse_lines_contents Let_def)

section \<open>Ordered replacements\<close>

text \<open>Replacements in source order that do not overlap and stay inside \<open>n\<close> lines.\<close>

definition before :: "Replacement \<Rightarrow> Replacement \<Rightarrow> bool" where
  "before a b \<longleftrightarrow> fst a + fst (snd a) \<le> fst b"

definition ordered_in :: "nat \<Rightarrow> Replacement list \<Rightarrow> bool" where
  "ordered_in n rs \<longleftrightarrow> sorted_wrt before rs \<and> (\<forall>r \<in> set rs. fst r + fst (snd r) \<le> n)"

lemma ordered_in_Cons:
  "ordered_in n ((s, k, new) # rs) \<longleftrightarrow>
     s + k \<le> n \<and> ordered_in n rs \<and> (\<forall>r \<in> set rs. s + k \<le> fst r)"
  by (auto simp: ordered_in_def before_def)

text \<open>The reference: the text of the file with each region exchanged, reading from \<open>i\<close>.\<close>

fun splice_lines :: "'a list \<Rightarrow> nat \<Rightarrow> (nat \<times> nat \<times> 'a list) list \<Rightarrow> 'a list" where
  "splice_lines lines i [] = drop i lines"
| "splice_lines lines i ((s, k, new) # rs) = take (s - i) (drop i lines) @ new @ splice_lines lines (s + k) rs"

lemma rebuild_splice:
  assumes "ordered_in n rs" and "\<forall>r \<in> set rs. i \<le> fst r"
  shows "rebuild e rs i (drop i ls) =
    Some (splice_lines ls i (map (\<lambda>(s, k, new). (s, k, map (\<lambda>t. mk_line t (Some e)) new)) rs))"
  using assms
proof (induction rs arbitrary: i)
  case Nil
  then show ?case by simp
next
  case (Cons r rs)
  obtain s k new where r: "r = (s, k, new)" by (cases r) auto
  with Cons.prems have "i \<le> s" "ordered_in n rs" "\<forall>r \<in> set rs. s + k \<le> fst r"
    by (auto simp: ordered_in_Cons)
  moreover have "drop k (drop (s - i) (drop i ls)) = drop (s + k) ls"
    using \<open>i \<le> s\<close> by (simp add: add.commute)
  ultimately show ?case
    using Cons.IH [of "s + k"] r by simp
qed

lemma source_apply_replacements_ok:
  assumes "ordered_in (length (sf_lines sf)) rs"
  shows "source_apply_replacements sf rs = Some (sf\<lparr>sf_lines :=
    map (terminate_line (preferred_ending sf)) (splice_lines (sf_lines sf) 0
      (map (\<lambda>(s, k, new). (s, k, map (\<lambda>t. mk_line t (Some (preferred_ending sf))) new)) rs))\<rparr>)"
  using rebuild_splice [OF assms, of 0 "preferred_ending sf" "sf_lines sf"]
  by (simp add: source_apply_replacements_def split_beta)

lemma map_splice:
  "map f (splice_lines xs i rs) = splice_lines (map f xs) i (map (\<lambda>(s, k, new). (s, k, map f new)) rs)"
  by (induction xs i rs rule: splice_lines.induct) (simp_all add: drop_map take_map)

lemma line_text_terminate [simp]: "line_text (terminate_line e l) = line_text l"
  by (simp add: terminate_line_def split: option.split)

lemma line_texts_apply:
  assumes "ordered_in (length (sf_lines sf)) rs"
    and "source_apply_replacements sf rs = Some sf'"
  shows "line_texts sf' = splice_lines (line_texts sf) 0 rs"
proof -
  let ?rs = "map (\<lambda>(s, k, new). (s, k, map (\<lambda>t. mk_line t (Some (preferred_ending sf))) new)) rs"
  have "line_texts sf' = map line_text (splice_lines (sf_lines sf) 0 ?rs)"
    using assms by (auto simp: source_apply_replacements_ok line_texts_def o_def)
  also have "\<dots> = splice_lines (line_texts sf) 0 (map (\<lambda>(s, k, new). (s, k, map line_text new)) ?rs)"
    by (simp only: map_splice line_texts_def)
  also have "map (\<lambda>(s, k, new). (s, k, map line_text new)) ?rs = rs"
    by (auto simp: o_def intro!: map_idI)
  finally show ?thesis .
qed

section \<open>Properties\<close>

text \<open>Splitting a file into lines loses nothing: printing the parsed file gives back the contents
  byte for byte, whatever mixture of LF, CRLF and CR terminators it has, no line text contains a
  terminator, and only a non-empty last line can lack one.\<close>

theorem parse_source_roundtrip:
  "into_contents (parse_source contents) = contents \<and>
   (\<forall>t\<in>set (line_texts (parse_source contents)). nl \<notin> set t \<and> cr \<notin> set t) \<and>
   (\<forall>l\<in>set (butlast (sf_lines (parse_source contents))). line_ending l \<noteq> None)"
proof -
  have "terminator_free (line_text l)" if "l \<in> set (sf_lines (parse_source contents))" for l
    using that parse_lines_texts [of "[]" l contents]
    by (simp add: parse_source_def terminator_free_def Let_def)
  then show ?thesis
    using into_contents_parse_source parse_lines_endings [of "[]" contents]
    by (auto simp: line_texts_def terminator_free_def parse_source_def Let_def)
qed

theorem parse_source_roundtrip_witness:
  "into_contents (parse_source [97, 13, 10, 98, 10, 13, 99]) = [97, 13, 10, 98, 10, 13, 99] \<and>
   line_texts (parse_source [97, 13, 10, 98, 10, 13, 99]) = [[97], [98], [], [99]] \<and>
   list_all (\<lambda>t. nl \<notin> set t \<and> cr \<notin> set t) (line_texts (parse_source [97, 13, 10, 98, 10, 13, 99]))"
proof -
  have "line_texts (parse_source [97, 13, 10, 98, 10, 13, 99]) = [[97], [98], [], [99]]"
    by code_simp
  then show ?thesis
    using parse_source_roundtrip [of "[97, 13, 10, 98, 10, 13, 99]"] by (simp add: list_all_iff)
qed

end
