(* ===== verification/File_Update.thy ===== *)
theory File_Update
  imports Patch_Parser Seek_Sequence Text_File
begin

text \<open>
  \<^verbatim>\<open>codex-rs/apply-patch/src/file_update.rs\<close>: from the chunks of an update hunk to the new contents of
  the file. Where the Rust code would panic (an unsigned subtraction below zero, a slice whose end
  precedes its start, an insertion past the end of a vector) the model returns \<open>Panic\<close>; the
  theorems show that it does not happen for the chunks the parser produces.
\<close>

section \<open>Model\<close>

datatype update_failure = ComputeReplacements ustring | Panic

text \<open>The pieces of a matched chunk between its context lines (\<open>PreserveLineEndings\<close>): the loop over
  \<open>context_line_indices\<close>, with the replacements pushed so far.\<close>

fun context_pieces ::
  "nat \<Rightarrow> nat \<Rightarrow> ustring list \<Rightarrow> (nat \<times> nat) list \<Rightarrow> nat \<Rightarrow> nat \<Rightarrow> Replacement list \<Rightarrow>
   (update_failure, Replacement list \<times> nat \<times> nat) result" where
  "context_pieces start_idx plen new_slice [] old_start new_start acc =
     Inr (acc, old_start, new_start)"
| "context_pieces start_idx plen new_slice ((old_context, new_context) # ctxs) old_start new_start acc =
     (if old_context \<ge> plen \<or> new_context \<ge> length new_slice then Inr (acc, old_start, new_start)
      else if old_start \<noteq> old_context \<or> new_start \<noteq> new_context
      then if old_context < old_start \<or> new_context < new_start then Inl Panic
           else context_pieces start_idx plen new_slice ctxs (old_context + 1) (new_context + 1)
                  (acc @ [(start_idx + old_start, old_context - old_start,
                           take (new_context - new_start) (drop new_start new_slice))])
      else context_pieces start_idx plen new_slice ctxs (old_context + 1) (new_context + 1) acc)"

definition matched_chunk_replacements ::
  "ApplyPatchFileUpdateMode \<Rightarrow> UpdateFileChunk \<Rightarrow> nat \<Rightarrow> ustring list \<Rightarrow> ustring list \<Rightarrow>
   (update_failure, Replacement list) result" where
  "matched_chunk_replacements update_file_mode chunk start_idx pattern new_slice =
     (case update_file_mode of
        NormalizeToLf \<Rightarrow> Inr [(start_idx, length pattern, new_slice)]
      | PreserveLineEndings \<Rightarrow>
          and_then
            (context_pieces start_idx (length pattern) new_slice (context_line_indices chunk) 0 0 [])
            (\<lambda>(pieces, old_start, new_start).
               if old_start \<noteq> length pattern \<or> new_start \<noteq> length new_slice
               then if length pattern < old_start \<or> length new_slice < new_start then Inl Panic
                    else Inr (pieces @ [(start_idx + old_start, length pattern - old_start,
                                         drop new_start new_slice)])
               else Inr pieces))"

text \<open>The search for a chunk's old lines, retried without a final empty line.\<close>

definition locate_chunk ::
  "ustring list \<Rightarrow> UpdateFileChunk \<Rightarrow> nat \<Rightarrow> ApplyPatchFileUpdateMode \<Rightarrow>
   nat option \<times> ustring list \<times> ustring list" where
  "locate_chunk original_lines chunk line_index update_file_mode =
     (let pattern = old_lines chunk;
          new_slice = new_lines chunk;
          found = seek_sequence original_lines pattern line_index (is_end_of_file chunk) update_file_mode
      in if found = None \<and> is_some_and (last_opt pattern) (\<lambda>l. l = [])
         then let pattern' = butlast pattern;
                  new_slice' = (if is_some_and (last_opt new_slice) (\<lambda>l. l = [])
                                then butlast new_slice else new_slice)
              in (seek_sequence original_lines pattern' line_index (is_end_of_file chunk)
                    update_file_mode, pattern', new_slice')
         else (found, pattern, new_slice))"

definition insertion_index :: "ustring list \<Rightarrow> ApplyPatchFileUpdateMode \<Rightarrow> nat" where
  "insertion_index original_lines update_file_mode =
     (case update_file_mode of
        NormalizeToLf \<Rightarrow>
          if is_some_and (last_opt original_lines) (\<lambda>l. l = [])
          then length original_lines - 1 else length original_lines
      | PreserveLineEndings \<Rightarrow> length original_lines)"

definition seek_context ::
  "ustring list \<Rightarrow> ustring \<Rightarrow> UpdateFileChunk \<Rightarrow> nat \<Rightarrow> ApplyPatchFileUpdateMode \<Rightarrow>
   (update_failure, nat) result" where
  "seek_context original_lines path chunk line_index update_file_mode =
     (case change_context chunk of
        None \<Rightarrow> Inr line_index
      | Some ctx_line \<Rightarrow>
          (case seek_sequence original_lines [ctx_line] line_index False update_file_mode of
             Some idx \<Rightarrow> Inr (idx + 1)
           | None \<Rightarrow> Inl (ComputeReplacements
               (lit ''Failed to find context '' @ [39] @ ctx_line @ [39] @ lit '' in '' @ path))))"

text \<open>One iteration of the loop over the chunks: the new \<open>line_index\<close> and the replacements pushed.\<close>

definition chunk_step ::
  "ustring list \<Rightarrow> ustring \<Rightarrow> ApplyPatchFileUpdateMode \<Rightarrow> UpdateFileChunk \<Rightarrow> nat \<Rightarrow>
   (update_failure, nat \<times> Replacement list) result" where
  "chunk_step original_lines path update_file_mode chunk line_index =
     and_then (seek_context original_lines path chunk line_index update_file_mode)
       (\<lambda>line_index.
          if old_lines chunk = []
          then Inr (line_index, [(insertion_index original_lines update_file_mode, 0, new_lines chunk)])
          else (case locate_chunk original_lines chunk line_index update_file_mode of
             (Some start_idx, pattern, new_slice) \<Rightarrow>
               and_then (matched_chunk_replacements update_file_mode chunk start_idx pattern new_slice)
                 (\<lambda>rs. Inr (start_idx + length pattern, rs))
           | (None, _, _) \<Rightarrow> Inl (ComputeReplacements
               (lit ''Failed to find expected lines in '' @ path @ [58, nl] @
                join [nl] (old_lines chunk)))))"

fun chunk_loop ::
  "ustring list \<Rightarrow> ustring \<Rightarrow> ApplyPatchFileUpdateMode \<Rightarrow> UpdateFileChunk list \<Rightarrow> nat \<Rightarrow>
   (update_failure, Replacement list) result" where
  "chunk_loop original_lines path m [] line_index = Inr []"
| "chunk_loop original_lines path m (chunk # chunks) line_index =
     and_then (chunk_step original_lines path m chunk line_index)
       (\<lambda>(line_index', rs).
          and_then (chunk_loop original_lines path m chunks line_index') (\<lambda>rest. Inr (rs @ rest)))"

definition compute_replacements ::
  "ustring list \<Rightarrow> ustring \<Rightarrow> UpdateFileChunk list \<Rightarrow> ApplyPatchFileUpdateMode \<Rightarrow>
   (update_failure, Replacement list) result" where
  "compute_replacements original_lines path chunks update_file_mode =
     and_then (chunk_loop original_lines path update_file_mode chunks 0)
       (\<lambda>rs. Inr (sort_key fst rs))"

text \<open>\<open>apply_replacements\<close>: in-place edits from the last replacement to the first.\<close>

fun remove_lines :: "nat \<Rightarrow> nat \<Rightarrow> 'a list \<Rightarrow> 'a list" where
  "remove_lines start_idx 0 lines = lines"
| "remove_lines start_idx (Suc n) lines =
     remove_lines start_idx n
       (if start_idx < length lines then take start_idx lines @ drop (Suc start_idx) lines else lines)"

fun insert_lines :: "nat \<Rightarrow> 'a list \<Rightarrow> 'a list \<Rightarrow> 'a list option" where
  "insert_lines i [] lines = Some lines"
| "insert_lines i (l # ls) lines =
     (if i \<le> length lines then insert_lines (Suc i) ls (take i lines @ l # drop i lines) else None)"

fun apply_reversed ::
  "(nat \<times> nat \<times> 'a list) list \<Rightarrow> 'a list \<Rightarrow> 'a list option" where
  "apply_reversed [] lines = Some lines"
| "apply_reversed ((start_idx, old_len, new_segment) # rs) lines =
     Option.bind (insert_lines start_idx new_segment (remove_lines start_idx old_len lines))
       (apply_reversed rs)"

definition apply_replacements :: "'a list \<Rightarrow> (nat \<times> nat \<times> 'a list) list \<Rightarrow> 'a list option" where
  "apply_replacements lines replacements = apply_reversed (rev replacements) lines"

definition legacy_lines :: "ustring \<Rightarrow> ustring list" where
  "legacy_lines contents =
     (let ls = split_on nl contents
      in if is_some_and (last_opt ls) (\<lambda>l. l = []) then butlast ls else ls)"

definition legacy_contents :: "ustring list \<Rightarrow> ustring" where
  "legacy_contents ls =
     join [nl] (if is_some_and (last_opt ls) (\<lambda>l. l = []) then ls else ls @ [[]])"

text \<open>The part of \<open>derive_new_contents_from_chunks\<close> after the file has been read.\<close>

definition derive_new_contents ::
  "ustring \<Rightarrow> ustring \<Rightarrow> UpdateFileChunk list \<Rightarrow> ApplyPatchFileUpdateMode \<Rightarrow>
   (update_failure, ustring) result" where
  "derive_new_contents path_text original_contents chunks update_file_mode =
     (case update_file_mode of
        NormalizeToLf \<Rightarrow>
          (let original_lines = legacy_lines original_contents
           in and_then (compute_replacements original_lines path_text chunks update_file_mode)
                (\<lambda>rs. case apply_replacements original_lines rs of
                   None \<Rightarrow> Inl Panic
                 | Some ls \<Rightarrow> Inr (legacy_contents ls)))
      | PreserveLineEndings \<Rightarrow>
          (let source_file = parse_source original_contents
           in and_then (compute_replacements (line_texts source_file) path_text chunks update_file_mode)
                (\<lambda>rs. case source_apply_replacements source_file rs of
                   None \<Rightarrow> Inl Panic
                 | Some sf \<Rightarrow> Inr (into_contents sf))))"

section \<open>In-place edits\<close>

lemma remove_lines_eq: "remove_lines s n lines = take s lines @ drop (s + n) lines"
proof (induction n arbitrary: lines)
  case 0
  then show ?case by simp
next
  case (Suc n)
  show ?case
  proof (cases "s < length lines")
    case True
    then show ?thesis
      using Suc [of "take s lines @ drop (Suc s) lines"] by (simp add: min_def add.commute)
  next
    case False
    then show ?thesis using Suc [of lines] by simp
  qed
qed

lemma insert_lines_eq:
  "i \<le> length lines \<Longrightarrow> insert_lines i seg lines = Some (take i lines @ seg @ drop i lines)"
proof (induction seg arbitrary: i lines)
  case Nil
  then show ?case by simp
next
  case (Cons l ls)
  then have "insert_lines (Suc i) ls (take i lines @ l # drop i lines) =
      Some (take (Suc i) (take i lines @ l # drop i lines) @ ls @ drop (Suc i) (take i lines @ l # drop i lines))"
    by simp
  with Cons.prems show ?case by (simp add: min_def)
qed

lemma edit_once:
  "s \<le> length lines \<Longrightarrow>
   insert_lines s new (remove_lines s k lines) = Some (take s lines @ new @ drop (s + k) lines)"
  by (simp add: remove_lines_eq insert_lines_eq)

text \<open>Starts that never decrease keep every in-place edit inside the vector.\<close>

lemma apply_reversed_total:
  assumes "sorted_wrt (\<lambda>a b. fst b \<le> fst a) rs" and "\<forall>r\<in>set rs. fst r \<le> length lines"
  shows "\<exists>ls. apply_reversed rs lines = Some ls"
  using assms
proof (induction rs arbitrary: lines)
  case Nil
  then show ?case by simp
next
  case (Cons r rs)
  obtain s k new where r: "r = (s, k, new)" by (cases r) auto
  let ?l = "take s lines @ new @ drop (s + k) lines"
  have "s \<le> length lines" using Cons.prems r by simp
  moreover have "\<forall>q\<in>set rs. fst q \<le> length ?l"
    using Cons.prems(1) r \<open>s \<le> length lines\<close> by fastforce
  ultimately show ?case
    using Cons.IH [of ?l] Cons.prems(1) r by (simp add: edit_once)
qed

text \<open>On ordered replacements the reversed edits compute the reference splice.\<close>

lemma splice_lines_shift:
  "\<forall>r\<in>set rs. i \<le> fst r \<Longrightarrow> j \<le> i \<Longrightarrow> 
   splice_lines lines j rs = take (i - j) (drop j lines) @ splice_lines lines i rs"
proof (cases rs)
  case Nil
  then show "j \<le> i \<Longrightarrow> ?thesis"
    using append_take_drop_id [of "i - j" "drop j lines"] by simp
next
  case (Cons r rs')
  obtain s k new where "r = (s, k, new)" by (cases r) auto
  moreover have "take (s - j) (drop j lines) = take (i - j) (drop j lines) @ take (s - i) (drop i lines)"
    if "i \<le> s" "j \<le> i"
    using that take_add [of "i - j" "s - i" "drop j lines"] by simp
  ultimately show "\<forall>r\<in>set rs. i \<le> fst r \<Longrightarrow> j \<le> i \<Longrightarrow> ?thesis"
    using Cons by simp
qed

lemma apply_reversed_snoc:
  "apply_reversed (rs @ [r]) lines = Option.bind (apply_reversed rs lines) (apply_reversed [r])"
  by (induction rs lines rule: apply_reversed.induct) (auto split: Option.bind_split)

lemma apply_replacements_splice:
  assumes "sorted_wrt before rs" and "\<forall>r\<in>set rs. fst r + fst (snd r) \<le> length lines"
  shows "apply_replacements lines rs = Some (splice_lines lines 0 rs)"
  using assms
proof (induction rs)
  case Nil
  then show ?case by (simp add: apply_replacements_def)
next
  case (Cons r rs)
  obtain s k new where r: "r = (s, k, new)" by (cases r) auto
  have IH: "apply_replacements lines rs = Some (splice_lines lines 0 rs)"
    using Cons by simp
  have ge: "\<forall>q\<in>set rs. s + k \<le> fst q"
    using Cons.prems(1) r by (auto simp: before_def)
  have le: "s + k \<le> length lines"
    using Cons.prems(2) r by simp
  have eq: "splice_lines lines 0 rs = take (s + k) lines @ splice_lines lines (s + k) rs"
    using splice_lines_shift [OF ge, of 0 lines] by simp
  have "apply_replacements lines (r # rs) = apply_reversed [r] (splice_lines lines 0 rs)"
    using IH by (simp add: apply_replacements_def apply_reversed_snoc)
  also have "\<dots> = Some (take s (splice_lines lines 0 rs) @ new @ drop (s + k) (splice_lines lines 0 rs))"
    using r eq le by (simp add: edit_once)
  also have "\<dots> = Some (splice_lines lines 0 (r # rs))"
    using eq le r by (simp add: min_def)
  finally show ?case .
qed

section \<open>Replacements that preserve line endings are ordered\<close>

definition r_end :: "Replacement \<Rightarrow> nat" where
  "r_end r = fst r + fst (snd r)"

definition within :: "nat \<Rightarrow> nat \<Rightarrow> Replacement list \<Rightarrow> bool" where
  "within lo hi rs \<longleftrightarrow> sorted_wrt before rs \<and> (\<forall>r\<in>set rs. lo \<le> fst r \<and> r_end r \<le> hi)"

lemma within_Nil [simp]: "within lo hi []"
  by (simp add: within_def)

lemma within_mono: "within lo hi rs \<Longrightarrow> hi \<le> hi' \<Longrightarrow> within lo hi' rs"
  by (fastforce simp: within_def)

lemma within_snoc:
  "within lo mid rs \<Longrightarrow> lo \<le> mid \<Longrightarrow> mid \<le> s \<Longrightarrow> s + k \<le> hi \<Longrightarrow> within lo hi (rs @ [(s, k, new)])"
  by (fastforce simp: within_def sorted_wrt_append before_def r_end_def)

lemma context_pieces_ok:
  assumes "sorted_wrt (\<lambda>(i, j) (i', j'). i < i' \<and> j < j') ctxs"
    and "\<forall>(i, j)\<in>set ctxs. old_start \<le> i \<and> new_start \<le> j"
    and "within start_idx (start_idx + old_start) acc"
    and "old_start \<le> plen" and "new_start \<le> length new"
  shows "\<exists>rs os ns. context_pieces start_idx plen new ctxs old_start new_start acc = Inr (rs, os, ns) \<and>
    within start_idx (start_idx + os) rs \<and> os \<le> plen \<and> ns \<le> length new"
  using assms
proof (induction ctxs arbitrary: old_start new_start acc)
  case Nil
  then show ?case by auto
next
  case (Cons c ctxs)
  obtain oc nc where c: "c = (oc, nc)" by (cases c)
  show ?case
  proof (cases "oc \<ge> plen \<or> nc \<ge> length new")
    case True
    with Cons.prems c show ?thesis by auto
  next
    case False
    define acc' where "acc' = (if old_start \<noteq> oc \<or> new_start \<noteq> nc
      then acc @ [(start_idx + old_start, oc - old_start, take (nc - new_start) (drop new_start new))]
      else acc)"
    have le: "old_start \<le> oc" "new_start \<le> nc" using Cons.prems(2) c by auto
    have w: "within start_idx (start_idx + (oc + 1)) acc'"
      using within_snoc [OF Cons.prems(3)] within_mono [OF Cons.prems(3)] le
      by (simp add: acc'_def)
    have step: "context_pieces start_idx plen new (c # ctxs) old_start new_start acc =
        context_pieces start_idx plen new ctxs (oc + 1) (nc + 1) acc'"
      using False c le by (simp add: acc'_def)
    have "\<forall>(i, j)\<in>set ctxs. oc + 1 \<le> i \<and> nc + 1 \<le> j"
      using Cons.prems(1) c by fastforce
    then show ?thesis
      unfolding step using Cons.IH [of "oc + 1" "nc + 1" acc'] Cons.prems(1) w False c by simp
  qed
qed

lemma matched_chunk_replacements_ok:
  assumes "context_indices_ok chunk"
  shows "\<exists>rs. matched_chunk_replacements PreserveLineEndings chunk start_idx pattern new = Inr rs \<and>
    within start_idx (start_idx + length pattern) rs"
proof -
  obtain rs os ns where run: "context_pieces start_idx (length pattern) new
      (context_line_indices chunk) 0 0 [] = Inr (rs, os, ns)"
    and w: "within start_idx (start_idx + os) rs" and le: "os \<le> length pattern" "ns \<le> length new"
    using context_pieces_ok [of "context_line_indices chunk" 0 0 start_idx "[]" "length pattern" new] assms
    by (auto simp: context_indices_ok_def)
  then show ?thesis
    using within_snoc [OF w, of "start_idx + os" "length pattern - os"] within_mono [OF w]
    by (auto simp: matched_chunk_replacements_def)
qed

lemma seek_sequence_bounds:
  assumes "seek_sequence lines pattern start eof m = Some i" and "start \<le> length lines"
  shows "i + length pattern \<le> length lines" "m = PreserveLineEndings \<or> \<not> eof \<Longrightarrow> start \<le> i"
proof -
  show "i + length pattern \<le> length lines"
    using assms seek_sequence_Some(2) [OF assms(1)]
    by (cases "pattern = []") (auto simp: seek_sequence_def)
  show "start \<le> i" if "m = PreserveLineEndings \<or> \<not> eof"
  proof (cases "pattern = []")
    case True
    with assms show ?thesis by (simp add: seek_sequence_def)
  next
    case False
    have "start \<le> search_start_of lines pattern start eof m"
      using that search_start_preserve_ge [of start] by (auto simp: search_start_of_def)
    with seek_sequence_Some(1) [OF assms(1) False] show ?thesis by simp
  qed
qed

lemma seek_context_bounds:
  assumes "seek_context lines path chunk li m = Inr li'" and "li \<le> length lines"
  shows "li \<le> li' \<and> li' \<le> length lines"
  using assms seek_sequence_bounds [of lines "[the (change_context chunk)]" li False m]
  by (auto simp: seek_context_def split: option.splits)

lemma locate_chunk_bounds:
  assumes "locate_chunk lines chunk li m = (Some i, pattern, new)" and "li \<le> length lines"
  shows "i + length pattern \<le> length lines" "m = PreserveLineEndings \<Longrightarrow> li \<le> i"
  using assms(1) seek_sequence_bounds [OF _ assms(2)]
  by (auto simp: locate_chunk_def Let_def split: if_splits)

lemma chunk_step_preserve:
  assumes "context_indices_ok chunk" and "li \<le> length lines"
  shows "chunk_step lines path PreserveLineEndings chunk li \<noteq> Inl Panic"
    and "chunk_step lines path PreserveLineEndings chunk li = Inr (li', rs) \<Longrightarrow>
      li \<le> li' \<and> li' \<le> length lines \<and>
      (within li li' rs \<or> (\<exists>new. rs = [(length lines, 0, new)]))"
proof -
  have ctx: "seek_context lines path chunk li PreserveLineEndings \<noteq> Inl Panic"
    by (auto simp: seek_context_def split: option.splits)
  have mat: "matched_chunk_replacements PreserveLineEndings chunk i p n \<noteq> Inl Panic" for i p n
    using matched_chunk_replacements_ok [OF assms(1), of i p n] by auto
  show "chunk_step lines path PreserveLineEndings chunk li \<noteq> Inl Panic"
    using ctx by (auto simp: chunk_step_def mat split: if_splits prod.splits option.splits)
  assume run: "chunk_step lines path PreserveLineEndings chunk li = Inr (li', rs)"
  then obtain l1 where l1: "seek_context lines path chunk li PreserveLineEndings = Inr l1"
    by (auto simp: chunk_step_def)
  note b = seek_context_bounds [OF l1 assms(2)]
  show "li \<le> li' \<and> li' \<le> length lines \<and> (within li li' rs \<or> (\<exists>new. rs = [(length lines, 0, new)]))"
  proof (cases "old_lines chunk = []")
    case True
    with run l1 b show ?thesis by (auto simp: chunk_step_def insertion_index_def)
  next
    case False
    with run l1 obtain i pattern new where loc:
      "locate_chunk lines chunk l1 PreserveLineEndings = (Some i, pattern, new)"
      by (auto simp: chunk_step_def split: prod.splits option.splits)
    with run l1 False have m: "matched_chunk_replacements PreserveLineEndings chunk i pattern new = Inr rs"
      "li' = i + length pattern"
      by (auto simp: chunk_step_def)
    have "within i (i + length pattern) rs"
      using matched_chunk_replacements_ok [OF assms(1), of i pattern new] m(1) by auto
    moreover have "l1 \<le> length lines" using b by simp
    note locate_chunk_bounds [OF loc this]
    ultimately show ?thesis
      using b m(2) by (auto simp: within_def)
  qed
qed

text \<open>In push order two replacements are apart, and an insertion at the end of the file may come
  before a region.\<close>

definition apart :: "Replacement \<Rightarrow> Replacement \<Rightarrow> bool" where
  "apart a b \<longleftrightarrow> before a b \<or> (fst (snd a) = 0 \<and> before b a)"

lemma chunk_loop_preserve:
  assumes "\<forall>c\<in>set chunks. context_indices_ok c" and "li \<le> length lines"
  shows "chunk_loop lines path PreserveLineEndings chunks li \<noteq> Inl Panic"
    and "chunk_loop lines path PreserveLineEndings chunks li = Inr rs \<Longrightarrow>
      sorted_wrt apart rs \<and> (\<forall>r\<in>set rs. li \<le> fst r \<and> r_end r \<le> length lines)"
proof -
  have "chunk_loop lines path PreserveLineEndings chunks li \<noteq> Inl Panic \<and>
    (\<forall>rs. chunk_loop lines path PreserveLineEndings chunks li = Inr rs \<longrightarrow>
      sorted_wrt apart rs \<and> (\<forall>r\<in>set rs. li \<le> fst r \<and> r_end r \<le> length lines))"
    using assms
  proof (induction chunks arbitrary: li)
    case Nil
    then show ?case by simp
  next
    case (Cons c chunks)
    note np = chunk_step_preserve(1) [of c li lines path]
    show ?case
    proof (cases "chunk_step lines path PreserveLineEndings c li")
      case (Inl e)
      with np Cons.prems show ?thesis by auto
    next
      case (Inr p)
      obtain li' rs where p: "p = (li', rs)" by (cases p)
      with Inr Cons.prems have st: "li \<le> li'" "li' \<le> length lines"
        "within li li' rs \<or> (\<exists>new. rs = [(length lines, 0, new)])"
        using chunk_step_preserve(2) [of c li lines path li' rs] by auto
      have IH: "chunk_loop lines path PreserveLineEndings chunks li' \<noteq> Inl Panic"
        "\<And>rs. chunk_loop lines path PreserveLineEndings chunks li' = Inr rs \<Longrightarrow>
          sorted_wrt apart rs \<and> (\<forall>r\<in>set rs. li' \<le> fst r \<and> r_end r \<le> length lines)"
        using Cons.IH [of li'] Cons.prems st(2) by auto
      have cross: "apart a b" if "a \<in> set rs" "li' \<le> fst b" "r_end b \<le> length lines" for a b
        using st(3) that by (auto simp: within_def apart_def before_def r_end_def)
      have "sorted_wrt before rs \<Longrightarrow> sorted_wrt apart rs"
        by (erule sorted_wrt_mono_rel [rotated]) (simp add: apart_def)
      then have inner: "sorted_wrt apart rs" "\<forall>r\<in>set rs. li \<le> fst r \<and> r_end r \<le> length lines"
        using st by (auto simp: within_def r_end_def)
      show ?thesis
        using IH inner cross Inr p st(1) by (fastforce simp: sorted_wrt_append)
    qed
  qed
  then show "chunk_loop lines path PreserveLineEndings chunks li \<noteq> Inl Panic"
    and "chunk_loop lines path PreserveLineEndings chunks li = Inr rs \<Longrightarrow>
      sorted_wrt apart rs \<and> (\<forall>r\<in>set rs. li \<le> fst r \<and> r_end r \<le> length lines)"
    by auto
qed

lemma sorted_wrt_insort_before:
  assumes "sorted_wrt before ys" and "\<forall>y\<in>set ys. apart x y"
  shows "sorted_wrt before (insort_key fst x ys)"
  using assms
proof (induction ys)
  case Nil
  then show ?case by simp
next
  case (Cons y ys)
  show ?case
  proof (cases "fst x \<le> fst y")
    case True
    then have "before x y" using Cons.prems(2) by (auto simp: apart_def before_def)
    moreover have "\<forall>z\<in>set ys. before x z"
      using \<open>before x y\<close> Cons.prems(1) by (fastforce simp: before_def)
    ultimately show ?thesis using True Cons.prems(1) by simp
  next
    case False
    then have "before y x" using Cons.prems(2) by (auto simp: apart_def before_def)
    then show ?thesis
      using False Cons by (simp add: set_insort_key)
  qed
qed

lemma sorted_wrt_before_sort: "sorted_wrt apart rs \<Longrightarrow> sorted_wrt before (sort_key fst rs)"
  by (induction rs) (auto simp: sorted_wrt_insort_before)

lemma compute_replacements_preserve:
  assumes "\<forall>c\<in>set chunks. context_indices_ok c"
  shows "compute_replacements lines path chunks PreserveLineEndings \<noteq> Inl Panic"
    and "compute_replacements lines path chunks PreserveLineEndings = Inr rs \<Longrightarrow>
      ordered_in (length lines) rs"
proof -
  show "compute_replacements lines path chunks PreserveLineEndings \<noteq> Inl Panic"
    using chunk_loop_preserve(1) [OF assms, of 0 lines path] by (auto simp: compute_replacements_def)
  assume "compute_replacements lines path chunks PreserveLineEndings = Inr rs"
  then obtain xs where "chunk_loop lines path PreserveLineEndings chunks 0 = Inr xs"
    and rs: "rs = sort_key fst xs"
    by (auto simp: compute_replacements_def)
  from chunk_loop_preserve(2) [OF assms _ this(1)] have "sorted_wrt apart xs"
    "\<forall>r\<in>set xs. fst r + fst (snd r) \<le> length lines"
    by (simp_all add: r_end_def)
  then show "ordered_in (length lines) rs"
    using rs sorted_wrt_before_sort by (simp add: ordered_in_def)
qed

section \<open>The historical mode never panics either\<close>

lemma chunk_step_normalize:
  assumes "li \<le> length lines"
  shows "chunk_step lines path NormalizeToLf chunk li \<noteq> Inl Panic"
    and "chunk_step lines path NormalizeToLf chunk li = Inr (li', rs) \<Longrightarrow>
      li' \<le> length lines \<and> (\<forall>r\<in>set rs. fst r \<le> length lines)"
proof -
  have ctx: "seek_context lines path chunk li NormalizeToLf \<noteq> Inl Panic"
    by (auto simp: seek_context_def split: option.splits)
  then show "chunk_step lines path NormalizeToLf chunk li \<noteq> Inl Panic"
    by (auto simp: chunk_step_def matched_chunk_replacements_def
        split: if_splits prod.splits option.splits)
  assume run: "chunk_step lines path NormalizeToLf chunk li = Inr (li', rs)"
  then obtain l1 where l1: "seek_context lines path chunk li NormalizeToLf = Inr l1"
    by (auto simp: chunk_step_def)
  note b = seek_context_bounds [OF l1 assms]
  then have l1_le: "l1 \<le> length lines" by simp
  show "li' \<le> length lines \<and> (\<forall>r\<in>set rs. fst r \<le> length lines)"
    using run l1 b locate_chunk_bounds(1) [OF _ l1_le, of chunk NormalizeToLf]
    by (fastforce simp: chunk_step_def matched_chunk_replacements_def insertion_index_def
        split: if_splits prod.splits option.splits)
qed

lemma chunk_loop_normalize:
  assumes "li \<le> length lines"
  shows "chunk_loop lines path NormalizeToLf chunks li \<noteq> Inl Panic \<and>
    (\<forall>rs. chunk_loop lines path NormalizeToLf chunks li = Inr rs \<longrightarrow>
      (\<forall>r\<in>set rs. fst r \<le> length lines))"
  using assms
proof (induction chunks arbitrary: li)
  case Nil
  then show ?case by simp
next
  case (Cons c chunks)
  note step = chunk_step_normalize [OF Cons.prems, of path c]
  show ?case
  proof (cases "chunk_step lines path NormalizeToLf c li")
    case (Inl e)
    with step(1) show ?thesis by auto
  next
    case (Inr p)
    obtain li' rs where p: "p = (li', rs)" by (cases p)
    with step(2) Inr have st: "li' \<le> length lines" "\<forall>r\<in>set rs. fst r \<le> length lines" by auto
    show ?thesis
      using Cons.IH [OF st(1)] st(2) Inr p by fastforce
  qed
qed

lemma apply_replacements_sorted:
  assumes "\<forall>r\<in>set rs. fst r \<le> length lines"
  shows "\<exists>ls. apply_replacements lines (sort_key fst rs) = Some ls"
proof -
  have "sorted_wrt (\<lambda>a b. fst a \<le> fst b) (sort_key fst rs)"
    using sorted_sort_key [of fst rs] by (simp add: sorted_map)
  then have "sorted_wrt (\<lambda>a b. fst b \<le> fst a) (rev (sort_key fst rs))"
    by (simp add: sorted_wrt_rev)
  then show ?thesis
    unfolding apply_replacements_def by (rule apply_reversed_total) (simp add: assms)
qed

lemma derive_new_contents_no_panic:
  assumes "\<forall>c\<in>set chunks. context_indices_ok c"
  shows "derive_new_contents path contents chunks m \<noteq> Inl Panic"
proof (cases m)
  case NormalizeToLf
  let ?ls = "legacy_lines contents"
  have "chunk_loop ?ls path NormalizeToLf chunks 0 \<noteq> Inl Panic"
    "\<And>rs. chunk_loop ?ls path NormalizeToLf chunks 0 = Inr rs \<Longrightarrow>
      \<exists>ls. apply_replacements ?ls (sort_key fst rs) = Some ls"
    using chunk_loop_normalize [of 0 ?ls path chunks] apply_replacements_sorted by auto
  then show ?thesis
    using NormalizeToLf
    by (fastforce simp: derive_new_contents_def compute_replacements_def Let_def split: option.splits)
next
  case PreserveLineEndings
  let ?sf = "parse_source contents"
  have len: "length (line_texts ?sf) = length (sf_lines ?sf)" by (simp add: line_texts_def)
  note cr = compute_replacements_preserve [OF assms, of "line_texts ?sf" path, unfolded len]
  have "\<And>rs. compute_replacements (line_texts ?sf) path chunks PreserveLineEndings = Inr rs \<Longrightarrow>
      \<exists>sf. source_apply_replacements ?sf rs = Some sf"
    using cr(2) source_apply_replacements_ok by blast
  then show ?thesis
    using PreserveLineEndings cr(1)
    by (fastforce simp: derive_new_contents_def Let_def split: option.splits)
qed

section \<open>Properties\<close>

text \<open>C34: Line endings are preserved: when an update in \<open>PreserveLineEndings\<close> mode succeeds on
  well-formed chunks, the computed replacements are in source order, do not overlap and lie inside
  the file, and the result is the original file in which exactly those regions are exchanged for
  the new lines; every line outside the regions keeps its text and its own terminator, new lines
  get the file's preferred terminator, and a missing last terminator is added.\<close>

theorem derive_preserving_line_endings:
  assumes "\<forall>c\<in>set chunks. context_indices_ok c"
    and "derive_new_contents path contents chunks PreserveLineEndings = Inr new_contents"
  shows "\<exists>rs. let sf = parse_source contents; e = preferred_ending sf
     in compute_replacements (line_texts sf) path chunks PreserveLineEndings = Inr rs \<and>
        ordered_in (length (sf_lines sf)) rs \<and>
        new_contents = concat (map (line_contents \<circ> terminate_line e)
          (splice_lines (sf_lines sf) 0
             (map (\<lambda>(s, k, new). (s, k, map (\<lambda>t. mk_line t (Some e)) new)) rs)))"
proof -
  let ?sf = "parse_source contents"
  have len: "length (line_texts ?sf) = length (sf_lines ?sf)" by (simp add: line_texts_def)
  from assms(2) obtain rs sf' where
    c: "compute_replacements (line_texts ?sf) path chunks PreserveLineEndings = Inr rs"
    and sf': "source_apply_replacements ?sf rs = Some sf'" "new_contents = into_contents sf'"
    by (auto simp: derive_new_contents_def Let_def split: option.splits)
  have o: "ordered_in (length (sf_lines ?sf)) rs"
    using compute_replacements_preserve(2) [OF assms(1) c] by (simp add: len)
  show ?thesis
    using c o sf' source_apply_replacements_ok [OF o]
    by (auto simp: into_contents_def Let_def o_def intro!: exI [of _ rs])
qed

definition example_chunk :: UpdateFileChunk where
  "example_chunk = \<lparr>change_context = None, old_lines = [[98], [99]], new_lines = [[98], [120]],
     context_line_indices = [(0, 0)], is_end_of_file = False\<rparr>"

lemma example_chunk_ok: "\<forall>c\<in>set [example_chunk]. context_indices_ok c"
  by (simp add: example_chunk_def context_indices_ok_def)

text \<open>A file with mixed terminators (CR LF, LF, LF) and one changed line.\<close>

lemma example_derive:
  "derive_new_contents (lit ''f'') [97, 13, 10, 98, 10, 99, 10] [example_chunk] PreserveLineEndings =
     Inr [97, 13, 10, 98, 10, 120, 13, 10]"
  by code_simp

theorem derive_preserving_line_endings_witness:
  "list_all context_indices_ok [example_chunk] \<and>
   derive_new_contents (lit ''f'') [97, 13, 10, 98, 10, 99, 10] [example_chunk] PreserveLineEndings =
     Inr [97, 13, 10, 98, 10, 120, 13, 10] \<and>
   (\<exists>rs. let sf = parse_source [97, 13, 10, 98, 10, 99, 10]; e = preferred_ending sf
     in compute_replacements (line_texts sf) (lit ''f'') [example_chunk] PreserveLineEndings = Inr rs \<and>
        ordered_in (length (sf_lines sf)) rs \<and>
        [97, 13, 10, 98, 10, 120, 13, 10] = concat (map (line_contents \<circ> terminate_line e)
          (splice_lines (sf_lines sf) 0
             (map (\<lambda>(s, k, new). (s, k, map (\<lambda>t. mk_line t (Some e)) new)) rs))))"
  using derive_preserving_line_endings [OF example_chunk_ok example_derive]
    example_chunk_ok example_derive by (simp add: list_all_iff)

text \<open>C30: Applying an update cannot panic: for every file and every update hunk that \<open>parse_patch\<close> returns,
  in both update modes, no slice is taken backwards, no unsigned subtraction goes below zero, no
  insertion happens past the end and the ordering assertion of the rebuild holds; the update
  either succeeds or reports that lines were not found.\<close>

theorem parsed_update_never_panics:
  assumes "parse_patch patch = Inr args" and "UpdateFile path move_path chunks \<in> set (args_hunks args)"
  shows "(\<exists>new_contents. derive_new_contents path_text contents chunks m = Inr new_contents) \<or>
    (\<exists>msg. derive_new_contents path_text contents chunks m = Inl (ComputeReplacements msg))"
proof -
  have "hunk_wf (UpdateFile path move_path chunks)"
    using assms parse_patch_text_run [OF refl, of patch] by (auto simp: parse_patch_def)
  then have "\<forall>c\<in>set chunks. context_indices_ok c" by (simp add: chunk_wf_def)
  then have "derive_new_contents path_text contents chunks m \<noteq> Inl Panic"
    by (rule derive_new_contents_no_panic)
  then show ?thesis
    by (cases "derive_new_contents path_text contents chunks m")
      (auto intro: update_failure.exhaust)
qed

theorem parsed_update_never_panics_witness:
  "parse_patch example_patch = Inr \<lparr>args_patch = example_patch,
     args_hunks = [UpdateFile (lit ''f'') None example_chunks],
     args_workdir = None, args_environment_id = None\<rparr> \<and>
   ((\<exists>new_contents. derive_new_contents (lit ''f'') (lit ''a'') example_chunks NormalizeToLf = Inr new_contents) \<or>
    (\<exists>msg. derive_new_contents (lit ''f'') (lit ''a'') example_chunks NormalizeToLf =
       Inl (ComputeReplacements msg)))"
proof -
  note p = parse_example_patch [unfolded example_update_def]
  have "UpdateFile (lit ''f'') None example_chunks \<in> set (args_hunks \<lparr>args_patch = example_patch,
      args_hunks = [UpdateFile (lit ''f'') None example_chunks],
      args_workdir = None, args_environment_id = None\<rparr>)"
    by simp
  from parsed_update_never_panics [OF p this] p show ?thesis by blast
qed

text \<open>The two implementations of the edit agree: on replacements that are ordered and inside the
  file, the in-place edits from last to first of the historical mode and the single forward pass of
  \<open>SourceFile\<close> both succeed and give the same line texts.\<close>

theorem apply_replacements_equivalent:
  assumes "ordered_in (length (sf_lines sf)) rs"
  shows "\<exists>sf'. source_apply_replacements sf rs = Some sf' \<and>
    apply_replacements (line_texts sf) rs = Some (line_texts sf')"
proof -
  obtain sf' where sf': "source_apply_replacements sf rs = Some sf'"
    using source_apply_replacements_ok [OF assms] by blast
  have "apply_replacements (line_texts sf) rs = Some (splice_lines (line_texts sf) 0 rs)"
    using assms by (intro apply_replacements_splice) (auto simp: ordered_in_def line_texts_def)
  then show ?thesis
    using sf' line_texts_apply [OF assms sf'] by simp
qed

theorem apply_replacements_equivalent_witness:
  "ordered_in (length (sf_lines (parse_source [97, 10, 98]))) [(0, 1, [[120], [121]]), (2, 0, [[122]])] \<and>
   (\<exists>sf'. source_apply_replacements (parse_source [97, 10, 98]) [(0, 1, [[120], [121]]), (2, 0, [[122]])] = Some sf' \<and>
     apply_replacements (line_texts (parse_source [97, 10, 98])) [(0, 1, [[120], [121]]), (2, 0, [[122]])] =
       Some (line_texts sf'))"
proof -
  have "sf_lines (parse_source [97, 10, 98]) = [mk_line [97] (Some Lf), mk_line [98] None]"
    by code_simp
  then have o: "ordered_in (length (sf_lines (parse_source [97, 10, 98])))
      [(0, 1, [[120], [121]]), (2, 0, [[122]])]"
    by (simp add: ordered_in_def before_def)
  show ?thesis using o apply_replacements_equivalent [OF o] by blast
qed

end
