(* ===== verification/Apply_Hunks.thy ===== *)
theory Apply_Hunks
  imports File_Update
begin

text \<open>
  Applying parsed hunks to a file system, after \<open>apply-patch/src/lib.rs\<close>: the error types, the
  delta of committed changes with its exactness flag, the three kinds of hunk, the retry that
  creates missing parent directories, and the entry points that print the outcome.

  The file system (\<open>ExecutorFileSystem\<close> behind a sandbox), the path URIs and the two output
  streams are services the code only calls. They are the record \<open>fs_env\<close>, an argument of every
  operation, over an abstract world \<open>'w\<close> and abstract paths \<open>'p\<close>; what the code relies on is
  the predicate \<open>fs_laws\<close>.
\<close>

section \<open>Errors\<close>

datatype io_kind = NotFound | InvalidInput | OtherKind

record io_error =
  io_kind :: io_kind
  io_message :: ustring

datatype ApplyPatchError =
    PatchParseError ParseError
  | PatchIoError (io_context: ustring) (io_source: io_error)
  | PatchComputeReplacements ustring
  | PatchPathUri ustring
  | ImplicitInvocation
  | PatchPanic

text \<open>\<open>PatchPanic\<close> is no variant of the source: it marks a panic inside the update computation.\<close>

fun display_parse_error :: "ParseError \<Rightarrow> ustring" where
  "display_parse_error (InvalidPatchError m) = lit ''invalid patch: '' @ m"
| "display_parse_error (InvalidHunkError m n) =
     lit ''invalid hunk at line '' @ show_nat n @ lit '', '' @ m"

fun display_error :: "ApplyPatchError \<Rightarrow> ustring" where
  "display_error (PatchParseError e) = display_parse_error e"
| "display_error (PatchIoError c e) = c @ lit '': '' @ io_message e"
| "display_error (PatchComputeReplacements m) = m"
| "display_error (PatchPathUri m) = m"
| "display_error ImplicitInvocation =
     lit ''patch detected without explicit call to apply_patch. Rerun as ['' @ [34] @
     lit ''apply_patch'' @ [34] @ lit '', '' @ [34] @ lit ''<patch>'' @ [34] @ lit '']''"
| "display_error PatchPanic = []"

definition error_from_io :: "io_error \<Rightarrow> ApplyPatchError" where
  "error_from_io e = PatchIoError (lit ''I/O error'') e"

text \<open>\<open>anyhow::Error\<close> as the code builds it: an I/O error with an optional context, one of the
  crate's own errors, or a message.\<close>

datatype anyhow = AnyIo "ustring option" io_error | AnyError ApplyPatchError | AnyMsg ustring

fun anyhow_display :: "anyhow \<Rightarrow> ustring" where
  "anyhow_display (AnyIo (Some c) e) = c"
| "anyhow_display (AnyIo None e) = io_message e"
| "anyhow_display (AnyError e) = display_error e"
| "anyhow_display (AnyMsg m) = m"

text \<open>\<open>downcast_ref::<std::io::Error>()\<close>.\<close>

fun downcast_io :: "anyhow \<Rightarrow> io_error option" where
  "downcast_io (AnyIo c e) = Some e"
| "downcast_io (AnyError e) = None"
| "downcast_io (AnyMsg m) = None"

definition with_context :: "ustring \<Rightarrow> (io_error, 'a) result \<Rightarrow> (anyhow, 'a) result" where
  "with_context c r = (case r of Inl e \<Rightarrow> Inl (AnyIo (Some c) e) | Inr x \<Rightarrow> Inr x)"

section \<open>The environment\<close>

record FileMetadata =
  md_is_directory :: bool
  md_is_file :: bool
  md_is_symlink :: bool

record ('p, 'w) fs_env =
  join_uri :: "'p \<Rightarrow> ustring \<Rightarrow> (ustring, 'p) result"
  parent_uri :: "'p \<Rightarrow> 'p option"
  native_path :: "'p \<Rightarrow> ustring"
  read_file_text :: "bool \<Rightarrow> 'p \<Rightarrow> 'w \<Rightarrow> (io_error, ustring) result"
  write_file :: "bool \<Rightarrow> 'p \<Rightarrow> ustring \<Rightarrow> 'w \<Rightarrow> 'w \<times> (io_error, unit) result"
  create_directory :: "bool \<Rightarrow> 'p \<Rightarrow> 'w \<Rightarrow> 'w \<times> (io_error, unit) result"
  get_metadata :: "bool \<Rightarrow> 'p \<Rightarrow> 'w \<Rightarrow> (io_error, FileMetadata) result"
  remove_file :: "bool \<Rightarrow> 'p \<Rightarrow> 'w \<Rightarrow> 'w \<times> (io_error, unit) result"
  write_stdout :: "ustring \<Rightarrow> 'w \<Rightarrow> 'w \<times> (io_error, unit) result"
  write_stderr :: "ustring \<Rightarrow> 'w \<Rightarrow> 'w \<times> (io_error, unit) result"

section \<open>Options and deltas\<close>

record ApplyPatchOptions =
  opt_update_file_mode :: ApplyPatchFileUpdateMode
  opt_follow_symlinks :: bool

definition default_options :: ApplyPatchOptions where
  "default_options = \<lparr>opt_update_file_mode = NormalizeToLf, opt_follow_symlinks = True\<rparr>"

datatype 'p AppliedPatchFileChange =
    AppliedAdd ustring "ustring option"
  | AppliedDelete ustring
  | AppliedUpdate "'p option" ustring "ustring option" ustring

record 'p AppliedPatchDelta =
  delta_changes :: "('p \<times> 'p AppliedPatchFileChange) list"
  delta_exact :: bool

definition empty_delta :: "'p AppliedPatchDelta" where
  "empty_delta = \<lparr>delta_changes = [], delta_exact = True\<rparr>"

definition append_delta ::
  "'p AppliedPatchDelta \<Rightarrow> 'p AppliedPatchDelta \<Rightarrow> 'p AppliedPatchDelta" where
  "append_delta d other =
     \<lparr>delta_changes = delta_changes d @ delta_changes other,
      delta_exact = (delta_exact d \<and> delta_exact other)\<rparr>"

definition push_change ::
  "'p \<times> 'p AppliedPatchFileChange \<Rightarrow> 'p AppliedPatchDelta \<Rightarrow> 'p AppliedPatchDelta" where
  "push_change c d = d\<lparr>delta_changes := delta_changes d @ [c]\<rparr>"

definition restrict_exact :: "bool \<Rightarrow> 'p AppliedPatchDelta \<Rightarrow> 'p AppliedPatchDelta" where
  "restrict_exact b d = d\<lparr>delta_exact := (delta_exact d \<and> b)\<rparr>"

record AffectedPaths =
  added_paths :: "ustring list"
  modified_paths :: "ustring list"
  deleted_paths :: "ustring list"

section \<open>File operations of the applier\<close>

definition ensure_not_directory ::
  "('p, 'w) fs_env \<Rightarrow> bool \<Rightarrow> 'p \<Rightarrow> 'w \<Rightarrow> (io_error, unit) result" where
  "ensure_not_directory env fl p w =
     and_then (get_metadata env fl p w)
       (\<lambda>md. if md_is_directory md
             then Inl \<lparr>io_kind = InvalidInput, io_message = lit ''path is a directory''\<rparr>
             else Inr ())"

definition remove_failure_was_side_effect_free ::
  "('p, 'w) fs_env \<Rightarrow> bool \<Rightarrow> 'p \<Rightarrow> ustring option \<Rightarrow> 'w \<Rightarrow> bool" where
  "remove_failure_was_side_effect_free env fl p expected w =
     (case expected of
        Some e \<Rightarrow> (case read_file_text env fl p w of Inl _ \<Rightarrow> False | Inr c \<Rightarrow> c = e)
      | None \<Rightarrow> False)"

text \<open>\<open>note_existing_path_delta_support\<close>: whether the flag may stay set.\<close>

definition note_existing_path_delta_support ::
  "('p, 'w) fs_env \<Rightarrow> bool \<Rightarrow> 'p \<Rightarrow> 'w \<Rightarrow> bool" where
  "note_existing_path_delta_support env fl p w =
     (case get_metadata env fl p w of
        Inr md \<Rightarrow> md_is_file md \<and> \<not> md_is_symlink md
      | Inl e \<Rightarrow> io_kind e = NotFound)"

definition read_optional_file_text_for_delta ::
  "('p, 'w) fs_env \<Rightarrow> bool \<Rightarrow> 'p \<Rightarrow> 'w \<Rightarrow> 'p AppliedPatchDelta \<Rightarrow>
   'p AppliedPatchDelta \<times> ustring option" where
  "read_optional_file_text_for_delta env fl p w d =
     (let d = restrict_exact (note_existing_path_delta_support env fl p w) d
      in case read_file_text env fl p w of
           Inr content \<Rightarrow> (d, Some content)
         | Inl e \<Rightarrow> if io_kind e = NotFound then (d, None) else (restrict_exact False d, None))"

definition write_file_with_missing_parent_retry ::
  "('p, 'w) fs_env \<Rightarrow> bool \<Rightarrow> 'p \<Rightarrow> ustring \<Rightarrow> 'w \<Rightarrow> 'w \<times> (anyhow, unit) result" where
  "write_file_with_missing_parent_retry env fl p contents w =
     (let write_context = lit ''Failed to write file '' @ native_path env p
      in case write_file env fl p contents w of
           (w1, Inr _) \<Rightarrow> (w1, Inr ())
         | (w1, Inl e) \<Rightarrow>
             if io_kind e = NotFound then
               (let (w2, made) =
                  (case parent_uri env p of
                     Some parent \<Rightarrow>
                       map_prod id
                         (with_context
                            (lit ''Failed to create parent directories for '' @ native_path env p))
                         (create_directory env fl parent w1)
                   | None \<Rightarrow> (w1, Inr ()))
                in case made of
                     Inl e \<Rightarrow> (w2, Inl e)
                   | Inr _ \<Rightarrow>
                       map_prod id (with_context write_context) (write_file env fl p contents w2))
             else (w1, Inl (AnyIo (Some write_context) e)))"

text \<open>\<open>derive_new_contents_from_chunks\<close>: the original and the new contents.\<close>

definition derive_new_contents_from_chunks ::
  "('p, 'w) fs_env \<Rightarrow> bool \<Rightarrow> 'p \<Rightarrow> UpdateFileChunk list \<Rightarrow> ApplyPatchFileUpdateMode \<Rightarrow> 'w \<Rightarrow>
   (ApplyPatchError, ustring \<times> ustring) result" where
  "derive_new_contents_from_chunks env fl p chunks update_mode w =
     (case read_file_text env fl p w of
        Inl e \<Rightarrow>
          Inl (PatchIoError (lit ''Failed to read file to update '' @ native_path env p) e)
      | Inr original \<Rightarrow>
          (case derive_new_contents (native_path env p) original chunks update_mode of
             Inl (ComputeReplacements m) \<Rightarrow> Inl (PatchComputeReplacements m)
           | Inl Panic \<Rightarrow> Inl PatchPanic
           | Inr new \<Rightarrow> Inr (original, new)))"

section \<open>One hunk\<close>

type_synonym ('p, 'w) hunk_result = "'w \<times> 'p AppliedPatchDelta \<times> (anyhow, unit) result"

definition apply_add_file ::
  "('p, 'w) fs_env \<Rightarrow> bool \<Rightarrow> 'p \<Rightarrow> ustring \<Rightarrow> 'w \<Rightarrow> 'p AppliedPatchDelta \<Rightarrow>
   ('p, 'w) hunk_result" where
  "apply_add_file env fl p contents w d =
     (let (d, overwritten) = read_optional_file_text_for_delta env fl p w d
      in case write_file_with_missing_parent_retry env fl p contents w of
           (w', Inl e) \<Rightarrow> (w', restrict_exact False d, Inl e)
         | (w', Inr _) \<Rightarrow> (w', push_change (p, AppliedAdd contents overwritten) d, Inr ()))"

definition apply_delete_file ::
  "('p, 'w) fs_env \<Rightarrow> bool \<Rightarrow> 'p \<Rightarrow> 'w \<Rightarrow> 'p AppliedPatchDelta \<Rightarrow> ('p, 'w) hunk_result" where
  "apply_delete_file env fl p w d =
     (let d = restrict_exact (note_existing_path_delta_support env fl p w) d;
          content =
            (case read_file_text env fl p w of Inl _ \<Rightarrow> None | Inr c \<Rightarrow> Some c);
          d = (if content = None then restrict_exact False d else d);
          delete_context = lit ''Failed to delete file '' @ native_path env p
      in case with_context delete_context (ensure_not_directory env fl p w) of
           Inl e \<Rightarrow> (w, d, Inl e)
         | Inr _ \<Rightarrow>
             (case remove_file env fl p w of
                (w', Inl e) \<Rightarrow>
                  (w', restrict_exact (remove_failure_was_side_effect_free env fl p content w') d,
                   Inl (AnyIo (Some delete_context) e))
              | (w', Inr _) \<Rightarrow>
                  (w', (case content of
                          Some c \<Rightarrow> push_change (p, AppliedDelete c) d
                        | None \<Rightarrow> d), Inr ())))"

text \<open>The second half of a rename: the destination has been written, and the source goes.\<close>

definition remove_moved_original ::
  "('p, 'w) fs_env \<Rightarrow> bool \<Rightarrow> 'p \<Rightarrow> 'p \<Rightarrow> ustring \<Rightarrow> ustring option \<Rightarrow> ustring \<Rightarrow> 'w \<Rightarrow>
   'p AppliedPatchDelta \<Rightarrow> ('p, 'w) hunk_result" where
  "remove_moved_original env fl p dest original overwritten new w d =
     (let index = length (delta_changes d);
          d = push_change (dest, AppliedAdd new overwritten) d;
          remove_context = lit ''Failed to remove original '' @ native_path env p
      in case with_context remove_context (ensure_not_directory env fl p w) of
           Inl e \<Rightarrow> (w, d, Inl e)
         | Inr _ \<Rightarrow>
             (case remove_file env fl p w of
                (w', Inl e) \<Rightarrow>
                  (w', restrict_exact
                         (remove_failure_was_side_effect_free env fl p (Some original) w') d,
                   Inl (AnyIo (Some remove_context) e))
              | (w', Inr _) \<Rightarrow>
                  (w', d\<lparr>delta_changes := (delta_changes d)
                          [index := (p, AppliedUpdate (Some dest) original overwritten new)]\<rparr>,
                   Inr ())))"

definition apply_update_file ::
  "('p, 'w) fs_env \<Rightarrow> ApplyPatchOptions \<Rightarrow> 'p \<Rightarrow> 'p \<Rightarrow> ustring option \<Rightarrow> UpdateFileChunk list \<Rightarrow>
   'w \<Rightarrow> 'p AppliedPatchDelta \<Rightarrow> ('p, 'w) hunk_result" where
  "apply_update_file env opts cwd p move_path chunks w d =
     (let fl = opt_follow_symlinks opts;
          d = restrict_exact (note_existing_path_delta_support env fl p w) d
      in case derive_new_contents_from_chunks env fl p chunks (opt_update_file_mode opts) w of
           Inl e \<Rightarrow> (w, d, Inl (AnyError e))
         | Inr (original, new) \<Rightarrow>
             (case move_path of
                Some dest \<Rightarrow>
                  (case join_uri env cwd dest of
                     Inl e \<Rightarrow> (w, d, Inl (AnyError (PatchPathUri e)))
                   | Inr dest_uri \<Rightarrow>
                       (let (d, overwritten) = read_optional_file_text_for_delta env fl dest_uri w d
                        in case write_file_with_missing_parent_retry env fl dest_uri new w of
                             (w', Inl e) \<Rightarrow> (w', restrict_exact False d, Inl e)
                           | (w', Inr _) \<Rightarrow>
                               remove_moved_original env fl p dest_uri original overwritten new w' d))
              | None \<Rightarrow>
                  (case write_file env fl p new w of
                     (w', Inl e) \<Rightarrow>
                       (w', restrict_exact False d,
                        Inl (AnyIo (Some (lit ''Failed to write file '' @ native_path env p)) e))
                   | (w', Inr _) \<Rightarrow>
                       (w', push_change (p, AppliedUpdate None original None new) d, Inr ()))))"

section \<open>All hunks\<close>

definition note_affected :: "Hunk \<Rightarrow> AffectedPaths \<Rightarrow> AffectedPaths" where
  "note_affected h a =
     (case h of
        AddFile _ _ \<Rightarrow> a\<lparr>added_paths := added_paths a @ [affected_path h]\<rparr>
      | DeleteFile _ \<Rightarrow> a\<lparr>deleted_paths := deleted_paths a @ [affected_path h]\<rparr>
      | UpdateFile _ _ _ \<Rightarrow> a\<lparr>modified_paths := modified_paths a @ [affected_path h]\<rparr>)"

text \<open>\<open>Hunk::resolve_path\<close>: always the source path.\<close>

definition resolve_path :: "('p, 'w) fs_env \<Rightarrow> 'p \<Rightarrow> Hunk \<Rightarrow> (ustring, 'p) result" where
  "resolve_path env cwd h = join_uri env cwd (hunk_path h)"

definition apply_hunk ::
  "('p, 'w) fs_env \<Rightarrow> ApplyPatchOptions \<Rightarrow> 'p \<Rightarrow> Hunk \<Rightarrow> 'w \<Rightarrow> 'p AppliedPatchDelta \<Rightarrow>
   ('p, 'w) hunk_result" where
  "apply_hunk env opts cwd h w d =
     (case resolve_path env cwd h of
        Inl e \<Rightarrow> (w, d, Inl (AnyError (PatchPathUri e)))
      | Inr p \<Rightarrow>
          (case h of
             AddFile _ contents \<Rightarrow> apply_add_file env (opt_follow_symlinks opts) p contents w d
           | DeleteFile _ \<Rightarrow> apply_delete_file env (opt_follow_symlinks opts) p w d
           | UpdateFile _ move_path chunks \<Rightarrow>
               apply_update_file env opts cwd p move_path chunks w d))"

fun hunk_loop ::
  "('p, 'w) fs_env \<Rightarrow> ApplyPatchOptions \<Rightarrow> 'p \<Rightarrow> Hunk list \<Rightarrow> AffectedPaths \<Rightarrow> 'w \<Rightarrow>
   'p AppliedPatchDelta \<Rightarrow> 'w \<times> 'p AppliedPatchDelta \<times> (anyhow, AffectedPaths) result" where
  "hunk_loop env opts cwd [] a w d = (w, d, Inr a)"
| "hunk_loop env opts cwd (h # hs) a w d =
     (case apply_hunk env opts cwd h w d of
        (w', d', Inl e) \<Rightarrow> (w', d', Inl e)
      | (w', d', Inr _) \<Rightarrow> hunk_loop env opts cwd hs (note_affected h a) w' d')"

definition apply_hunks_to_files ::
  "('p, 'w) fs_env \<Rightarrow> ApplyPatchOptions \<Rightarrow> 'p \<Rightarrow> Hunk list \<Rightarrow> 'w \<Rightarrow> 'p AppliedPatchDelta \<Rightarrow>
   'w \<times> 'p AppliedPatchDelta \<times> (anyhow, AffectedPaths) result" where
  "apply_hunks_to_files env opts cwd hs w d =
     (if hs = [] then (w, d, Inl (AnyMsg (lit ''No files were modified.'')))
      else hunk_loop env opts cwd hs
             \<lparr>added_paths = [], modified_paths = [], deleted_paths = []\<rparr> w d)"

fun write_lines ::
  "(ustring \<Rightarrow> 'w \<Rightarrow> 'w \<times> (io_error, unit) result) \<Rightarrow> ustring list \<Rightarrow> 'w \<Rightarrow>
   'w \<times> (io_error, unit) result" where
  "write_lines out [] w = (w, Inr ())"
| "write_lines out (l # ls) w =
     (case out (l @ [nl]) w of
        (w', Inl e) \<Rightarrow> (w', Inl e)
      | (w', Inr _) \<Rightarrow> write_lines out ls w')"

definition summary_lines :: "AffectedPaths \<Rightarrow> ustring list" where
  "summary_lines a =
     lit ''Success. Updated the following files:'' #
     map (\<lambda>p. lit ''A '' @ p) (added_paths a) @
     map (\<lambda>p. lit ''M '' @ p) (modified_paths a) @
     map (\<lambda>p. lit ''D '' @ p) (deleted_paths a)"

definition print_summary ::
  "(ustring \<Rightarrow> 'w \<Rightarrow> 'w \<times> (io_error, unit) result) \<Rightarrow> AffectedPaths \<Rightarrow> 'w \<Rightarrow>
   'w \<times> (io_error, unit) result" where
  "print_summary out a w = write_lines out (summary_lines a) w"

text \<open>The error that is reported for a failed run, and \<open>ApplyPatchFailure\<close> as a pair.\<close>

definition report_error :: "anyhow \<Rightarrow> ApplyPatchError" where
  "report_error e =
     (case downcast_io e of
        Some io \<Rightarrow> error_from_io io
      | None \<Rightarrow>
          PatchIoError (anyhow_display e)
            \<lparr>io_kind = OtherKind, io_message = anyhow_display e\<rparr>)"

type_synonym 'p ApplyPatchFailure = "ApplyPatchError \<times> 'p AppliedPatchDelta"

definition apply_hunks_with_options ::
  "('p, 'w) fs_env \<Rightarrow> ApplyPatchOptions \<Rightarrow> 'p \<Rightarrow> Hunk list \<Rightarrow> 'w \<Rightarrow>
   'w \<times> ('p ApplyPatchFailure, 'p AppliedPatchDelta) result" where
  "apply_hunks_with_options env opts cwd hs w =
     (case apply_hunks_to_files env opts cwd hs w empty_delta of
        (w', d, Inr affected) \<Rightarrow>
          (case print_summary (write_stdout env) affected w' of
             (w'', Inl e) \<Rightarrow> (w'', Inl (error_from_io e, d))
           | (w'', Inr _) \<Rightarrow> (w'', Inr d))
      | (w', d, Inl error) \<Rightarrow>
          (case write_lines (write_stderr env) [anyhow_display error] w' of
             (w'', Inl e) \<Rightarrow> (w'', Inl (error_from_io e, d))
           | (w'', Inr _) \<Rightarrow> (w'', Inl (report_error error, d))))"

fun parse_error_report :: "ParseError \<Rightarrow> ustring" where
  "parse_error_report (InvalidPatchError m) = lit ''Invalid patch: '' @ m"
| "parse_error_report (InvalidHunkError m n) =
     lit ''Invalid patch hunk on line '' @ show_nat n @ lit '': '' @ m"

definition apply_patch_with_options ::
  "('p, 'w) fs_env \<Rightarrow> ApplyPatchOptions \<Rightarrow> 'p \<Rightarrow> ustring \<Rightarrow> 'w \<Rightarrow>
   'w \<times> ('p ApplyPatchFailure, 'p AppliedPatchDelta) result" where
  "apply_patch_with_options env opts cwd patch w =
     (case parse_patch patch of
        Inr source \<Rightarrow> apply_hunks_with_options env opts cwd (args_hunks source) w
      | Inl e \<Rightarrow>
          (case write_lines (write_stderr env) [parse_error_report e] w of
             (w', Inl io) \<Rightarrow> (w', Inl (error_from_io io, empty_delta))
           | (w', Inr _) \<Rightarrow> (w', Inl (PatchParseError e, empty_delta))))"

definition apply_patch ::
  "('p, 'w) fs_env \<Rightarrow> 'p \<Rightarrow> ustring \<Rightarrow> 'w \<Rightarrow>
   'w \<times> ('p ApplyPatchFailure, 'p AppliedPatchDelta) result" where
  "apply_patch env cwd patch w = apply_patch_with_options env default_options cwd patch w"

section \<open>What the applier relies on\<close>

text \<open>
  \<open>files w p\<close> is the text of the file that the path \<open>p\<close> names in the world \<open>w\<close>. The laws say what
  a successful operation does to these texts, and what a failed one may have done: a successful
  read returns the text, a \<open>NotFound\<close> read means there is none; a successful write of a path
  that is a regular file or does not exist, and not a symbolic link, sets that text only; a write
  that fails with \<open>NotFound\<close> has no effect; creating the parent directory of a path changes no
  file and leaves that path writable; removing deletes the removed path only, and a removal that
  fails has either deleted it or done nothing; printing touches
  no file. Nothing is said of other failed writes, of symbolic links or of directories.
\<close>

type_synonym ('p, 'w) file_view = "'w \<Rightarrow> 'p \<Rightarrow> ustring option"

definition fs_read_law :: "('p, 'w) fs_env \<Rightarrow> bool \<Rightarrow> ('p, 'w) file_view \<Rightarrow> bool" where
  "fs_read_law env fl files \<longleftrightarrow>
     (\<forall>p w. case read_file_text env fl p w of
              Inr t \<Rightarrow> files w p = Some t
            | Inl e \<Rightarrow> io_kind e = NotFound \<longrightarrow> files w p = None)"

definition fs_write_law :: "('p, 'w) fs_env \<Rightarrow> bool \<Rightarrow> ('p, 'w) file_view \<Rightarrow> bool" where
  "fs_write_law env fl files \<longleftrightarrow>
     (\<forall>p t w. note_existing_path_delta_support env fl p w \<longrightarrow>
        (case write_file env fl p t w of
           (w', Inr _) \<Rightarrow> files w' = (files w)(p \<mapsto> t)
         | (w', Inl e) \<Rightarrow> io_kind e = NotFound \<longrightarrow>
             files w' = files w \<and> note_existing_path_delta_support env fl p w'))"

definition fs_mkdir_law :: "('p, 'w) fs_env \<Rightarrow> bool \<Rightarrow> ('p, 'w) file_view \<Rightarrow> bool" where
  "fs_mkdir_law env fl files \<longleftrightarrow>
     (\<forall>p parent w. parent_uri env p = Some parent \<longrightarrow>
        note_existing_path_delta_support env fl p w \<longrightarrow>
        (case create_directory env fl parent w of
           (w', Inr _) \<Rightarrow> files w' = files w \<and> note_existing_path_delta_support env fl p w'
         | (w', Inl _) \<Rightarrow> True))"

definition fs_remove_law :: "('p, 'w) fs_env \<Rightarrow> bool \<Rightarrow> ('p, 'w) file_view \<Rightarrow> bool" where
  "fs_remove_law env fl files \<longleftrightarrow>
     (\<forall>p w. case remove_file env fl p w of
              (w', Inr _) \<Rightarrow> files w' = (files w)(p := None)
            | (w', Inl _) \<Rightarrow> files w' = files w \<or> files w' = (files w)(p := None))"

definition fs_output_law :: "('p, 'w) fs_env \<Rightarrow> ('p, 'w) file_view \<Rightarrow> bool" where
  "fs_output_law env files \<longleftrightarrow>
     (\<forall>t w. files (fst (write_stdout env t w)) = files w \<and>
            files (fst (write_stderr env t w)) = files w)"

definition fs_laws :: "('p, 'w) fs_env \<Rightarrow> bool \<Rightarrow> ('p, 'w) file_view \<Rightarrow> bool" where
  "fs_laws env fl files \<longleftrightarrow>
     fs_read_law env fl files \<and> fs_write_law env fl files \<and> fs_mkdir_law env fl files \<and>
     fs_remove_law env fl files \<and> fs_output_law env files"

section \<open>What a delta means\<close>

fun replay_change ::
  "'p \<times> 'p AppliedPatchFileChange \<Rightarrow> ('p \<Rightarrow> ustring option) \<Rightarrow> ('p \<Rightarrow> ustring option)" where
  "replay_change (p, AppliedAdd t _) m = m(p \<mapsto> t)"
| "replay_change (p, AppliedDelete _) m = m(p := None)"
| "replay_change (p, AppliedUpdate None _ _ t) m = m(p \<mapsto> t)"
| "replay_change (p, AppliedUpdate (Some q) _ _ t) m = (m(q \<mapsto> t))(p := None)"

fun undo_change ::
  "'p \<times> 'p AppliedPatchFileChange \<Rightarrow> ('p \<Rightarrow> ustring option) \<Rightarrow> ('p \<Rightarrow> ustring option)" where
  "undo_change (p, AppliedAdd _ overwritten) m = m(p := overwritten)"
| "undo_change (p, AppliedDelete t) m = m(p \<mapsto> t)"
| "undo_change (p, AppliedUpdate None old _ _) m = m(p \<mapsto> old)"
| "undo_change (p, AppliedUpdate (Some q) old overwritten _) m =
     (m(q := overwritten))(p \<mapsto> old)"

definition replay_changes where
  "replay_changes cs m = fold replay_change cs m"

definition undo_changes where
  "undo_changes cs m = foldr undo_change cs m"

text \<open>The step from \<open>w\<close> to \<open>w'\<close> is recorded in the delta: if the flag is still set, the changes
  added describe the step in both directions.\<close>

definition recorded ::
  "('p, 'w) file_view \<Rightarrow> 'w \<Rightarrow> 'p AppliedPatchDelta \<Rightarrow> 'w \<Rightarrow> 'p AppliedPatchDelta \<Rightarrow> bool" where
  "recorded files w d w' d' \<longleftrightarrow>
     (delta_exact d' \<longrightarrow> delta_exact d \<and>
       (\<exists>cs. delta_changes d' = delta_changes d @ cs \<and>
             files w' = replay_changes cs (files w) \<and> files w = undo_changes cs (files w')))"

text \<open>What a hunk means on the file texts alone.\<close>

definition spec_hunk ::
  "('p, 'w) fs_env \<Rightarrow> ApplyPatchFileUpdateMode \<Rightarrow> 'p \<Rightarrow> Hunk \<Rightarrow> ('p \<Rightarrow> ustring option) \<Rightarrow>
   ('p \<Rightarrow> ustring option) option" where
  "spec_hunk env update_mode cwd h m =
     (case join_uri env cwd (hunk_path h) of
        Inl _ \<Rightarrow> None
      | Inr p \<Rightarrow>
          (case h of
             AddFile _ contents \<Rightarrow> Some (m(p \<mapsto> contents))
           | DeleteFile _ \<Rightarrow> (case m p of None \<Rightarrow> None | Some _ \<Rightarrow> Some (m(p := None)))
           | UpdateFile _ move_path chunks \<Rightarrow>
               (case m p of
                  None \<Rightarrow> None
                | Some t \<Rightarrow>
                    (case derive_new_contents (native_path env p) t chunks update_mode of
                       Inl _ \<Rightarrow> None
                     | Inr new \<Rightarrow>
                         (case move_path of
                            None \<Rightarrow> Some (m(p \<mapsto> new))
                          | Some q \<Rightarrow>
                              (case join_uri env cwd q of
                                 Inl _ \<Rightarrow> None
                               | Inr dest \<Rightarrow> Some ((m(dest \<mapsto> new))(p := None))))))))"

fun spec_hunks ::
  "('p, 'w) fs_env \<Rightarrow> ApplyPatchFileUpdateMode \<Rightarrow> 'p \<Rightarrow> Hunk list \<Rightarrow> ('p \<Rightarrow> ustring option) \<Rightarrow>
   ('p \<Rightarrow> ustring option) option" where
  "spec_hunks env update_mode cwd [] m = Some m"
| "spec_hunks env update_mode cwd (h # hs) m =
     Option.bind (spec_hunk env update_mode cwd h m) (spec_hunks env update_mode cwd hs)"

section \<open>The parts of a step\<close>

named_theorems delta_simps \<open>fields of updated deltas\<close>

lemma push_change_fields [delta_simps, simp]:
  "delta_changes (push_change c d) = delta_changes d @ [c]"
  "delta_exact (push_change c d) = delta_exact d"
  by (simp_all add: push_change_def)

lemma restrict_exact_fields [delta_simps, simp]:
  "delta_changes (restrict_exact b d) = delta_changes d"
  "delta_exact (restrict_exact b d) = (delta_exact d \<and> b)"
  by (simp_all add: restrict_exact_def)

lemma replay_undo_simps [simp]:
  "replay_changes [] m = m" "undo_changes [] m = m"
  "replay_changes [c] m = replay_change c m" "undo_changes [c] m = undo_change c m"
  "replay_changes (cs @ cs') m = replay_changes cs' (replay_changes cs m)"
  "undo_changes (cs @ cs') m = undo_changes cs (undo_changes cs' m)"
  by (simp_all add: replay_changes_def undo_changes_def)

lemma recorded_refl [intro]: "delta_changes d' = delta_changes d \<Longrightarrow>
    (delta_exact d' \<Longrightarrow> delta_exact d) \<Longrightarrow> files w' = files w \<Longrightarrow> recorded files w d w' d'"
  by (auto simp: recorded_def intro: exI [of _ "[]"])

lemma recorded_inexact [intro]: "\<not> delta_exact d' \<Longrightarrow> recorded files w d w' d'"
  by (simp add: recorded_def)

lemma recorded_change [intro]:
  "delta_changes d' = delta_changes d @ [c] \<Longrightarrow> (delta_exact d' \<Longrightarrow> delta_exact d) \<Longrightarrow>
   (delta_exact d' \<Longrightarrow> files w' = replay_change c (files w)) \<Longrightarrow>
   (delta_exact d' \<Longrightarrow> files w = undo_change c (files w')) \<Longrightarrow> recorded files w d w' d'"
  by (auto simp: recorded_def intro!: exI [of _ "[c]"])

lemma recorded_trans:
  "recorded files w d w' d' \<Longrightarrow> recorded files w' d' w'' d'' \<Longrightarrow> recorded files w d w'' d''"
proof -
  assume a: "recorded files w d w' d'" and b: "recorded files w' d' w'' d''"
  show "recorded files w d w'' d''"
    unfolding recorded_def
  proof
    assume "delta_exact d''"
    then obtain cs' where b': "delta_exact d'" "delta_changes d'' = delta_changes d' @ cs'"
      "files w'' = replay_changes cs' (files w')" "files w' = undo_changes cs' (files w'')"
      using b unfolding recorded_def by blast
    then obtain cs where a': "delta_exact d" "delta_changes d' = delta_changes d @ cs"
      "files w' = replay_changes cs (files w)" "files w = undo_changes cs (files w')"
      using a unfolding recorded_def by blast
    have "files w'' = replay_changes (cs @ cs') (files w)"
      using b'(3) a'(3) by simp
    moreover have "files w = undo_changes (cs @ cs') (files w'')"
      using b'(4) a'(4) by simp
    ultimately show "delta_exact d \<and> (\<exists>cs. delta_changes d'' = delta_changes d @ cs \<and>
        files w'' = replay_changes cs (files w) \<and> files w = undo_changes cs (files w''))"
      using a'(1,2) b'(2) by (intro conjI exI [of _ "cs @ cs'"]) simp_all
  qed
qed

lemma read_ok:
  "fs_laws env fl files \<Longrightarrow> read_file_text env fl p w = Inr t \<Longrightarrow> files w p = Some t"
  unfolding fs_laws_def fs_read_law_def by (elim conjE allE [of _ p] allE [of _ w]) auto

lemma read_not_found:
  "fs_laws env fl files \<Longrightarrow> read_file_text env fl p w = Inl e \<Longrightarrow> io_kind e = NotFound \<Longrightarrow>
   files w p = None"
  unfolding fs_laws_def fs_read_law_def by (elim conjE allE [of _ p] allE [of _ w]) auto

lemma write_ok:
  "fs_laws env fl files \<Longrightarrow> note_existing_path_delta_support env fl p w \<Longrightarrow>
   write_file env fl p t w = (w', Inr u) \<Longrightarrow> files w' = (files w)(p \<mapsto> t)"
  unfolding fs_laws_def fs_write_law_def by (elim conjE allE [of _ p] allE [of _ t] allE [of _ w]) auto

lemma write_not_found:
  "fs_laws env fl files \<Longrightarrow> note_existing_path_delta_support env fl p w \<Longrightarrow>
   write_file env fl p t w = (w', Inl e) \<Longrightarrow> io_kind e = NotFound \<Longrightarrow>
   files w' = files w \<and> note_existing_path_delta_support env fl p w'"
  unfolding fs_laws_def fs_write_law_def by (elim conjE allE [of _ p] allE [of _ t] allE [of _ w]) auto

lemma mkdir_ok:
  "fs_laws env fl files \<Longrightarrow> parent_uri env p = Some parent \<Longrightarrow>
   note_existing_path_delta_support env fl p w \<Longrightarrow>
   create_directory env fl parent w = (w', Inr u) \<Longrightarrow>
   files w' = files w \<and> note_existing_path_delta_support env fl p w'"
  unfolding fs_laws_def fs_mkdir_law_def
  by (elim conjE allE [of _ p] allE [of _ parent] allE [of _ w]) auto

lemma remove_ok:
  "fs_laws env fl files \<Longrightarrow> remove_file env fl p w = (w', Inr u) \<Longrightarrow>
   files w' = (files w)(p := None)"
  unfolding fs_laws_def fs_remove_law_def by (elim conjE allE [of _ p] allE [of _ w]) auto

lemma remove_failed:
  assumes "fs_laws env fl files" "remove_file env fl p w = (w', Inl e)"
    "remove_failure_was_side_effect_free env fl p expected w'"
  shows "files w' = files w"
proof -
  have "files w' = files w \<or> files w' = (files w)(p := None)"
    using assms(1,2) unfolding fs_laws_def fs_remove_law_def
    by (elim conjE allE [of _ p] allE [of _ w]) auto
  moreover obtain t where "read_file_text env fl p w' = Inr t"
    using assms(3)
    by (auto simp: remove_failure_was_side_effect_free_def split: option.splits sum.splits)
  then have "files w' p = Some t"
    using read_ok [OF assms(1)] by simp
  ultimately show ?thesis by auto
qed

lemma retry_write_ok:
  assumes laws: "fs_laws env fl files" and plain: "note_existing_path_delta_support env fl p w"
    and run: "write_file_with_missing_parent_retry env fl p t w = (w', Inr u)"
  shows "files w' = (files w)(p \<mapsto> t)"
proof (cases "write_file env fl p t w")
  case (Pair w1 r)
  show ?thesis
  proof (cases r)
    case (Inr u')
    with Pair run have "w' = w1"
      by (simp add: write_file_with_missing_parent_retry_def)
    then show ?thesis using write_ok [OF laws plain] Pair Inr by simp
  next
    case (Inl e)
    have nf: "io_kind e = NotFound"
      using Pair Inl run
      by (simp add: write_file_with_missing_parent_retry_def Let_def split: if_splits)
    note step1 = write_not_found [OF laws plain Pair [unfolded Inl] nf]
    show ?thesis
    proof (cases "parent_uri env p")
      case None
      then have "\<exists>u'. write_file env fl p t w1 = (w', Inr u')"
        using Pair Inl nf run
        by (auto simp: write_file_with_missing_parent_retry_def with_context_def map_prod_def
            split: prod.splits sum.splits)
      then show ?thesis
        using write_ok [OF laws] step1 by metis
    next
      case (Some parent)
      obtain w2 r2 where mk: "create_directory env fl parent w1 = (w2, r2)"
        by (cases "create_directory env fl parent w1")
      obtain u2 where r2: "r2 = Inr u2"
        using Pair Inl nf run Some mk
        by (cases r2) (auto simp: write_file_with_missing_parent_retry_def with_context_def)
      note step2 = mkdir_ok [OF laws Some step1 [THEN conjunct2] mk [unfolded r2]]
      have "\<exists>u'. write_file env fl p t w2 = (w', Inr u')"
        using Pair Inl nf run Some mk r2
        by (auto simp: write_file_with_missing_parent_retry_def with_context_def map_prod_def
            split: prod.splits sum.splits)
      then show ?thesis
        using write_ok [OF laws] step1 step2 by metis
    qed
  qed
qed

lemma read_optional_result:
  assumes "fs_laws env fl files" "read_optional_file_text_for_delta env fl p w d = (d', ov)"
  shows "delta_changes d' = delta_changes d"
    and "delta_exact d' \<Longrightarrow>
      delta_exact d \<and> note_existing_path_delta_support env fl p w \<and> ov = files w p"
proof -
  show "delta_changes d' = delta_changes d"
    using assms(2)
    by (auto simp: read_optional_file_text_for_delta_def Let_def split: sum.splits if_splits)
  show "delta_exact d \<and> note_existing_path_delta_support env fl p w \<and> ov = files w p"
    if "delta_exact d'"
  proof (cases "read_file_text env fl p w")
    case (Inl e)
    then show ?thesis
      using assms(2) that read_not_found [OF assms(1) Inl]
      by (auto simp: read_optional_file_text_for_delta_def Let_def split: if_splits)
  next
    case (Inr t)
    then show ?thesis
      using assms(2) that read_ok [OF assms(1) Inr]
      by (auto simp: read_optional_file_text_for_delta_def Let_def)
  qed
qed

section \<open>Every hunk is recorded and does what it says\<close>

text \<open>\<open>does files m w d w' d' r\<close>: the step is recorded, and an exact success ends in the texts \<open>m\<close>.\<close>

definition does ::
  "('p, 'w) file_view \<Rightarrow> ('p \<Rightarrow> ustring option) option \<Rightarrow> 'w \<Rightarrow> 'p AppliedPatchDelta \<Rightarrow>
   ('p, 'w) hunk_result \<Rightarrow> bool" where
  "does files m w d out =
     (case out of (w', d', r) \<Rightarrow>
        recorded files w d w' d' \<and>
        (case r of Inl _ \<Rightarrow> True | Inr _ \<Rightarrow> delta_exact d' \<longrightarrow> m = Some (files w')))"

lemma apply_add_file_does:
  assumes "fs_laws env fl files"
  shows "does files (Some ((files w)(p \<mapsto> contents))) w d (apply_add_file env fl p contents w d)"
proof -
  obtain d1 ov where read: "read_optional_file_text_for_delta env fl p w d = (d1, ov)"
    by (cases "read_optional_file_text_for_delta env fl p w d")
  note props = read_optional_result [OF assms read]
  obtain w' r where wr: "write_file_with_missing_parent_retry env fl p contents w = (w', r)"
    by (cases "write_file_with_missing_parent_retry env fl p contents w")
  show ?thesis
  proof (cases r)
    case (Inl e)
    then show ?thesis by (auto simp: apply_add_file_def does_def read wr)
  next
    case (Inr u)
    then have "delta_exact d1 \<Longrightarrow> files w' = (files w)(p \<mapsto> contents)"
      using retry_write_ok [OF assms _ wr [unfolded Inr]] props by simp
    then show ?thesis
      using Inr props by (auto simp: apply_add_file_def does_def read wr)
  qed
qed

lemma apply_delete_file_does:
  assumes "fs_laws env fl files"
  shows "does files (case files w p of None \<Rightarrow> None | Some _ \<Rightarrow> Some ((files w)(p := None))) w d
           (apply_delete_file env fl p w d)"
proof (cases "read_file_text env fl p w")
  case (Inl e)
  then show ?thesis
    by (auto simp: apply_delete_file_def Let_def does_def recorded_def
        remove_failure_was_side_effect_free_def split: sum.split prod.split)
next
  case (Inr t)
  note content = read_ok [OF assms Inr]
  show ?thesis
  proof (cases "ensure_not_directory env fl p w")
    case (Inl e)
    then show ?thesis
      using Inr by (auto simp: apply_delete_file_def Let_def does_def with_context_def)
  next
    case ok: (Inr u)
    obtain w' r where rm: "remove_file env fl p w = (w', r)"
      by (cases "remove_file env fl p w")
    show ?thesis
    proof (cases r)
      case (Inl e)
      have "remove_failure_was_side_effect_free env fl p (Some t) w' \<Longrightarrow> files w' = files w"
        using remove_failed [OF assms rm [unfolded Inl]] content by simp
      then show ?thesis
        using Inr ok rm Inl
        by (auto simp: apply_delete_file_def Let_def does_def with_context_def recorded_def
            intro!: exI [of _ "[]"])
    next
      case rem: (Inr u)
      have gone: "files w' = (files w)(p := None)"
        using remove_ok [OF assms rm [unfolded rem]] .
      then show ?thesis
        using Inr ok rm rem content
        by (auto simp: apply_delete_file_def Let_def does_def with_context_def fun_upd_idem
            intro!: recorded_change [where c = "(p, AppliedDelete t)"])
    qed
  qed
qed

lemma remove_moved_original_does:
  assumes laws: "fs_laws env fl files" and orig: "files w p = Some original"
    and ov: "delta_exact d \<Longrightarrow> ov = files w dest"
    and wr: "delta_exact d \<Longrightarrow> files w1 = (files w)(dest \<mapsto> new)"
  shows "does files (Some ((files w)(dest \<mapsto> new, p := None))) w d
           (remove_moved_original env fl p dest original ov new w1 d)"
proof (cases "ensure_not_directory env fl p w1")
  case (Inl e)
  then show ?thesis
    using ov wr
    by (auto simp: remove_moved_original_def Let_def does_def with_context_def
        intro!: recorded_change [where c = "(dest, AppliedAdd new ov)"])
next
  case ok: (Inr u)
  obtain w' r where rm: "remove_file env fl p w1 = (w', r)"
    by (cases "remove_file env fl p w1")
  show ?thesis
  proof (cases r)
    case (Inl e)
    have "remove_failure_was_side_effect_free env fl p (Some original) w' \<Longrightarrow> files w' = files w1"
      using remove_failed [OF laws rm [unfolded Inl]] by simp
    then show ?thesis
      using ok rm Inl ov wr
      by (auto simp: remove_moved_original_def Let_def does_def with_context_def
          intro!: recorded_change [where c = "(dest, AppliedAdd new ov)"])
  next
    case rem: (Inr u)
    have gone: "files w' = (files w1)(p := None)"
      using remove_ok [OF laws rm [unfolded rem]] .
    then show ?thesis
      using ok rm rem ov wr orig
      by (auto simp: remove_moved_original_def Let_def does_def with_context_def
          intro!: recorded_change
            [where c = "(p, AppliedUpdate (Some dest) original ov new)"])
  qed
qed

lemma does_weaken:
  assumes "does files m w d1 out" "delta_changes d1 = delta_changes d"
    "delta_exact d1 \<Longrightarrow> delta_exact d"
  shows "does files m w d out"
  using assms by (auto simp: does_def recorded_def split: prod.splits)

lemma does_moved_file:
  assumes laws: "fs_laws env fl files" and orig: "files w p = Some original"
    and read: "read_optional_file_text_for_delta env fl dest w d = (d1, ov)"
    and wr: "write_file_with_missing_parent_retry env fl dest new w = (w1, Inr u)"
  shows "does files (Some ((files w)(dest \<mapsto> new, p := None))) w d
           (remove_moved_original env fl p dest original ov new w1 d1)"
proof -
  note props = read_optional_result [OF laws read]
  have "does files (Some ((files w)(dest \<mapsto> new, p := None))) w d1
           (remove_moved_original env fl p dest original ov new w1 d1)"
    using props retry_write_ok [OF laws _ wr]
    by (intro remove_moved_original_does [OF laws orig]) auto
  then show ?thesis
    by (rule does_weaken) (use props in auto)
qed

lemma derive_from_chunks_ok:
  assumes "fs_laws env fl files"
    "derive_new_contents_from_chunks env fl p chunks update_mode w = Inr (original, new)"
  shows "files w p = Some original"
    "derive_new_contents (native_path env p) original chunks update_mode = Inr new"
  using assms(2) read_ok [OF assms(1)]
  by (auto simp: derive_new_contents_from_chunks_def split: sum.splits update_failure.splits)

lemma apply_update_file_does:
  assumes laws: "fs_laws env (opt_follow_symlinks opts) files" and p: "join_uri env cwd path = Inr p"
  shows "does files (spec_hunk env (opt_update_file_mode opts) cwd (UpdateFile path mv chunks)
             (files w)) w d
           (apply_update_file env opts cwd p mv chunks w d)"
proof -
  let ?fl = "opt_follow_symlinks opts"
  define d0 where "d0 = restrict_exact (note_existing_path_delta_support env ?fl p w) d"
  let ?m = "spec_hunk env (opt_update_file_mode opts) cwd (UpdateFile path mv chunks) (files w)"
  have "does files ?m w d0 (apply_update_file env opts cwd p mv chunks w d)"
  proof (cases "derive_new_contents_from_chunks env ?fl p chunks (opt_update_file_mode opts) w")
    case (Inl e)
    then show ?thesis by (auto simp: apply_update_file_def d0_def does_def)
  next
    case (Inr pair)
    then obtain original new where derive:
      "derive_new_contents_from_chunks env ?fl p chunks (opt_update_file_mode opts) w =
         Inr (original, new)" by (cases pair) auto
    note texts = derive_from_chunks_ok [OF laws derive]
    show ?thesis
    proof (cases mv)
      case None
      obtain w' r where wr: "write_file env ?fl p new w = (w', r)"
        by (cases "write_file env ?fl p new w")
      show ?thesis
      proof (cases r)
        case (Inl e)
        then show ?thesis
          using None derive wr by (auto simp: apply_update_file_def does_def)
      next
        case (Inr u)
        then have "delta_exact d0 \<Longrightarrow> files w' = (files w)(p \<mapsto> new)"
          using write_ok [OF laws _ wr [unfolded Inr]] by (simp add: d0_def)
        then show ?thesis
          using None derive wr Inr texts p
          by (auto simp: apply_update_file_def does_def d0_def [symmetric] spec_hunk_def
              intro!: recorded_change [where c = "(p, AppliedUpdate None original None new)"])
      qed
    next
      case (Some dest)
      show ?thesis
      proof (cases "join_uri env cwd dest")
        case (Inl e)
        then show ?thesis
          using Some derive by (auto simp: apply_update_file_def does_def d0_def)
      next
        case (Inr q)
        obtain d1 ov where read: "read_optional_file_text_for_delta env ?fl q w d0 = (d1, ov)"
          by (cases "read_optional_file_text_for_delta env ?fl q w d0")
        obtain w1 r where wr: "write_file_with_missing_parent_retry env ?fl q new w = (w1, r)"
          by (cases "write_file_with_missing_parent_retry env ?fl q new w")
        have m: "?m = Some ((files w)(q \<mapsto> new, p := None))"
          using p texts Some Inr by (simp add: spec_hunk_def)
        have run: "apply_update_file env opts cwd p mv chunks w d =
            (case r of Inl e \<Rightarrow> (w1, restrict_exact False d1, Inl e)
             | Inr _ \<Rightarrow> remove_moved_original env ?fl p q original ov new w1 d1)"
          using Some Inr derive wr read
          by (simp add: apply_update_file_def d0_def [symmetric] split: sum.split)
        show ?thesis
        proof (cases r)
          case (Inl e)
          then show ?thesis unfolding run by (auto simp: does_def)
        next
          case done2: (Inr u)
          show ?thesis
            unfolding run m
            using done2 does_moved_file [OF laws texts(1) read wr [unfolded done2]] by simp
        qed
      qed
    qed
  qed
  then show ?thesis
    by (rule does_weaken) (auto simp: d0_def)
qed

lemma apply_hunk_does:
  assumes "fs_laws env (opt_follow_symlinks opts) files"
  shows "does files (spec_hunk env (opt_update_file_mode opts) cwd h (files w)) w d
           (apply_hunk env opts cwd h w d)"
proof (cases "join_uri env cwd (hunk_path h)")
  case (Inl e)
  then show ?thesis by (auto simp: apply_hunk_def resolve_path_def does_def)
next
  case (Inr p)
  show ?thesis
  proof (cases h)
    case (AddFile path contents)
    then show ?thesis
      using Inr apply_add_file_does [OF assms]
      by (simp add: apply_hunk_def resolve_path_def spec_hunk_def)
  next
    case (DeleteFile path)
    then show ?thesis
      using Inr apply_delete_file_does [OF assms, of w p d]
      by (simp add: apply_hunk_def resolve_path_def spec_hunk_def cong: option.case_cong)
  next
    case (UpdateFile path mv chunks)
    then show ?thesis
      using Inr apply_update_file_does [OF assms, of cwd path p]
      by (simp add: apply_hunk_def resolve_path_def)
  qed
qed

lemma hunk_loop_does:
  assumes "fs_laws env (opt_follow_symlinks opts) files"
    "hunk_loop env opts cwd hs a w d = (w', d', r)"
  shows "recorded files w d w' d'"
    and "is_ok r \<Longrightarrow> delta_exact d' \<Longrightarrow>
      spec_hunks env (opt_update_file_mode opts) cwd hs (files w) = Some (files w')"
proof -
  have "recorded files w d w' d' \<and> (is_ok r \<longrightarrow> delta_exact d' \<longrightarrow>
      spec_hunks env (opt_update_file_mode opts) cwd hs (files w) = Some (files w'))"
    using assms(2)
  proof (induction hs arbitrary: a w d)
    case Nil
    then show ?case by (auto simp: is_ok_def)
  next
    case (Cons h hs)
    obtain w1 d1 r1 where step: "apply_hunk env opts cwd h w d = (w1, d1, r1)"
      by (cases "apply_hunk env opts cwd h w d")
    note does1 = apply_hunk_does [OF assms(1), of cwd h w d, unfolded step does_def prod.case]
    show ?case
    proof (cases r1)
      case (Inl e)
      then show ?thesis using Cons.prems step does1 by (auto simp: is_ok_def)
    next
      case (Inr u)
      then have rest: "hunk_loop env opts cwd hs (note_affected h a) w1 d1 = (w', d', r)"
        using Cons.prems step by simp
      note ih = Cons.IH [OF this]
      have "delta_exact d' \<Longrightarrow> delta_exact d1"
        using ih by (auto simp: recorded_def)
      then show ?thesis
        using ih does1 Inr recorded_trans [of files w d w1 d1 w' d'] by auto
    qed
  qed
  then show "recorded files w d w' d'"
    and "is_ok r \<Longrightarrow> delta_exact d' \<Longrightarrow>
      spec_hunks env (opt_update_file_mode opts) cwd hs (files w) = Some (files w')" by auto
qed

lemma write_lines_files:
  assumes "\<And>t w. files (fst (out t w)) = files w"
  shows "files (fst (write_lines out ls w)) = files w"
proof (induction ls arbitrary: w)
  case (Cons l ls)
  then show ?case
    using assms [of "l @ [nl]" w] by (auto split: prod.split sum.split)
qed simp

lemma output_files:
  assumes "fs_laws env fl files"
  shows "files (fst (print_summary (write_stdout env) a w)) = files w"
    and "files (fst (write_lines (write_stderr env) ls w)) = files w"
  using assms unfolding fs_laws_def fs_output_law_def print_summary_def
  by (auto intro!: write_lines_files)

text \<open>The delta a run reports, on success and on failure.\<close>

fun outcome_delta :: "('p ApplyPatchFailure, 'p AppliedPatchDelta) result \<Rightarrow> 'p AppliedPatchDelta" where
  "outcome_delta (Inl (e, d)) = d"
| "outcome_delta (Inr d) = d"

lemma apply_hunks_to_files_does:
  assumes "fs_laws env (opt_follow_symlinks opts) files"
    "apply_hunks_to_files env opts cwd hs w d = (w', d', r)"
  shows "recorded files w d w' d'"
    and "is_ok r \<Longrightarrow> delta_exact d' \<Longrightarrow>
      spec_hunks env (opt_update_file_mode opts) cwd hs (files w) = Some (files w')"
  using assms(2) hunk_loop_does [OF assms(1)]
  by (auto simp: apply_hunks_to_files_def is_ok_def split: if_splits)

lemma apply_hunks_with_options_does:
  assumes laws: "fs_laws env (opt_follow_symlinks opts) files"
    and run: "apply_hunks_with_options env opts cwd hs w = (w', r)"
  shows "recorded files w empty_delta w' (outcome_delta r)"
    and "is_ok r \<Longrightarrow> delta_exact (outcome_delta r) \<Longrightarrow>
      spec_hunks env (opt_update_file_mode opts) cwd hs (files w) = Some (files w')"
proof -
  obtain w1 d1 r1 where files: "apply_hunks_to_files env opts cwd hs w empty_delta = (w1, d1, r1)"
    by (cases "apply_hunks_to_files env opts cwd hs w empty_delta")
  note does1 = apply_hunks_to_files_does [OF laws files]
  have "files w' = files w1 \<and> outcome_delta r = d1 \<and> (is_ok r \<longrightarrow> is_ok r1)"
  proof (cases r1)
    case (Inl e)
    obtain w2 r2 where out: "write_lines (write_stderr env) [anyhow_display e] w1 = (w2, r2)"
      by (cases "write_lines (write_stderr env) [anyhow_display e] w1")
    have "files w2 = files w1"
      using output_files(2) [OF laws, of "[anyhow_display e]" w1] by (simp only: out fst_conv)
    moreover have "w' = w2 \<and> outcome_delta r = d1 \<and> \<not> is_ok r"
      using run files Inl out
      by (cases r2) (auto simp: apply_hunks_with_options_def is_ok_def simp del: write_lines.simps)
    ultimately show ?thesis by simp
  next
    case (Inr a)
    obtain w2 r2 where out: "print_summary (write_stdout env) a w1 = (w2, r2)"
      by (cases "print_summary (write_stdout env) a w1")
    have "files w2 = files w1"
      using output_files(1) [OF laws, of a w1] out by simp
    moreover have "w' = w2 \<and> outcome_delta r = d1"
      using run files Inr out
      by (cases r2) (auto simp: apply_hunks_with_options_def)
    ultimately show ?thesis using Inr by (simp add: is_ok_def)
  qed
  then have w': "files w' = files w1" and d: "outcome_delta r = d1"
    and ok: "is_ok r \<Longrightarrow> is_ok r1" by auto
  show "recorded files w empty_delta w' (outcome_delta r)"
    using does1(1) w' d by (auto simp: recorded_def)
  show "is_ok r \<Longrightarrow> delta_exact (outcome_delta r) \<Longrightarrow>
      spec_hunks env (opt_update_file_mode opts) cwd hs (files w) = Some (files w')"
    using does1(2) w' d ok by simp
qed

lemma apply_patch_with_options_does:
  assumes laws: "fs_laws env (opt_follow_symlinks opts) files"
    and run: "apply_patch_with_options env opts cwd patch w = (w', r)"
  shows "recorded files w empty_delta w' (outcome_delta r)"
proof (cases "parse_patch patch")
  case (Inr source)
  then show ?thesis
    using run apply_hunks_with_options_does(1) [OF laws] by (simp add: apply_patch_with_options_def)
next
  case (Inl e)
  obtain w2 r2 where out: "write_lines (write_stderr env) [parse_error_report e] w = (w2, r2)"
    by (cases "write_lines (write_stderr env) [parse_error_report e] w")
  have "files w2 = files w"
    using output_files(2) [OF laws, of "[parse_error_report e]" w] by (simp only: out fst_conv)
  moreover have "w' = w2 \<and> outcome_delta r = empty_delta"
    using run Inl out
    by (cases r2) (auto simp: apply_patch_with_options_def simp del: write_lines.simps)
  ultimately show ?thesis by (intro recorded_refl) simp_all
qed

section \<open>An in-memory environment\<close>

text \<open>An environment that satisfies the laws: a finite set of files, every path writable, no
  symbolic links. It instantiates the parameters at concrete runs.\<close>

record mem_world =
  mem_files :: "ustring \<Rightarrow> ustring option"
  mem_stdout :: ustring
  mem_stderr :: ustring

definition mem_not_found :: io_error where
  "mem_not_found = \<lparr>io_kind = NotFound, io_message = lit ''No such file or directory''\<rparr>"

definition mem_env :: "(ustring, mem_world) fs_env" where
  "mem_env = \<lparr>
     join_uri = (\<lambda>cwd p. Inr (cwd @ lit ''/'' @ p)),
     parent_uri = (\<lambda>p. Some (rev (tl (dropWhile (\<lambda>c. c \<noteq> 47) (rev p))))),
     native_path = (\<lambda>p. p),
     read_file_text = (\<lambda>fl p w. case mem_files w p of None \<Rightarrow> Inl mem_not_found | Some t \<Rightarrow> Inr t),
     write_file = (\<lambda>fl p t w. (w\<lparr>mem_files := (mem_files w)(p \<mapsto> t)\<rparr>, Inr ())),
     create_directory = (\<lambda>fl p w. (w, Inr ())),
     get_metadata = (\<lambda>fl p w. case mem_files w p of
         None \<Rightarrow> Inl mem_not_found
       | Some t \<Rightarrow> Inr \<lparr>md_is_directory = False, md_is_file = True, md_is_symlink = False\<rparr>),
     remove_file = (\<lambda>fl p w. case mem_files w p of
         None \<Rightarrow> (w, Inl mem_not_found)
       | Some t \<Rightarrow> (w\<lparr>mem_files := (mem_files w)(p := None)\<rparr>, Inr ())),
     write_stdout = (\<lambda>t w. (w\<lparr>mem_stdout := mem_stdout w @ t\<rparr>, Inr ())),
     write_stderr = (\<lambda>t w. (w\<lparr>mem_stderr := mem_stderr w @ t\<rparr>, Inr ()))\<rparr>"

lemma mem_env_laws: "fs_laws mem_env fl mem_files"
  by (auto simp: fs_laws_def fs_read_law_def fs_write_law_def fs_mkdir_law_def fs_remove_law_def
      fs_output_law_def mem_env_def mem_not_found_def split: option.split)

definition mem_world_of :: "(ustring \<times> ustring) list \<Rightarrow> mem_world" where
  "mem_world_of fs = \<lparr>mem_files = map_of fs, mem_stdout = [], mem_stderr = []\<rparr>"

definition sample_world :: mem_world where
  "sample_world = mem_world_of [(lit ''/r/b'', lit ''old'' @ [nl])]"

definition sample_patch :: "string \<Rightarrow> ustring" where
  "sample_patch updated = join [nl] [lit ''*** Begin Patch'', lit ''*** Add File: a'', lit ''+x'',
     lit ''*** Update File: '' @ lit updated, lit ''@@'', lit ''-old'', lit ''+new'',
     lit ''*** End Patch'']"

definition sample_run ::
  "string \<Rightarrow> mem_world \<times> (ustring ApplyPatchFailure, ustring AppliedPatchDelta) result" where
  "sample_run updated =
     apply_patch_with_options mem_env default_options (lit ''/r'') (sample_patch updated) sample_world"

section \<open>Properties\<close>

text \<open>C1: Whenever the delta that a run reports is exact, on success as well as after a failure
  half-way, it is the truth about the file system: replaying its changes on the texts the files had
  before gives the texts they have now, and undoing them in reverse order on the texts they have
  now gives back the texts they had before.\<close>

theorem exact_delta_is_faithful:
  assumes "fs_laws env (opt_follow_symlinks opts) files"
    and "apply_patch_with_options env opts cwd patch w = (w', r)"
    and "delta_exact (outcome_delta r)"
  shows "files w' = replay_changes (delta_changes (outcome_delta r)) (files w) \<and>
    files w = undo_changes (delta_changes (outcome_delta r)) (files w')"
proof -
  obtain cs where "delta_changes (outcome_delta r) = delta_changes empty_delta @ cs"
    and steps: "files w' = replay_changes cs (files w)" "files w = undo_changes cs (files w')"
    using apply_patch_with_options_does [OF assms(1,2)] assms(3) unfolding recorded_def by blast
  then have cs: "delta_changes (outcome_delta r) = cs" by (simp add: empty_delta_def)
  show ?thesis unfolding cs by (intro conjI steps)
qed

text \<open>The witness is a run that adds a file and then fails to update a missing one.\<close>

theorem exact_delta_is_faithful_witness:
  "(case sample_run ''missing'' of (w', r) \<Rightarrow>
      \<not> is_ok r \<and> delta_exact (outcome_delta r) \<and>
      delta_changes (outcome_delta r) = [(lit ''/r/a'', AppliedAdd (lit ''x'' @ [nl]) None)] \<and>
      mem_files w' =
        replay_changes (delta_changes (outcome_delta r)) (mem_files sample_world) \<and>
      mem_files sample_world =
        undo_changes (delta_changes (outcome_delta r)) (mem_files w'))"
proof -
  have ev: "\<not> is_ok (snd (sample_run ''missing''))"
    "delta_exact (outcome_delta (snd (sample_run ''missing'')))"
    "delta_changes (outcome_delta (snd (sample_run ''missing''))) =
       [(lit ''/r/a'', AppliedAdd (lit ''x'' @ [nl]) None)]"
    by code_simp+
  have "apply_patch_with_options mem_env default_options (lit ''/r'') (sample_patch ''missing'')
      sample_world = (fst (sample_run ''missing''), snd (sample_run ''missing''))"
    by (simp add: sample_run_def)
  note faithful = exact_delta_is_faithful [OF mem_env_laws this ev(2)]
  show ?thesis
    unfolding case_prod_unfold by (intro conjI ev faithful [THEN conjunct1] faithful [THEN conjunct2])
qed

text \<open>C18: A run that succeeds with an exact delta implements the patch: the patch parsed, and the
  texts of all files afterwards are the ones the hunks prescribe, taken in order.\<close>

theorem apply_patch_refines_hunks:
  assumes "fs_laws env (opt_follow_symlinks opts) files"
    and "apply_patch_with_options env opts cwd patch w = (w', Inr d)"
    and "delta_exact d"
  shows "\<exists>source. parse_patch patch = Inr source \<and>
    spec_hunks env (opt_update_file_mode opts) cwd (args_hunks source) (files w) = Some (files w')"
proof (cases "parse_patch patch")
  case (Inr source)
  then show ?thesis
    using assms(2,3) apply_hunks_with_options_does(2) [OF assms(1), of cwd "args_hunks source" w w' "Inr d"]
    by (simp add: apply_patch_with_options_def is_ok_def)
next
  case (Inl e)
  then show ?thesis
    using assms(2) by (auto simp: apply_patch_with_options_def split: prod.splits sum.splits)
qed

theorem apply_patch_refines_hunks_witness:
  "(case sample_run ''b'' of (w', r) \<Rightarrow>
      is_ok r \<and> delta_exact (outcome_delta r) \<and>
      mem_files w' (lit ''/r/b'') = Some (lit ''new'' @ [nl]) \<and>
      (\<exists>source. parse_patch (sample_patch ''b'') = Inr source \<and>
         spec_hunks mem_env NormalizeToLf (lit ''/r'') (args_hunks source)
           (mem_files sample_world) = Some (mem_files w')))"
proof -
  have ev: "is_ok (snd (sample_run ''b''))"
    "delta_exact (outcome_delta (snd (sample_run ''b'')))"
    "mem_files (fst (sample_run ''b'')) (lit ''/r/b'') = Some (lit ''new'' @ [nl])"
    by code_simp+
  obtain d where d: "snd (sample_run ''b'') = Inr d"
    using ev(1) by (auto simp: is_ok_def split: sum.splits)
  then have run: "apply_patch_with_options mem_env default_options (lit ''/r'') (sample_patch ''b'')
      sample_world = (fst (sample_run ''b''), Inr d)"
    by (simp add: sample_run_def prod_eq_iff)
  show ?thesis
    using apply_patch_refines_hunks [OF mem_env_laws run] ev d
    by (simp add: case_prod_unfold default_options_def)
qed

end
