(* ===== verification/Path_Convention.thy ===== *)
theory Path_Convention
  imports Rust_Prelude
begin

text \<open>
  The two path syntaxes of \<open>utils/path-uri/src/lib.rs\<close>: POSIX paths separate their segments with slashes,
  Windows paths with slashes and backslashes.
\<close>

datatype PathConvention = Posix | Windows

text \<open>\<open>str::split\<close> with a predicate.\<close>

fun split_by :: "('a \<Rightarrow> bool) \<Rightarrow> 'a list \<Rightarrow> 'a list list" where
  "split_by P [] = [[]]"
| "split_by P (x # xs) =
     (if P x then [] # split_by P xs
      else (case split_by P xs of [] \<Rightarrow> [[x]] | l # ls \<Rightarrow> (x # l) # ls))"

definition path_segments :: "PathConvention \<Rightarrow> ustring \<Rightarrow> ustring list" where
  "path_segments convention path =
     split_by (\<lambda>c. case convention of Posix \<Rightarrow> c = 47 | Windows \<Rightarrow> c = 47 \<or> c = 92) path"

end
