(* ===== verification/Invocation.thy ===== *)
theory Invocation
  imports Apply_Hunks Path_Convention
begin

text \<open>
  Recognising an \<open>apply_patch\<close> command line and verifying what it would do, after
  \<open>apply-patch/src/invocation.rs\<close>: the shell forms, the use made of the Tree-sitter query, the
  refusal of a bare patch body, and the verification that reads the current files and computes
  the change of every path that is shown to the user for approval.

  Tree-sitter with its query, the path convention of a URI and the textual diff are services: they
  are the record \<open>invocation_env\<close>.
\<close>

section \<open>Command lines\<close>

definition APPLY_PATCH_COMMANDS :: "ustring list" where
  "APPLY_PATCH_COMMANDS = [lit ''apply_patch'', lit ''applypatch'']"

datatype ApplyPatchShell = Unix | PowerShell | Cmd

datatype ExtractHeredocError =
    CommandDidNotStartWithApplyPatch
  | FailedToLoadBashGrammar
  | HeredocNotUtf8
  | FailedToParsePatchIntoAst
  | FailedToFindHeredocBody

datatype MaybeApplyPatch =
    ParsedBody ApplyPatchArgs
  | ParsedShellError ExtractHeredocError
  | ParsedPatchError ParseError
  | ParsedNotApplyPatch

text \<open>One match of the query: the captures by name, each with its text unless it is not UTF-8.\<close>

type_synonym query_match = "(ustring \<times> ustring option) list"

record 'p invocation_env =
  cwd_path_convention :: "'p \<Rightarrow> PathConvention option"
  bash_query_matches :: "ustring \<Rightarrow> (ExtractHeredocError, query_match list) result"
  unified_diff_text :: "ustring \<Rightarrow> ustring \<Rightarrow> ustring"

definition classify_shell_name :: "ustring \<Rightarrow> PathConvention \<Rightarrow> ustring option" where
  "classify_shell_name shell convention =
     (case last_opt (path_segments convention shell) of
        None \<Rightarrow> None
      | Some basename \<Rightarrow>
          Some (to_ascii_lowercase
            (case rsplit_once 46 basename of
               Some (stem, _) \<Rightarrow> if stem \<noteq> [] then stem else basename
             | None \<Rightarrow> basename)))"

definition classify_shell ::
  "ustring \<Rightarrow> ustring \<Rightarrow> PathConvention \<Rightarrow> ApplyPatchShell option" where
  "classify_shell shell flag convention =
     Option.bind (classify_shell_name shell convention) (\<lambda>name.
       if name \<in> set [lit ''bash'', lit ''zsh'', lit ''sh''] \<and> flag \<in> set [lit ''-lc'', lit ''-c'']
       then Some Unix
       else if name \<in> set [lit ''pwsh'', lit ''powershell''] \<and>
               eq_ignore_ascii_case flag (lit ''-command'')
       then Some PowerShell
       else if name = lit ''cmd'' \<and> eq_ignore_ascii_case flag (lit ''/c'') then Some Cmd
       else None)"

definition can_skip_flag :: "ustring \<Rightarrow> ustring \<Rightarrow> PathConvention \<Rightarrow> bool" where
  "can_skip_flag shell flag convention =
     is_some_and (classify_shell_name shell convention)
       (\<lambda>name. name \<in> set [lit ''pwsh'', lit ''powershell''] \<and>
               eq_ignore_ascii_case flag (lit ''-noprofile''))"

definition parse_shell_script ::
  "'p invocation_env \<Rightarrow> ustring list \<Rightarrow> 'p \<Rightarrow> (ApplyPatchShell \<times> ustring) option" where
  "parse_shell_script ienv argv cwd =
     (case cwd_path_convention ienv cwd of
        None \<Rightarrow> None
      | Some convention \<Rightarrow>
          (case argv of
             [shell, flag, script] \<Rightarrow>
               map_option (\<lambda>shell_type. (shell_type, script)) (classify_shell shell flag convention)
           | [shell, skip_flag, flag, script] \<Rightarrow>
               if \<not> can_skip_flag shell skip_flag convention then None
               else map_option (\<lambda>shell_type. (shell_type, script))
                      (classify_shell shell flag convention)
           | _ \<Rightarrow> None))"

text \<open>The quotes of a raw string.\<close>

definition strip_quotes :: "ustring \<Rightarrow> ustring" where
  "strip_quotes raw =
     (case strip_prefix [39] raw of
        None \<Rightarrow> raw
      | Some s \<Rightarrow> (case strip_suffix_char 39 s of None \<Rightarrow> raw | Some t \<Rightarrow> t))"

text \<open>The captures of one match: the heredoc text and the \<open>cd\<close> path, later captures winning.\<close>

fun read_captures ::
  "query_match \<Rightarrow> ustring option \<Rightarrow> ustring option \<Rightarrow>
   (ExtractHeredocError, ustring option \<times> ustring option) result" where
  "read_captures [] heredoc cd = Inr (heredoc, cd)"
| "read_captures ((name, text) # cs) heredoc cd =
     (if name = lit ''heredoc'' then
        (case text of
           None \<Rightarrow> Inl HeredocNotUtf8
         | Some t \<Rightarrow> read_captures cs (Some (trim_end_char nl t)) cd)
      else if name = lit ''cd_path'' then
        (case text of None \<Rightarrow> Inl HeredocNotUtf8 | Some t \<Rightarrow> read_captures cs heredoc (Some t))
      else if name = lit ''cd_raw_string'' then
        (case text of
           None \<Rightarrow> Inl HeredocNotUtf8
         | Some t \<Rightarrow> read_captures cs heredoc (Some (strip_quotes t)))
      else read_captures cs heredoc cd)"

fun read_matches ::
  "query_match list \<Rightarrow> (ExtractHeredocError, ustring \<times> ustring option) result" where
  "read_matches [] = Inl CommandDidNotStartWithApplyPatch"
| "read_matches (m # ms) =
     and_then (read_captures m None None)
       (\<lambda>(heredoc, cd). case heredoc of Some h \<Rightarrow> Inr (h, cd) | None \<Rightarrow> read_matches ms)"

definition extract_apply_patch_from_bash ::
  "'p invocation_env \<Rightarrow> ustring \<Rightarrow> (ExtractHeredocError, ustring \<times> ustring option) result" where
  "extract_apply_patch_from_bash ienv script = and_then (bash_query_matches ienv script) read_matches"

definition extract_apply_patch_from_shell ::
  "'p invocation_env \<Rightarrow> ApplyPatchShell \<Rightarrow> ustring \<Rightarrow>
   (ExtractHeredocError, ustring \<times> ustring option) result" where
  "extract_apply_patch_from_shell ienv shell script =
     (case shell of
        Unix \<Rightarrow> extract_apply_patch_from_bash ienv script
      | PowerShell \<Rightarrow> extract_apply_patch_from_bash ienv script
      | Cmd \<Rightarrow> extract_apply_patch_from_bash ienv script)"

definition maybe_parse_shell_patch ::
  "'p invocation_env \<Rightarrow> ustring list \<Rightarrow> 'p \<Rightarrow> MaybeApplyPatch" where
  "maybe_parse_shell_patch ienv argv cwd =
     (case parse_shell_script ienv argv cwd of
        None \<Rightarrow> ParsedNotApplyPatch
      | Some (shell, script) \<Rightarrow>
          (case extract_apply_patch_from_shell ienv shell script of
             Inr (body, workdir) \<Rightarrow>
               (case parse_patch body of
                  Inr source \<Rightarrow> ParsedBody (source\<lparr>args_workdir := workdir\<rparr>)
                | Inl e \<Rightarrow> ParsedPatchError e)
           | Inl CommandDidNotStartWithApplyPatch \<Rightarrow> ParsedNotApplyPatch
           | Inl e \<Rightarrow> ParsedShellError e))"

definition maybe_parse_apply_patch ::
  "'p invocation_env \<Rightarrow> ustring list \<Rightarrow> 'p \<Rightarrow> MaybeApplyPatch" where
  "maybe_parse_apply_patch ienv argv cwd =
     (case argv of
        [cmd, body] \<Rightarrow>
          if cmd \<in> set APPLY_PATCH_COMMANDS
          then (case parse_patch body of
                  Inr source \<Rightarrow> ParsedBody source
                | Inl e \<Rightarrow> ParsedPatchError e)
          else maybe_parse_shell_patch ienv argv cwd
      | _ \<Rightarrow> maybe_parse_shell_patch ienv argv cwd)"

section \<open>Verification\<close>

datatype 'p ApplyPatchFileChange =
    ChangeAdd ustring
  | ChangeDelete ustring
  | ChangeUpdate ustring "'p option" ustring

text \<open>The changes are a hash map by path. A key is never inserted twice, so the association list in
  insertion order is that map.\<close>

record 'p ApplyPatchAction =
  action_changes :: "('p \<times> 'p ApplyPatchFileChange) list"
  action_update_file_mode :: ApplyPatchFileUpdateMode
  action_patch :: ustring
  action_cwd :: 'p

datatype 'p MaybeApplyPatchVerified =
    VerifiedBody "'p ApplyPatchAction"
  | VerifiedShellParseError ExtractHeredocError
  | VerifiedCorrectnessError ApplyPatchError
  | VerifiedNotApplyPatch

record ApplyPatchFileUpdate =
  update_unified_diff :: ustring
  update_original_content :: ustring
  update_content :: ustring

definition unified_diff_from_chunks_with_mode ::
  "('p, 'w) fs_env \<Rightarrow> 'p invocation_env \<Rightarrow> 'p \<Rightarrow> UpdateFileChunk list \<Rightarrow>
   ApplyPatchFileUpdateMode \<Rightarrow> 'w \<Rightarrow> (ApplyPatchError, ApplyPatchFileUpdate) result" where
  "unified_diff_from_chunks_with_mode env ienv p chunks update_mode w =
     and_then (derive_new_contents_from_chunks env True p chunks update_mode w)
       (\<lambda>(original, new).
          Inr \<lparr>update_unified_diff = unified_diff_text ienv original new,
               update_original_content = original, update_content = new\<rparr>)"

text \<open>The joined destination of a rename: \<open>map\<close> followed by \<open>transpose\<close>.\<close>

definition join_optional ::
  "('p, 'w) fs_env \<Rightarrow> 'p \<Rightarrow> ustring option \<Rightarrow> (ApplyPatchError, 'p option) result" where
  "join_optional env cwd path =
     (case path of
        None \<Rightarrow> Inr None
      | Some s \<Rightarrow>
          (case join_uri env cwd s of Inl e \<Rightarrow> Inl (PatchPathUri e) | Inr p \<Rightarrow> Inr (Some p)))"

definition verify_hunk ::
  "('p, 'w) fs_env \<Rightarrow> 'p invocation_env \<Rightarrow> ApplyPatchFileUpdateMode \<Rightarrow> 'p \<Rightarrow> 'w \<Rightarrow> 'p \<Rightarrow> Hunk \<Rightarrow>
   (ApplyPatchError, 'p ApplyPatchFileChange) result" where
  "verify_hunk env ienv update_mode cwd w p h =
     (case h of
        AddFile _ contents \<Rightarrow> Inr (ChangeAdd contents)
      | DeleteFile _ \<Rightarrow>
          (case read_file_text env True p w of
             Inl e \<Rightarrow> Inl (PatchIoError (lit ''Failed to read '' @ native_path env p) e)
           | Inr content \<Rightarrow> Inr (ChangeDelete content))
      | UpdateFile _ move_path chunks \<Rightarrow>
          and_then (unified_diff_from_chunks_with_mode env ienv p chunks update_mode w)
            (\<lambda>u. and_then (join_optional env cwd move_path)
               (\<lambda>dest. Inr (ChangeUpdate (update_unified_diff u) dest (update_content u)))))"

fun verify_loop ::
  "('p, 'w) fs_env \<Rightarrow> 'p invocation_env \<Rightarrow> ApplyPatchFileUpdateMode \<Rightarrow> 'p \<Rightarrow> 'w \<Rightarrow> Hunk list \<Rightarrow>
   ('p \<times> 'p ApplyPatchFileChange) list \<Rightarrow>
   (ApplyPatchError, ('p \<times> 'p ApplyPatchFileChange) list) result" where
  "verify_loop env ienv update_mode cwd w [] changes = Inr changes"
| "verify_loop env ienv update_mode cwd w (h # hs) changes =
     (case resolve_path env cwd h of
        Inl e \<Rightarrow> Inl (PatchPathUri e)
      | Inr p \<Rightarrow>
          if p \<in> set (map fst changes)
          then Inl (PatchParseError (InvalidPatchError
                 (lit ''multiple operations target '' @ native_path env p)))
          else and_then (verify_hunk env ienv update_mode cwd w p h)
                 (\<lambda>c. verify_loop env ienv update_mode cwd w hs (changes @ [(p, c)])))"

definition try_verify_apply_patch_args ::
  "('p, 'w) fs_env \<Rightarrow> 'p invocation_env \<Rightarrow> ApplyPatchArgs \<Rightarrow> 'p \<Rightarrow> ApplyPatchFileUpdateMode \<Rightarrow>
   'w \<Rightarrow> (ApplyPatchError, 'p ApplyPatchAction) result" where
  "try_verify_apply_patch_args env ienv args cwd update_mode w =
     and_then (join_optional env cwd (args_workdir args)) (\<lambda>dir.
       let effective_cwd = (case dir of Some d \<Rightarrow> d | None \<Rightarrow> cwd)
       in and_then (verify_loop env ienv update_mode effective_cwd w (args_hunks args) [])
            (\<lambda>changes. Inr \<lparr>action_changes = changes, action_update_file_mode = update_mode,
                            action_patch = args_patch args, action_cwd = effective_cwd\<rparr>))"

definition verify_apply_patch_args_with_mode ::
  "('p, 'w) fs_env \<Rightarrow> 'p invocation_env \<Rightarrow> ApplyPatchArgs \<Rightarrow> 'p \<Rightarrow> ApplyPatchFileUpdateMode \<Rightarrow>
   'w \<Rightarrow> 'p MaybeApplyPatchVerified" where
  "verify_apply_patch_args_with_mode env ienv args cwd update_mode w =
     (case try_verify_apply_patch_args env ienv args cwd update_mode w of
        Inr action \<Rightarrow> VerifiedBody action
      | Inl e \<Rightarrow> VerifiedCorrectnessError e)"

definition maybe_parse_apply_patch_verified_with_mode ::
  "('p, 'w) fs_env \<Rightarrow> 'p invocation_env \<Rightarrow> ustring list \<Rightarrow> 'p \<Rightarrow> ApplyPatchFileUpdateMode \<Rightarrow>
   'w \<Rightarrow> 'p MaybeApplyPatchVerified" where
  "maybe_parse_apply_patch_verified_with_mode env ienv argv cwd update_mode w =
     (if (case argv of [body] \<Rightarrow> is_ok (parse_patch body) | _ \<Rightarrow> False)
      then VerifiedCorrectnessError ImplicitInvocation
      else if is_some_and (parse_shell_script ienv argv cwd) (\<lambda>(_, script). is_ok (parse_patch script))
      then VerifiedCorrectnessError ImplicitInvocation
      else (case maybe_parse_apply_patch ienv argv cwd of
              ParsedBody args \<Rightarrow> verify_apply_patch_args_with_mode env ienv args cwd update_mode w
            | ParsedShellError e \<Rightarrow> VerifiedShellParseError e
            | ParsedPatchError e \<Rightarrow> VerifiedCorrectnessError (PatchParseError e)
            | ParsedNotApplyPatch \<Rightarrow> VerifiedNotApplyPatch))"

section \<open>The preview is what is applied\<close>

text \<open>What the approved changes would do to the file texts.\<close>

fun preview_change ::
  "'p \<times> 'p ApplyPatchFileChange \<Rightarrow> ('p \<Rightarrow> ustring option) \<Rightarrow> ('p \<Rightarrow> ustring option)" where
  "preview_change (p, ChangeAdd t) m = m(p \<mapsto> t)"
| "preview_change (p, ChangeDelete t) m = m(p := None)"
| "preview_change (p, ChangeUpdate diff None t) m = m(p \<mapsto> t)"
| "preview_change (p, ChangeUpdate diff (Some q) t) m = (m(q \<mapsto> t))(p := None)"

text \<open>No rename goes to a path that a later hunk operates on.\<close>

fun renames_stay_clear :: "('p, 'w) fs_env \<Rightarrow> 'p \<Rightarrow> Hunk list \<Rightarrow> bool" where
  "renames_stay_clear env cwd [] = True"
| "renames_stay_clear env cwd (h # hs) =
     ((case h of
         UpdateFile _ (Some dest) _ \<Rightarrow>
           list_all (\<lambda>h'. join_uri env cwd dest \<noteq> resolve_path env cwd h') hs
       | _ \<Rightarrow> True) \<and> renames_stay_clear env cwd hs)"

text \<open>The texts \<open>m\<close> agree with the world the verification read, on the paths of the hunks.\<close>

definition agrees_on ::
  "('p, 'w) fs_env \<Rightarrow> ('p, 'w) file_view \<Rightarrow> 'p \<Rightarrow> 'w \<Rightarrow> Hunk list \<Rightarrow> ('p \<Rightarrow> ustring option) \<Rightarrow> bool" where
  "agrees_on env files cwd w hs m \<longleftrightarrow>
     (\<forall>h p. h \<in> set hs \<longrightarrow> resolve_path env cwd h = Inr p \<longrightarrow> m p = files w p)"

lemma join_optional_ok:
  "join_optional env cwd path = Inr dest \<Longrightarrow>
   (case path of None \<Rightarrow> dest = None | Some s \<Rightarrow> \<exists>p. join_uri env cwd s = Inr p \<and> dest = Some p)"
  by (auto simp: join_optional_def split: option.splits sum.splits)

lemma verify_update_ok:
  assumes laws: "fs_laws env True files"
    and ok: "verify_hunk env ienv update_mode cwd w p (UpdateFile path mv chunks) = Inr c"
  obtains original new dest diff where "c = ChangeUpdate diff dest new" "files w p = Some original"
    "derive_new_contents (native_path env p) original chunks update_mode = Inr new"
    "join_optional env cwd mv = Inr dest"
proof -
  obtain original new dest where
    derive: "derive_new_contents_from_chunks env True p chunks update_mode w = Inr (original, new)"
    and "join_optional env cwd mv = Inr dest"
    "c = ChangeUpdate (unified_diff_text ienv original new) dest new"
    using ok
    by (auto simp: verify_hunk_def unified_diff_from_chunks_with_mode_def)
  then show ?thesis
    using that derive_from_chunks_ok [OF laws derive] by blast
qed

lemma preview_matches_spec:
  assumes laws: "fs_laws env True files" and p: "resolve_path env cwd h = Inr p"
    and ok: "verify_hunk env ienv update_mode cwd w p h = Inr c"
    and same: "m p = files w p" and spec: "spec_hunk env update_mode cwd h m = Some m'"
  shows "m' = preview_change (p, c) m"
proof (cases h)
  case (AddFile path contents)
  then show ?thesis
    using p ok spec by (auto simp: resolve_path_def verify_hunk_def spec_hunk_def)
next
  case (DeleteFile path)
  then show ?thesis
    using p ok spec
    by (auto simp: resolve_path_def verify_hunk_def spec_hunk_def split: sum.splits option.splits)
next
  case (UpdateFile path mv chunks)
  obtain original new dest diff where c: "c = ChangeUpdate diff dest new"
    and texts: "files w p = Some original"
    "derive_new_contents (native_path env p) original chunks update_mode = Inr new"
    and dest: "join_optional env cwd mv = Inr dest"
    by (rule verify_update_ok [OF laws ok [unfolded UpdateFile]])
  show ?thesis
    using UpdateFile p same spec texts c join_optional_ok [OF dest]
    by (cases mv) (auto simp: resolve_path_def spec_hunk_def)
qed

lemma preview_change_other:
  assumes ok: "verify_hunk env ienv update_mode cwd w p h = Inr c"
    and "q \<noteq> p" and clear: "\<And>path dest chunks. h = UpdateFile path (Some dest) chunks \<Longrightarrow>
      join_uri env cwd dest \<noteq> Inr q"
  shows "preview_change (p, c) m q = m q"
proof (cases h)
  case (UpdateFile path mv chunks)
  then obtain diff dest new where "c = ChangeUpdate diff dest new" "join_optional env cwd mv = Inr dest"
    using ok by (auto simp: verify_hunk_def)
  then show ?thesis
    using UpdateFile assms(2) clear join_optional_ok [of env cwd mv dest] by (cases mv) auto
qed (use ok assms(2) in \<open>auto simp: verify_hunk_def split: sum.splits\<close>)

lemma agrees_on_step:
  assumes agree: "agrees_on env files cwd w (h # hs) m"
    and ok: "verify_hunk env ienv update_mode cwd w p h = Inr c"
    and fresh: "\<And>h'. h' \<in> set hs \<Longrightarrow> resolve_path env cwd h' \<noteq> Inr p"
    and clear: "renames_stay_clear env cwd (h # hs)"
  shows "agrees_on env files cwd w hs (preview_change (p, c) m)"
  unfolding agrees_on_def
proof (intro allI impI)
  fix h' q
  assume h': "h' \<in> set hs" "resolve_path env cwd h' = Inr q"
  then have "q \<noteq> p" using fresh by auto
  moreover have "\<And>path dest chunks. h = UpdateFile path (Some dest) chunks \<Longrightarrow>
      join_uri env cwd dest \<noteq> Inr q"
    using clear h' by (auto simp: list_all_iff)
  ultimately have "preview_change (p, c) m q = m q"
    by (rule preview_change_other [OF ok])
  then show "preview_change (p, c) m q = files w q"
    using agree h' by (simp add: agrees_on_def)
qed

lemma verify_loop_paths:
  assumes "verify_loop env ienv update_mode cwd w hs changes = Inr changes'"
    "h \<in> set hs" "resolve_path env cwd h = Inr p"
  shows "p \<notin> set (map fst changes)"
  using assms
proof (induction hs arbitrary: changes)
  case (Cons h' hs)
  obtain p' c where "resolve_path env cwd h' = Inr p'" "p' \<notin> set (map fst changes)"
    "verify_loop env ienv update_mode cwd w hs (changes @ [(p', c)]) = Inr changes'"
    using Cons.prems(1) by (auto simp: split: sum.splits if_splits)
  then show ?case
    using Cons.IH [of "changes @ [(p', c)]"] Cons.prems(2,3) by (cases "h = h'") auto
qed simp

lemma verify_loop_preview:
  assumes laws: "fs_laws env True files"
    and "verify_loop env ienv update_mode cwd w hs changes = Inr changes'"
    and "renames_stay_clear env cwd hs" "agrees_on env files cwd w hs m"
    and "spec_hunks env update_mode cwd hs m = Some m'"
  shows "\<exists>new. changes' = changes @ new \<and> m' = fold preview_change new m"
  using assms(2-)
proof (induction hs arbitrary: changes m)
  case (Cons h hs)
  obtain p c where p: "resolve_path env cwd h = Inr p"
    and ok: "verify_hunk env ienv update_mode cwd w p h = Inr c"
    and rest: "verify_loop env ienv update_mode cwd w hs (changes @ [(p, c)]) = Inr changes'"
    using Cons.prems(1) by (auto simp: split: sum.splits if_splits)
  obtain m1 where m1: "spec_hunk env update_mode cwd h m = Some m1"
    and spec: "spec_hunks env update_mode cwd hs m1 = Some m'"
    using Cons.prems(4) by (auto simp: bind_eq_Some_conv)
  have m1_eq: "m1 = preview_change (p, c) m"
    using preview_matches_spec [OF laws p ok _ m1] Cons.prems(3) p by (simp add: agrees_on_def)
  have "\<And>h'. h' \<in> set hs \<Longrightarrow> resolve_path env cwd h' \<noteq> Inr p"
    using verify_loop_paths [OF rest] by fastforce
  then have "agrees_on env files cwd w hs m1"
    unfolding m1_eq using agrees_on_step [OF Cons.prems(3) ok] Cons.prems(2) by blast
  then show ?case
    using Cons.IH [OF rest _ _ spec] Cons.prems(2) m1_eq by auto
qed simp

lemma try_verify_loop:
  assumes "try_verify_apply_patch_args env ienv args cwd update_mode w = Inr action"
  shows "verify_loop env ienv update_mode (action_cwd action) w (args_hunks args) [] =
    Inr (action_changes action)"
  using assms by (auto simp: try_verify_apply_patch_args_def Let_def)

section \<open>Properties\<close>

definition options_for :: "ApplyPatchFileUpdateMode \<Rightarrow> ApplyPatchOptions" where
  "options_for update_mode = default_options\<lparr>opt_update_file_mode := update_mode\<rparr>"

lemma verified_run:
  assumes "fs_laws env True files"
    and "apply_hunks_with_options env (options_for update_mode) cwd hs w = (w', Inr d)" "delta_exact d"
  shows "spec_hunks env update_mode cwd hs (files w) = Some (files w')"
proof -
  have "fs_laws env (opt_follow_symlinks (options_for update_mode)) files"
    using assms(1) by (simp add: options_for_def default_options_def)
  then show ?thesis
    using apply_hunks_with_options_does(2) [OF _ assms(2)] assms(3) by (simp add: options_for_def is_ok_def)
qed

text \<open>C3: What was verified is what is applied. If the verification of a patch succeeded, no rename
  of it goes to a path that a later hunk operates on, and the hunks are then applied to the same
  files with an exact delta, then the files end up exactly as the verified changes say: every added
  and updated file has the announced content, every deleted or moved file is gone, and no other
  file has changed.\<close>

theorem verified_preview_is_applied:
  assumes "fs_laws env True files"
    and "try_verify_apply_patch_args env ienv args cwd update_mode w = Inr action"
    and "renames_stay_clear env (action_cwd action) (args_hunks args)"
    and "apply_hunks_with_options env (options_for update_mode) (action_cwd action)
           (args_hunks args) w = (w', Inr d)"
    and "delta_exact d"
  shows "files w' = fold preview_change (action_changes action) (files w)"
  using verify_loop_preview [OF assms(1) try_verify_loop [OF assms(2)] assms(3) _ verified_run [OF assms(1,4,5)]]
  by (simp add: agrees_on_def)

definition sample_ienv :: "ustring invocation_env" where
  "sample_ienv = \<lparr>cwd_path_convention = (\<lambda>p. Some Posix),
     bash_query_matches = (\<lambda>s. Inr []), unified_diff_text = (\<lambda>a b. [])\<rparr>"

definition sample_args :: ApplyPatchArgs where
  "sample_args = (case parse_patch (sample_patch ''b'') of Inr a \<Rightarrow> a
     | Inl e \<Rightarrow> \<lparr>args_patch = [], args_hunks = [], args_workdir = None, args_environment_id = None\<rparr>)"

definition sample_action :: "ustring ApplyPatchAction" where
  "sample_action =
     \<lparr>action_changes = [(lit ''/r/a'', ChangeAdd (lit ''x'' @ [nl])),
        (lit ''/r/b'', ChangeUpdate [] None (lit ''new'' @ [nl]))],
      action_update_file_mode = NormalizeToLf, action_patch = sample_patch ''b'',
      action_cwd = lit ''/r''\<rparr>"

definition sample_apply ::
  "mem_world \<times> (ustring ApplyPatchFailure, ustring AppliedPatchDelta) result" where
  "sample_apply = apply_hunks_with_options mem_env (options_for NormalizeToLf) (lit ''/r'')
     (args_hunks sample_args) sample_world"

theorem verified_preview_is_applied_witness:
  "try_verify_apply_patch_args mem_env sample_ienv sample_args (lit ''/r'') NormalizeToLf sample_world
     = Inr sample_action \<and>
   is_ok (snd sample_apply) \<and>
   mem_files (fst sample_apply) =
     fold preview_change (action_changes sample_action) (mem_files sample_world)"
proof -
  have verified: "try_verify_apply_patch_args mem_env sample_ienv sample_args (lit ''/r'')
      NormalizeToLf sample_world = Inr sample_action"
    and clear: "renames_stay_clear mem_env (action_cwd sample_action) (args_hunks sample_args)"
    and ok: "is_ok (snd sample_apply)" "delta_exact (outcome_delta (snd sample_apply))"
    by code_simp+
  obtain d where d: "snd sample_apply = Inr d"
    using ok(1) by (auto simp: is_ok_def split: sum.splits)
  then have run: "apply_hunks_with_options mem_env (options_for NormalizeToLf)
      (action_cwd sample_action) (args_hunks sample_args) sample_world = (fst sample_apply, Inr d)"
    by (simp add: sample_apply_def sample_action_def prod_eq_iff)
  have "delta_exact d" using ok d by simp
  note preview = verified_preview_is_applied [OF mem_env_laws verified clear run this]
  show ?thesis by (intro conjI verified ok preview)
qed


text \<open>A patch that moves \<open>a\<close> onto \<open>b\<close> and then updates \<open>b\<close>: announced is \<open>y, keep\<close>, written is \<open>y, new\<close>.\<close>

definition colliding_world :: mem_world where
  "colliding_world = mem_world_of
     [(lit ''/r/a'', lit ''x'' @ [nl] @ lit ''old'' @ [nl]),
      (lit ''/r/b'', lit ''x'' @ [nl] @ lit ''keep'' @ [nl])]"

definition colliding_args :: ApplyPatchArgs where
  "colliding_args = \<lparr>args_patch = [],
     args_hunks =
       [UpdateFile (lit ''a'') (Some (lit ''b''))
          [\<lparr>change_context = None, old_lines = [lit ''old''], new_lines = [lit ''new''],
            context_line_indices = [], is_end_of_file = False\<rparr>],
        UpdateFile (lit ''b'') None
          [\<lparr>change_context = None, old_lines = [lit ''x''], new_lines = [lit ''y''],
            context_line_indices = [], is_end_of_file = False\<rparr>]],
     args_workdir = None, args_environment_id = None\<rparr>"

definition colliding_action :: "ustring ApplyPatchAction" where
  "colliding_action =
     \<lparr>action_changes =
        [(lit ''/r/a'', ChangeUpdate [] (Some (lit ''/r/b'')) (lit ''x'' @ [nl] @ lit ''new'' @ [nl])),
         (lit ''/r/b'', ChangeUpdate [] None (lit ''y'' @ [nl] @ lit ''keep'' @ [nl]))],
      action_update_file_mode = NormalizeToLf, action_patch = [], action_cwd = lit ''/r''\<rparr>"

definition colliding_run ::
  "mem_world \<times> (ustring ApplyPatchFailure, ustring AppliedPatchDelta) result" where
  "colliding_run = apply_hunks_with_options mem_env (options_for NormalizeToLf) (lit ''/r'')
     (args_hunks colliding_args) colliding_world"


text \<open>A verified action has one change per hunk, in the order of the hunks and for the resolved
  source path of each, and no path has two of them: a patch with two operations on one path is
  refused.\<close>

theorem verified_changes_cover_hunks:
  assumes "try_verify_apply_patch_args env ienv args cwd update_mode w = Inr action"
  shows "distinct (map fst (action_changes action)) \<and>
    map (\<lambda>(p, c). Inr p) (action_changes action) =
      map (resolve_path env (action_cwd action)) (args_hunks args)"
proof -
  have "distinct (map fst changes') \<and> (\<exists>new. changes' = changes @ new \<and>
      map (\<lambda>(p, c). Inr p) new = map (resolve_path env cwd') hs)"
    if "verify_loop env ienv update_mode cwd' w hs changes = Inr changes'"
      "distinct (map fst changes)" for cwd' hs changes changes'
    using that
  proof (induction hs arbitrary: changes)
    case (Cons h hs)
    obtain p c where p: "resolve_path env cwd' h = Inr p" "p \<notin> set (map fst changes)"
      and rest: "verify_loop env ienv update_mode cwd' w hs (changes @ [(p, c)]) = Inr changes'"
      using Cons.prems(1) by (auto simp: split: sum.splits if_splits)
    then show ?case using Cons.IH [OF rest] Cons.prems(2) by auto
  qed simp
  from this [OF try_verify_loop [OF assms]] show ?thesis by simp
qed

theorem verified_changes_cover_hunks_witness:
  "distinct (map fst (action_changes sample_action)) \<and>
   map (\<lambda>(p, c). Inr p) (action_changes sample_action) =
     map (resolve_path mem_env (action_cwd sample_action)) (args_hunks sample_args)"
proof -
  have "try_verify_apply_patch_args mem_env sample_ienv sample_args (lit ''/r'')
      NormalizeToLf sample_world = Inr sample_action"
    by code_simp
  then show ?thesis by (rule verified_changes_cover_hunks)
qed

text \<open>A patch body is only ever taken from an explicit invocation: an action is produced for
  \<open>apply_patch <patch>\<close> (or \<open>applypatch\<close>), or for a shell command whose script the query recognises,
  and never for a bare patch given as the command or as the whole shell script.\<close>

theorem verified_body_is_explicit:
  assumes "maybe_parse_apply_patch_verified_with_mode env ienv argv cwd update_mode w =
    VerifiedBody action"
  shows "(\<exists>cmd body source. argv = [cmd, body] \<and> cmd \<in> set APPLY_PATCH_COMMANDS \<and>
            parse_patch body = Inr source \<and> action_patch action = args_patch source) \<or>
    (\<exists>shell script body workdir source. parse_shell_script ienv argv cwd = Some (shell, script) \<and>
       \<not> is_ok (parse_patch script) \<and>
       extract_apply_patch_from_shell ienv shell script = Inr (body, workdir) \<and>
       parse_patch body = Inr source \<and> action_patch action = args_patch source)"
proof -
  obtain args where parsed: "maybe_parse_apply_patch ienv argv cwd = ParsedBody args"
    and verified: "try_verify_apply_patch_args env ienv args cwd update_mode w = Inr action"
    and bare: "\<not> is_some_and (parse_shell_script ienv argv cwd) (\<lambda>(_, script). is_ok (parse_patch script))"
    using assms
    by (auto simp: maybe_parse_apply_patch_verified_with_mode_def
        verify_apply_patch_args_with_mode_def split: if_splits MaybeApplyPatch.splits sum.splits)
  have patch: "action_patch action = args_patch args"
    using verified by (auto simp: try_verify_apply_patch_args_def Let_def)
  consider (direct) cmd body where "argv = [cmd, body]" "cmd \<in> set APPLY_PATCH_COMMANDS"
      "parse_patch body = Inr args"
    | (shell) "maybe_parse_shell_patch ienv argv cwd = ParsedBody args"
    using parsed by (auto simp: maybe_parse_apply_patch_def split: list.splits if_splits sum.splits)
  then show ?thesis
  proof cases
    case direct
    then show ?thesis using patch by blast
  next
    case shell
    then obtain sh script body workdir source where
      "parse_shell_script ienv argv cwd = Some (sh, script)"
      "extract_apply_patch_from_shell ienv sh script = Inr (body, workdir)"
      "parse_patch body = Inr source" "args_patch args = args_patch source"
      by (auto simp: maybe_parse_shell_patch_def split: option.splits sum.splits
          ExtractHeredocError.splits)
    then show ?thesis using patch bare by (auto simp: is_some_and_def)
  qed
qed

theorem verified_body_is_explicit_witness:
  "(\<exists>cmd body source. [lit ''apply_patch'', sample_patch ''b''] = [cmd, body] \<and>
      cmd \<in> set APPLY_PATCH_COMMANDS \<and>
      parse_patch body = Inr source \<and> action_patch sample_action = args_patch source) \<or>
   (\<exists>shell script body workdir source.
      parse_shell_script sample_ienv [lit ''apply_patch'', sample_patch ''b''] (lit ''/r'') =
        Some (shell, script) \<and>
      \<not> is_ok (parse_patch script) \<and>
      extract_apply_patch_from_shell sample_ienv shell script = Inr (body, workdir) \<and>
      parse_patch body = Inr source \<and> action_patch sample_action = args_patch source)"
proof -
  have "maybe_parse_apply_patch_verified_with_mode mem_env sample_ienv
      [lit ''apply_patch'', sample_patch ''b''] (lit ''/r'') NormalizeToLf sample_world =
      VerifiedBody sample_action"
    by code_simp
  then show ?thesis by (rule verified_body_is_explicit)
qed

end
