(* ===== verification/Stream_Text.thy ===== *)
theory Stream_Text
  imports Rust_Prelude
begin

text \<open>
  The interface of the streaming text parsers, after \<open>utils/stream-parser/src/stream_text.rs\<close>: a
  parser takes chunks of text, returns for each the text that is safe to show and the payloads it
  extracted, and is flushed at the end. The locale \<open>stream_text_parser\<close> states what its users
  rely on: the chunks only carry the text, so where they are cut does not matter.
\<close>

record 'x StreamTextChunk =
  visible_text :: ustring
  extracted :: "'x list"

definition empty_chunk :: "'x StreamTextChunk" where
  "empty_chunk = \<lparr>visible_text = [], extracted = []\<rparr>"

definition chunk_is_empty :: "'x StreamTextChunk \<Rightarrow> bool" where
  "chunk_is_empty c \<longleftrightarrow> visible_text c = [] \<and> extracted c = []"

text \<open>Appending a later chunk, as the users of a parser do.\<close>

definition append_chunk :: "'x StreamTextChunk \<Rightarrow> 'x StreamTextChunk \<Rightarrow> 'x StreamTextChunk" where
  "append_chunk a b =
     \<lparr>visible_text = visible_text a @ visible_text b, extracted = extracted a @ extracted b\<rparr>"

lemma append_chunk_simps [simp]:
  "visible_text (append_chunk a b) = visible_text a @ visible_text b"
  "extracted (append_chunk a b) = extracted a @ extracted b"
  "visible_text empty_chunk = []" "extracted empty_chunk = []"
  by (simp_all add: append_chunk_def empty_chunk_def)

lemma append_chunk_empty [simp]:
  "append_chunk empty_chunk c = c" "append_chunk c empty_chunk = c"
  by (simp_all add: append_chunk_def empty_chunk_def)

lemma append_chunk_cancel [simp]: "append_chunk a b = a \<longleftrightarrow> b = empty_chunk"
  by (cases a; cases b) (auto simp: append_chunk_def empty_chunk_def)

lemma append_chunk_assoc: "append_chunk (append_chunk a b) c = append_chunk a (append_chunk b c)"
  by (simp add: append_chunk_def)

type_synonym ('s, 'x) text_step = "'s \<times> 'x StreamTextChunk"

text \<open>Feeding several chunks, and a whole stream with its final flush.\<close>

fun push_all ::
  "('s \<Rightarrow> ustring \<Rightarrow> ('s, 'x) text_step) \<Rightarrow> 's \<Rightarrow> ustring list \<Rightarrow> ('s, 'x) text_step" where
  "push_all push s [] = (s, empty_chunk)"
| "push_all push s (c # cs) =
     (let (s', out) = push s c; (s'', rest) = push_all push s' cs in (s'', append_chunk out rest))"

definition stream_out ::
  "('s \<Rightarrow> ustring \<Rightarrow> ('s, 'x) text_step) \<Rightarrow> ('s \<Rightarrow> ('s, 'x) text_step) \<Rightarrow> 's \<Rightarrow> ustring list \<Rightarrow>
   ('s, 'x) text_step" where
  "stream_out push flush s cs =
     (let (s', out) = push_all push s cs; (s'', tail) = flush s' in (s'', append_chunk out tail))"

text \<open>
  \<open>merge\<close> is the reading of a list of payloads: the identity for a parser whose payloads are
  self-contained, and the concatenation of adjacent fragments for one that emits fragments.
  \<open>settled\<close> is the invariant of the states between two chunks.
\<close>

locale stream_text_parser =
  fixes push :: "'s \<Rightarrow> ustring \<Rightarrow> ('s, 'x) text_step"
    and flush :: "'s \<Rightarrow> ('s, 'x) text_step"
    and settled :: "'s \<Rightarrow> bool"
    and merge :: "'x list \<Rightarrow> 'x list"
  assumes push_Nil: "settled s \<Longrightarrow> push s [] = (s, empty_chunk)"
    and push_settled: "settled s \<Longrightarrow> push s a = (s', out) \<Longrightarrow> settled s'"
    and push_append: "settled s \<Longrightarrow> push s a = (s1, o1) \<Longrightarrow> push s1 b = (s2, o2) \<Longrightarrow>
      \<exists>o3. push s (a @ b) = (s2, o3) \<and>
           visible_text o3 = visible_text o1 @ visible_text o2 \<and>
           merge (extracted o3) = merge (extracted o1 @ extracted o2)"
    and flush_settled: "settled s \<Longrightarrow> flush s = (s', out) \<Longrightarrow> settled s'"
    and merge_append: "merge (xs @ ys) = merge (merge xs @ merge ys)"
begin

lemma merge_cong: "merge xs = merge xs' \<Longrightarrow> merge ys = merge ys' \<Longrightarrow>
    merge (xs @ ys) = merge (xs' @ ys')"
  by (metis merge_append)

text \<open>Two outputs with the same text and the same reading of the payloads.\<close>

definition same_out :: "'x StreamTextChunk \<Rightarrow> 'x StreamTextChunk \<Rightarrow> bool" where
  "same_out a b \<longleftrightarrow> visible_text a = visible_text b \<and> merge (extracted a) = merge (extracted b)"

lemma same_out_refl [simp]: "same_out a a"
  by (simp add: same_out_def)

lemma same_out_trans: "same_out a b \<Longrightarrow> same_out b c \<Longrightarrow> same_out a c"
  by (simp add: same_out_def)

lemma same_out_append:
  "same_out a a' \<Longrightarrow> same_out b b' \<Longrightarrow> same_out (append_chunk a b) (append_chunk a' b')"
  by (auto simp: same_out_def intro: merge_cong)

lemma push_all_concat:
  "settled s \<Longrightarrow> fst (push_all push s cs) = fst (push s (concat cs)) \<and>
     same_out (snd (push_all push s cs)) (snd (push s (concat cs)))"
proof (induction cs arbitrary: s)
  case Nil
  then show ?case by (simp add: push_Nil)
next
  case (Cons c cs)
  obtain s1 o1 where 1: "push s c = (s1, o1)" by (cases "push s c")
  obtain s2 o2 where 2: "push s1 (concat cs) = (s2, o2)" by (cases "push s1 (concat cs)")
  obtain o3 where 3: "push s (c @ concat cs) = (s2, o3)"
    "visible_text o3 = visible_text o1 @ visible_text o2"
    "merge (extracted o3) = merge (extracted o1 @ extracted o2)"
    using push_append [OF Cons.prems 1 2] by blast
  have ih: "fst (push_all push s1 cs) = s2" "same_out (snd (push_all push s1 cs)) o2"
    using Cons.IH [OF push_settled [OF Cons.prems 1]] 2 by simp_all
  have "same_out (append_chunk o1 (snd (push_all push s1 cs))) (append_chunk o1 o2)"
    using ih(2) by (intro same_out_append) simp
  moreover have "same_out (append_chunk o1 o2) o3"
    using 3 by (simp add: same_out_def)
  ultimately show ?case
    using ih(1) 1 3(1) by (auto simp: case_prod_unfold Let_def intro: same_out_trans)
qed

lemma stream_out_concat:
  assumes "settled s"
  shows "fst (stream_out push flush s cs) = fst (stream_out push flush s [concat cs]) \<and>
    same_out (snd (stream_out push flush s cs)) (snd (stream_out push flush s [concat cs]))"
  using push_all_concat [OF assms, of cs]
  by (auto simp: stream_out_def case_prod_unfold Let_def intro: same_out_append)

text \<open>The result of a stream depends on its text only.\<close>

lemma chunking_irrelevant:
  assumes "settled s" "concat cs = concat cs'"
  shows "fst (stream_out push flush s cs) = fst (stream_out push flush s cs') \<and>
    same_out (snd (stream_out push flush s cs)) (snd (stream_out push flush s cs'))"
  using stream_out_concat [OF assms(1), of cs] stream_out_concat [OF assms(1), of cs'] assms(2)
  by (auto simp: same_out_def)

end

end
