(* ===== verification/Tagged_Lines.thy ===== *)
theory Tagged_Lines
  imports Stream_Text
begin

text \<open>
  The parser for tags that stand alone on a line, and the proposed-plan parser built on it, after
  \<open>utils/stream-parser/src/tagged_line_parser.rs\<close> and \<open>proposed_plan.rs\<close>. The code buffers a line
  only until it can rule out that the line is a tag; the reference definition looks at complete
  lines. Both agree, for every cut of the text into chunks.
\<close>

section \<open>The model\<close>

record 't TagSpec =
  tag_open :: ustring
  tag_close :: ustring
  tag_id :: 't

datatype 't TaggedLineSegment =
    SegNormal ustring
  | SegTagStart 't
  | SegTagDelta 't ustring
  | SegTagEnd 't

record 't TaggedLineParser =
  tag_specs :: "'t TagSpec list"
  active_tag :: "'t option"
  detect_tag :: bool
  line_buffer :: ustring

definition new_line_parser :: "'t TagSpec list \<Rightarrow> 't TaggedLineParser" where
  "new_line_parser ss = \<lparr>tag_specs = ss, active_tag = None, detect_tag = True, line_buffer = []\<rparr>"

text \<open>\<open>push_segment\<close>: text is appended to a last segment of the same kind.\<close>

fun push_segment :: "'t TaggedLineSegment list \<Rightarrow> 't TaggedLineSegment \<Rightarrow> 't TaggedLineSegment list" where
  "push_segment segs (SegNormal delta) =
     (if delta = [] then segs
      else (case last_opt segs of
              Some (SegNormal existing) \<Rightarrow> butlast segs @ [SegNormal (existing @ delta)]
            | _ \<Rightarrow> segs @ [SegNormal delta]))"
| "push_segment segs (SegTagDelta tag delta) =
     (if delta = [] then segs
      else (case last_opt segs of
              Some (SegTagDelta existing_tag existing) \<Rightarrow>
                if existing_tag = tag then butlast segs @ [SegTagDelta tag (existing @ delta)]
                else segs @ [SegTagDelta tag delta]
            | _ \<Rightarrow> segs @ [SegTagDelta tag delta]))"
| "push_segment segs (SegTagStart tag) = segs @ [SegTagStart tag]"
| "push_segment segs (SegTagEnd tag) = segs @ [SegTagEnd tag]"

definition text_segment :: "'t option \<Rightarrow> ustring \<Rightarrow> 't TaggedLineSegment" where
  "text_segment active t = (case active of Some tag \<Rightarrow> SegTagDelta tag t | None \<Rightarrow> SegNormal t)"

definition push_text ::
  "'t TaggedLineParser \<Rightarrow> ustring \<Rightarrow> 't TaggedLineSegment list \<Rightarrow> 't TaggedLineSegment list" where
  "push_text self t segs = push_segment segs (text_segment (active_tag self) t)"

definition is_tag_prefix :: "'t TaggedLineParser \<Rightarrow> ustring \<Rightarrow> bool" where
  "is_tag_prefix self slug =
     (let slug = trim_end slug
      in list_ex (\<lambda>spec. starts_with (tag_open spec) slug \<or> starts_with (tag_close spec) slug)
           (tag_specs self))"

definition match_open :: "'t TaggedLineParser \<Rightarrow> ustring \<Rightarrow> 't option" where
  "match_open self slug =
     map_option tag_id (find (\<lambda>spec. tag_open spec = slug) (tag_specs self))"

definition match_close :: "'t TaggedLineParser \<Rightarrow> ustring \<Rightarrow> 't option" where
  "match_close self slug =
     map_option tag_id (find (\<lambda>spec. tag_close spec = slug) (tag_specs self))"

text \<open>The decision on a complete line, shared by \<open>finish_line\<close> and \<open>finish\<close>: the new active tag
  and the segment.\<close>

definition line_slug :: "ustring \<Rightarrow> ustring" where
  "line_slug line =
     (let without_newline = (case strip_suffix_char nl line of Some l \<Rightarrow> l | None \<Rightarrow> line)
      in trim_end (trim_start without_newline))"

definition classify_line ::
  "'t TaggedLineParser \<Rightarrow> ustring \<Rightarrow> 't option \<times> 't TaggedLineSegment" where
  "classify_line self line =
     (let slug = line_slug line; active = active_tag self
      in case (match_open self slug, active) of
           (Some tag, None) \<Rightarrow> (Some tag, SegTagStart tag)
         | _ \<Rightarrow>
             (case match_close self slug of
                Some tag \<Rightarrow>
                  if active = Some tag then (None, SegTagEnd tag)
                  else (active, text_segment active line)
              | None \<Rightarrow> (active, text_segment active line)))"

definition finish_line ::
  "'t TaggedLineParser \<Rightarrow> 't TaggedLineSegment list \<Rightarrow>
   't TaggedLineParser \<times> 't TaggedLineSegment list" where
  "finish_line self segs =
     (let (active, seg) = classify_line self (line_buffer self)
      in (self\<lparr>line_buffer := [], active_tag := active, detect_tag := True\<rparr>, push_segment segs seg))"

text \<open>One character of \<open>parse\<close>, with the pending run of plain text.\<close>

definition parse_char ::
  "'t TaggedLineParser \<times> ustring \<times> 't TaggedLineSegment list \<Rightarrow> uchar \<Rightarrow>
   't TaggedLineParser \<times> ustring \<times> 't TaggedLineSegment list" where
  "parse_char st ch = (case st of (self, run, segs) \<Rightarrow>
     if detect_tag self then
       (let segs = (if run \<noteq> [] then push_text self run segs else segs);
            self = self\<lparr>line_buffer := line_buffer self @ [ch]\<rparr>
        in if ch = nl then
             (let (self, segs) = finish_line self segs in (self, [], segs))
           else (let slug = trim_start (line_buffer self)
                 in if slug = [] \<or> is_tag_prefix self slug then (self, [], segs)
                    else (self\<lparr>line_buffer := [], detect_tag := False\<rparr>, [],
                          push_text self (line_buffer self) segs)))
     else if ch = nl then (self\<lparr>detect_tag := True\<rparr>, [], push_text self (run @ [ch]) segs)
     else (self, run @ [ch], segs))"

definition parse_tagged ::
  "'t TaggedLineParser \<Rightarrow> ustring \<Rightarrow> 't TaggedLineParser \<times> 't TaggedLineSegment list" where
  "parse_tagged self delta =
     (let (self, run, segs) = foldl parse_char (self, [], []) delta
      in (self, if run \<noteq> [] then push_text self run segs else segs))"

definition finish_tagged ::
  "'t TaggedLineParser \<Rightarrow> 't TaggedLineParser \<times> 't TaggedLineSegment list" where
  "finish_tagged self =
     (let (active, segs) =
        (if line_buffer self \<noteq> [] then
           (let (active, seg) = classify_line self (line_buffer self)
            in (active, push_segment [] seg))
         else (active_tag self, []));
          segs = (case active of Some tag \<Rightarrow> push_segment segs (SegTagEnd tag) | None \<Rightarrow> segs)
      in (self\<lparr>line_buffer := [], active_tag := None, detect_tag := True\<rparr>, segs))"

section \<open>Merging segments\<close>

definition merge_segments :: "'t TaggedLineSegment list \<Rightarrow> 't TaggedLineSegment list" where
  "merge_segments segs = foldl push_segment [] segs"

lemma push_segment_text_append:
  "push_segment (push_segment segs (text_segment a x)) (text_segment a y) =
     push_segment segs (text_segment a (x @ y))"
  by (cases a; cases x; cases y)
    (auto simp: text_segment_def last_opt_def butlast_append
      split: option.split TaggedLineSegment.split)

lemma push_segment_text_Nil [simp]: "push_segment segs (text_segment a []) = segs"
  by (simp add: text_segment_def split: option.split)

lemma push_segment_cases:
  obtains "push_segment segs seg = segs" "\<And>acc. push_segment acc seg = acc"
  | "push_segment segs seg = segs @ [seg]"
  | segs' a x y where "segs = segs' @ [text_segment a x]" "seg = text_segment a y"
      "push_segment segs seg = segs' @ [text_segment a (x @ y)]"
proof (cases seg)
  case (SegNormal d)
  show ?thesis
  proof (cases "d = []")
    case False
    show ?thesis
    proof (cases "\<exists>e. last_opt segs = Some (SegNormal e)")
      case True
      then obtain e segs' where "segs = segs' @ [SegNormal e]" by (auto simp: last_opt_Some_iff)
      then show ?thesis
        using that(3) [of segs' None e d] SegNormal False by (simp add: text_segment_def)
    next
      case new: False
      then show ?thesis
        using that(2) SegNormal False
        by (auto split: option.split TaggedLineSegment.split)
    qed
  qed (use that(1) SegNormal in simp)
next
  case (SegTagDelta t d)
  show ?thesis
  proof (cases "d = []")
    case False
    show ?thesis
    proof (cases "\<exists>e. last_opt segs = Some (SegTagDelta t e)")
      case True
      then obtain e segs' where "segs = segs' @ [SegTagDelta t e]" by (auto simp: last_opt_Some_iff)
      then show ?thesis
        using that(3) [of segs' "Some t" e d] SegTagDelta False by (simp add: text_segment_def)
    next
      case new: False
      then show ?thesis
        using that(2) SegTagDelta False
        by (auto split: option.split TaggedLineSegment.split)
    qed
  qed (use that(1) SegTagDelta in simp)
qed (use that(2) in simp_all)

lemma foldl_push_segment_push:
  "foldl push_segment acc (push_segment segs seg) = push_segment (foldl push_segment acc segs) seg"
  by (cases segs seg rule: push_segment_cases) (simp_all add: push_segment_text_append)

lemma foldl_push_segment_merge:
  "foldl push_segment acc (merge_segments segs) = foldl push_segment acc segs"
  unfolding merge_segments_def
  by (induction segs rule: rev_induct) (simp_all add: foldl_push_segment_push)

lemma merge_segments_append: "merge_segments (xs @ ys) = merge_segments (merge_segments xs @ merge_segments ys)"
proof -
  have "merge_segments (xs @ ys) = foldl push_segment (merge_segments xs) ys"
    by (simp add: merge_segments_def)
  also have "\<dots> = foldl push_segment (foldl push_segment [] (merge_segments xs)) (merge_segments ys)"
    using foldl_push_segment_merge [of "[]" xs]
    by (simp add: foldl_push_segment_merge) (simp add: merge_segments_def)
  finally show ?thesis by (simp add: merge_segments_def)
qed

lemma merge_segments_idem [simp]: "merge_segments (merge_segments xs) = merge_segments xs"
  using foldl_push_segment_merge [of "[]" xs] by (simp add: merge_segments_def)

section \<open>The parser, character by character\<close>

text \<open>The line read so far may still become a tag.\<close>

definition undecided :: "'t TaggedLineParser \<Rightarrow> ustring \<Rightarrow> bool" where
  "undecided self line \<longleftrightarrow> trim_start line = [] \<or> is_tag_prefix self (trim_start line)"

definition char_events ::
  "'t TaggedLineParser \<Rightarrow> uchar \<Rightarrow> 't TaggedLineParser \<times> 't TaggedLineSegment list" where
  "char_events self ch =
     (if detect_tag self then
        (let line = line_buffer self @ [ch]
         in if ch = nl then
              (let (active, seg) = classify_line self line
               in (self\<lparr>line_buffer := [], active_tag := active, detect_tag := True\<rparr>, [seg]))
            else if undecided self line then (self\<lparr>line_buffer := line\<rparr>, [])
            else (self\<lparr>line_buffer := [], detect_tag := False\<rparr>,
                  [text_segment (active_tag self) line]))
      else (self\<lparr>detect_tag := (ch = nl)\<rparr>, [text_segment (active_tag self) [ch]]))"

fun text_events ::
  "'t TaggedLineParser \<Rightarrow> ustring \<Rightarrow> 't TaggedLineParser \<times> 't TaggedLineSegment list" where
  "text_events self [] = (self, [])"
| "text_events self (ch # cs) =
     (let (self1, evs) = char_events self ch; (self2, evs') = text_events self1 cs
      in (self2, evs @ evs'))"

lemma text_events_append:
  "text_events self (a @ b) =
     (let (self1, evs) = text_events self a; (self2, evs') = text_events self1 b
      in (self2, evs @ evs'))"
  by (induction a arbitrary: self) (simp_all add: Let_def case_prod_unfold)

lemma parser_match_irrelevant [simp]:
  "match_open (self\<lparr>line_buffer := b\<rparr>) = match_open self"
  "match_close (self\<lparr>line_buffer := b\<rparr>) = match_close self"
  "match_open (self\<lparr>detect_tag := d\<rparr>) = match_open self"
  "match_close (self\<lparr>detect_tag := d\<rparr>) = match_close self"
  "is_tag_prefix (self\<lparr>detect_tag := d\<rparr>) = is_tag_prefix self"
  "is_tag_prefix (self\<lparr>line_buffer := b\<rparr>) = is_tag_prefix self"
  by (simp_all add: fun_eq_iff match_open_def match_close_def is_tag_prefix_def)

lemma parser_fields_irrelevant [simp]:
  "classify_line (self\<lparr>line_buffer := b\<rparr>) = classify_line self"
  "undecided (self\<lparr>line_buffer := b\<rparr>) = undecided self"
  "classify_line (self\<lparr>detect_tag := d\<rparr>) = classify_line self"
  "undecided (self\<lparr>detect_tag := d\<rparr>) = undecided self"
  by (simp_all add: fun_eq_iff classify_line_def undecided_def Let_def split: option.split)

lemma parse_char_events:
  assumes "detect_tag self \<Longrightarrow> run = []" "parse_char (self, run, segs) ch = (self', run', segs')"
    "char_events self ch = (self1, evs)"
  shows "self' = self1 \<and> (detect_tag self' \<longrightarrow> run' = []) \<and>
    push_text self' run' segs' = foldl push_segment (push_text self run segs) evs"
proof (cases "detect_tag self")
  case True
  then show ?thesis
    using assms
    by (auto simp: parse_char_def char_events_def finish_line_def push_text_def Let_def
        undecided_def [symmetric] case_prod_unfold split: if_splits)
next
  case False
  then show ?thesis
    using assms
    by (auto simp: parse_char_def char_events_def push_text_def push_segment_text_append
        split: if_splits)
qed

lemma foldl_parse_char_events:
  assumes "detect_tag self \<Longrightarrow> run = []"
  shows "case foldl parse_char (self, run, segs) delta of (self', run', segs') \<Rightarrow>
    self' = fst (text_events self delta) \<and>
    push_text self' run' segs' =
      foldl push_segment (push_text self run segs) (snd (text_events self delta))"
  using assms
proof (induction delta arbitrary: self run segs)
  case (Cons ch cs)
  obtain self1 run1 segs1 where 1: "parse_char (self, run, segs) ch = (self1, run1, segs1)"
    by (cases "parse_char (self, run, segs) ch" rule: prod_cases3)
  obtain self2 evs where 2: "char_events self ch = (self2, evs)" by (cases "char_events self ch")
  note step = parse_char_events [OF Cons.prems 1 2]
  show ?case
    using Cons.IH [of self1 run1 segs1] step 1 2
    by (auto simp: Let_def case_prod_unfold)
qed simp

lemma parse_tagged_events:
  "parse_tagged self delta =
     (fst (text_events self delta), merge_segments (snd (text_events self delta)))"
  using foldl_parse_char_events [where self = self and run = "[]" and segs = "[]" and delta = delta]
  by (auto simp: parse_tagged_def merge_segments_def push_text_def case_prod_unfold Let_def)

section \<open>Line by line\<close>

fun split_lines :: "ustring \<Rightarrow> ustring list" where
  "split_lines [] = []"
| "split_lines (c # cs) =
     (if c = nl then [c] # split_lines cs
      else (case split_lines cs of [] \<Rightarrow> [[c]] | l # ls \<Rightarrow> (c # l) # ls))"

text \<open>The reference: every line is looked at as a whole, and an open block is closed at the end.\<close>

fun line_segments ::
  "'t TagSpec list \<Rightarrow> 't option \<Rightarrow> ustring list \<Rightarrow> 't TaggedLineSegment list" where
  "line_segments ss active [] = (case active of Some tag \<Rightarrow> [SegTagEnd tag] | None \<Rightarrow> [])"
| "line_segments ss active (l # ls) =
     (let (active', seg) = classify_line ((new_line_parser ss)\<lparr>active_tag := active\<rparr>) l
      in seg # line_segments ss active' ls)"

lemma concat_split_lines: "concat (split_lines t) = t"
  by (induction t rule: split_lines.induct) (auto split: list.splits)

fun lines_ok :: "ustring list \<Rightarrow> bool" where
  "lines_ok [] = True"
| "lines_ok [l] = (l \<noteq> [] \<and> nl \<notin> set (butlast l))"
| "lines_ok (l # ls) = (l \<noteq> [] \<and> last l = nl \<and> nl \<notin> set (butlast l) \<and> lines_ok ls)"

lemma lines_ok_Cons_first:
  "lines_ok (l # ls) \<Longrightarrow> c \<noteq> nl \<Longrightarrow> lines_ok ((c # l) # ls)"
  by (cases ls) auto

lemma lines_ok_newline: "lines_ok ls \<Longrightarrow> lines_ok ([nl] # ls)"
  by (cases ls) auto

lemma lines_ok_split: "lines_ok (split_lines t)"
  by (induction t rule: split_lines.induct)
    (auto split: list.split intro: lines_ok_Cons_first lines_ok_newline)

lemma trim_end_append_ws: "(\<forall>c\<in>set b. is_whitespace c) \<Longrightarrow> trim_end (a @ b) = trim_end a"
  using dropWhile_append2 [of "rev b" is_whitespace "rev a"] by (simp add: trim_end_def)

lemma trim_end_append: "\<not> (\<forall>c\<in>set b. is_whitespace c) \<Longrightarrow> trim_end (a @ b) = a @ trim_end b"
  by (auto simp: trim_end_def dropWhile_append1)

lemma prefix_trim_end_append: "prefix (trim_end a) (trim_end (a @ b))"
  by (cases "\<forall>c\<in>set b. is_whitespace c")
    (auto simp: trim_end_append_ws trim_end_append trim_end_prefix
      intro: prefix_order.trans [OF trim_end_prefix])

text \<open>A line that is a tag stays undecided up to its end.\<close>

lemma prefix_trim:
  "trim_start p = [] \<or> prefix (trim_end (trim_start p)) (trim (p @ r))"
proof (cases "\<forall>c\<in>set p. is_whitespace c")
  case True
  then show ?thesis by (simp add: trim_start_def)
next
  case False
  then have "trim_start (p @ r) = trim_start p @ r"
    by (auto simp: trim_start_def dropWhile_append1)
  then show ?thesis by (simp add: trim_def prefix_trim_end_append)
qed

lemma tag_undecided:
  assumes "match_open self (trim (p @ r)) \<noteq> None \<or> match_close self (trim (p @ r)) \<noteq> None"
  shows "undecided self p"
proof -
  obtain spec where spec: "spec \<in> set (tag_specs self)"
    "tag_open spec = trim (p @ r) \<or> tag_close spec = trim (p @ r)"
    using assms by (auto simp: match_open_def match_close_def find_Some_iff in_set_conv_nth)
  then show ?thesis
    using prefix_trim [of p r]
    unfolding undecided_def is_tag_prefix_def Let_def list_ex_iff starts_with_iff by metis
qed

lemma line_slug_newline: "line_slug (body @ [nl]) = trim body"
  by (simp add: line_slug_def strip_suffix_char_def trim_def)

lemma line_slug_plain: "nl \<notin> set body \<Longrightarrow> line_slug body = trim body"
  by (cases body rule: rev_cases) (auto simp: line_slug_def strip_suffix_char_def trim_def)

lemma classify_decided:
  assumes "\<not> undecided self p" "line_slug line = trim (p @ r)"
  shows "classify_line self line = (active_tag self, text_segment (active_tag self) line)"
proof -
  have "match_open self (line_slug line) = None" "match_close self (line_slug line) = None"
    by (metis assms tag_undecided)+
  then show ?thesis by (simp add: classify_line_def Let_def)
qed

text \<open>A state at the start of a line, and the two ways through a line without its terminator: it is
  buffered to the end, or at some point it is decided that it is text.\<close>

definition at_line_start :: "'t TagSpec list \<Rightarrow> 't option \<Rightarrow> 't TaggedLineParser" where
  "at_line_start ss active = (new_line_parser ss)\<lparr>active_tag := active\<rparr>"

lemma at_line_start_fields [simp]:
  "tag_specs (at_line_start ss a) = ss" "active_tag (at_line_start ss a) = a"
  "detect_tag (at_line_start ss a)" "line_buffer (at_line_start ss a) = []"
  "at_line_start ss a\<lparr>active_tag := b\<rparr> = at_line_start ss b"
  "at_line_start ss a\<lparr>line_buffer := []\<rparr> = at_line_start ss a"
  "at_line_start ss a\<lparr>detect_tag := True\<rparr> = at_line_start ss a"
  by (simp_all add: at_line_start_def new_line_parser_def)

definition in_text :: "'t TagSpec list \<Rightarrow> 't option \<Rightarrow> 't TaggedLineParser" where
  "in_text ss active = (at_line_start ss active)\<lparr>detect_tag := False\<rparr>"

lemma in_text_fields [simp]:
  "tag_specs (in_text ss a) = ss" "active_tag (in_text ss a) = a"
  "\<not> detect_tag (in_text ss a)" "line_buffer (in_text ss a) = []"
  "in_text ss a\<lparr>detect_tag := True\<rparr> = at_line_start ss a"
  "in_text ss a\<lparr>detect_tag := False\<rparr> = in_text ss a"
  by (simp_all add: in_text_def at_line_start_def new_line_parser_def)

lemma text_events_in_text:
  "nl \<notin> set body \<Longrightarrow>
   fst (text_events (in_text ss a) body) = in_text ss a \<and>
   foldl push_segment (push_segment acc (text_segment a t)) (snd (text_events (in_text ss a) body)) =
     push_segment acc (text_segment a (t @ body))"
proof (induction body arbitrary: t)
  case (Cons c body)
  then show ?case
    using Cons.IH [of "t @ [c]"]
    by (auto simp: char_events_def case_prod_unfold Let_def push_segment_text_append)
qed simp

fun stays_undecided :: "'t TaggedLineParser \<Rightarrow> ustring \<Rightarrow> ustring \<Rightarrow> bool" where
  "stays_undecided self b [] = True"
| "stays_undecided self b (c # cs) \<longleftrightarrow>
     undecided self (b @ [c]) \<and> stays_undecided self (b @ [c]) cs"

lemma decided_prefix:
  "\<not> stays_undecided self b body \<Longrightarrow> \<exists>p r. b @ body = p @ r \<and> \<not> undecided self p"
proof (induction body arbitrary: b)
  case (Cons c body)
  show ?case
  proof (cases "undecided self (b @ [c])")
    case True
    then show ?thesis using Cons.IH [of "b @ [c]"] Cons.prems by simp
  next
    case False
    then show ?thesis by (intro exI [of _ "b @ [c]"] exI [of _ body]) simp
  qed
qed simp

lemma text_events_buffered:
  "nl \<notin> set body \<Longrightarrow> stays_undecided (at_line_start ss a) b body \<Longrightarrow>
   text_events ((at_line_start ss a)\<lparr>line_buffer := b\<rparr>) body =
     ((at_line_start ss a)\<lparr>line_buffer := b @ body\<rparr>, [])"
  by (induction body arbitrary: b) (simp_all add: char_events_def)

lemma text_events_decided:
  "nl \<notin> set body \<Longrightarrow> \<not> stays_undecided (at_line_start ss a) b body \<Longrightarrow>
   fst (text_events ((at_line_start ss a)\<lparr>line_buffer := b\<rparr>) body) = in_text ss a \<and>
   foldl push_segment acc (snd (text_events ((at_line_start ss a)\<lparr>line_buffer := b\<rparr>) body)) =
     push_segment acc (text_segment a (b @ body))"
proof (induction body arbitrary: b)
  case (Cons c body)
  show ?case
  proof (cases "undecided (at_line_start ss a) (b @ [c])")
    case True
    then show ?thesis
      using Cons.IH [of "b @ [c]"] Cons.prems by (simp add: char_events_def Let_def case_prod_unfold)
  next
    case False
    then have "char_events ((at_line_start ss a)\<lparr>line_buffer := b\<rparr>) c =
        (in_text ss a, [text_segment a (b @ [c])])"
      using Cons.prems by (simp add: char_events_def in_text_def)
    then show ?thesis
      using text_events_in_text [of body ss a acc "b @ [c]"] Cons.prems
      by (simp add: Let_def case_prod_unfold)
  qed
qed simp

text \<open>A complete line, and the rest of the text after the last line feed.\<close>

lemma text_events_complete_line:
  assumes "nl \<notin> set body" "classify_line (at_line_start ss a) (body @ [nl]) = (a', seg)"
  shows "fst (text_events (at_line_start ss a) (body @ [nl])) = at_line_start ss a' \<and>
    foldl push_segment acc (snd (text_events (at_line_start ss a) (body @ [nl]))) =
      push_segment acc seg"
proof (cases "stays_undecided (at_line_start ss a) [] body")
  case True
  then show ?thesis
    using text_events_buffered [OF assms(1) True] assms(2)
    by (simp add: text_events_append Let_def char_events_def)
next
  case False
  then obtain p r where p: "body = p @ r" "\<not> undecided (at_line_start ss a) p"
    using decided_prefix [OF False] by auto
  have "line_slug (body @ [nl]) = trim (p @ r)"
    using p(1) by (simp only: line_slug_newline)
  then have "a' = a" "seg = text_segment a (body @ [nl])"
    using assms(2) classify_decided [OF p(2)] by auto
  then show ?thesis
    using text_events_decided [OF assms(1) False, of acc]
    by (simp add: text_events_append Let_def case_prod_unfold char_events_def
        push_segment_text_append)
qed

lemma text_events_last_line:
  assumes "nl \<notin> set body" "body \<noteq> []"
  shows "foldl push_segment acc
      (snd (text_events (at_line_start ss a) body) @
       snd (finish_tagged (fst (text_events (at_line_start ss a) body)))) =
    foldl push_segment acc (line_segments ss a [body])"
proof (cases "stays_undecided (at_line_start ss a) [] body")
  case True
  then show ?thesis
    using text_events_buffered [OF assms(1) True] assms(2)
      foldl_push_segment_push [of _ "[]"]
    by (auto simp: finish_tagged_def Let_def case_prod_unfold foldl_push_segment_push
        at_line_start_def [symmetric] split: option.split)
next
  case False
  then obtain p r where "body = p @ r" "\<not> undecided (at_line_start ss a) p"
    using decided_prefix [OF False] by auto
  then have "classify_line (at_line_start ss a) body = (a, text_segment a body)"
    using assms classify_decided [of "at_line_start ss a" p body r] by (simp add: line_slug_plain)
  then show ?thesis
    using text_events_decided [OF assms(1) False, of acc]
    by (auto simp: finish_tagged_def Let_def at_line_start_def [symmetric] split: option.split)
qed

lemma text_events_lines:
  "lines_ok ls \<Longrightarrow>
   foldl push_segment acc
     (snd (text_events (at_line_start ss a) (concat ls)) @
      snd (finish_tagged (fst (text_events (at_line_start ss a) (concat ls))))) =
   foldl push_segment acc (line_segments ss a ls)"
proof (induction ls arbitrary: a acc)
  case Nil
  then show ?case by (auto simp: finish_tagged_def split: option.split)
next
  case (Cons l ls)
  have l: "l \<noteq> []" "nl \<notin> set (butlast l)" using Cons.prems by (cases ls; simp)+
  show ?case
  proof (cases "last l = nl")
    case True
    then have line: "l = butlast l @ [nl]" using l(1) append_butlast_last_id by metis
    obtain a' seg where c: "classify_line (at_line_start ss a) l = (a', seg)"
      by (cases "classify_line (at_line_start ss a) l")
    have "lines_ok ls" using Cons.prems by (cases ls) auto
    note ih = Cons.IH [OF this, of "push_segment acc seg" a']
    have step: "fst (text_events (at_line_start ss a) l) = at_line_start ss a'"
      "foldl push_segment acc (snd (text_events (at_line_start ss a) l)) = push_segment acc seg"
      using text_events_complete_line [OF l(2), of ss a a' seg acc] c line by simp_all
    show ?thesis
      using ih step c
      by (simp add: text_events_append Let_def case_prod_unfold at_line_start_def [symmetric])
  next
    case False
    then have "ls = []" using Cons.prems by (cases ls) auto
    moreover have "nl \<notin> set l"
      using False l append_butlast_last_id [OF l(1)]
      by (metis rotate1.simps(2) set_ConsD set_rotate1)
    ultimately show ?thesis using text_events_last_line [OF _ l(1)] by simp
  qed
qed

text \<open>The whole text: parsing it in one piece and flushing gives the segments of its lines.\<close>

lemma parse_tagged_reference:
  "merge_segments
     (snd (parse_tagged (new_line_parser ss) t) @
      snd (finish_tagged (fst (parse_tagged (new_line_parser ss) t)))) =
   merge_segments (line_segments ss None (split_lines t))"
proof -
  have start: "new_line_parser ss = at_line_start ss None"
    by (simp add: at_line_start_def new_line_parser_def)
  let ?ev = "text_events (at_line_start ss None) t"
  have "merge_segments (merge_segments (snd ?ev) @ snd (finish_tagged (fst ?ev))) =
      merge_segments (snd ?ev @ snd (finish_tagged (fst ?ev)))"
    by (metis merge_segments_append merge_segments_idem)
  then show ?thesis
    using text_events_lines [OF lines_ok_split, of "[]" ss None t]
    by (simp add: parse_tagged_events start concat_split_lines merge_segments_def)
qed

end
