(* ===== verification/Hidden_Tags.thy ===== *)
theory Hidden_Tags
  imports Stream_Text
begin

text \<open>
  The parser that hides inline tags while text streams in, and the citation parser built on it,
  after \<open>utils/stream-parser/src/inline_hidden_tag.rs\<close> and \<open>citation.rs\<close>.

  The loop of \<open>push_str\<close> removes at least one character of the buffer in every round but the last,
  because the constructor asserts that no delimiter is empty. The model runs it with one unit of
  fuel more than the buffer has characters, and \<open>push_loop_total\<close> shows that this is enough.
\<close>

section \<open>The model\<close>

record 't ExtractedInlineTag =
  ext_tag :: 't
  ext_content :: ustring

record 't InlineTagSpec =
  spec_tag :: 't
  spec_open :: ustring
  spec_close :: ustring

record 't ActiveTag =
  act_tag :: 't
  act_close :: ustring
  act_content :: ustring

record 't InlineHiddenTagParser =
  specs :: "'t InlineTagSpec list"
  pending :: ustring
  active :: "'t ActiveTag option"

text \<open>\<open>new\<close>: the assertions; \<open>None\<close> is a panic.\<close>

definition specs_ok :: "'t InlineTagSpec list \<Rightarrow> bool" where
  "specs_ok ss \<longleftrightarrow> ss \<noteq> [] \<and> list_all (\<lambda>s. spec_open s \<noteq> [] \<and> spec_close s \<noteq> []) ss"

definition new_parser :: "'t InlineTagSpec list \<Rightarrow> 't InlineHiddenTagParser option" where
  "new_parser ss =
     (if specs_ok ss then Some \<lparr>specs = ss, pending = [], active = None\<rparr> else None)"

text \<open>\<open>longest_suffix_prefix_len\<close>: the loop from the longest candidate downwards.\<close>

fun suffix_prefix_from :: "nat \<Rightarrow> 'a list \<Rightarrow> 'a list \<Rightarrow> nat" where
  "suffix_prefix_from 0 s needle = 0"
| "suffix_prefix_from (Suc k) s needle =
     (if ends_with s (take (Suc k) needle) then Suc k else suffix_prefix_from k s needle)"

definition longest_suffix_prefix_len :: "'a list \<Rightarrow> 'a list \<Rightarrow> nat" where
  "longest_suffix_prefix_len s needle =
     suffix_prefix_from (min (length s) (length needle - 1)) s needle"

text \<open>\<open>find_next_open\<close>: the earliest opening tag, the longest one at that place, the first one of
  that length.\<close>

definition earlier_open :: "nat \<times> nat \<times> nat \<Rightarrow> nat \<times> nat \<times> nat \<Rightarrow> bool" where
  "earlier_open a b = (case (a, b) of ((pos_a, len_a, idx_a), (pos_b, len_b, idx_b)) \<Rightarrow>
     pos_a < pos_b \<or> pos_a = pos_b \<and> (len_b < len_a \<or> len_a = len_b \<and> idx_a < idx_b))"

definition open_candidates :: "'t InlineTagSpec list \<Rightarrow> ustring \<Rightarrow> (nat \<times> nat \<times> nat) list" where
  "open_candidates ss text =
     List.map_filter
       (\<lambda>(idx, spec). map_option (\<lambda>pos. (pos, utf8_len (spec_open spec), idx))
          (str_find text (spec_open spec)))
       (enumerate 0 ss)"

text \<open>\<open>Iterator::min_by\<close> keeps the first of the least elements.\<close>

fun min_open :: "(nat \<times> nat \<times> nat) list \<Rightarrow> (nat \<times> nat \<times> nat) option" where
  "min_open [] = None"
| "min_open (c # cs) =
     (case min_open cs of
        None \<Rightarrow> Some c
      | Some d \<Rightarrow> if earlier_open d c then Some d else Some c)"

definition find_next_open :: "'t InlineHiddenTagParser \<Rightarrow> (nat \<times> nat) option" where
  "find_next_open self =
     map_option (\<lambda>(pos, _, idx). (pos, idx)) (min_open (open_candidates (specs self) (pending self)))"

definition max_open_prefix_suffix_len :: "'t InlineHiddenTagParser \<Rightarrow> nat" where
  "max_open_prefix_suffix_len self =
     foldr max (map (\<lambda>spec. longest_suffix_prefix_len (pending self) (spec_open spec)) (specs self)) 0"

type_synonym 't tag_out = "'t ExtractedInlineTag StreamTextChunk"

definition push_visible :: "'x StreamTextChunk \<Rightarrow> ustring \<Rightarrow> 'x StreamTextChunk" where
  "push_visible out t = out\<lparr>visible_text := visible_text out @ t\<rparr>"

definition push_extracted :: "'x StreamTextChunk \<Rightarrow> 'x \<Rightarrow> 'x StreamTextChunk" where
  "push_extracted out x = out\<lparr>extracted := extracted out @ [x]\<rparr>"

definition drain_visible_to_suffix_match ::
  "'t InlineHiddenTagParser \<Rightarrow> 't tag_out \<Rightarrow> nat \<Rightarrow> 't InlineHiddenTagParser \<times> 't tag_out" where
  "drain_visible_to_suffix_match self out keep =
     (let n = length (pending self) - keep
      in (self\<lparr>pending := drop n (pending self)\<rparr>, push_visible out (take n (pending self))))"

fun push_loop ::
  "nat \<Rightarrow> 't InlineHiddenTagParser \<Rightarrow> 't tag_out \<Rightarrow> ('t InlineHiddenTagParser \<times> 't tag_out) option" where
  "push_loop 0 self out = None"
| "push_loop (Suc fuel) self out =
     (case active self of
        Some a \<Rightarrow>
          (case str_find (pending self) (act_close a) of
             Some close_idx \<Rightarrow>
               push_loop fuel
                 (self\<lparr>active := None,
                       pending := drop (close_idx + length (act_close a)) (pending self)\<rparr>)
                 (push_extracted out
                    \<lparr>ext_tag = act_tag a,
                     ext_content = act_content a @ take close_idx (pending self)\<rparr>)
           | None \<Rightarrow>
               (let keep = longest_suffix_prefix_len (pending self) (act_close a);
                    n = length (pending self) - keep
                in Some (self\<lparr>active :=
                                Some (a\<lparr>act_content := act_content a @ take n (pending self)\<rparr>),
                              pending := drop n (pending self)\<rparr>, out)))
      | None \<Rightarrow>
          (case find_next_open self of
             Some (open_idx, spec_idx) \<Rightarrow>
               (let spec = specs self ! spec_idx
                in push_loop fuel
                     (self\<lparr>active := Some \<lparr>act_tag = spec_tag spec, act_close = spec_close spec,
                                          act_content = []\<rparr>,
                           pending := drop (open_idx + length (spec_open spec)) (pending self)\<rparr>)
                     (push_visible out (take open_idx (pending self))))
           | None \<Rightarrow>
               Some (drain_visible_to_suffix_match self out (max_open_prefix_suffix_len self))))"

text \<open>\<open>push_str\<close> and \<open>finish\<close>. A loop out of fuel would leave the parser as it is; it never is.\<close>

definition push_loop_all ::
  "'t InlineHiddenTagParser \<Rightarrow> 't tag_out \<Rightarrow> 't InlineHiddenTagParser \<times> 't tag_out" where
  "push_loop_all self out =
     (case push_loop (Suc (length (pending self))) self out of
        Some r \<Rightarrow> r
      | None \<Rightarrow> (self, out))"

definition tag_push_str ::
  "'t InlineHiddenTagParser \<Rightarrow> ustring \<Rightarrow> 't InlineHiddenTagParser \<times> 't tag_out" where
  "tag_push_str self chunk =
     push_loop_all (self\<lparr>pending := pending self @ chunk\<rparr>) empty_chunk"

definition tag_finish :: "'t InlineHiddenTagParser \<Rightarrow> 't InlineHiddenTagParser \<times> 't tag_out" where
  "tag_finish self =
     (case active self of
        Some a \<Rightarrow>
          (self\<lparr>active := None, pending := []\<rparr>,
           push_extracted empty_chunk
             \<lparr>ext_tag = act_tag a, ext_content = act_content a @ pending self\<rparr>)
      | None \<Rightarrow> (self\<lparr>pending := []\<rparr>, push_visible empty_chunk (pending self)))"

section \<open>Searching across a cut\<close>

text \<open>\<open>part s n j\<close>: the last \<open>j\<close> characters of \<open>s\<close> are a proper prefix of \<open>n\<close>.\<close>

definition part :: "'a list \<Rightarrow> 'a list \<Rightarrow> nat \<Rightarrow> bool" where
  "part s n j \<longleftrightarrow> j \<le> length s \<and> j < length n \<and> drop (length s - j) s = take j n"

lemma suffix_prefix_from_part:
  assumes "n \<noteq> []" "m \<le> length s" "m < length n"
  shows "part s n (suffix_prefix_from m s n)" "part s n j \<Longrightarrow> j \<le> m \<Longrightarrow> j \<le> suffix_prefix_from m s n"
proof -
  have "part s n (suffix_prefix_from m s n) \<and>
      (\<forall>j. part s n j \<longrightarrow> j \<le> m \<longrightarrow> j \<le> suffix_prefix_from m s n)"
    using assms
    by (induction m) (auto simp: part_def ends_with_def le_Suc_eq)
  then show "part s n (suffix_prefix_from m s n)"
    "part s n j \<Longrightarrow> j \<le> m \<Longrightarrow> j \<le> suffix_prefix_from m s n" by auto
qed

lemma longest_suffix_prefix_len_part:
  assumes "n \<noteq> []"
  shows "part s n (longest_suffix_prefix_len s n)"
    and "part s n j \<Longrightarrow> j \<le> longest_suffix_prefix_len s n"
proof -
  let ?m = "min (length s) (length n - 1)"
  have m: "?m \<le> length s" "?m < length n" using assms by (cases n; simp add: min_def)+
  show "part s n (longest_suffix_prefix_len s n)"
    using suffix_prefix_from_part(1) [OF assms m] by (simp add: longest_suffix_prefix_len_def)
  show "j \<le> longest_suffix_prefix_len s n" if "part s n j"
  proof -
    have "j \<le> ?m" using that by (auto simp: part_def)
    then show ?thesis
      using suffix_prefix_from_part(2) [OF assms m that] by (simp add: longest_suffix_prefix_len_def)
  qed
qed

lemma longest_suffix_prefix_len_le: "n \<noteq> [] \<Longrightarrow> longest_suffix_prefix_len s n \<le> length s"
  using longest_suffix_prefix_len_part(1) [of n s] by (simp add: part_def)

lemma starts_with_drop_append:
  "length n + m \<le> length p \<Longrightarrow> starts_with (drop m (p @ b)) n = starts_with (drop m p) n"
  by (simp add: starts_with_def)

lemma starts_with_length: "starts_with s p \<Longrightarrow> length p \<le> length s"
  by (metis starts_with_iff prefix_length_le)

lemma str_find_append:
  assumes "n \<noteq> []" "str_find p n = Some i"
  shows "str_find (p @ b) n = Some i"
proof -
  have i: "i \<le> length p" "starts_with (drop i p) n" "\<forall>m<i. \<not> starts_with (drop m p) n"
    using assms(2) by (simp_all add: str_find_Some_iff)
  have len: "length n + i \<le> length p"
    using starts_with_length [OF i(2)] i(1) by simp
  have "starts_with (drop i (p @ b)) n"
    using i(2) starts_with_drop_append [OF len] by blast
  moreover have "\<not> starts_with (drop m (p @ b)) n" if "m < i" for m
    using that i(3) starts_with_drop_append [of n m p b] len by simp
  ultimately show ?thesis using i(1) by (simp add: str_find_Some_iff)
qed

lemma str_find_skip:
  "(\<And>m. m < length x \<Longrightarrow> \<not> starts_with (drop m (x @ y)) n) \<Longrightarrow>
   str_find (x @ y) n = map_option (\<lambda>i. i + length x) (str_find y n)"
proof (induction x)
  case Nil
  then show ?case by (simp add: option.map_ident)
next
  case (Cons c x)
  have "\<not> starts_with (c # x @ y) n" using Cons.prems [of 0] by simp
  moreover have "\<And>m. m < length x \<Longrightarrow> \<not> starts_with (drop m (x @ y)) n"
    using Cons.prems [of "Suc _"] by simp
  ultimately show ?case
    using Cons.IH by (simp add: option.map_comp comp_def)
qed

lemma starts_with_across:
  assumes "starts_with (s @ b) n" "length s < length n"
  shows "s = take (length s) n"
  using assms by (simp add: starts_with_def) (metis append_eq_conv_conj take_append)

lemma str_find_cut:
  assumes n: "n \<noteq> []" and none: "str_find p n = None"
    and K: "K \<le> length p" "longest_suffix_prefix_len p n \<le> K"
  shows "str_find (p @ b) n =
    map_option (\<lambda>i. i + (length p - K)) (str_find (drop (length p - K) p @ b) n)"
proof -
  let ?d = "length p - K"
  have "\<not> starts_with (drop m (take ?d p @ drop ?d p @ b)) n" if "m < length (take ?d p)" for m
  proof
    assume "starts_with (drop m (take ?d p @ drop ?d p @ b)) n"
    then have sw: "starts_with (drop m p @ b) n"
      using that by (simp add: append.assoc [symmetric] del: append.assoc)
    have "\<not> starts_with (drop m p) n"
      using none that by (simp add: str_find_None_iff)
    then have short: "length (drop m p) < length n"
      using sw starts_with_drop_append [of n m p b] that by fastforce
    then have "drop m p = take (length (drop m p)) n"
      by (rule starts_with_across [OF sw])
    then have "part p n (length p - m)"
      using short that by (simp add: part_def)
    then show False
      using longest_suffix_prefix_len_part(2) [OF n] K that by fastforce
  qed
  note skip = str_find_skip [of "take ?d p" "drop ?d p @ b" n, OF this]
  have whole: "take ?d p @ drop ?d p @ b = p @ b" and len: "length (take ?d p) = ?d"
    by (simp_all add: append.assoc [symmetric] del: append.assoc)
  show ?thesis using skip unfolding whole len .
qed

lemma part_cut:
  assumes n: "n \<noteq> []" and K: "K \<le> length p" "longest_suffix_prefix_len p n \<le> K"
  shows "part (p @ b) n j \<longleftrightarrow> part (drop (length p - K) p @ b) n j"
proof (cases "j \<le> length b")
  case True
  then show ?thesis using K by (auto simp: part_def)
next
  case False
  define i where "i = j - length b"
  have j: "j = i + length b" using False by (simp add: i_def)
  show ?thesis
  proof
    assume l: "part (p @ b) n j"
    then have "part p n i"
      unfolding part_def j
      by (auto simp: append_eq_conv_conj take_add split: if_splits)
    then have "i \<le> K" using longest_suffix_prefix_len_part(2) [OF n] K by fastforce
    then show "part (drop (length p - K) p @ b) n j"
      using l K by (auto simp: part_def j)
  next
    assume "part (drop (length p - K) p @ b) n j"
    then show "part (p @ b) n j"
      using K by (auto simp: part_def j)
  qed
qed

lemma longest_suffix_prefix_len_cut:
  assumes "n \<noteq> []" "K \<le> length p" "longest_suffix_prefix_len p n \<le> K"
  shows "longest_suffix_prefix_len (p @ b) n =
    longest_suffix_prefix_len (drop (length p - K) p @ b) n"
  by (meson longest_suffix_prefix_len_part [OF assms(1)] part_cut [OF assms] le_antisym)

section \<open>The choice of the next opening tag\<close>

lemma earlier_open_trans: "earlier_open a b \<Longrightarrow> earlier_open b c \<Longrightarrow> earlier_open a c"
  by (auto simp: earlier_open_def split: prod.splits)

lemma earlier_open_linear: "a = b \<or> earlier_open a b \<or> earlier_open b a"
  by (auto simp: earlier_open_def split: prod.splits)

lemma earlier_open_asym: "earlier_open a b \<Longrightarrow> \<not> earlier_open b a"
  by (auto simp: earlier_open_def split: prod.splits)

lemma min_open_None [simp]: "min_open cs = None \<longleftrightarrow> cs = []"
  by (cases cs) (auto split: option.splits)

lemma least_open_unique:
  assumes "c \<in> S" "\<forall>e\<in>S. e = c \<or> earlier_open c e" "d \<in> S" "\<forall>e\<in>S. e = d \<or> earlier_open d e"
  shows "c = d"
proof -
  have "d = c \<or> earlier_open c d" "c = d \<or> earlier_open d c"
    using assms(2) [rule_format, OF assms(3)] assms(4) [rule_format, OF assms(1)] by auto
  then show ?thesis using earlier_open_asym [of c d] by auto
qed

lemma min_open_least:
  "min_open cs = Some c \<Longrightarrow> c \<in> set cs \<and> (\<forall>d\<in>set cs. d = c \<or> earlier_open c d)"
proof (induction cs arbitrary: c)
  case (Cons x cs)
  show ?case
  proof (cases "min_open cs")
    case None
    then show ?thesis using Cons.prems by simp
  next
    case (Some d)
    note d = Cons.IH [OF Some]
    show ?thesis
    proof (cases "earlier_open d x")
      case True
      then show ?thesis using Cons.prems Some d by auto
    next
      case False
      then have "x = d \<or> earlier_open x d" using earlier_open_linear [of x d] by blast
      then have "\<forall>e\<in>set cs. e = x \<or> earlier_open x e" using d earlier_open_trans [of x d] by fastforce
      then show ?thesis using Cons.prems Some False by auto
    qed
  qed
qed simp

lemma min_open_Some:
  "min_open cs = Some c \<longleftrightarrow> c \<in> set cs \<and> (\<forall>d\<in>set cs. d = c \<or> earlier_open c d)"
proof
  assume c: "c \<in> set cs \<and> (\<forall>d\<in>set cs. d = c \<or> earlier_open c d)"
  then obtain d where d: "min_open cs = Some d" by (cases "min_open cs") auto
  then show "min_open cs = Some c"
    using min_open_least [OF d] c least_open_unique [of c "set cs" d] by simp
qed (rule min_open_least)

lemma open_candidates_iff:
  "(pos, len, idx) \<in> set (open_candidates ss text) \<longleftrightarrow>
     idx < length ss \<and> str_find text (spec_open (ss ! idx)) = Some pos \<and>
     len = utf8_len (spec_open (ss ! idx))"
  by (auto simp: open_candidates_def map_filter_def in_set_enumerate_eq image_iff)

text \<open>No opening delimiter occurs inside another one, so a tag that is found stays the next one
  whatever follows.\<close>

definition specs_separate :: "'t InlineTagSpec list \<Rightarrow> bool" where
  "specs_separate ss \<longleftrightarrow>
     list_all (\<lambda>i. list_all (\<lambda>j. i = j \<or> \<not> sublist (spec_open (ss ! i)) (spec_open (ss ! j)))
       [0..<length ss]) [0..<length ss]"

lemma specs_okD:
  assumes "specs_ok ss" "i < length ss"
  shows "spec_open (ss ! i) \<noteq> []" "spec_close (ss ! i) \<noteq> []"
  using assms by (auto simp: specs_ok_def list_all_length)

lemma specs_separateD:
  "specs_separate ss \<Longrightarrow> i < length ss \<Longrightarrow> j < length ss \<Longrightarrow>
   sublist (spec_open (ss ! i)) (spec_open (ss ! j)) \<Longrightarrow> i = j"
  unfolding specs_separate_def list_all_iff by (drule bspec [of _ _ i], simp, drule bspec [of _ _ j]) auto

lemma find_next_open_Some:
  "find_next_open self = Some (pos, idx) \<Longrightarrow>
   idx < length (specs self) \<and> str_find (pending self) (spec_open (specs self ! idx)) = Some pos"
  by (auto simp: find_next_open_def min_open_Some open_candidates_iff)

lemma find_next_open_None:
  "find_next_open self = None \<longleftrightarrow>
     (\<forall>idx<length (specs self). str_find (pending self) (spec_open (specs self ! idx)) = None)"
proof -
  have "find_next_open self = None \<longleftrightarrow> open_candidates (specs self) (pending self) = []"
    by (simp add: find_next_open_def)
  also have "\<dots> \<longleftrightarrow> (\<forall>c. c \<notin> set (open_candidates (specs self) (pending self)))"
    by (cases "open_candidates (specs self) (pending self)") auto
  also have "\<dots> \<longleftrightarrow>
     (\<forall>idx<length (specs self). str_find (pending self) (spec_open (specs self ! idx)) = None)"
    by (simp only: split_paired_All open_candidates_iff) (auto, metis option.exhaust)
  finally show ?thesis .
qed

lemma occurrences_overlap:
  assumes i: "starts_with (drop pos p) a" and j: "starts_with (drop pos' (p @ b)) c"
    and "pos \<le> length p" "pos' \<le> pos" "length p < pos' + length c" "pos' \<le> length p"
  shows "sublist a c"
proof -
  have la: "length a + pos \<le> length p"
    using starts_with_length [OF i] assms(3) by simp
  have c: "c = take (length c) (drop pos' (p @ b))"
    using j by (simp add: starts_with_def)
  have "take (length a) (drop (pos - pos') c) = take (length a) (drop pos (p @ b))"
    using la assms(4,5) by (subst c) (simp add: drop_take min_def)
  also have "\<dots> = a"
    using i la by (simp add: starts_with_def)
  finally have "a = take (length a) (drop (pos - pos') c)" by simp
  then show ?thesis
    by (metis sublist_take sublist_drop sublist_order.order.trans)
qed

lemma find_next_open_append:
  assumes "specs_ok (specs self)" "specs_separate (specs self)" "find_next_open self = Some r"
  shows "find_next_open (self\<lparr>pending := pending self @ b\<rparr>) = Some r"
proof -
  let ?ss = "specs self" and ?p = "pending self"
  obtain c where c: "min_open (open_candidates ?ss ?p) = Some c" and r: "r = (case c of (pos, _, idx) \<Rightarrow> (pos, idx))"
    using assms(3) by (auto simp: find_next_open_def)
  obtain pos len idx where c_eq: "c = (pos, len, idx)" by (cases c)
  have c_in: "c \<in> set (open_candidates ?ss ?p)"
    and least: "\<forall>d\<in>set (open_candidates ?ss ?p). d = c \<or> earlier_open c d"
    using c by (simp_all add: min_open_Some)
  then have idx: "idx < length ?ss" "str_find ?p (spec_open (?ss ! idx)) = Some pos"
    by (simp_all add: c_eq open_candidates_iff)
  have "d = c \<or> earlier_open c d" if "d \<in> set (open_candidates ?ss (?p @ b))" for d
  proof -
    obtain pos' len' j where d: "d = (pos', len', j)" by (cases d)
    with that have j: "j < length ?ss" "str_find (?p @ b) (spec_open (?ss ! j)) = Some pos'"
      "len' = utf8_len (spec_open (?ss ! j))" by (simp_all add: open_candidates_iff)
    show ?thesis
    proof (cases "str_find ?p (spec_open (?ss ! j))")
      case (Some q)
      then have "q = pos'"
        using str_find_append [OF specs_okD(1) [OF assms(1) j(1)] Some, of b] j(2) by simp
      then have "d \<in> set (open_candidates ?ss ?p)"
        using Some j d by (simp add: open_candidates_iff)
      then show ?thesis using least by simp
    next
      case None
      have "pos < pos'"
      proof (rule ccontr)
        assume "\<not> pos < pos'"
        then have le: "pos' \<le> pos" by simp
        have i: "pos \<le> length ?p" "starts_with (drop pos ?p) (spec_open (?ss ! idx))"
          using idx(2) by (simp_all add: str_find_Some_iff)
        have o: "starts_with (drop pos' (?p @ b)) (spec_open (?ss ! j))"
          using j(2) by (simp add: str_find_Some_iff)
        have "\<not> starts_with (drop pos' ?p) (spec_open (?ss ! j))"
          using None le i(1) by (simp add: str_find_None_iff)
        then have "length ?p < pos' + length (spec_open (?ss ! j))"
          using o starts_with_drop_append [of "spec_open (?ss ! j)" pos' ?p b] by fastforce
        then have "sublist (spec_open (?ss ! idx)) (spec_open (?ss ! j))"
          using occurrences_overlap [OF i(2) o i(1) le] le i(1) by simp
        then have "idx = j" using specs_separateD [OF assms(2) idx(1) j(1)] by simp
        then show False using None idx(2) by simp
      qed
      then show ?thesis by (simp add: c_eq d earlier_open_def)
    qed
  qed
  moreover have "c \<in> set (open_candidates ?ss (?p @ b))"
    using str_find_append [OF specs_okD(1) [OF assms(1) idx(1)] idx(2), of b] c_in
    by (simp add: c_eq open_candidates_iff)
  ultimately have "min_open (open_candidates ?ss (?p @ b)) = Some c"
    by (simp add: min_open_Some)
  then show ?thesis using r by (simp add: find_next_open_def)
qed

lemma foldr_max_ge: "x \<in> set xs \<Longrightarrow> x \<le> foldr max xs (0 :: nat)"
  by (induction xs) auto

lemma foldr_max_le: "(\<And>x. x \<in> set xs \<Longrightarrow> x \<le> m) \<Longrightarrow> foldr max xs (0 :: nat) \<le> m"
  by (induction xs) auto

lemma max_open_bounds:
  assumes "specs_ok (specs self)"
  shows "max_open_prefix_suffix_len self \<le> length (pending self)"
    and "i < length (specs self) \<Longrightarrow>
      longest_suffix_prefix_len (pending self) (spec_open (specs self ! i)) \<le>
        max_open_prefix_suffix_len self"
proof -
  show "max_open_prefix_suffix_len self \<le> length (pending self)"
    unfolding max_open_prefix_suffix_len_def
    using assms by (intro foldr_max_le)
      (auto simp: specs_ok_def list_all_iff intro: longest_suffix_prefix_len_le)
  show "longest_suffix_prefix_len (pending self) (spec_open (specs self ! i)) \<le>
      max_open_prefix_suffix_len self" if "i < length (specs self)"
    unfolding max_open_prefix_suffix_len_def using that by (intro foldr_max_ge) auto
qed

lemma find_next_open_cut:
  assumes ok: "specs_ok (specs self)" and none: "find_next_open self = None"
    and d: "d = length (pending self) - max_open_prefix_suffix_len self"
  shows "find_next_open (self\<lparr>pending := pending self @ b\<rparr>) =
    map_option (\<lambda>(pos, idx). (pos + d, idx))
      (find_next_open (self\<lparr>pending := drop d (pending self) @ b\<rparr>))"
proof -
  let ?ss = "specs self" and ?p = "pending self"
  have found: "str_find (?p @ b) (spec_open (?ss ! i)) =
      map_option (\<lambda>q. q + d) (str_find (drop d ?p @ b) (spec_open (?ss ! i)))"
    if "i < length ?ss" for i
    unfolding d using that none specs_okD(1) [OF ok that] max_open_bounds [OF ok]
    by (intro str_find_cut) (auto simp: find_next_open_None)
  have cand: "(pos, len, idx) \<in> set (open_candidates ?ss (?p @ b)) \<longleftrightarrow>
      (\<exists>q. pos = q + d \<and> (q, len, idx) \<in> set (open_candidates ?ss (drop d ?p @ b)))"
    for pos len idx
    using found [of idx]
    by (cases "str_find (drop d ?p @ b) (spec_open (?ss ! idx))") (auto simp: open_candidates_iff)
  show ?thesis
  proof (cases "min_open (open_candidates ?ss (drop d ?p @ b))")
    case None
    then have "open_candidates ?ss (?p @ b) = []"
      using cand by (cases "open_candidates ?ss (?p @ b)") fastforce+
    then show ?thesis using None by (simp add: find_next_open_def)
  next
    case (Some c)
    obtain q len idx where c: "c = (q, len, idx)" by (cases c)
    have c_in: "c \<in> set (open_candidates ?ss (drop d ?p @ b))"
      and least: "\<And>e. e \<in> set (open_candidates ?ss (drop d ?p @ b)) \<Longrightarrow> e = c \<or> earlier_open c e"
      using Some by (auto simp: min_open_Some)
    have "e = (q + d, len, idx) \<or> earlier_open (q + d, len, idx) e"
      if e_in: "e \<in> set (open_candidates ?ss (?p @ b))" for e
    proof -
      obtain q' len' idx' where e: "e = (q' + d, len', idx')"
        "(q', len', idx') \<in> set (open_candidates ?ss (drop d ?p @ b))"
        by (cases e rule: prod_cases3) (use e_in cand in auto)
      then show ?thesis using least [OF e(2)] by (simp add: c earlier_open_def)
    qed
    moreover have "(q + d, len, idx) \<in> set (open_candidates ?ss (?p @ b))"
      using c_in cand c by auto
    ultimately have "min_open (open_candidates ?ss (?p @ b)) = Some (q + d, len, idx)"
      by (simp add: min_open_Some)
    then show ?thesis using Some c by (simp add: find_next_open_def)
  qed
qed

lemma max_open_cut:
  assumes ok: "specs_ok (specs self)"
    and d: "d = length (pending self) - max_open_prefix_suffix_len self"
  shows "max_open_prefix_suffix_len (self\<lparr>pending := pending self @ b\<rparr>) =
    max_open_prefix_suffix_len (self\<lparr>pending := drop d (pending self) @ b\<rparr>)"
proof -
  have "longest_suffix_prefix_len (pending self @ b) (spec_open spec) =
      longest_suffix_prefix_len (drop d (pending self) @ b) (spec_open spec)"
    if "spec \<in> set (specs self)" for spec
  proof -
    obtain i where i: "i < length (specs self)" "spec = specs self ! i"
      using \<open>spec \<in> set (specs self)\<close> by (auto simp: in_set_conv_nth)
    then show ?thesis
      unfolding d using specs_okD(1) [OF ok i(1)] max_open_bounds [OF ok]
      by (intro longest_suffix_prefix_len_cut) auto
  qed
  then show ?thesis
    by (simp add: max_open_prefix_suffix_len_def cong: map_cong)
qed

section \<open>The loop\<close>

text \<open>What the constructor establishes is enough for the loop to end; that the opening tags are separate
  is needed only for its meaning.\<close>

definition loop_ok :: "'t InlineHiddenTagParser \<Rightarrow> bool" where
  "loop_ok self \<longleftrightarrow> specs_ok (specs self) \<and>
     (case active self of None \<Rightarrow> True | Some a \<Rightarrow> act_close a \<noteq> [])"

definition parser_ok :: "'t InlineHiddenTagParser \<Rightarrow> bool" where
  "parser_ok self \<longleftrightarrow> specs_ok (specs self) \<and> specs_separate (specs self) \<and>
     (case active self of None \<Rightarrow> True | Some a \<Rightarrow> act_close a \<noteq> [])"

lemma parser_ok_iff: "parser_ok self \<longleftrightarrow> loop_ok self \<and> specs_separate (specs self)"
  by (auto simp: parser_ok_def loop_ok_def)

text \<open>The two rounds that continue, and that they remove at least one character.\<close>

definition close_round ::
  "'t InlineHiddenTagParser \<Rightarrow> 't ActiveTag \<Rightarrow> nat \<Rightarrow> 't InlineHiddenTagParser" where
  "close_round self a i =
     self\<lparr>active := None, pending := drop (i + length (act_close a)) (pending self)\<rparr>"

definition open_round ::
  "'t InlineHiddenTagParser \<Rightarrow> nat \<Rightarrow> nat \<Rightarrow> 't InlineHiddenTagParser" where
  "open_round self i idx =
     self\<lparr>active := Some \<lparr>act_tag = spec_tag (specs self ! idx),
            act_close = spec_close (specs self ! idx), act_content = []\<rparr>,
          pending := drop (i + length (spec_open (specs self ! idx))) (pending self)\<rparr>"

lemma str_find_end:
  "n \<noteq> [] \<Longrightarrow> str_find p n = Some i \<Longrightarrow> i + length n \<le> length p"
  using starts_with_length [of "drop i p" n] by (auto simp: str_find_Some_iff)

lemma close_round_loop:
  assumes "loop_ok self" "active self = Some a" "str_find (pending self) (act_close a) = Some i"
  shows "loop_ok (close_round self a i)" "length (pending (close_round self a i)) < length (pending self)"
proof -
  have "act_close a \<noteq> []" using assms(1,2) by (simp add: loop_ok_def)
  then show "length (pending (close_round self a i)) < length (pending self)"
    using str_find_end [OF _ assms(3)] by (cases "act_close a") (auto simp: close_round_def)
  show "loop_ok (close_round self a i)"
    using assms(1) by (simp add: loop_ok_def close_round_def)
qed

lemma open_round_loop:
  assumes "loop_ok self" "find_next_open self = Some (i, idx)"
  shows "loop_ok (open_round self i idx)" "length (pending (open_round self i idx)) < length (pending self)"
proof -
  have ok: "specs_ok (specs self)" using assms(1) by (simp add: loop_ok_def)
  note idx = find_next_open_Some [OF assms(2)]
  note nonempty = specs_okD [OF ok idx [THEN conjunct1]]
  show "length (pending (open_round self i idx)) < length (pending self)"
    using str_find_end [OF nonempty(1) idx [THEN conjunct2]] nonempty(1)
    by (cases "spec_open (specs self ! idx)") (auto simp: open_round_def)
  show "loop_ok (open_round self i idx)"
    using assms(1) nonempty(2) by (simp add: loop_ok_def open_round_def)
qed

lemma close_round_ok:
  assumes "parser_ok self" "active self = Some a" "str_find (pending self) (act_close a) = Some i"
  shows "parser_ok (close_round self a i)" "length (pending (close_round self a i)) < length (pending self)"
  using close_round_loop [of self a i] assms by (auto simp: parser_ok_iff close_round_def)

lemma open_round_ok:
  assumes "parser_ok self" "find_next_open self = Some (i, idx)"
  shows "parser_ok (open_round self i idx)" "length (pending (open_round self i idx)) < length (pending self)"
  using open_round_loop [of self i idx] assms by (auto simp: parser_ok_iff open_round_def)

lemma push_loop_Suc:
  "push_loop (Suc fuel) self out =
     (case active self of
        Some a \<Rightarrow>
          (case str_find (pending self) (act_close a) of
             Some i \<Rightarrow> push_loop fuel (close_round self a i)
                (push_extracted out \<lparr>ext_tag = act_tag a,
                   ext_content = act_content a @ take i (pending self)\<rparr>)
           | None \<Rightarrow>
               (let n = length (pending self) - longest_suffix_prefix_len (pending self) (act_close a)
                in Some (self\<lparr>active :=
                                Some (a\<lparr>act_content := act_content a @ take n (pending self)\<rparr>),
                              pending := drop n (pending self)\<rparr>, out)))
      | None \<Rightarrow>
          (case find_next_open self of
             Some (i, idx) \<Rightarrow>
               push_loop fuel (open_round self i idx) (push_visible out (take i (pending self)))
           | None \<Rightarrow>
               (let n = length (pending self) - max_open_prefix_suffix_len self
                in Some (self\<lparr>pending := drop n (pending self)\<rparr>,
                         push_visible out (take n (pending self))))))"
  by (simp add: close_round_def open_round_def drain_visible_to_suffix_match_def Let_def
      split: option.split)

declare push_loop.simps(2) [simp del]

lemma push_loop_mono: "push_loop f self out = Some r \<Longrightarrow> f \<le> f' \<Longrightarrow> push_loop f' self out = Some r"
proof (induction f arbitrary: f' self out)
  case (Suc f)
  then obtain g where "f' = Suc g" "f \<le> g" by (cases f') auto
  then show ?case
    using Suc.prems(1) Suc.IH [of _ _ g]
    by (cases "active self"; cases "find_next_open self")
      (auto simp: push_loop_Suc Let_def split: option.splits)
qed simp

lemma push_loop_total:
  assumes "loop_ok self" "length (pending self) < fuel"
  shows "\<exists>r. push_loop fuel self out = Some r"
  using assms
proof (induction fuel arbitrary: self out)
  case (Suc fuel)
  show ?case
  proof (cases "active self")
    case None
    show ?thesis
    proof (cases "find_next_open self")
      case (Some r)
      then obtain i idx where r: "find_next_open self = Some (i, idx)" by (cases r) auto
      then show ?thesis
        using Suc.IH [OF open_round_loop(1) [OF Suc.prems(1) r]] open_round_loop(2) [OF Suc.prems(1) r]
          Suc.prems(2) None by (simp add: push_loop_Suc)
    qed (simp add: None push_loop_Suc Let_def)
  next
    case (Some a)
    show ?thesis
    proof (cases "str_find (pending self) (act_close a)")
      case found: (Some i)
      then show ?thesis
        using Suc.IH [OF close_round_loop(1) [OF Suc.prems(1) Some found]]
          close_round_loop(2) [OF Suc.prems(1) Some found] Suc.prems(2) Some
        by (simp add: push_loop_Suc)
    qed (simp add: Some push_loop_Suc Let_def)
  qed
qed simp

lemma push_loop_enough:
  assumes "loop_ok self" "length (pending self) < fuel"
  shows "push_loop fuel self out = Some (push_loop_all self out)"
proof -
  obtain r where r: "push_loop (Suc (length (pending self))) self out = Some r"
    using push_loop_total [OF assms(1), of "Suc (length (pending self))" out] by auto
  then show ?thesis
    using push_loop_mono [OF r, of fuel] assms(2) by (simp add: push_loop_all_def)
qed

lemma push_loop_keeps_ok: "push_loop fuel self out = Some (s1, o1) \<Longrightarrow> loop_ok self \<Longrightarrow> loop_ok s1"
proof (induction fuel arbitrary: self out)
  case (Suc fuel)
  show ?case
  proof (cases "active self")
    case None
    show ?thesis
    proof (cases "find_next_open self")
      case (Some r)
      then obtain i idx where r: "find_next_open self = Some (i, idx)" by (cases r) auto
      show ?thesis
        using Suc.IH [OF _ open_round_loop(1) [OF Suc.prems(2) r]] Suc.prems(1) None r
        by (simp add: push_loop_Suc)
    qed (use Suc.prems None in \<open>auto simp: push_loop_Suc Let_def loop_ok_def\<close>)
  next
    case (Some a)
    show ?thesis
    proof (cases "str_find (pending self) (act_close a)")
      case found: (Some i)
      show ?thesis
        using Suc.IH [OF _ close_round_loop(1) [OF Suc.prems(2) Some found]] Suc.prems(1) Some found
        by (simp add: push_loop_Suc)
    qed (use Suc.prems Some in \<open>auto simp: push_loop_Suc Let_def loop_ok_def\<close>)
  qed
qed simp

text \<open>The loop as an equation, without fuel.\<close>

lemma push_loop_all_eq:
  assumes "parser_ok self"
  shows "push_loop_all self out =
     (case active self of
        Some a \<Rightarrow>
          (case str_find (pending self) (act_close a) of
             Some i \<Rightarrow> push_loop_all (close_round self a i)
                (push_extracted out \<lparr>ext_tag = act_tag a,
                   ext_content = act_content a @ take i (pending self)\<rparr>)
           | None \<Rightarrow>
               (let n = length (pending self) - longest_suffix_prefix_len (pending self) (act_close a)
                in (self\<lparr>active :=
                                Some (a\<lparr>act_content := act_content a @ take n (pending self)\<rparr>),
                              pending := drop n (pending self)\<rparr>, out)))
      | None \<Rightarrow>
          (case find_next_open self of
             Some (i, idx) \<Rightarrow>
               push_loop_all (open_round self i idx) (push_visible out (take i (pending self)))
           | None \<Rightarrow>
               (let n = length (pending self) - max_open_prefix_suffix_len self
                in (self\<lparr>pending := drop n (pending self)\<rparr>,
                         push_visible out (take n (pending self))))))"
proof -
  have loop: "loop_ok self" using assms by (simp add: parser_ok_iff)
  have "push_loop (Suc (length (pending self))) self out = Some (push_loop_all self out)"
    by (rule push_loop_enough [OF loop]) simp
  then show ?thesis
    unfolding push_loop_Suc
    using push_loop_enough [OF close_round_loop(1) [OF loop]] close_round_loop(2) [OF loop]
      push_loop_enough [OF open_round_loop(1) [OF loop]] open_round_loop(2) [OF loop]
    by (auto simp: Let_def split: option.splits)
qed

lemma push_loop_out:
  "push_loop fuel self (append_chunk pre out) =
     map_option (map_prod id (append_chunk pre)) (push_loop fuel self out)"
proof (induction fuel arbitrary: self out)
  case (Suc fuel)
  have "push_visible (append_chunk pre out) t = append_chunk pre (push_visible out t)"
    "push_extracted (append_chunk pre out) x = append_chunk pre (push_extracted out x)" for out t x
    by (simp_all add: push_visible_def push_extracted_def append_chunk_def)
  then show ?case
    by (simp add: push_loop_Suc Suc.IH Let_def split: option.split prod.split)
qed simp

lemma push_loop_all_out:
  "push_loop_all self (append_chunk pre out) = map_prod id (append_chunk pre) (push_loop_all self out)"
  by (simp add: push_loop_all_def push_loop_out split: option.split)

section \<open>Cutting the text changes nothing\<close>

lemma take_cut: "n \<le> length p \<Longrightarrow> take (j + n) (p @ b) = take n p @ take j (drop n p @ b)"
  by (simp add: take_add add.commute [of j])

lemma drop_cut: "n \<le> length p \<Longrightarrow> drop (j + n) (p @ b) = drop j (drop n p @ b)"
  by simp

lemma parser_ok_pending [simp]: "parser_ok (self\<lparr>pending := x\<rparr>) = parser_ok self"
  by (simp add: parser_ok_def)

lemma parser_ok_content:
  "parser_ok self \<Longrightarrow> active self = Some a \<Longrightarrow>
   parser_ok (self\<lparr>active := Some (a\<lparr>act_content := x\<rparr>), pending := y\<rparr>)"
  by (simp add: parser_ok_def)

lemma append_inside_tag:
  assumes ok: "parser_ok self" and a: "active self = Some a"
    and none: "str_find (pending self) (act_close a) = None"
    and n: "n = length (pending self) - longest_suffix_prefix_len (pending self) (act_close a)"
  shows "push_loop_all (self\<lparr>pending := pending self @ b\<rparr>) out =
    push_loop_all
      (self\<lparr>active := Some (a\<lparr>act_content := act_content a @ take n (pending self)\<rparr>),
            pending := drop n (pending self) @ b\<rparr>) out"
proof -
  let ?p = "pending self" and ?c = "act_close a"
  have c: "?c \<noteq> []" using ok a by (simp add: parser_ok_def)
  have n_le: "n \<le> length ?p" using n by simp
  have find: "str_find (?p @ b) ?c = map_option (\<lambda>i. i + n) (str_find (drop n ?p @ b) ?c)"
    unfolding n by (rule str_find_cut [OF c none longest_suffix_prefix_len_le [OF c] order_refl])
  have keep: "longest_suffix_prefix_len (?p @ b) ?c = longest_suffix_prefix_len (drop n ?p @ b) ?c"
    unfolding n
    by (rule longest_suffix_prefix_len_cut [OF c longest_suffix_prefix_len_le [OF c] order_refl])
  let ?m = "length (drop n ?p @ b) - longest_suffix_prefix_len (drop n ?p @ b) ?c"
  have "longest_suffix_prefix_len (drop n ?p @ b) ?c \<le> length (drop n ?p @ b)"
    by (rule longest_suffix_prefix_len_le [OF c])
  then have m: "length (?p @ b) - longest_suffix_prefix_len (?p @ b) ?c = ?m + n"
    using n_le keep by simp
  show ?thesis
  proof (cases "str_find (drop n ?p @ b) ?c")
    case None
    then show ?thesis
      using find a parser_ok_content [OF ok a]
      by (simp add: push_loop_all_eq ok m [simplified] take_cut [OF n_le] drop_cut [OF n_le] Let_def
          del: take_append drop_append)
  next
    case (Some j)
    then show ?thesis
      using find a parser_ok_content [OF ok a]
      by (subst (1 2) push_loop_all_eq)
        (simp_all add: ok close_round_def take_cut [OF n_le] add.assoc
          add.left_commute [of _ n] add.commute [of n] drop_cut [OF n_le, symmetric]
          del: take_append drop_append)
  qed
qed

lemma append_outside_tag:
  assumes ok: "parser_ok self" and a: "active self = None" and none: "find_next_open self = None"
    and n: "n = length (pending self) - max_open_prefix_suffix_len self"
  shows "push_loop_all (self\<lparr>pending := pending self @ b\<rparr>) out =
    push_loop_all (self\<lparr>pending := drop n (pending self) @ b\<rparr>)
      (push_visible out (take n (pending self)))"
proof -
  let ?p = "pending self"
  have specs: "specs_ok (specs self)" using ok by (simp add: parser_ok_def)
  have n_le: "n \<le> length ?p" using n by simp
  note find = find_next_open_cut [OF specs none n, of b]
  note keep = max_open_cut [OF specs n, of b]
  let ?s = "self\<lparr>pending := drop n ?p @ b\<rparr>"
  let ?m = "length (drop n ?p @ b) - max_open_prefix_suffix_len ?s"
  have "max_open_prefix_suffix_len ?s \<le> length (drop n ?p @ b)"
    using max_open_bounds(1) [of ?s] specs by simp
  then have m: "length (?p @ b) - max_open_prefix_suffix_len (self\<lparr>pending := ?p @ b\<rparr>) = ?m + n"
    using n_le keep by simp
  have visible: "push_visible (push_visible out x) y = push_visible out (x @ y)" for x y
    by (simp add: push_visible_def)
  show ?thesis
  proof (cases "find_next_open ?s")
    case None
    then show ?thesis
      using find a
      by (simp add: push_loop_all_eq ok m [simplified] take_cut [OF n_le] drop_cut [OF n_le] Let_def
          visible del: take_append drop_append)
  next
    case (Some r)
    then obtain j idx where r: "find_next_open ?s = Some (j, idx)" by (cases r) auto
    then show ?thesis
      using find a
      by (subst (1 2) push_loop_all_eq)
        (simp_all add: ok open_round_def take_cut [OF n_le] visible add.assoc
          add.left_commute [of _ n] add.commute [of n] drop_cut [OF n_le, symmetric]
          del: take_append drop_append)
  qed
qed

lemma push_loop_all_append:
  assumes "parser_ok self" "push_loop_all self out = (s1, o1)"
  shows "push_loop_all (self\<lparr>pending := pending self @ b\<rparr>) out =
    push_loop_all (s1\<lparr>pending := pending s1 @ b\<rparr>) o1"
  using assms
proof (induction "length (pending self)" arbitrary: self out rule: less_induct)
  case less
  let ?p = "pending self"
  show ?case
  proof (cases "active self")
    case (Some a)
    have c: "act_close a \<noteq> []" using less.prems(1) Some by (simp add: parser_ok_def)
    show ?thesis
    proof (cases "str_find ?p (act_close a)")
      case None
      then show ?thesis
        using less.prems Some append_inside_tag [OF less.prems(1) Some None refl]
        by (auto simp: push_loop_all_eq [OF less.prems(1)] Let_def)
    next
      case found: (Some i)
      note step = close_round_ok [OF less.prems(1) Some found]
      have "close_round (self\<lparr>pending := ?p @ b\<rparr>) a i =
          (close_round self a i)\<lparr>pending := pending (close_round self a i) @ b\<rparr>"
        using str_find_end [OF c found] by (simp add: close_round_def)
      moreover have "take i (?p @ b) = take i ?p"
        using str_find_end [OF c found] by simp
      ultimately show ?thesis
        using less.hyps [OF step(2,1)] less.prems Some found str_find_append [OF c found]
        by (simp add: push_loop_all_eq del: take_append)
    qed
  next
    case None
    show ?thesis
    proof (cases "find_next_open self")
      case none: None
      then show ?thesis
        using less.prems None append_outside_tag [OF less.prems(1) None none refl]
        by (auto simp: push_loop_all_eq [OF less.prems(1)] Let_def)
    next
      case (Some r)
      then obtain i idx where r: "find_next_open self = Some (i, idx)" by (cases r) auto
      note step = open_round_ok [OF less.prems(1) r]
      have ok: "specs_ok (specs self)" "specs_separate (specs self)"
        using less.prems(1) by (simp_all add: parser_ok_def)
      note idx = find_next_open_Some [OF r]
      have len: "i + length (spec_open (specs self ! idx)) \<le> length ?p"
        using str_find_end [OF specs_okD(1) [OF ok(1)]] idx by blast
      have "open_round (self\<lparr>pending := ?p @ b\<rparr>) i idx =
          (open_round self i idx)\<lparr>pending := pending (open_round self i idx) @ b\<rparr>"
        using len by (simp add: open_round_def)
      moreover have "take i (?p @ b) = take i ?p" using len by simp
      ultimately show ?thesis
        using less.hyps [OF step(2,1)] less.prems None r find_next_open_append [OF ok r]
        by (simp add: push_loop_all_eq del: take_append)
    qed
  qed
qed

lemma push_loop_all_ok: "parser_ok self \<Longrightarrow> push_loop_all self out = (s1, o1) \<Longrightarrow> parser_ok s1"
proof (induction "length (pending self)" arbitrary: self out rule: less_induct)
  case less
  show ?case
  proof (cases "active self")
    case (Some a)
    show ?thesis
    proof (cases "str_find (pending self) (act_close a)")
      case None
      then show ?thesis
        using less.prems Some parser_ok_content [OF less.prems(1) Some]
        by (auto simp: push_loop_all_eq [OF less.prems(1)] Let_def)
    next
      case found: (Some i)
      show ?thesis
        using less.hyps [OF close_round_ok(2,1) [OF less.prems(1) Some found]] less.prems Some found
        by (simp add: push_loop_all_eq)
    qed
  next
    case None
    show ?thesis
    proof (cases "find_next_open self")
      case none: None
      then show ?thesis
        using less.prems None by (auto simp: push_loop_all_eq [OF less.prems(1)] Let_def)
    next
      case (Some r)
      then obtain i idx where r: "find_next_open self = Some (i, idx)" by (cases r) auto
      show ?thesis
        using less.hyps [OF open_round_ok(2,1) [OF less.prems(1) r]] less.prems None r
        by (simp add: push_loop_all_eq)
    qed
  qed
qed

text \<open>Between two chunks the buffer holds nothing that could be processed.\<close>

definition tag_settled :: "'t InlineHiddenTagParser \<Rightarrow> bool" where
  "tag_settled self \<longleftrightarrow> parser_ok self \<and> push_loop_all self empty_chunk = (self, empty_chunk)"

lemma push_loop_all_settled:
  assumes "parser_ok self" "push_loop_all self out = (s1, o1)"
  shows "tag_settled s1"
proof -
  have ok: "parser_ok s1" by (rule push_loop_all_ok [OF assms])
  have "push_loop_all s1 o1 = (s1, o1)"
    using push_loop_all_append [OF assms, of "[]"] assms(2) by simp
  then have "map_prod id (append_chunk o1) (push_loop_all s1 empty_chunk) = (s1, o1)"
    using push_loop_all_out [of s1 o1 empty_chunk] by simp
  then show ?thesis
    using ok by (cases "push_loop_all s1 empty_chunk")
      (auto simp: tag_settled_def)
qed

lemma fresh_settled:
  assumes "specs_ok ss" "specs_separate ss"
  shows "tag_settled \<lparr>specs = ss, pending = [], active = None\<rparr>"
proof -
  let ?s = "\<lparr>specs = ss, pending = [], active = None\<rparr> :: 'a InlineHiddenTagParser"
  have ok: "parser_ok ?s" using assms by (simp add: parser_ok_def)
  have "find_next_open ?s = None"
    using specs_okD(1) [OF assms(1)] by (simp add: find_next_open_None)
  then have "push_loop_all ?s empty_chunk = (?s, empty_chunk)"
    using ok by (simp add: push_loop_all_eq push_visible_def empty_chunk_def)
  then show ?thesis using ok by (simp add: tag_settled_def)
qed

lemma tag_push_str_settled:
  "tag_settled self \<Longrightarrow> tag_push_str self a = (s1, o1) \<Longrightarrow> tag_settled s1"
  unfolding tag_push_str_def by (rule push_loop_all_settled) (auto simp: tag_settled_def)

lemma tag_push_str_append:
  assumes "tag_settled self" "tag_push_str self a = (s1, o1)" "tag_push_str s1 b = (s2, o2)"
  shows "tag_push_str self (a @ b) = (s2, append_chunk o1 o2)"
proof -
  have ok: "parser_ok (self\<lparr>pending := pending self @ a\<rparr>)"
    using assms(1) by (simp add: tag_settled_def)
  have "tag_push_str self (a @ b) = push_loop_all (s1\<lparr>pending := pending s1 @ b\<rparr>) o1"
    using push_loop_all_append [OF ok assms(2) [unfolded tag_push_str_def], of b]
    by (simp add: tag_push_str_def)
  also have "\<dots> = map_prod id (append_chunk o1) (tag_push_str s1 b)"
    using push_loop_all_out [of _ o1 empty_chunk] by (simp add: tag_push_str_def)
  finally show ?thesis using assms(3) by simp
qed

lemma tag_finish_settled:
  assumes "tag_settled self" "tag_finish self = (s1, o1)"
  shows "tag_settled s1"
proof -
  have "s1 = \<lparr>specs = specs self, pending = [], active = None\<rparr>"
    using assms(2) by (auto simp: tag_finish_def split: option.splits)
  then show ?thesis
    using assms(1) fresh_settled [of "specs self"] by (simp add: tag_settled_def parser_ok_def)
qed

interpretation hidden: stream_text_parser tag_push_str tag_finish tag_settled "\<lambda>xs. xs"
proof unfold_locales
  fix self :: "'a InlineHiddenTagParser" and a b s1 o1 s2 o2
  show "tag_settled self \<Longrightarrow> tag_push_str self [] = (self, empty_chunk)"
    by (simp add: tag_push_str_def tag_settled_def)
  show "tag_settled self \<Longrightarrow> tag_push_str self a = (s1, o1) \<Longrightarrow> tag_settled s1"
    by (rule tag_push_str_settled)
  show "tag_settled self \<Longrightarrow> tag_finish self = (s1, o1) \<Longrightarrow> tag_settled s1"
    by (rule tag_finish_settled)
  assume "tag_settled self" "tag_push_str self a = (s1, o1)" "tag_push_str s1 b = (s2, o2)"
  then have "tag_push_str self (a @ b) = (s2, append_chunk o1 o2)"
    by (rule tag_push_str_append)
  then show "\<exists>o3. tag_push_str self (a @ b) = (s2, o3) \<and>
      visible_text o3 = visible_text o1 @ visible_text o2 \<and>
      extracted o3 = extracted o1 @ extracted o2" by auto
qed simp_all

section \<open>Termination of the loop\<close>

definition after_chunks :: "'t InlineHiddenTagParser \<Rightarrow> ustring list \<Rightarrow> 't InlineHiddenTagParser" where
  "after_chunks self chunks = foldl (\<lambda>p chunk. fst (tag_push_str p chunk)) self chunks"

lemma tag_push_str_loop_ok:
  assumes "loop_ok self"
  shows "loop_ok (fst (tag_push_str self chunk))"
proof -
  let ?s = "self\<lparr>pending := pending self @ chunk\<rparr>"
  have "loop_ok ?s" using assms by (simp add: loop_ok_def)
  moreover have "push_loop (Suc (length (pending ?s))) ?s empty_chunk = Some (tag_push_str self chunk)"
    using push_loop_enough [OF \<open>loop_ok ?s\<close>, of "Suc (length (pending ?s))"] by (simp add: tag_push_str_def)
  ultimately show ?thesis
    using push_loop_keeps_ok by (metis prod.collapse)
qed

lemma after_chunks_loop_ok: "loop_ok self \<Longrightarrow> loop_ok (after_chunks self chunks)"
  by (induction chunks arbitrary: self) (simp_all add: after_chunks_def tag_push_str_loop_ok)

text \<open>C37: The loop of \<open>push_str\<close> ends. For every list of tags that the constructor accepts, separate or not, and
  after any chunks, pushing a further chunk takes at most one round more than the buffer has characters
  with the chunk, and returns what \<open>push_str\<close> returns.\<close>

theorem push_str_terminates:
  assumes "new_parser ss = Some start" "after_chunks start chunks = self"
    "length (pending self) + length chunk < rounds"
  shows "push_loop rounds (self\<lparr>pending := pending self @ chunk\<rparr>) empty_chunk = Some (tag_push_str self chunk)"
proof -
  have "loop_ok start"
    using assms(1) by (auto simp: new_parser_def loop_ok_def split: if_splits)
  then have "loop_ok self"
    using after_chunks_loop_ok assms(2) by blast
  then have "loop_ok (self\<lparr>pending := pending self @ chunk\<rparr>)"
    by (simp add: loop_ok_def)
  from push_loop_enough [OF this] assms(3) show ?thesis
    by (simp add: tag_push_str_def)
qed

text \<open>Two tags whose opening delimiters overlap, after a chunk that ends inside both.\<close>

definition overlapping_specs :: "bool InlineTagSpec list" where
  "overlapping_specs =
     [\<lparr>spec_tag = True, spec_open = lit ''<a'', spec_close = lit ''>''\<rparr>,
      \<lparr>spec_tag = False, spec_open = lit ''<ab'', spec_close = lit ''/''\<rparr>]"

theorem push_str_terminates_witness:
  "push_loop 10 \<lparr>specs = overlapping_specs, pending = lit ''<ab>cd/e>'', active = None\<rparr> empty_chunk =
     Some (\<lparr>specs = overlapping_specs, pending = [], active = None\<rparr>,
       \<lparr>visible_text = lit ''e>'', extracted = [\<lparr>ext_tag = False, ext_content = lit ''>cd''\<rparr>]\<rparr>)"
proof -
  let ?start = "\<lparr>specs = overlapping_specs, pending = [], active = None\<rparr>"
  let ?self = "\<lparr>specs = overlapping_specs, pending = lit ''<'', active = None\<rparr>"
  have start: "new_parser overlapping_specs = Some ?start"
    by code_simp
  have self: "after_chunks ?start [lit ''x<''] = ?self"
    by code_simp
  have pushed: "tag_push_str ?self (lit ''ab>cd/e>'') =
      (?start, \<lparr>visible_text = lit ''e>'', extracted = [\<lparr>ext_tag = False, ext_content = lit ''>cd''\<rparr>]\<rparr>)"
    by code_simp
  have joined: "lit ''<'' @ lit ''ab>cd/e>'' = lit ''<ab>cd/e>''"
    "length (lit ''<'') + length (lit ''ab>cd/e>'') < 10"
    by code_simp+
  show ?thesis
    using push_str_terminates [OF start self, of "lit ''ab>cd/e>''" 10] joined unfolding pushed by simp
qed

end
