(* ===== verification/Citations.thy ===== *)
theory Citations
  imports Hidden_Tags
begin

text \<open>
  The citation parser, after \<open>utils/stream-parser/src/citation.rs\<close>: the hidden tag parser with the
  one tag \<open>oai-mem-citation\<close>, its stripping function for complete strings, and a reference
  definition of what both compute.
\<close>

section \<open>The model\<close>

datatype CitationTag = Citation

definition CITATION_OPEN :: ustring where "CITATION_OPEN = lit ''<oai-mem-citation>''"
definition CITATION_CLOSE :: ustring where "CITATION_CLOSE = lit ''</oai-mem-citation>''"

definition citation_spec :: "CitationTag InlineTagSpec" where
  "citation_spec = \<lparr>spec_tag = Citation, spec_open = CITATION_OPEN, spec_close = CITATION_CLOSE\<rparr>"

type_synonym CitationStreamParser = "CitationTag InlineHiddenTagParser"

text \<open>\<open>CitationStreamParser::new\<close>; \<open>citation_new_start\<close> below shows that the assertions hold.\<close>

definition citation_start :: CitationStreamParser where
  "citation_start = \<lparr>specs = [citation_spec], pending = [], active = None\<rparr>"

definition contents_only :: "'t tag_out \<Rightarrow> ustring StreamTextChunk" where
  "contents_only out =
     \<lparr>visible_text = visible_text out, extracted = map ext_content (extracted out)\<rparr>"

definition citation_push_str ::
  "CitationStreamParser \<Rightarrow> ustring \<Rightarrow> (CitationStreamParser, ustring) text_step" where
  "citation_push_str self chunk = map_prod id contents_only (tag_push_str self chunk)"

definition citation_finish ::
  "CitationStreamParser \<Rightarrow> (CitationStreamParser, ustring) text_step" where
  "citation_finish self = map_prod id contents_only (tag_finish self)"

definition strip_citations :: "ustring \<Rightarrow> ustring \<times> ustring list" where
  "strip_citations text =
     (let (parser, out) = citation_push_str citation_start text;
          (parser, tail) = citation_finish parser
      in (visible_text out @ visible_text tail, extracted out @ extracted tail))"

section \<open>The contract\<close>

lemma contents_only_simps [simp]:
  "visible_text (contents_only out) = visible_text out"
  "extracted (contents_only out) = map ext_content (extracted out)"
  "contents_only empty_chunk = empty_chunk"
  "contents_only (append_chunk a b) = append_chunk (contents_only a) (contents_only b)"
  by (simp_all add: contents_only_def empty_chunk_def append_chunk_def)

lemma citation_tags: "CITATION_OPEN \<noteq> []" "CITATION_CLOSE \<noteq> []"
  by (simp_all add: CITATION_OPEN_def CITATION_CLOSE_def lit_def)

lemma citation_new_start: "new_parser [citation_spec] = Some citation_start"
  by (simp add: new_parser_def specs_ok_def citation_spec_def citation_tags citation_start_def)

lemma citation_start_settled: "tag_settled citation_start"
  unfolding citation_start_def
  by (rule fresh_settled)
    (simp_all add: specs_ok_def specs_separate_def citation_spec_def citation_tags)

interpretation citation: stream_text_parser citation_push_str citation_finish tag_settled "\<lambda>xs. xs"
proof unfold_locales
  fix self :: CitationStreamParser and a b s1 o1 s2 o2
  show "tag_settled self \<Longrightarrow> citation_push_str self [] = (self, empty_chunk)"
    by (simp add: citation_push_str_def hidden.push_Nil)
  show "tag_settled self \<Longrightarrow> citation_push_str self a = (s1, o1) \<Longrightarrow> tag_settled s1"
    by (cases "tag_push_str self a") (auto simp: citation_push_str_def intro: tag_push_str_settled)
  show "tag_settled self \<Longrightarrow> citation_finish self = (s1, o1) \<Longrightarrow> tag_settled s1"
    by (cases "tag_finish self") (auto simp: citation_finish_def intro: tag_finish_settled)
  assume "tag_settled self" "citation_push_str self a = (s1, o1)"
    "citation_push_str s1 b = (s2, o2)"
  then have "citation_push_str self (a @ b) = (s2, append_chunk o1 o2)"
    by (cases "tag_push_str self a"; cases "tag_push_str s1 b")
      (auto simp: citation_push_str_def tag_push_str_append)
  then show "\<exists>o3. citation_push_str self (a @ b) = (s2, o3) \<and>
      visible_text o3 = visible_text o1 @ visible_text o2 \<and>
      extracted o3 = extracted o1 @ extracted o2" by auto
qed simp_all

section \<open>Reference\<close>

text \<open>What is left of a text, and what is taken out of it: everything from an opening tag to the
  next closing tag, or to the end if there is none.\<close>

function hide_citations :: "ustring \<Rightarrow> ustring \<times> ustring list" where
  "hide_citations text =
     (case str_find text CITATION_OPEN of
        None \<Rightarrow> (text, [])
      | Some i \<Rightarrow>
          (let rest = drop (i + length CITATION_OPEN) text
           in case str_find rest CITATION_CLOSE of
                None \<Rightarrow> (take i text, [rest])
              | Some j \<Rightarrow>
                  (let (visible, citations) = hide_citations (drop (j + length CITATION_CLOSE) rest)
                   in (take i text @ visible, take j rest # citations))))"
  by pat_completeness auto

termination
proof (relation "measure length", simp, goal_cases)
  case (1 t i rest j)
  then have "i + length CITATION_OPEN \<le> length t"
    by (intro str_find_end) (auto simp: citation_tags)
  moreover have "0 < length CITATION_OPEN" using citation_tags by simp
  ultimately show ?case using 1 by (simp del: length_greater_0_conv)
qed

declare hide_citations.simps [simp del]

text \<open>The loop and the final flush on a buffer outside a tag.\<close>

definition finished ::
  "CitationStreamParser \<times> CitationTag tag_out \<Rightarrow> ustring \<times> ustring list" where
  "finished r = (case r of (s, out) \<Rightarrow>
     let all = contents_only (append_chunk out (snd (tag_finish s)))
     in (visible_text all, extracted all))"

lemma citation_parser_ok:
  "specs self = [citation_spec] \<Longrightarrow> active self = None \<Longrightarrow> parser_ok self"
  by (simp add: parser_ok_def specs_ok_def specs_separate_def citation_spec_def citation_tags)

lemma find_next_citation:
  "specs self = [citation_spec] \<Longrightarrow>
   find_next_open self = map_option (\<lambda>i. (i, 0)) (str_find (pending self) CITATION_OPEN)"
  by (cases "str_find (pending self) CITATION_OPEN")
    (simp_all add: find_next_open_def open_candidates_def citation_spec_def map_filter_def)

lemma finished_open_tag:
  assumes "parser_ok self" "active self = Some a" "str_find (pending self) (act_close a) = None"
  shows "finished (push_loop_all self out) =
    (visible_text out, map ext_content (extracted out) @ [act_content a @ pending self])"
  using assms
  by (simp add: push_loop_all_eq finished_def tag_finish_def Let_def push_extracted_def empty_chunk_def)

lemma finished_no_tag:
  assumes "parser_ok self" "active self = None" "find_next_open self = None"
  shows "finished (push_loop_all self out) =
    (visible_text out @ pending self, map ext_content (extracted out))"
  using assms
  by (simp add: push_loop_all_eq finished_def tag_finish_def Let_def push_visible_def empty_chunk_def)

lemma finished_hide:
  assumes "specs self = [citation_spec]" "active self = None"
  shows "finished (push_loop_all self out) =
    (visible_text out @ fst (hide_citations (pending self)),
     map ext_content (extracted out) @ snd (hide_citations (pending self)))"
  using assms
proof (induction "length (pending self)" arbitrary: self out rule: less_induct)
  case less
  note ok = citation_parser_ok [OF less.prems]
  show ?case
  proof (cases "str_find (pending self) CITATION_OPEN")
    case None
    then show ?thesis
      using finished_no_tag [OF ok less.prems(2)] find_next_citation [OF less.prems(1)]
      by (simp add: hide_citations.simps [of "pending self"])
  next
    case (Some i)
    then have opn: "find_next_open self = Some (i, 0)"
      using find_next_citation [OF less.prems(1)] by simp
    note round = open_round_ok [OF ok opn]
    let ?s = "open_round self i 0" and ?rest = "drop (i + length CITATION_OPEN) (pending self)"
    let ?out = "push_visible out (take i (pending self))"
    have s: "active ?s = Some \<lparr>act_tag = Citation, act_close = CITATION_CLOSE, act_content = []\<rparr>"
      "pending ?s = ?rest" "specs ?s = [citation_spec]"
      using less.prems(1) by (simp_all add: open_round_def citation_spec_def)
    have step: "push_loop_all self out = push_loop_all ?s ?out"
      using opn less.prems(2) by (simp add: push_loop_all_eq [OF ok])
    show ?thesis
    proof (cases "str_find ?rest CITATION_CLOSE")
      case None
      then show ?thesis
        using finished_open_tag [OF round(1) s(1)] s(2) Some step
        by (simp add: hide_citations.simps [of "pending self"] push_visible_def)
    next
      case cls: (Some j)
      let ?a = "\<lparr>act_tag = Citation, act_close = CITATION_CLOSE, act_content = []\<rparr>"
      let ?t = "close_round ?s ?a j"
      have found: "str_find (pending ?s) (act_close ?a) = Some j" using cls s(2) by simp
      have t: "specs ?t = [citation_spec]" "active ?t = None"
        "pending ?t = drop (j + length CITATION_CLOSE) ?rest"
        using s by (simp_all add: close_round_def)
      have shorter: "length (pending ?t) < length (pending self)"
        using close_round_ok(2) [OF round(1) s(1) found] round(2) by simp
      have "push_loop_all ?s ?out = push_loop_all ?t
          (push_extracted ?out \<lparr>ext_tag = Citation, ext_content = take j ?rest\<rparr>)"
        using s found by (simp add: push_loop_all_eq [OF round(1)])
      then show ?thesis
        using less.hyps [OF shorter t(1,2)] t(3) step Some cls
        by (simp add: hide_citations.simps [of "pending self"] push_visible_def push_extracted_def
            case_prod_unfold Let_def)
    qed
  qed
qed

lemma stream_out_hide:
  "visible_text (snd (stream_out citation_push_str citation_finish citation_start [text])) =
     fst (hide_citations text)"
  "extracted (snd (stream_out citation_push_str citation_finish citation_start [text])) =
     snd (hide_citations text)"
proof -
  have "hide_citations text = finished (tag_push_str citation_start text)"
    using finished_hide [of "citation_start\<lparr>pending := text\<rparr>" empty_chunk]
    by (simp add: citation_start_def tag_push_str_def)
  then show
    "visible_text (snd (stream_out citation_push_str citation_finish citation_start [text])) =
       fst (hide_citations text)"
    "extracted (snd (stream_out citation_push_str citation_finish citation_start [text])) =
       snd (hide_citations text)"
    by (auto simp: stream_out_def citation_push_str_def citation_finish_def finished_def Let_def
        case_prod_unfold)
qed

lemma strip_citations_stream:
  "strip_citations text =
     (let out = snd (stream_out citation_push_str citation_finish citation_start [text])
      in (visible_text out, extracted out))"
  by (simp add: strip_citations_def stream_out_def Let_def case_prod_unfold)

section \<open>Properties\<close>

text \<open>C25: However the text of a message is cut into chunks, the citation parser shows exactly the
  text outside the citations and extracts exactly their bodies, in order, as the reference
  definition computes them from the whole text.\<close>

theorem citations_any_chunking:
  "(let out = snd (stream_out citation_push_str citation_finish citation_start chunks)
    in (visible_text out, extracted out)) = hide_citations (concat chunks)"
proof -
  have "citation.same_out (snd (stream_out citation_push_str citation_finish citation_start chunks))
      (snd (stream_out citation_push_str citation_finish citation_start [concat chunks]))"
    using citation.stream_out_concat [OF citation_start_settled] by simp
  then show ?thesis
    by (simp add: citation.same_out_def stream_out_hide)
qed

text \<open>A text with its citations written out.\<close>

fun render_citations :: "ustring \<Rightarrow> (ustring \<times> ustring) list \<Rightarrow> ustring" where
  "render_citations v [] = v"
| "render_citations v ((c, v') # cs) =
     v @ CITATION_OPEN @ c @ CITATION_CLOSE @ render_citations v' cs"

text \<open>The tag after a piece of text is the first one in it.\<close>

definition delimits :: "ustring \<Rightarrow> ustring \<Rightarrow> bool" where
  "delimits tag t \<longleftrightarrow> str_find (t @ tag) tag = Some (length t)"

fun pieces_ok :: "ustring \<Rightarrow> (ustring \<times> ustring) list \<Rightarrow> bool" where
  "pieces_ok v [] \<longleftrightarrow> str_find v CITATION_OPEN = None"
| "pieces_ok v ((c, v') # cs) \<longleftrightarrow>
     delimits CITATION_OPEN v \<and> delimits CITATION_CLOSE c \<and> pieces_ok v' cs"

lemma delimits_append:
  "tag \<noteq> [] \<Longrightarrow> delimits tag t \<Longrightarrow> str_find (t @ tag @ rest) tag = Some (length t)"
  using str_find_append [of tag "t @ tag" "length t" rest] by (simp add: delimits_def)

lemma hide_render:
  "pieces_ok v cs \<Longrightarrow> hide_citations (render_citations v cs) = (v @ concat (map snd cs), map fst cs)"
proof (induction v cs rule: render_citations.induct)
  case (1 v)
  then show ?case by (simp add: hide_citations.simps)
next
  case (2 v c v' cs)
  have opn: "str_find (v @ CITATION_OPEN @ rest) CITATION_OPEN = Some (length v)" for rest
    using 2 delimits_append [OF citation_tags(1)] by simp
  have close: "str_find (c @ CITATION_CLOSE @ rest) CITATION_CLOSE = Some (length c)" for rest
    using 2 delimits_append [OF citation_tags(2)] by simp
  have "hide_citations (render_citations v' cs) = (v' @ concat (map snd cs), map fst cs)"
    using 2 by simp
  then show ?case
    by (subst hide_citations.simps) (simp add: opn close)
qed

text \<open>Stripping the citations of a text into which citations were written returns the text
  and the citations, provided the written tags are the ones that are found: no piece of text or
  body ends in a way that completes a tag early.\<close>

theorem strip_citations_roundtrip:
  assumes "pieces_ok v cs"
  shows "strip_citations (render_citations v cs) = (v @ concat (map snd cs), map fst cs)"
  using hide_render [OF assms]
  by (simp add: strip_citations_stream stream_out_hide Let_def)

theorem strip_citations_roundtrip_witness:
  "strip_citations (render_citations (lit ''a <'') [(lit ''doc </x>'', lit '' b''), ([], [])]) =
     (lit ''a < b'', [lit ''doc </x>'', []])"
proof -
  have "pieces_ok (lit ''a <'') [(lit ''doc </x>'', lit '' b''), ([], [])]"
    by code_simp
  from strip_citations_roundtrip [OF this] show ?thesis
    by (simp add: lit_def)
qed

end
