(* ===== verification/Proposed_Plan.thy ===== *)
theory Proposed_Plan
  imports Tagged_Lines Citations
begin

text \<open>
  The proposed-plan parser and the parser for assistant text that combines it with the citation
  parser, after \<open>utils/stream-parser/src/proposed_plan.rs\<close> and \<open>assistant_text.rs\<close>.
\<close>

section \<open>Proposed plans\<close>

definition OPEN_TAG :: ustring where "OPEN_TAG = lit ''<proposed_plan>''"
definition CLOSE_TAG :: ustring where "CLOSE_TAG = lit ''</proposed_plan>''"

datatype PlanTag = ProposedPlan

datatype ProposedPlanSegment =
    PlanNormal ustring
  | ProposedPlanStart
  | ProposedPlanDelta ustring
  | ProposedPlanEnd

type_synonym ProposedPlanParser = "PlanTag TaggedLineParser"

definition plan_specs :: "PlanTag TagSpec list" where
  "plan_specs = [\<lparr>tag_open = OPEN_TAG, tag_close = CLOSE_TAG, tag_id = ProposedPlan\<rparr>]"

definition plan_start :: ProposedPlanParser where
  "plan_start = new_line_parser plan_specs"

fun map_segment :: "PlanTag TaggedLineSegment \<Rightarrow> ProposedPlanSegment" where
  "map_segment (SegNormal t) = PlanNormal t"
| "map_segment (SegTagStart ProposedPlan) = ProposedPlanStart"
| "map_segment (SegTagDelta ProposedPlan t) = ProposedPlanDelta t"
| "map_segment (SegTagEnd ProposedPlan) = ProposedPlanEnd"

fun normal_text :: "ProposedPlanSegment \<Rightarrow> ustring" where
  "normal_text (PlanNormal t) = t"
| "normal_text _ = []"

definition map_segments :: "PlanTag TaggedLineSegment list \<Rightarrow> ProposedPlanSegment StreamTextChunk" where
  "map_segments segs =
     (let mapped = map map_segment segs
      in \<lparr>visible_text = concat (map normal_text mapped), extracted = mapped\<rparr>)"

definition plan_push_str ::
  "ProposedPlanParser \<Rightarrow> ustring \<Rightarrow> (ProposedPlanParser, ProposedPlanSegment) text_step" where
  "plan_push_str self chunk = map_prod id map_segments (parse_tagged self chunk)"

definition plan_finish ::
  "ProposedPlanParser \<Rightarrow> (ProposedPlanParser, ProposedPlanSegment) text_step" where
  "plan_finish self = map_prod id map_segments (finish_tagged self)"

definition strip_proposed_plan_blocks :: "ustring \<Rightarrow> ustring" where
  "strip_proposed_plan_blocks t =
     (let (parser, out) = plan_push_str plan_start t
      in visible_text out @ visible_text (snd (plan_finish parser)))"

text \<open>The loop of \<open>extract_proposed_plan_text\<close> over the segments.\<close>

fun collect_plan :: "ustring \<times> bool \<Rightarrow> ProposedPlanSegment \<Rightarrow> ustring \<times> bool" where
  "collect_plan (plan_text, saw) ProposedPlanStart = ([], True)"
| "collect_plan (plan_text, saw) (ProposedPlanDelta delta) = (plan_text @ delta, saw)"
| "collect_plan (plan_text, saw) ProposedPlanEnd = (plan_text, saw)"
| "collect_plan (plan_text, saw) (PlanNormal _) = (plan_text, saw)"

definition extract_proposed_plan_text :: "ustring \<Rightarrow> ustring option" where
  "extract_proposed_plan_text t =
     (let (parser, out) = plan_push_str plan_start t;
          (plan_text, saw) =
            foldl collect_plan ([], False) (extracted out @ extracted (snd (plan_finish parser)))
      in if saw then Some plan_text else None)"

section \<open>The contract of the plan parser\<close>

fun unmap_segment :: "ProposedPlanSegment \<Rightarrow> PlanTag TaggedLineSegment" where
  "unmap_segment (PlanNormal t) = SegNormal t"
| "unmap_segment ProposedPlanStart = SegTagStart ProposedPlan"
| "unmap_segment (ProposedPlanDelta t) = SegTagDelta ProposedPlan t"
| "unmap_segment ProposedPlanEnd = SegTagEnd ProposedPlan"

lemma unmap_map_segment [simp]: "unmap_segment (map_segment seg) = seg"
  by (cases seg rule: map_segment.cases) simp_all

lemma unmap_map_segments [simp]: "map (unmap_segment \<circ> map_segment) segs = segs"
  by (simp add: comp_def map_idI)

text \<open>Adjacent fragments of the same kind read as one.\<close>

definition merge_plan :: "ProposedPlanSegment list \<Rightarrow> ProposedPlanSegment list" where
  "merge_plan segs = map map_segment (merge_segments (map unmap_segment segs))"

lemma merge_plan_map [simp]: "merge_plan (map map_segment segs) = map map_segment (merge_segments segs)"
  by (simp add: merge_plan_def)

lemma merge_plan_append: "merge_plan (xs @ ys) = merge_plan (merge_plan xs @ merge_plan ys)"
  using merge_segments_append [of "map unmap_segment xs" "map unmap_segment ys"]
  by (simp add: merge_plan_def)

text \<open>A reading of the segments that treats adjacent fragments like their concatenation.\<close>

lemma foldl_push_segment_reading:
  assumes nil: "\<And>s a. f s (text_segment a []) = s"

    and step': "\<And>s a x y. f (f s (text_segment a x)) (text_segment a y) = f s (text_segment a (x @ y))"
  shows "foldl f s (push_segment segs seg) = f (foldl f s segs) seg"
proof (cases segs seg rule: push_segment_cases)
  case 1
  then have "push_segment [] seg = []" by simp
  then obtain a where "seg = text_segment a []"
    by (cases seg) (auto simp: text_segment_def split: if_splits intro: that [of None] that [of "Some _"])
  then show ?thesis using 1(1) nil by simp
qed (simp_all add: step')

lemma foldl_merge_reading:
  assumes "\<And>s a. f s (text_segment a []) = s"
    and "\<And>s a x y. f (f s (text_segment a x)) (text_segment a y) = f s (text_segment a (x @ y))"
  shows "foldl f s (merge_segments segs) = foldl f s segs"
  unfolding merge_segments_def
  by (induction segs rule: rev_induct) (simp_all add: foldl_push_segment_reading assms)

definition visible_of :: "PlanTag TaggedLineSegment list \<Rightarrow> ustring" where
  "visible_of segs = concat (map (normal_text \<circ> map_segment) segs)"

lemma visible_of_append [simp]: "visible_of (xs @ ys) = visible_of xs @ visible_of ys"
  by (simp add: visible_of_def)

lemma text_segment_map [simp]:
  "map_segment (text_segment a t) = (case a of None \<Rightarrow> PlanNormal t | Some _ \<Rightarrow> ProposedPlanDelta t)"
  by (cases a rule: option.exhaust; case_tac "the a") (simp_all add: text_segment_def)

lemma visible_of_merge [simp]: "visible_of (merge_segments segs) = visible_of segs"
proof -
  have "visible_of segs = foldl (\<lambda>s seg. s @ normal_text (map_segment seg)) [] segs" for segs
    by (induction segs rule: rev_induct) (simp_all add: visible_of_def)
  then show ?thesis
    by (simp add: foldl_merge_reading split: option.split)
qed

lemma collect_plan_merge:
  "foldl collect_plan s (map map_segment (merge_segments segs)) =
     foldl collect_plan s (map map_segment segs)"
proof -
  have "collect_plan s (map_segment (text_segment a [])) = s" for s and a :: "PlanTag option"
    by (cases s) (simp split: option.split)
  moreover have "collect_plan (collect_plan s (map_segment (text_segment a x))) (map_segment (text_segment a y)) =
      collect_plan s (map_segment (text_segment a (x @ y)))" for s x y and a :: "PlanTag option"
    by (cases s) (simp split: option.split)
  ultimately show ?thesis
    using foldl_merge_reading [of "\<lambda>s seg. collect_plan s (map_segment seg)" s segs]
    by (simp add: foldl_map)
qed

lemma map_segments_simps [simp]:
  "visible_text (map_segments segs) = visible_of segs"
  "extracted (map_segments segs) = map map_segment segs"
  by (simp_all add: map_segments_def visible_of_def Let_def comp_def)

interpretation plan: stream_text_parser plan_push_str plan_finish "\<lambda>_. True" merge_plan
proof unfold_locales
  fix self :: ProposedPlanParser and a b s1 o1 s2 o2
  show "plan_push_str self [] = (self, empty_chunk)"
    by (simp add: plan_push_str_def parse_tagged_events merge_segments_def map_segments_def
        empty_chunk_def)
  assume 1: "plan_push_str self a = (s1, o1)" and 2: "plan_push_str s1 b = (s2, o2)"
  obtain e1 where e1: "text_events self a = (s1, e1)" "o1 = map_segments (merge_segments e1)"
    using 1 by (cases "text_events self a") (auto simp: plan_push_str_def parse_tagged_events)
  obtain e2 where e2: "text_events s1 b = (s2, e2)" "o2 = map_segments (merge_segments e2)"
    using 2 by (cases "text_events s1 b") (auto simp: plan_push_str_def parse_tagged_events)
  have "plan_push_str self (a @ b) = (s2, map_segments (merge_segments (e1 @ e2)))"
    by (simp add: plan_push_str_def parse_tagged_events text_events_append e1 e2)
  then show "\<exists>o3. plan_push_str self (a @ b) = (s2, o3) \<and>
      visible_text o3 = visible_text o1 @ visible_text o2 \<and>
      merge_plan (extracted o3) = merge_plan (extracted o1 @ extracted o2)"
    using merge_segments_append [of e1 e2]
    by (auto simp: e1 e2 simp flip: map_append)
qed (simp_all add: merge_plan_append [symmetric])

text \<open>The segments of a text by its lines.\<close>

definition plan_reference :: "ustring \<Rightarrow> PlanTag TaggedLineSegment list" where
  "plan_reference t = merge_segments (line_segments plan_specs None (split_lines t))"

lemma plan_whole:
  "merge_segments (snd (parse_tagged plan_start t) @ snd (finish_tagged (fst (parse_tagged plan_start t)))) =
     plan_reference t"
  by (simp add: plan_start_def plan_reference_def parse_tagged_reference)

lemma plan_stream_whole:
  "visible_text (snd (stream_out plan_push_str plan_finish plan_start [t])) =
     visible_of (plan_reference t)"
  "merge_plan (extracted (snd (stream_out plan_push_str plan_finish plan_start [t]))) =
     map map_segment (plan_reference t)"
proof -
  let ?segs = "snd (parse_tagged plan_start t) @ snd (finish_tagged (fst (parse_tagged plan_start t)))"
  have "visible_text (snd (stream_out plan_push_str plan_finish plan_start [t])) = visible_of ?segs"
    "extracted (snd (stream_out plan_push_str plan_finish plan_start [t])) = map map_segment ?segs"
    by (simp_all add: stream_out_def plan_push_str_def plan_finish_def Let_def case_prod_unfold)
  then show "visible_text (snd (stream_out plan_push_str plan_finish plan_start [t])) =
      visible_of (plan_reference t)"
    "merge_plan (extracted (snd (stream_out plan_push_str plan_finish plan_start [t]))) =
      map map_segment (plan_reference t)"
    using plan_whole [of t] visible_of_merge [of ?segs] merge_plan_map [of ?segs] by simp_all
qed

lemma plan_stream:
  "visible_text (snd (stream_out plan_push_str plan_finish plan_start chunks)) =
     visible_of (plan_reference (concat chunks))"
  "merge_plan (extracted (snd (stream_out plan_push_str plan_finish plan_start chunks))) =
     map map_segment (plan_reference (concat chunks))"
  using plan.stream_out_concat [of plan_start chunks] plan_stream_whole [of "concat chunks"]
  by (simp_all add: plan.same_out_def)

section \<open>Assistant text\<close>

record AssistantTextChunk =
  assistant_visible :: ustring
  assistant_citations :: "ustring list"
  assistant_segments :: "ProposedPlanSegment list"

definition empty_assistant_chunk :: AssistantTextChunk where
  "empty_assistant_chunk =
     \<lparr>assistant_visible = [], assistant_citations = [], assistant_segments = []\<rparr>"

record AssistantTextStreamParser =
  plan_mode :: bool
  citation_parser :: CitationStreamParser
  plan_parser :: ProposedPlanParser

definition new_assistant :: "bool \<Rightarrow> AssistantTextStreamParser" where
  "new_assistant plan =
     \<lparr>plan_mode = plan, citation_parser = citation_start, plan_parser = plan_start\<rparr>"

definition parse_visible_text ::
  "AssistantTextStreamParser \<Rightarrow> ustring \<Rightarrow> AssistantTextStreamParser \<times> AssistantTextChunk" where
  "parse_visible_text self t =
     (if \<not> plan_mode self then (self, empty_assistant_chunk\<lparr>assistant_visible := t\<rparr>)
      else (let (parser, chunk) = plan_push_str (plan_parser self) t
            in (self\<lparr>plan_parser := parser\<rparr>,
                empty_assistant_chunk\<lparr>assistant_visible := visible_text chunk,
                                      assistant_segments := extracted chunk\<rparr>)))"

definition assistant_push_str ::
  "AssistantTextStreamParser \<Rightarrow> ustring \<Rightarrow> AssistantTextStreamParser \<times> AssistantTextChunk" where
  "assistant_push_str self chunk =
     (let (parser, citation_chunk) = citation_push_str (citation_parser self) chunk;
          (self, out) =
            parse_visible_text (self\<lparr>citation_parser := parser\<rparr>) (visible_text citation_chunk)
      in (self, out\<lparr>assistant_citations := extracted citation_chunk\<rparr>))"

definition assistant_finish ::
  "AssistantTextStreamParser \<Rightarrow> AssistantTextStreamParser \<times> AssistantTextChunk" where
  "assistant_finish self =
     (let (parser, citation_chunk) = citation_finish (citation_parser self);
          (self, out) =
            parse_visible_text (self\<lparr>citation_parser := parser\<rparr>) (visible_text citation_chunk);
          (self, out) =
            (if plan_mode self then
               (let (parser, tail) = plan_finish (plan_parser self);
                    self = self\<lparr>plan_parser := parser\<rparr>
                in if chunk_is_empty tail then (self, out)
                   else (self, out\<lparr>assistant_visible := assistant_visible out @ visible_text tail,
                                   assistant_segments := assistant_segments out @ extracted tail\<rparr>))
             else (self, out))
      in (self, out\<lparr>assistant_citations := extracted citation_chunk\<rparr>))"

definition append_assistant ::
  "AssistantTextChunk \<Rightarrow> AssistantTextChunk \<Rightarrow> AssistantTextChunk" where
  "append_assistant a b =
     \<lparr>assistant_visible = assistant_visible a @ assistant_visible b,
      assistant_citations = assistant_citations a @ assistant_citations b,
      assistant_segments = assistant_segments a @ assistant_segments b\<rparr>"

text \<open>A whole message: all its chunks and the final flush.\<close>

fun assistant_stream :: "AssistantTextStreamParser \<Rightarrow> ustring list \<Rightarrow> AssistantTextChunk" where
  "assistant_stream self [] = snd (assistant_finish self)"
| "assistant_stream self (c # cs) =
     (let (self', out) = assistant_push_str self c
      in append_assistant out (assistant_stream self' cs))"

text \<open>The visible pieces that the citation parser hands on, the final flush included.\<close>

fun visible_pieces :: "CitationStreamParser \<Rightarrow> ustring list \<Rightarrow> ustring list" where
  "visible_pieces c [] = [visible_text (snd (citation_finish c))]"
| "visible_pieces c (x # xs) =
     (let (c', out) = citation_push_str c x in visible_text out # visible_pieces c' xs)"

lemma concat_visible_pieces:
  "concat (visible_pieces c xs) = visible_text (snd (stream_out citation_push_str citation_finish c xs))"
  by (induction xs arbitrary: c) (simp_all add: stream_out_def Let_def case_prod_unfold)

lemma assistant_stream_citations:
  "assistant_citations (assistant_stream self xs) =
     extracted (snd (stream_out citation_push_str citation_finish (citation_parser self) xs))"
proof (induction xs arbitrary: self)
  case Nil
  then show ?case
    by (simp add: assistant_finish_def stream_out_def Let_def case_prod_unfold)
next
  case (Cons x xs)
  have "citation_parser (fst (assistant_push_str self x)) = fst (citation_push_str (citation_parser self) x)"
    by (simp add: assistant_push_str_def parse_visible_text_def Let_def case_prod_unfold)
  then show ?case
    using Cons.IH [of "fst (assistant_push_str self x)"]
    by (simp add: append_assistant_def stream_out_def Let_def case_prod_unfold)
      (simp add: assistant_push_str_def Let_def case_prod_unfold)
qed

lemma assistant_stream_plain:
  "\<not> plan_mode self \<Longrightarrow>
   assistant_visible (assistant_stream self xs) = concat (visible_pieces (citation_parser self) xs) \<and>
   assistant_segments (assistant_stream self xs) = []"
proof (induction xs arbitrary: self)
  case Nil
  then show ?case
    by (simp add: assistant_finish_def parse_visible_text_def empty_assistant_chunk_def Let_def
        case_prod_unfold)
next
  case (Cons x xs)
  then show ?case
    by (simp add: append_assistant_def assistant_push_str_def parse_visible_text_def
        empty_assistant_chunk_def Let_def case_prod_unfold)
qed

lemma assistant_finish_plan:
  assumes "plan_mode self"
  defines "out \<equiv> stream_out plan_push_str plan_finish (plan_parser self)
    [visible_text (snd (citation_finish (citation_parser self)))]"
  shows "assistant_visible (snd (assistant_finish self)) = visible_text (snd out)"
    "assistant_segments (snd (assistant_finish self)) = extracted (snd out)"
  using assms
  by (auto simp: assistant_finish_def parse_visible_text_def empty_assistant_chunk_def stream_out_def
      chunk_is_empty_def Let_def case_prod_unfold)

lemma assistant_stream_plan:
  assumes "plan_mode self"
  shows "assistant_visible (assistant_stream self xs) =
      visible_text (snd (stream_out plan_push_str plan_finish (plan_parser self)
        (visible_pieces (citation_parser self) xs))) \<and>
    assistant_segments (assistant_stream self xs) =
      extracted (snd (stream_out plan_push_str plan_finish (plan_parser self)
        (visible_pieces (citation_parser self) xs)))"
  using assms
proof (induction xs arbitrary: self)
  case Nil
  then show ?case by (simp add: assistant_finish_plan)
next
  case (Cons x xs)
  let ?c = "citation_push_str (citation_parser self) x"
  let ?self = "fst (assistant_push_str self x)"
  have after: "plan_mode ?self" "citation_parser ?self = fst ?c"
    "plan_parser ?self = fst (plan_push_str (plan_parser self) (visible_text (snd ?c)))"
    and out: "assistant_visible (snd (assistant_push_str self x)) =
        visible_text (snd (plan_push_str (plan_parser self) (visible_text (snd ?c))))"
      "assistant_segments (snd (assistant_push_str self x)) =
        extracted (snd (plan_push_str (plan_parser self) (visible_text (snd ?c))))"
    using Cons.prems
    by (simp_all add: assistant_push_str_def parse_visible_text_def empty_assistant_chunk_def Let_def
        case_prod_unfold)
  show ?case
    using Cons.IH [OF after(1)] after out
    by (simp add: append_assistant_def stream_out_def Let_def case_prod_unfold)
qed

section \<open>Properties\<close>

text \<open>C31: However an assistant message is cut into chunks, the combined parser gives the same
  result, and it is the composition of the two reference definitions: the citations are the bodies
  the citation reference takes out of the text; what remains is shown as it is outside plan mode;
  in plan mode it is split by its lines, the text outside the plan blocks is shown, and the plan
  segments are those of the line-by-line reference up to how fragments of text are cut.\<close>

theorem assistant_text_any_chunking:
  "(let out = assistant_stream (new_assistant plan) chunks;
        (visible, citations) = hide_citations (concat chunks);
        segments = plan_reference visible
    in assistant_citations out = citations \<and>
       assistant_visible out = (if plan then visible_of segments else visible) \<and>
       merge_plan (assistant_segments out) = (if plan then map map_segment segments else []))"
proof -
  have hide: "hide_citations (concat chunks) =
      (visible_text (snd (stream_out citation_push_str citation_finish citation_start chunks)),
       extracted (snd (stream_out citation_push_str citation_finish citation_start chunks)))"
    using citation.stream_out_concat [OF citation_start_settled, of chunks]
    by (simp add: citation.same_out_def stream_out_hide)
  have pieces: "concat (visible_pieces citation_start chunks) = fst (hide_citations (concat chunks))"
    by (simp add: concat_visible_pieces hide)
  show ?thesis
  proof (cases plan)
    case True
    then show ?thesis
      using assistant_stream_plan [of "new_assistant plan" chunks]
        plan_stream [of "visible_pieces citation_start chunks"] pieces
      by (simp add: new_assistant_def assistant_stream_citations hide)
  next
    case False
    then show ?thesis
      using assistant_stream_plain [of "new_assistant plan" chunks] pieces
      by (simp add: new_assistant_def assistant_stream_citations hide merge_plan_def merge_segments_def)
  qed
qed

text \<open>Texts of whole lines, and lines that are not a given tag.\<close>

definition whole_lines :: "ustring \<Rightarrow> bool" where
  "whole_lines t \<longleftrightarrow> t = [] \<or> last t = nl"

definition no_line_is :: "ustring \<Rightarrow> ustring \<Rightarrow> bool" where
  "no_line_is tag t \<longleftrightarrow> list_all (\<lambda>l. line_slug l \<noteq> tag) (split_lines t)"

lemma split_lines_eq_Nil [simp]: "split_lines t = [] \<longleftrightarrow> t = []"
  by (cases t) (auto split: list.split)

lemma split_lines_append:
  "whole_lines a \<Longrightarrow> split_lines (a @ b) = split_lines a @ split_lines b"
proof (induction a)
  case (Cons c a)
  show ?case
  proof (cases "a = []")
    case True
    then show ?thesis using Cons.prems by (simp add: whole_lines_def)
  next
    case False
    then have "split_lines (a @ b) = split_lines a @ split_lines b" "split_lines a \<noteq> []"
      using Cons by (simp_all add: whole_lines_def)
    then show ?thesis by (auto split: list.split)
  qed
qed simp

lemma split_lines_line: "nl \<notin> set t \<Longrightarrow> split_lines (t @ nl # b) = (t @ [nl]) # split_lines b"
  by (induction t) auto

lemma plan_tags_plain: "nl \<notin> set OPEN_TAG" "nl \<notin> set CLOSE_TAG" "OPEN_TAG \<noteq> CLOSE_TAG"
  "line_slug (OPEN_TAG @ [nl]) = OPEN_TAG" "line_slug (CLOSE_TAG @ [nl]) = CLOSE_TAG"
  by (simp_all add: OPEN_TAG_def CLOSE_TAG_def line_slug_def strip_suffix_char_def str_defs)

lemma plan_matches:
  "match_open (new_line_parser plan_specs\<lparr>active_tag := a\<rparr>) slug =
     (if slug = OPEN_TAG then Some ProposedPlan else None)"
  "match_close (new_line_parser plan_specs\<lparr>active_tag := a\<rparr>) slug =
     (if slug = CLOSE_TAG then Some ProposedPlan else None)"
  by (auto simp: match_open_def match_close_def new_line_parser_def plan_specs_def)

text \<open>Outside a block only an opening tag matters, inside one only a closing tag.\<close>

definition next_tag :: "PlanTag option \<Rightarrow> ustring" where
  "next_tag a = (case a of None \<Rightarrow> OPEN_TAG | Some _ \<Rightarrow> CLOSE_TAG)"

lemma line_segments_text:
  "list_all (\<lambda>l. line_slug l \<noteq> next_tag a) ls \<Longrightarrow>
   line_segments plan_specs a (ls @ ls') = map (text_segment a) ls @ line_segments plan_specs a ls'"
  by (induction ls)
    (auto simp: classify_line_def plan_matches next_tag_def Let_def split: option.splits)

lemma line_segments_tags:
  "line_segments plan_specs None ((OPEN_TAG @ [nl]) # ls) =
     SegTagStart ProposedPlan # line_segments plan_specs (Some ProposedPlan) ls"
  "line_segments plan_specs (Some ProposedPlan) ((CLOSE_TAG @ [nl]) # ls) =
     SegTagEnd ProposedPlan # line_segments plan_specs None ls"
  by (simp_all add: classify_line_def plan_matches plan_tags_plain Let_def)

lemma line_segments_block:
  assumes "whole_lines pre" "no_line_is OPEN_TAG pre" "whole_lines plan" "no_line_is CLOSE_TAG plan"
    "no_line_is OPEN_TAG post"
  shows "line_segments plan_specs None
      (split_lines (pre @ OPEN_TAG @ [nl] @ plan @ CLOSE_TAG @ [nl] @ post)) =
    map (text_segment None) (split_lines pre) @ [SegTagStart ProposedPlan] @
    map (text_segment (Some ProposedPlan)) (split_lines plan) @ [SegTagEnd ProposedPlan] @
    map (text_segment None) (split_lines post)"
proof -
  have "split_lines (pre @ OPEN_TAG @ [nl] @ plan @ CLOSE_TAG @ [nl] @ post) =
      split_lines pre @ (OPEN_TAG @ [nl]) # split_lines plan @ (CLOSE_TAG @ [nl]) # split_lines post"
    by (simp add: split_lines_append assms(1,3) split_lines_line plan_tags_plain)
  then show ?thesis
    using assms line_segments_text [of None "split_lines post" "[]"]
    by (simp add: line_segments_text line_segments_tags no_line_is_def next_tag_def
        del: line_segments.simps(2))
qed

lemma visible_of_texts [simp]:
  "visible_of (map (text_segment None) ls) = concat ls"
  "visible_of (map (text_segment (Some ProposedPlan)) ls) = []"
  "visible_of (SegTagStart ProposedPlan # segs) = visible_of segs"
  "visible_of (SegTagEnd ProposedPlan # segs) = visible_of segs"
  by (induction ls) (simp_all add: visible_of_def)

lemma collect_plan_texts:
  "foldl collect_plan (p, saw) (map (map_segment \<circ> text_segment None) ls) = (p, saw)"
  "foldl collect_plan (p, saw) (map (map_segment \<circ> text_segment (Some ProposedPlan)) ls) =
     (p @ concat ls, saw)"
  by (induction ls arbitrary: p) simp_all

text \<open>A plan written as a block between two pieces of text comes back: extracting the plan of
  the combined text returns exactly the plan, and stripping plan blocks returns exactly the text
  around it. The pieces before the tags end with a line feed, the plan has no line that is the
  closing tag, and the text around it no line that is the opening tag.\<close>

theorem plan_block_roundtrip:
  assumes "whole_lines pre" "no_line_is OPEN_TAG pre" "whole_lines plan" "no_line_is CLOSE_TAG plan"
    "no_line_is OPEN_TAG post"
  shows "extract_proposed_plan_text (pre @ OPEN_TAG @ [nl] @ plan @ CLOSE_TAG @ [nl] @ post) = Some plan \<and>
    strip_proposed_plan_blocks (pre @ OPEN_TAG @ [nl] @ plan @ CLOSE_TAG @ [nl] @ post) = pre @ post"
proof -
  let ?t = "pre @ OPEN_TAG @ [nl] @ plan @ CLOSE_TAG @ [nl] @ post"
  let ?segs = "snd (parse_tagged plan_start ?t) @ snd (finish_tagged (fst (parse_tagged plan_start ?t)))"
  have ref: "merge_segments ?segs = merge_segments
      (map (text_segment None) (split_lines pre) @ [SegTagStart ProposedPlan] @
       map (text_segment (Some ProposedPlan)) (split_lines plan) @ [SegTagEnd ProposedPlan] @
       map (text_segment None) (split_lines post))" (is "_ = merge_segments ?ref")
    unfolding plan_whole plan_reference_def line_segments_block [OF assms] ..
  have "foldl collect_plan ([], False) (map map_segment ?segs) =
      foldl collect_plan ([], False) (map map_segment ?ref)"
    using collect_plan_merge [of "([], False)" ?segs] collect_plan_merge [of "([], False)" ?ref]
    unfolding ref by simp
  also have "\<dots> = (plan, True)"
    by (simp add: collect_plan_texts concat_split_lines)
  finally have "extract_proposed_plan_text ?t = Some plan"
    by (simp add: extract_proposed_plan_text_def plan_push_str_def plan_finish_def Let_def
        case_prod_unfold)
  moreover have "strip_proposed_plan_blocks ?t = visible_of (merge_segments ?segs)"
    by (simp add: strip_proposed_plan_blocks_def plan_push_str_def plan_finish_def Let_def
        case_prod_unfold)
  then have "strip_proposed_plan_blocks ?t = pre @ post"
    unfolding ref by (simp add: concat_split_lines)
  ultimately show ?thesis by blast
qed

theorem plan_block_roundtrip_witness:
  "extract_proposed_plan_text
      ((lit ''intro'' @ [nl]) @ OPEN_TAG @ [nl] @ (lit ''- step'' @ [nl]) @ CLOSE_TAG @ [nl] @ lit ''end'') =
     Some (lit ''- step'' @ [nl]) \<and>
   strip_proposed_plan_blocks
      ((lit ''intro'' @ [nl]) @ OPEN_TAG @ [nl] @ (lit ''- step'' @ [nl]) @ CLOSE_TAG @ [nl] @ lit ''end'') =
     (lit ''intro'' @ [nl]) @ lit ''end''"
  by (rule plan_block_roundtrip; code_simp)

end
