(* ===== verification/Utf8.thy ===== *)
theory Utf8
  imports Rust_Prelude "HOL-Library.Word"
begin

text \<open>
  Bytes and text: \<open>str::from_utf8\<close> with its error (\<open>valid_up_to\<close> and \<open>error_len\<close>) and the encoding of
  characters. Decoding inverts encoding, and a decoding error tells whether the bytes are a prefix of
  encoded text.
\<close>

section \<open>UTF-8\<close>

type_synonym byte = "8 word"

text \<open>\<open>char\<close>: a Unicode scalar value.\<close>

definition is_scalar :: "nat \<Rightarrow> bool" where
  "is_scalar c \<longleftrightarrow> c < 55296 \<or> 57344 \<le> c \<and> c < 1114112"

definition encode_char :: "uchar \<Rightarrow> nat list" where
  "encode_char c =
     (if c < 128 then [c]
      else if c < 2048 then [192 + c div 64, 128 + c mod 64]
      else if c < 65536 then [224 + c div 4096, 128 + c div 64 mod 64, 128 + c mod 64]
      else [240 + c div 262144, 128 + c div 4096 mod 64, 128 + c div 64 mod 64, 128 + c mod 64])"

definition is_continuation :: "nat \<Rightarrow> bool" where
  "is_continuation b \<longleftrightarrow> 128 \<le> b \<and> b < 192"

text \<open>The second byte of a sequence of three and of four bytes.\<close>

definition second_of_three :: "nat \<Rightarrow> nat \<Rightarrow> bool" where
  "second_of_three first b \<longleftrightarrow>
     (if first = 224 then 160 \<le> b \<and> b < 192
      else if first = 237 then 128 \<le> b \<and> b < 160
      else is_continuation b)"

definition second_of_four :: "nat \<Rightarrow> nat \<Rightarrow> bool" where
  "second_of_four first b \<longleftrightarrow>
     (if first = 240 then 144 \<le> b \<and> b < 192
      else if first = 244 then 128 \<le> b \<and> b < 144
      else is_continuation b)"

datatype utf8_step = Utf8Char uchar nat | Utf8Invalid nat | Utf8Incomplete

text \<open>The first character of a byte string: the character and its width, the length of an invalid
  sequence, or an incomplete sequence.\<close>

definition first_char :: "nat \<Rightarrow> nat list \<Rightarrow> utf8_step" where
  "first_char b0 bs =
     (if b0 < 128 then Utf8Char b0 1
      else if 194 \<le> b0 \<and> b0 \<le> 223 then
        (case bs of
           [] \<Rightarrow> Utf8Incomplete
         | b1 # _ \<Rightarrow>
             if is_continuation b1 then Utf8Char ((b0 - 192) * 64 + (b1 - 128)) 2 else Utf8Invalid 1)
      else if 224 \<le> b0 \<and> b0 \<le> 239 then
        (case bs of
           [] \<Rightarrow> Utf8Incomplete
         | b1 # bs1 \<Rightarrow>
             if \<not> second_of_three b0 b1 then Utf8Invalid 1
             else (case bs1 of
                     [] \<Rightarrow> Utf8Incomplete
                   | b2 # _ \<Rightarrow>
                       if is_continuation b2
                       then Utf8Char ((b0 - 224) * 4096 + (b1 - 128) * 64 + (b2 - 128)) 3
                       else Utf8Invalid 2))
      else if 240 \<le> b0 \<and> b0 \<le> 244 then
        (case bs of
           [] \<Rightarrow> Utf8Incomplete
         | b1 # bs1 \<Rightarrow>
             if \<not> second_of_four b0 b1 then Utf8Invalid 1
             else (case bs1 of
                     [] \<Rightarrow> Utf8Incomplete
                   | b2 # bs2 \<Rightarrow>
                       if \<not> is_continuation b2 then Utf8Invalid 2
                       else (case bs2 of
                               [] \<Rightarrow> Utf8Incomplete
                             | b3 # _ \<Rightarrow>
                                 if is_continuation b3
                                 then Utf8Char ((b0 - 240) * 262144 + (b1 - 128) * 4096 +
                                                (b2 - 128) * 64 + (b3 - 128)) 4
                                 else Utf8Invalid 3)))
      else Utf8Invalid 1)"

record Utf8Error =
  valid_up_to :: nat
  error_len :: "nat option"

fun decode_from :: "nat \<Rightarrow> nat list \<Rightarrow> (Utf8Error, ustring) result" where
  "decode_from pos [] = Inr []"
| "decode_from pos (b # bs) =
     (case first_char b bs of
        Utf8Char c width \<Rightarrow>
          and_then (decode_from (pos + width) (drop (width - 1) bs)) (\<lambda>cs. Inr (c # cs))
      | Utf8Invalid len \<Rightarrow> Inl \<lparr>valid_up_to = pos, error_len = Some len\<rparr>
      | Utf8Incomplete \<Rightarrow> Inl \<lparr>valid_up_to = pos, error_len = None\<rparr>)"

definition from_utf8 :: "byte list \<Rightarrow> (Utf8Error, ustring) result" where
  "from_utf8 bs = decode_from 0 (map unat bs)"

text \<open>The bytes of a string.\<close>

definition utf8_bytes :: "ustring \<Rightarrow> byte list" where
  "utf8_bytes s = concat (map (map of_nat \<circ> encode_char) s)"

section \<open>Decoding and encoding\<close>

lemma encode_char_bytes: "is_scalar c \<Longrightarrow> b \<in> set (encode_char c) \<Longrightarrow> b < 256"
  by (auto simp: is_scalar_def encode_char_def split: if_splits)

lemma encode_char_neq_Nil [simp]: "encode_char c \<noteq> []"
  by (simp add: encode_char_def)

text \<open>The groups of six bits of a number.\<close>

lemma six_bits_3: "(c :: nat) = c div 4096 * 4096 + c div 64 mod 64 * 64 + c mod 64"
proof -
  have "c div 4096 = c div 64 div 64" by (simp flip: div_mult2_eq)
  moreover have "c = c div 64 * 64 + c mod 64" "c div 64 = c div 64 div 64 * 64 + c div 64 mod 64"
    by simp_all
  ultimately show ?thesis by linarith
qed

lemma six_bits_4:
  "(c :: nat) = c div 262144 * 262144 + c div 4096 mod 64 * 4096 + c div 64 mod 64 * 64 + c mod 64"
proof -
  have "c div 262144 = c div 4096 div 64" by (simp flip: div_mult2_eq)
  moreover have "c div 4096 = c div 4096 div 64 * 64 + c div 4096 mod 64" by simp
  ultimately show ?thesis using six_bits_3 [of c] by linarith
qed

lemma six_bits_last: "z < (64 :: nat) \<Longrightarrow> (w * 64 + z) div 64 = w \<and> (w * 64 + z) mod 64 = z"
  by simp

lemma six_bits_unique_3:
  assumes "y < 64" "z < (64 :: nat)"
  shows "(x * 4096 + y * 64 + z) div 4096 = x" "(x * 4096 + y * 64 + z) div 64 mod 64 = y"
    "(x * 4096 + y * 64 + z) mod 64 = z"
proof -
  have e: "x * 4096 + y * 64 + z = (x * 64 + y) * 64 + z" by simp
  have d: "(x * 4096 + y * 64 + z) div 64 = x * 64 + y" "(x * 4096 + y * 64 + z) mod 64 = z"
    unfolding e using six_bits_last [OF assms(2)] by blast+
  then show "(x * 4096 + y * 64 + z) div 64 mod 64 = y" "(x * 4096 + y * 64 + z) mod 64 = z"
    using assms(1) by simp_all
  show "(x * 4096 + y * 64 + z) div 4096 = x"
    using assms by (intro div_nat_eqI) simp_all
qed

lemma six_bits_unique_4:
  assumes "x < 64" "y < 64" "z < (64 :: nat)"
  shows "(v * 262144 + x * 4096 + y * 64 + z) div 262144 = v"
    "(v * 262144 + x * 4096 + y * 64 + z) div 4096 mod 64 = x"
    "(v * 262144 + x * 4096 + y * 64 + z) div 64 mod 64 = y"
    "(v * 262144 + x * 4096 + y * 64 + z) mod 64 = z"
proof -
  have e: "v * 262144 + x * 4096 + y * 64 + z = (v * 64 + x) * 4096 + y * 64 + z" by simp
  show "(v * 262144 + x * 4096 + y * 64 + z) div 4096 mod 64 = x"
    "(v * 262144 + x * 4096 + y * 64 + z) div 64 mod 64 = y"
    "(v * 262144 + x * 4096 + y * 64 + z) mod 64 = z"
    unfolding e six_bits_unique_3 [OF assms(2,3)] using assms(1) by simp_all
  show "(v * 262144 + x * 4096 + y * 64 + z) div 262144 = v"
    using assms by (intro div_nat_eqI) simp_all
qed

lemma six_bits_less: "(c :: nat) div n mod 64 < 64" "(c :: nat) mod 64 < 64"
  by simp_all

lemma first_char_encode:
  assumes "is_scalar c" "encode_char c = b # bs"
  shows "first_char b (bs @ rest) = Utf8Char c (length (encode_char c))"
proof -
  consider "c < 128" | "128 \<le> c" "c < 2048" | "2048 \<le> c" "c < 65536" | "65536 \<le> c"
    by linarith
  then show ?thesis
  proof cases
    case 1
    then show ?thesis using assms by (auto simp: encode_char_def first_char_def)
  next
    case 2
    then show ?thesis
      using assms by (auto simp: encode_char_def first_char_def is_continuation_def)
  next
    case 3
    define x y z where "x = c div 4096" and "y = c div 64 mod 64" and "z = c mod 64"
    have c: "c = x * 4096 + y * 64 + z" and small: "y < 64" "z < 64"
      using six_bits_3 [of c] by (simp_all add: x_def y_def z_def)
    have "second_of_three (224 + x) (128 + y)" "x < 16"
      using 3 assms(1) small c
      by (auto simp: second_of_three_def is_continuation_def is_scalar_def)
    moreover have "b = 224 + x" "bs = [128 + y, 128 + z]" "length (encode_char c) = 3"
      using 3 assms(2) by (auto simp: encode_char_def x_def y_def z_def)
    ultimately show ?thesis
      using small c by (simp add: first_char_def is_continuation_def)
  next
    case 4
    define v x y z where "v = c div 262144" and "x = c div 4096 mod 64"
      and "y = c div 64 mod 64" and "z = c mod 64"
    have c: "c = v * 262144 + x * 4096 + y * 64 + z" and small: "x < 64" "y < 64" "z < 64"
      using six_bits_4 [of c] by (simp_all add: v_def x_def y_def z_def)
    have "second_of_four (240 + v) (128 + x)" "v \<le> 4"
      using 4 assms(1) small c
      by (auto simp: second_of_four_def is_continuation_def is_scalar_def)
    moreover have "b = 240 + v" "bs = [128 + x, 128 + y, 128 + z]" "length (encode_char c) = 4"
      using 4 assms(2) by (auto simp: encode_char_def v_def x_def y_def z_def)
    ultimately show ?thesis
      using small c by (simp add: first_char_def is_continuation_def)
  qed
qed

text \<open>A proper prefix of an encoding is incomplete.\<close>

lemma first_char_cut:
  assumes "first_char b (p @ r) = Utf8Char c w" "Suc (length p) < w"
  shows "first_char b p = Utf8Incomplete"
proof -
  consider "p = []" | x where "p = [x]" | x y where "p = [x, y]" | x y z p' where "p = x # y # z # p'"
    by (metis list.exhaust)
  then show ?thesis
    using assms
    by cases (auto simp: first_char_def split: if_splits list.splits)
qed

lemma first_char_incomplete:
  assumes "is_scalar c" "encode_char c = (b # p) @ r" "r \<noteq> []"
  shows "first_char b p = Utf8Incomplete"
proof (rule first_char_cut)
  show "first_char b (p @ r) = Utf8Char c (length (encode_char c))"
    using first_char_encode [OF assms(1), of b "p @ r" "[]"] assms(2) by simp
  show "Suc (length p) < length (encode_char c)"
    using assms(2,3) by simp
qed

text \<open>What is decoded is the encoding of a character.\<close>

lemma decode_two:
  assumes "194 \<le> b" "b \<le> 223" "is_continuation b1"
  shows "encode_char ((b - 192) * 64 + (b1 - 128)) = [b, b1]"
    "is_scalar ((b - 192) * 64 + (b1 - 128))"
proof -
  define x y where "x = b - 192" and "y = b1 - 128"
  have "b = 192 + x" "b1 = 128 + y" "2 \<le> x" "x < 32" "y < 64"
    using assms by (auto simp: is_continuation_def x_def y_def)
  then show "encode_char ((b - 192) * 64 + (b1 - 128)) = [b, b1]"
    "is_scalar ((b - 192) * 64 + (b1 - 128))"
    by (simp_all add: encode_char_def is_scalar_def)
qed

lemma decode_three:
  assumes "224 \<le> b" "b \<le> 239" "second_of_three b b1" "is_continuation b2"
  shows "encode_char ((b - 224) * 4096 + (b1 - 128) * 64 + (b2 - 128)) = [b, b1, b2]"
    "is_scalar ((b - 224) * 4096 + (b1 - 128) * 64 + (b2 - 128))"
proof -
  have b1: "is_continuation b1"
    using assms(3) by (auto simp: second_of_three_def is_continuation_def split: if_splits)
  define x y z where "x = b - 224" and "y = b1 - 128" and "z = b2 - 128"
  have e: "b = 224 + x" "b1 = 128 + y" "b2 = 128 + z" and small: "x < 16" "y < 64" "z < 64"
    using assms(1,2,4) b1 by (auto simp: is_continuation_def x_def y_def z_def)
  have y: "x = 0 \<Longrightarrow> 32 \<le> y" "x = 13 \<Longrightarrow> y < 32"
    using assms(3) e by (auto simp: second_of_three_def)
  have "2048 \<le> x * 4096 + y * 64 + z" using y by (cases "x = 0") auto
  moreover have "x * 4096 + y * 64 + z < 65536" using small by simp
  moreover have "is_scalar (x * 4096 + y * 64 + z)"
    using y small by (cases "x < 13"; cases "x = 13") (auto simp: is_scalar_def)
  ultimately show "encode_char ((b - 224) * 4096 + (b1 - 128) * 64 + (b2 - 128)) = [b, b1, b2]"
    "is_scalar ((b - 224) * 4096 + (b1 - 128) * 64 + (b2 - 128))"
    using six_bits_unique_3 [of y z x] e small by (simp_all add: encode_char_def)
qed

lemma decode_four:
  assumes "240 \<le> b" "b \<le> 244" "second_of_four b b1" "is_continuation b2" "is_continuation b3"
  shows "encode_char ((b - 240) * 262144 + (b1 - 128) * 4096 + (b2 - 128) * 64 + (b3 - 128)) =
      [b, b1, b2, b3]"
    "is_scalar ((b - 240) * 262144 + (b1 - 128) * 4096 + (b2 - 128) * 64 + (b3 - 128))"
proof -
  have b1: "is_continuation b1"
    using assms(3) by (auto simp: second_of_four_def is_continuation_def split: if_splits)
  define v x y z where "v = b - 240" and "x = b1 - 128" and "y = b2 - 128" and "z = b3 - 128"
  have e: "b = 240 + v" "b1 = 128 + x" "b2 = 128 + y" "b3 = 128 + z"
    and small: "v \<le> 4" "x < 64" "y < 64" "z < 64"
    using assms(1,2,4,5) b1 by (auto simp: is_continuation_def v_def x_def y_def z_def)
  have x: "v = 0 \<Longrightarrow> 16 \<le> x" "v = 4 \<Longrightarrow> x < 16"
    using assms(3) e by (auto simp: second_of_four_def)
  have "65536 \<le> v * 262144 + x * 4096 + y * 64 + z" using x by (cases "v = 0") auto
  moreover have "v * 262144 + x * 4096 + y * 64 + z < 1114112"
    using x small by (cases "v = 4") auto
  ultimately show
    "encode_char ((b - 240) * 262144 + (b1 - 128) * 4096 + (b2 - 128) * 64 + (b3 - 128)) =
      [b, b1, b2, b3]"
    "is_scalar ((b - 240) * 262144 + (b1 - 128) * 4096 + (b2 - 128) * 64 + (b3 - 128))"
    using six_bits_unique_4 [of x y z v] e small by (simp_all add: encode_char_def is_scalar_def)
qed

lemma first_char_sound:
  assumes "first_char b bs = Utf8Char c w"
  shows "is_scalar c \<and> b # take (w - 1) bs = encode_char c \<and> w = length (encode_char c)"
proof -
  have "is_scalar b \<and> encode_char b = [b]" if "b < 128"
    using that by (simp add: is_scalar_def encode_char_def)
  then show ?thesis
    using assms decode_two [of b] decode_three [of b] decode_four [of b]
    by (auto simp: first_char_def split: if_splits list.splits)
qed

section \<open>Prefixes of encoded text\<close>

definition encode_text :: "ustring \<Rightarrow> nat list" where
  "encode_text t = concat (map encode_char t)"

lemma encode_text_simps [simp]:
  "encode_text [] = []" "encode_text (c # t) = encode_char c @ encode_text t"
  "encode_text (a @ b) = encode_text a @ encode_text b"
  by (simp_all add: encode_text_def)

lemma encode_text_eq_Nil [simp]: "encode_text t = [] \<longleftrightarrow> t = []"
  by (cases t) simp_all

lemma unat_utf8_bytes: "list_all is_scalar t \<Longrightarrow> map unat (utf8_bytes t) = encode_text t"
proof (induction t)
  case (Cons c t)
  have "unat (of_nat b :: byte) = b" if "b \<in> set (encode_char c)" for b
    using encode_char_bytes [of c b] Cons.prems that by (simp add: unat_of_nat take_bit_eq_mod)
  then have "map (unat \<circ> (of_nat :: nat \<Rightarrow> byte)) (encode_char c) = encode_char c"
    by (intro map_idI) simp
  then show ?case
    using Cons by (simp add: utf8_bytes_def)
qed (simp add: utf8_bytes_def)

lemma utf8_bytes_append [simp]: "utf8_bytes (a @ b) = utf8_bytes a @ utf8_bytes b"
  by (simp add: utf8_bytes_def)

lemma map_unat_eq_iff [simp]: "map unat (a :: byte list) = map unat b \<longleftrightarrow> a = b"
  by (rule inj_map_eq_map) (auto intro: injI unsigned_word_eqI)

lemma decode_from_encode:
  "list_all is_scalar t \<Longrightarrow>
   decode_from pos (encode_text t @ r) =
     and_then (decode_from (pos + length (encode_text t)) r) (\<lambda>cs. Inr (t @ cs))"
proof (induction t arbitrary: pos)
  case Nil
  show ?case by (cases "decode_from pos r") simp_all
next
  case (Cons c t)
  obtain b bs where e: "encode_char c = b # bs" by (cases "encode_char c") auto
  have "first_char b (bs @ encode_text t @ r) = Utf8Char c (Suc (length bs))"
    using first_char_encode [of c b bs "encode_text t @ r"] Cons.prems e by simp
  then show ?case
    using Cons e
    by (cases "decode_from (pos + length (encode_text (c # t))) r") (simp_all add: add.assoc)
qed

text \<open>The rest of an incomplete character, and how a prefix of an encoded text decodes.\<close>

definition incomplete :: "nat list \<Rightarrow> ustring \<Rightarrow> bool" where
  "incomplete p t \<longleftrightarrow> p = [] \<or> (\<exists>c t' r. t = c # t' \<and> encode_char c = p @ r \<and> r \<noteq> [])"

lemma prefix_of_encoded:
  "p @ q = encode_text t \<Longrightarrow>
   \<exists>t1 t2 r. t = t1 @ t2 \<and> p = encode_text t1 @ r \<and> incomplete r t2 \<and> r @ q = encode_text t2"
proof (induction t arbitrary: p)
  case Nil
  then show ?case by (intro exI [of _ "[]"]) (simp add: incomplete_def)
next
  case (Cons c t)
  obtain us where "p = encode_char c @ us \<and> us @ q = encode_text t \<or>
      us \<noteq> [] \<and> p @ us = encode_char c \<and> q = us @ encode_text t"
    using Cons.prems by (auto simp: append_eq_append_conv2) (metis append_Nil append_Nil2)
  then show ?case
  proof (elim disjE conjE)
    assume p: "p = encode_char c @ us" and "us @ q = encode_text t"
    then obtain t1 t2 r where "t = t1 @ t2" "us = encode_text t1 @ r" "incomplete r t2"
      "r @ q = encode_text t2"
      using Cons.IH by blast
    then show ?thesis
      using p by (intro exI [of _ "c # t1"] exI [of _ t2] exI [of _ r]) simp
  next
    assume "us \<noteq> []" "p @ us = encode_char c"
    then have "incomplete p (c # t)" by (auto simp: incomplete_def intro: exI [of _ us])
    then show ?thesis
      using Cons.prems by (intro exI [of _ "[]"] exI [of _ "c # t"] exI [of _ p]) simp
  qed
qed

lemma decode_incomplete:
  assumes "incomplete r t" "list_all is_scalar t" "r \<noteq> []"
  shows "decode_from pos r = Inl \<lparr>valid_up_to = pos, error_len = None\<rparr>"
proof -
  obtain c t' r' where "t = c # t'" "encode_char c = r @ r'" "r' \<noteq> []"
    using assms(1,3) by (auto simp: incomplete_def)
  moreover obtain b p where "r = b # p" using assms(3) by (cases r) auto
  ultimately show ?thesis
    using first_char_incomplete [of c b p r'] assms(2) by simp
qed

lemma from_utf8_prefix:
  assumes "list_all is_scalar t" "map unat bs @ q = encode_text t"
  obtains t1 t2 n where "t = t1 @ t2" "n = length (encode_text t1)" "n \<le> length bs"
    "take n bs = utf8_bytes t1" "incomplete (map unat (drop n bs)) t2"
    "map unat (drop n bs) @ q = encode_text t2"
    "from_utf8 bs =
       (if drop n bs = [] then Inr t1 else Inl \<lparr>valid_up_to = n, error_len = None\<rparr>)"
    "from_utf8 (take n bs) = Inr t1"
proof -
  obtain t1 t2 r where t: "t = t1 @ t2" and p: "map unat bs = encode_text t1 @ r"
    and r: "incomplete r t2" "r @ q = encode_text t2"
    using prefix_of_encoded [OF assms(2)] by blast
  let ?n = "length (encode_text t1)"
  have valid: "list_all is_scalar t1" "list_all is_scalar t2" using assms(1) t by simp_all
  have n: "?n \<le> length bs" using arg_cong [OF p, of length] by simp
  have d: "map unat (drop ?n bs) = r" "map unat (take ?n bs) = encode_text t1"
    using p by (simp_all add: drop_map [symmetric] take_map [symmetric])
  then have tk: "take ?n bs = utf8_bytes t1"
    using unat_utf8_bytes [OF valid(1)] by (metis map_unat_eq_iff)
  have "from_utf8 bs =
       (if drop ?n bs = [] then Inr t1 else Inl \<lparr>valid_up_to = ?n, error_len = None\<rparr>)"
    using decode_from_encode [OF valid(1), of 0 r] decode_incomplete [OF r(1) valid(2)] p d(1)
    by (auto simp: from_utf8_def)
  moreover have "from_utf8 (take ?n bs) = Inr t1"
    using decode_from_encode [OF valid(1), of 0 "[]"] d(2) by (simp add: from_utf8_def)
  ultimately show thesis
    using that [OF t refl n tk] r d(1) by simp
qed

lemma decode_from_sound:
  "decode_from pos bs = Inr t \<Longrightarrow> list_all is_scalar t \<and> encode_text t = bs"
proof (induction pos bs arbitrary: t rule: decode_from.induct)
  case (2 pos b bs)
  obtain c w where c: "first_char b bs = Utf8Char c w"
    using 2 by (cases "first_char b bs") auto
  then obtain cs where cs: "decode_from (pos + w) (drop (w - 1) bs) = Inr cs" "t = c # cs"
    using 2 by auto
  have "list_all is_scalar cs \<and> encode_text cs = drop (w - 1) bs"
    using 2 c cs by auto
  then show ?case
    using first_char_sound [OF c] cs(2) by simp (metis append_Cons append_take_drop_id)
qed simp

lemma from_utf8_sound: "from_utf8 bs = Inr t \<Longrightarrow> list_all is_scalar t \<and> bs = utf8_bytes t"
  using decode_from_sound [of 0 "map unat bs" t] unat_utf8_bytes [of t]
  by (metis from_utf8_def map_unat_eq_iff)

end
