(* ===== verification/Utf8_Stream.thy ===== *)
theory Utf8_Stream
  imports Citations Utf8
begin

text \<open>
  The byte front end of the streaming parsers, after \<open>utils/stream-parser/src/utf8_stream.rs\<close>. The
  wrapped parser is any implementation of the stream interface; its properties are proved in that interface's locale and
  carried to the citation parser by its interpretation.
\<close>

section \<open>The byte parser\<close>

datatype Utf8StreamParserError =
    InvalidUtf8 nat nat
  | IncompleteUtf8AtEof

record 's Utf8StreamParser =
  utf8_inner :: 's
  pending_utf8 :: "byte list"

definition utf8_new :: "'s \<Rightarrow> 's Utf8StreamParser" where
  "utf8_new inner = \<lparr>utf8_inner = inner, pending_utf8 = []\<rparr>"

text \<open>The parser is changed in place; on the error paths the code truncates the buffer to its old
  length.\<close>

definition push_bytes ::
  "('s \<Rightarrow> ustring \<Rightarrow> ('s, 'x) text_step) \<Rightarrow> 's Utf8StreamParser \<Rightarrow> byte list \<Rightarrow>
   's Utf8StreamParser \<times> (Utf8StreamParserError, 'x StreamTextChunk) result" where
  "push_bytes push self chunk =
     (let old_len = length (pending_utf8 self);
          buffer = pending_utf8 self @ chunk
      in case from_utf8 buffer of
           Inr t \<Rightarrow>
             (let (inner, out) = push (utf8_inner self) t
              in (self\<lparr>utf8_inner := inner, pending_utf8 := []\<rparr>, Inr out))
         | Inl err \<Rightarrow>
             (case error_len err of
                Some len \<Rightarrow>
                  (self\<lparr>pending_utf8 := take old_len buffer\<rparr>, Inl (InvalidUtf8 (valid_up_to err) len))
              | None \<Rightarrow>
                  if valid_up_to err = 0 then (self\<lparr>pending_utf8 := buffer\<rparr>, Inr empty_chunk)
                  else (case from_utf8 (take (valid_up_to err) buffer) of
                          Inl prefix_err \<Rightarrow>
                            (self\<lparr>pending_utf8 := take old_len buffer\<rparr>,
                             Inl (InvalidUtf8 (valid_up_to prefix_err)
                               (case error_len prefix_err of Some len \<Rightarrow> len | None \<Rightarrow> 0)))
                        | Inr t \<Rightarrow>
                            (let (inner, out) = push (utf8_inner self) t
                             in (self\<lparr>utf8_inner := inner,
                                      pending_utf8 := drop (valid_up_to err) buffer\<rparr>, Inr out)))))"

definition utf8_check :: "byte list \<Rightarrow> (Utf8StreamParserError, ustring) result" where
  "utf8_check bs =
     (case from_utf8 bs of
        Inr t \<Rightarrow> Inr t
      | Inl err \<Rightarrow>
          (case error_len err of
             Some len \<Rightarrow> Inl (InvalidUtf8 (valid_up_to err) len)
           | None \<Rightarrow> Inl IncompleteUtf8AtEof))"

definition utf8_finish ::
  "('s \<Rightarrow> ustring \<Rightarrow> ('s, 'x) text_step) \<Rightarrow> ('s \<Rightarrow> ('s, 'x) text_step) \<Rightarrow> 's Utf8StreamParser \<Rightarrow>
   's Utf8StreamParser \<times> (Utf8StreamParserError, 'x StreamTextChunk) result" where
  "utf8_finish push flush self =
     (if pending_utf8 self = [] then
        (let (inner, tail) = flush (utf8_inner self) in (self\<lparr>utf8_inner := inner\<rparr>, Inr tail))
      else
        (case utf8_check (pending_utf8 self) of
           Inl e \<Rightarrow> (self, Inl e)
         | Inr t \<Rightarrow>
             (let (inner, out) = push (utf8_inner self) t; (inner, tail) = flush inner
              in (self\<lparr>utf8_inner := inner, pending_utf8 := []\<rparr>, Inr (append_chunk out tail)))))"

definition into_inner :: "'s Utf8StreamParser \<Rightarrow> (Utf8StreamParserError, 's) result" where
  "into_inner self =
     (if pending_utf8 self = [] then Inr (utf8_inner self)
      else and_then (utf8_check (pending_utf8 self)) (\<lambda>_. Inr (utf8_inner self)))"

definition into_inner_lossy :: "'s Utf8StreamParser \<Rightarrow> 's" where
  "into_inner_lossy self = utf8_inner self"

text \<open>A whole stream of byte chunks, stopping at the first error.\<close>

fun utf8_stream ::
  "('s \<Rightarrow> ustring \<Rightarrow> ('s, 'x) text_step) \<Rightarrow> ('s \<Rightarrow> ('s, 'x) text_step) \<Rightarrow> 's Utf8StreamParser \<Rightarrow>
   byte list list \<Rightarrow> 's Utf8StreamParser \<times> (Utf8StreamParserError, 'x StreamTextChunk) result" where
  "utf8_stream push flush self [] = utf8_finish push flush self"
| "utf8_stream push flush self (c # cs) =
     (case push_bytes push self c of
        (self', Inl e) \<Rightarrow> (self', Inl e)
      | (self', Inr out) \<Rightarrow>
          (case utf8_stream push flush self' cs of
             (self'', Inl e) \<Rightarrow> (self'', Inl e)
           | (self'', Inr rest) \<Rightarrow> (self'', Inr (append_chunk out rest))))"

section \<open>Any parser behind the byte front end\<close>

lemma push_bytes_prefix:
  assumes "list_all is_scalar t" "map unat (pending_utf8 self @ chunk) @ q = encode_text t"
  obtains t1 t2 self' out where "t = t1 @ t2" "push_bytes push self chunk = (self', Inr out)"
    "push (utf8_inner self) t1 = (utf8_inner self', out) \<or>
     t1 = [] \<and> utf8_inner self' = utf8_inner self \<and> out = empty_chunk"
    "map unat (pending_utf8 self') @ q = encode_text t2"
    "incomplete (map unat (pending_utf8 self')) t2"
proof -
  obtain t1 t2 n where t: "t = t1 @ t2" "n = length (encode_text t1)"
    and rest: "incomplete (map unat (drop n (pending_utf8 self @ chunk))) t2"
      "map unat (drop n (pending_utf8 self @ chunk)) @ q = encode_text t2"
    and decode: "from_utf8 (pending_utf8 self @ chunk) =
       (if drop n (pending_utf8 self @ chunk) = [] then Inr t1
        else Inl \<lparr>valid_up_to = n, error_len = None\<rparr>)"
      "from_utf8 (take n (pending_utf8 self @ chunk)) = Inr t1"
    using from_utf8_prefix [OF assms] by metis
  let ?buffer = "pending_utf8 self @ chunk"
  obtain inner out where push: "push (utf8_inner self) t1 = (inner, out)"
    by (cases "push (utf8_inner self) t1")
  consider "drop n ?buffer = []" | "drop n ?buffer \<noteq> []" "n = 0" | "drop n ?buffer \<noteq> []" "n \<noteq> 0"
    by blast
  then show thesis
  proof cases
    case 1
    then have "push_bytes push self chunk = (self\<lparr>utf8_inner := inner, pending_utf8 := []\<rparr>, Inr out)"
      using decode push by (simp add: push_bytes_def)
    then show thesis
      using that [of t1 t2 "self\<lparr>utf8_inner := inner, pending_utf8 := []\<rparr>" out] t push rest 1
      by (simp add: incomplete_def)
  next
    case 2
    then have "push_bytes push self chunk = (self\<lparr>pending_utf8 := ?buffer\<rparr>, Inr empty_chunk)"
      using decode by (auto simp: push_bytes_def Let_def)
    then show thesis
      using that [of t1 t2 "self\<lparr>pending_utf8 := ?buffer\<rparr>" empty_chunk] t rest 2 by simp
  next
    case 3
    then have "push_bytes push self chunk =
        (self\<lparr>utf8_inner := inner, pending_utf8 := drop n ?buffer\<rparr>, Inr out)"
      using decode push by (simp add: push_bytes_def Let_def del: drop_append take_append)
    then show thesis
      using that [of t1 t2 "self\<lparr>utf8_inner := inner, pending_utf8 := drop n ?buffer\<rparr>" out]
        t rest push by (simp del: drop_append)
  qed
qed

context stream_text_parser
begin

lemma push_bytes_step:
  assumes "settled (utf8_inner self)" "list_all is_scalar t"
    "map unat (pending_utf8 self @ chunk) @ q = encode_text t"
  obtains t1 t2 self' out where "t = t1 @ t2" "push_bytes push self chunk = (self', Inr out)"
    "push (utf8_inner self) t1 = (utf8_inner self', out)"
    "map unat (pending_utf8 self') @ q = encode_text t2"
    "incomplete (map unat (pending_utf8 self')) t2"
proof (rule push_bytes_prefix [OF assms(2,3), of push])
  fix t1 t2 self' out
  assume "t = t1 @ t2" "push_bytes push self chunk = (self', Inr out)"
    "map unat (pending_utf8 self') @ q = encode_text t2"
    "incomplete (map unat (pending_utf8 self')) t2"
  moreover assume "push (utf8_inner self) t1 = (utf8_inner self', out) \<or>
    t1 = [] \<and> utf8_inner self' = utf8_inner self \<and> out = empty_chunk"
  then have "push (utf8_inner self) t1 = (utf8_inner self', out)"
    using push_Nil [OF assms(1)] by auto
  ultimately show thesis using that by blast
qed

lemma utf8_stream_pieces:
  assumes "settled (utf8_inner self)" "list_all is_scalar t"
    "map unat (pending_utf8 self @ concat chunks) = encode_text t"
    "incomplete (map unat (pending_utf8 self)) t"
  shows "\<exists>self' out pieces. utf8_stream push flush self chunks = (self', Inr out) \<and>
    pending_utf8 self' = [] \<and> concat pieces = t \<and>
    stream_out push flush (utf8_inner self) pieces = (utf8_inner self', out)"
  using assms
proof (induction chunks arbitrary: self t)
  case Nil
  have "t = [] \<and> pending_utf8 self = []"
    using Nil.prems(3,4) by (cases t) (auto simp: incomplete_def)
  moreover obtain inner tail where "flush (utf8_inner self) = (inner, tail)"
    by (cases "flush (utf8_inner self)")
  ultimately show ?case
    by (intro exI [of _ "self\<lparr>utf8_inner := inner\<rparr>"] exI [of _ tail] exI [of _ "[]"])
      (simp add: utf8_finish_def stream_out_def)
next
  case (Cons c cs)
  have "map unat (pending_utf8 self @ c) @ map unat (concat cs) = encode_text t"
    using Cons.prems(3) by simp
  from push_bytes_step [OF Cons.prems(1,2) this]
  obtain t1 t2 self1 out1 where t: "t = t1 @ t2"
    and step: "push_bytes push self c = (self1, Inr out1)"
      "push (utf8_inner self) t1 = (utf8_inner self1, out1)"
    and rest: "map unat (pending_utf8 self1) @ map unat (concat cs) = encode_text t2"
      "incomplete (map unat (pending_utf8 self1)) t2" .
  have "list_all is_scalar t2" using Cons.prems(2) t by simp
  then obtain self' out pieces where ih: "utf8_stream push flush self1 cs = (self', Inr out)"
    "pending_utf8 self' = []" "concat pieces = t2"
    "stream_out push flush (utf8_inner self1) pieces = (utf8_inner self', out)"
    using Cons.IH [OF push_settled [OF Cons.prems(1) step(2)] _ _ rest(2)] rest(1)
    by (metis map_append)
  have "stream_out push flush (utf8_inner self) (t1 # pieces) =
      (utf8_inner self', append_chunk out1 out)"
    using ih(4) step(2) by (auto simp: stream_out_def Let_def append_chunk_assoc split: prod.splits)
  then show ?case
    using ih step(1) t
    by (intro exI [of _ self'] exI [of _ "append_chunk out1 out"] exI [of _ "t1 # pieces"]) simp
qed

text \<open>Feeding the bytes of a text, in chunks cut anywhere, is feeding the text.\<close>

lemma utf8_stream_text:
  assumes "settled s" "list_all is_scalar t" "concat chunks = utf8_bytes t"
  shows "\<exists>self' out. utf8_stream push flush (utf8_new s) chunks = (self', Inr out) \<and>
    pending_utf8 self' = [] \<and>
    same_out out (snd (stream_out push flush s [t]))"
proof -
  have "map unat (pending_utf8 (utf8_new s) @ concat chunks) = encode_text t"
    using assms by (simp add: utf8_new_def unat_utf8_bytes)
  then obtain self' out pieces where
    "utf8_stream push flush (utf8_new s) chunks = (self', Inr out)" "pending_utf8 self' = []"
    "concat pieces = t" "stream_out push flush s pieces = (utf8_inner self', out)"
    using utf8_stream_pieces [of "utf8_new s" t chunks] assms(1,2)
    by (auto simp: utf8_new_def incomplete_def)
  then show ?thesis
    using chunking_irrelevant [OF assms(1), of pieces "[t]"] by auto
qed

end

section \<open>Properties\<close>

text \<open>A stream of bytes that spells a valid text, in chunks that may cut characters anywhere,
  passes without an error, leaves no byte behind, and the citation parser behind it shows and
  extracts exactly what the reference definition computes from the text.\<close>

theorem utf8_citations_any_byte_chunking:
  assumes "list_all is_scalar t" and "concat chunks = utf8_bytes t"
  shows "\<exists>self' out.
    utf8_stream citation_push_str citation_finish (utf8_new citation_start) chunks =
      (self', Inr out) \<and> pending_utf8 self' = [] \<and>
    (visible_text out, extracted out) = hide_citations t"
  using citation.utf8_stream_text [OF citation_start_settled assms]
  by (auto simp: citation.same_out_def stream_out_hide)

theorem utf8_citations_any_byte_chunking_witness:
  "\<exists>self' out.
    utf8_stream citation_push_str citation_finish (utf8_new citation_start)
      [[104], [195], [169, 226, 130], [172]] = (self', Inr out) \<and> pending_utf8 self' = [] \<and>
    (visible_text out, extracted out) = hide_citations [104, 233, 8364]"
proof -
  have "list_all is_scalar [104, 233, 8364]" by code_simp
  moreover have "concat [[104], [195], [169, 226, 130], [172]] = utf8_bytes [104, 233, 8364]"
    by code_simp
  ultimately show ?thesis by (rule utf8_citations_any_byte_chunking)
qed

text \<open>A push that fails leaves the parser as it was, and it fails only when it must: no valid
  text starts with the buffered bytes followed by the pushed ones.\<close>

theorem push_bytes_error_rolls_back:
  assumes "push_bytes push self chunk = (self', Inl e)"
  shows "self' = self \<and>
    \<not> (\<exists>t rest. list_all is_scalar t \<and> utf8_bytes t = pending_utf8 self @ chunk @ rest)"
proof
  show "self' = self"
    using assms
    by (auto simp: push_bytes_def Let_def split: sum.splits option.splits if_splits prod.splits)
  show "\<not> (\<exists>t rest. list_all is_scalar t \<and> utf8_bytes t = pending_utf8 self @ chunk @ rest)"
  proof
    assume "\<exists>t rest. list_all is_scalar t \<and> utf8_bytes t = pending_utf8 self @ chunk @ rest"
    then obtain t rest where t: "list_all is_scalar t" "utf8_bytes t = pending_utf8 self @ chunk @ rest"
      by blast
    then have "map unat (pending_utf8 self @ chunk) @ map unat rest = encode_text t"
      using unat_utf8_bytes [OF t(1)] by simp
    from push_bytes_prefix [OF t(1) this, of push False] show False
      using assms by simp
  qed
qed

theorem push_bytes_error_rolls_back_witness:
  "push_bytes citation_push_str \<lparr>utf8_inner = citation_start, pending_utf8 = [195]\<rparr> [40] =
     (\<lparr>utf8_inner = citation_start, pending_utf8 = [195]\<rparr>, Inl (InvalidUtf8 0 1)) \<and>
   \<not> (\<exists>t rest. list_all is_scalar t \<and> utf8_bytes t = [195] @ [40] @ rest)"
proof -
  have "push_bytes citation_push_str \<lparr>utf8_inner = citation_start, pending_utf8 = [195]\<rparr> [40] =
     (\<lparr>utf8_inner = citation_start, pending_utf8 = [195]\<rparr>, Inl (InvalidUtf8 0 1))"
    by code_simp
  then show ?thesis using push_bytes_error_rolls_back by fastforce
qed

text \<open>A push that succeeds neither loses nor invents bytes: the buffered and the pushed bytes are
  the encoding of a valid text followed by the bytes still buffered, and the wrapped parser was
  given exactly that text, or was left alone if it is empty.\<close>

theorem push_bytes_conserves_bytes:
  assumes "push_bytes push self chunk = (self', Inr out)"
  shows "\<exists>t. list_all is_scalar t \<and>
    pending_utf8 self @ chunk = utf8_bytes t @ pending_utf8 self' \<and>
    (push (utf8_inner self) t = (utf8_inner self', out) \<or>
     t = [] \<and> utf8_inner self' = utf8_inner self \<and> out = empty_chunk)"
proof (cases "from_utf8 (pending_utf8 self @ chunk)")
  case (Inr t)
  then show ?thesis
    using assms from_utf8_sound [OF Inr]
    by (auto simp: push_bytes_def Let_def split: prod.splits)
next
  case (Inl err)
  let ?n = "valid_up_to err" and ?buffer = "pending_utf8 self @ chunk"
  have none: "error_len err = None"
    using assms Inl by (auto simp: push_bytes_def Let_def split: option.splits)
  show ?thesis
  proof (cases "?n = 0")
    case True
    then show ?thesis
      using assms Inl none by (auto simp: push_bytes_def utf8_bytes_def intro!: exI [of _ "[]"])
  next
    case False
    then obtain t where t: "from_utf8 (take ?n ?buffer) = Inr t"
      using assms Inl none
      by (cases "from_utf8 (take ?n ?buffer)") (auto simp: push_bytes_def Let_def simp del: take_append)
    have "?buffer = utf8_bytes t @ drop ?n ?buffer"
      by (metis append_take_drop_id from_utf8_sound [OF t])
    then show ?thesis
      using assms Inl none False t from_utf8_sound [OF t]
      by (auto simp: push_bytes_def Let_def simp del: take_append drop_append split: prod.splits)
  qed
qed

theorem push_bytes_conserves_bytes_witness:
  "\<exists>t. list_all is_scalar t \<and>
    pending_utf8 (utf8_new citation_start) @ [104, 195] =
      utf8_bytes t @ pending_utf8 (utf8_new citation_start\<lparr>pending_utf8 := [195]\<rparr>) \<and>
    (citation_push_str (utf8_inner (utf8_new citation_start)) t =
       (utf8_inner (utf8_new citation_start\<lparr>pending_utf8 := [195]\<rparr>),
        \<lparr>visible_text = [104], extracted = []\<rparr>) \<or>
     t = [] \<and>
     utf8_inner (utf8_new citation_start\<lparr>pending_utf8 := [195]\<rparr>) = utf8_inner (utf8_new citation_start) \<and>
     \<lparr>visible_text = [104], extracted = []\<rparr> = (empty_chunk :: ustring StreamTextChunk))"
proof -
  have "push_bytes citation_push_str (utf8_new citation_start) [104, 195] =
      (utf8_new citation_start\<lparr>pending_utf8 := [195]\<rparr>, Inr \<lparr>visible_text = [104], extracted = []\<rparr>)"
    by code_simp
  then show ?thesis by (rule push_bytes_conserves_bytes)
qed

end
