(* ===== verification/Moa_Advisory.thy ===== *)
theory Moa_Advisory
  imports Rust_Prelude "HOL-Library.Word"
begin

text \<open>
  The advisory view of a Mixture-of-Agents turn, after \<open>moa/src/advisory.rs\<close>: what a reference
  model is shown of a conversation, and the prompts built around its answers.

  The main facts: the view is made of plain user and assistant turns, it ends on a user turn, it
  keeps every user turn in order and depends on nothing a system turn says; a folded tool result is
  its own head and tail around a marker that counts exactly what is left out; the guidance text is
  never blank.
\<close>

section \<open>Data\<close>

record MoaModelSlot =
  slot_provider :: ustring
  slot_model :: ustring

record ToolCall =
  call_name :: ustring
  call_arguments :: ustring

record ChatMessage =
  msg_role :: ustring
  msg_content :: ustring
  msg_tool_calls :: "ToolCall list"
  is_tool_result :: bool

definition REFERENCE_TOOL_RESULT_BUDGET :: nat where
  "REFERENCE_TOOL_RESULT_BUDGET = 4000"

definition MAX_REFERENCE_WORKERS :: nat where
  "MAX_REFERENCE_WORKERS = 8"

definition REFERENCE_SYSTEM_PROMPT :: ustring where
  "REFERENCE_SYSTEM_PROMPT =
     lit ''You are a reference advisor in a Mixture of Agents (MoA) process. You are NOT the '' @
     lit ''acting agent and you do NOT execute anything: you cannot call tools, run commands, '' @
     lit ''browse, or access files, repositories, or URLs, and you should not try to or '' @
     lit ''apologize for being unable to. A separate aggregator/orchestrator model holds those '' @
     lit ''capabilities and will take the actual actions.'' @
     [nl] @
     [nl] @
     lit ''The conversation below is the current state of a task handled by that acting agent. '' @
     lit ''Your job is to give your most intelligent analysis of that state: understand the '' @
     lit ''goal, reason about the problem, and advise on what to do next. Surface the best '' @
     lit ''approach, concrete next steps and tool-use strategy, likely pitfalls and risks, and '' @
     lit ''anything the acting agent may have missed or gotten wrong. Assume any referenced '' @
     lit ''files, URLs, or systems exist and reason about them from the context given rather '' @
     lit ''than asking for access.'' @
     [nl] @
     [nl] @
     lit ''Respond with your advice directly - no preamble, no disclaimers about tools or '' @
     lit ''access. Your response is private guidance handed to the aggregator, not an answer '' @
     lit ''shown to the user.''"

definition ADVISORY_INSTRUCTION :: ustring where
  "ADVISORY_INSTRUCTION =
     lit ''[The conversation above is the current state of the task. Give your most '' @
     lit ''intelligent judgement: what is going on, what should happen next, what risks or '' @
     lit ''mistakes you see, and how the acting agent should proceed.]''"

definition slot_label :: "MoaModelSlot \<Rightarrow> ustring" where
  "slot_label s = trim (slot_provider s) @ lit '':'' @ trim (slot_model s)"

definition user_msg :: "ustring \<Rightarrow> ChatMessage" where
  "user_msg c = \<lparr>msg_role = lit ''user'', msg_content = c, msg_tool_calls = [], is_tool_result = False\<rparr>"

definition assistant_msg :: "ustring \<Rightarrow> ChatMessage" where
  "assistant_msg c =
     \<lparr>msg_role = lit ''assistant'', msg_content = c, msg_tool_calls = [], is_tool_result = False\<rparr>"

definition system_msg :: "ustring \<Rightarrow> ChatMessage" where
  "system_msg c =
     \<lparr>msg_role = lit ''system'', msg_content = c, msg_tool_calls = [], is_tool_result = False\<rparr>"

definition tool_result_msg :: "ustring \<Rightarrow> ChatMessage" where
  "tool_result_msg c =
     \<lparr>msg_role = lit ''tool'', msg_content = c, msg_tool_calls = [], is_tool_result = True\<rparr>"

section \<open>Operations\<close>

definition truncate_tool_result :: "ustring \<Rightarrow> nat \<Rightarrow> ustring" where
  "truncate_tool_result t budget =
     (if length t \<le> budget then t
      else
        (let half = budget div 2;
             head = take half t;
             tail = rev (take half (rev t));
             omitted = length t - 2 * half
         in head @ [nl] @ lit ''[... '' @ show_nat omitted @ lit '' chars omitted ...]'' @ [nl]
              @ tail))"

definition render_tool_call :: "ToolCall \<Rightarrow> ustring" where
  "render_tool_call tc =
     (let nm = (if trim (call_name tc) = [] then lit ''tool'' else trim (call_name tc))
      in if trim (call_arguments tc) = [] then lit ''[called tool: '' @ nm @ lit '']''
         else lit ''[called tool: '' @ nm @ lit ''('' @ trim (call_arguments tc) @ lit '')]'')"

definition render_tool_calls :: "ToolCall list \<Rightarrow> ustring" where
  "render_tool_calls tcs = join [nl] (map render_tool_call tcs)"

text \<open>The parts of an assistant turn: its text and its rendered calls, where they are not empty.\<close>

definition assistant_parts :: "ChatMessage \<Rightarrow> ustring list" where
  "assistant_parts msg =
     (if trim (msg_content msg) \<noteq> [] then [trim (msg_content msg)] else []) @
     (if render_tool_calls (msg_tool_calls msg) \<noteq> [] then [render_tool_calls (msg_tool_calls msg)]
      else [])"

text \<open>One round of the loop over the messages.\<close>

definition render_message :: "ChatMessage list \<Rightarrow> ChatMessage \<Rightarrow> ChatMessage list" where
  "render_message rendered msg =
     (if msg_role msg = lit ''system'' then rendered
      else if msg_role msg = lit ''user'' then rendered @ [user_msg (msg_content msg)]
      else if msg_role msg = lit ''assistant'' then
        (if assistant_parts msg \<noteq> [] then
           rendered @ [assistant_msg (join [nl] (assistant_parts msg))]
         else rendered)
      else if is_tool_result msg \<or> msg_role msg = lit ''tool'' then
        (let preview = truncate_tool_result (trim (msg_content msg)) REFERENCE_TOOL_RESULT_BUDGET;
             block = lit ''[tool result: '' @ preview @ lit '']''
         in if is_some_and (last_opt rendered) (\<lambda>m. msg_role m = lit ''assistant'') then
              modify_last (\<lambda>m. m\<lparr>msg_content := msg_content m @ [nl] @ block\<rparr>) rendered
            else rendered @ [assistant_msg block])
      else rendered)"

definition build_reference_messages :: "ChatMessage list \<Rightarrow> ChatMessage list" where
  "build_reference_messages messages =
     (let rendered = foldl render_message [] messages
      in if is_some_and (last_opt rendered) (\<lambda>m. msg_role m = lit ''user'') then rendered
         else rendered @ [user_msg ADVISORY_INSTRUCTION])"

text \<open>\<open>Reference i - label:\<close> and the text, as the prompt and the fallback list them.\<close>

fun reference_blocks :: "nat \<Rightarrow> (MoaModelSlot \<times> ustring) list \<Rightarrow> ustring list" where
  "reference_blocks idx [] = []"
| "reference_blocks idx ((slot, t) # rest) =
     (lit ''Reference '' @ show_nat (idx + 1) @ lit '' - '' @ slot_label slot @ lit '':'' @ [nl] @ t)
       # reference_blocks (idx + 1) rest"

definition build_synthesis_prompt ::
  "ustring \<Rightarrow> (MoaModelSlot \<times> ustring) list \<Rightarrow> MoaModelSlot \<Rightarrow> ustring" where
  "build_synthesis_prompt user_prompt references aggregator =
     lit ''You are the aggregator in a Mixture of Agents process. Synthesize the reference '' @
     lit ''responses into concise, actionable guidance for the main agent. Focus on next '' @
     lit ''steps, tool-use strategy, risks, and any disagreements. Do not answer the user '' @
     lit ''directly unless that is all that is needed; produce context the main agent should '' @
     lit ''use in its normal loop.'' @
     [nl] @
     [nl] @
     lit ''Original user prompt:'' @
     [nl] @
     user_prompt @
     [nl] @
     [nl] @
     lit ''Reference responses:'' @
     [nl] @
     join [nl, nl] (reference_blocks 0 references)"

text \<open>The part of the guidance before its body.\<close>

definition guidance_header :: "MoaModelSlot \<Rightarrow> MoaModelSlot list \<Rightarrow> ustring" where
  "guidance_header aggregator reference_models =
     lit ''[Mixture of Agents context - use this as private guidance for the normal agent '' @
     lit ''loop. You may call tools, continue reasoning, or finish normally.]'' @
     [nl] @
     lit ''Aggregator: '' @ slot_label aggregator @ [nl] @
     lit ''References: '' @ join (lit '', '') (map slot_label reference_models) @ [nl] @ [nl]"

definition build_guidance ::
  "ustring \<Rightarrow> MoaModelSlot \<Rightarrow> MoaModelSlot list \<Rightarrow> ustring" where
  "build_guidance synthesis aggregator reference_models =
     guidance_header aggregator reference_models @
     (if trim synthesis = [] then
        lit ''(no aggregator synthesis; see reference outputs below)''
      else trim synthesis)"

fun legacy_blocks :: "nat \<Rightarrow> (MoaModelSlot \<times> ustring) list \<Rightarrow> ustring" where
  "legacy_blocks idx [] = []"
| "legacy_blocks idx ((slot, t) # rest) =
     [nl] @ lit ''--- Reference '' @ show_nat (idx + 1) @ lit '' ('' @ slot_provider slot @ lit '':''
       @ slot_model slot @ lit '') ---'' @ [nl] @ t @ [nl] @ legacy_blocks (idx + 1) rest"

definition build_aggregator_prompt :: "ustring \<Rightarrow> (MoaModelSlot \<times> ustring) list \<Rightarrow> ustring" where
  "build_aggregator_prompt user_prompt references =
     lit ''You are the aggregator for a Mixture-of-Agents system. Synthesize the following '' @
     lit ''reference answers into a single high-quality response.'' @
     [nl] @
     [nl] @
     lit ''Original user prompt:'' @
     [nl] @
     user_prompt @
     [nl] @
     [nl] @
     lit ''Reference answers:'' @
     [nl] @
     legacy_blocks 0 references @
     [nl] @
     lit ''Provide the final aggregated answer. Be concise, accurate, and actionable. Do not '' @
     lit ''reveal you are an aggregator.''"

section \<open>Folding a tool result\<close>

lemma rev_take_rev: "rev (take n (rev xs)) = drop (length xs - n) xs"
  by (simp add: rev_take)

text \<open>A tool result within the budget is shown unchanged. A longer one is cut into a head and a
  tail of half the budget each and the middle between them, and what is shown is the head, a marker
  with the length of exactly that middle, and the tail.\<close>

theorem truncate_tool_result_exact:
  "if length t \<le> budget then truncate_tool_result t budget = t
   else \<exists>head middle tail.
     t = head @ middle @ tail \<and> length head = budget div 2 \<and> length tail = budget div 2 \<and>
     middle \<noteq> [] \<and>
     truncate_tool_result t budget =
       head @ [nl] @ lit ''[... '' @ show_nat (length middle) @ lit '' chars omitted ...]'' @ [nl]
         @ tail"
proof (cases "length t \<le> budget")
  case True
  then show ?thesis
    by (simp add: truncate_tool_result_def)
next
  case False
  define half where "half = budget div 2"
  define middle where "middle = take (length t - 2 * half) (drop half t)"
  have h: "2 * half \<le> budget" "2 * half < length t"
    using False by (simp_all add: half_def)
  have "drop half t = middle @ drop (length t - 2 * half) (drop half t)"
    unfolding middle_def by (rule append_take_drop_id [symmetric])
  moreover have "drop (length t - 2 * half) (drop half t) = drop (length t - half) t"
    using h by (simp add: add.commute)
  ultimately have "t = take half t @ middle @ drop (length t - half) t"
    by (metis append_take_drop_id)
  moreover have "length middle = length t - 2 * half"
    using h by (simp add: middle_def)
  moreover have "truncate_tool_result t budget =
      take half t @ [nl] @ lit ''[... '' @ show_nat (length middle) @ lit '' chars omitted ...]''
        @ [nl] @ drop (length t - half) t"
    using False calculation(2) by (simp add: truncate_tool_result_def Let_def half_def rev_take_rev)
  moreover have "length (take half t) = half" "length (drop (length t - half) t) = half"
    "middle \<noteq> []"
    using h calculation(2) by auto
  ultimately show ?thesis
    unfolding if_not_P [OF False] half_def [symmetric] by blast
qed

section \<open>The advisory view\<close>

text \<open>A plain turn: one a strict provider accepts.\<close>

definition plain_turn :: "ChatMessage \<Rightarrow> bool" where
  "plain_turn m \<longleftrightarrow>
     (msg_role m = lit ''user'' \<or> msg_role m = lit ''assistant'') \<and> msg_tool_calls m = [] \<and>
     \<not> is_tool_result m"

definition is_user :: "ChatMessage \<Rightarrow> bool" where
  "is_user m \<longleftrightarrow> msg_role m = lit ''user''"

text \<open>The turns that leave a trace in the view.\<close>

definition renders :: "ChatMessage \<Rightarrow> bool" where
  "renders m \<longleftrightarrow>
     msg_role m = lit ''user'' \<or>
     msg_role m = lit ''assistant'' \<and> assistant_parts m \<noteq> [] \<or>
     msg_role m \<noteq> lit ''system'' \<and> msg_role m \<noteq> lit ''assistant'' \<and>
       (is_tool_result m \<or> msg_role m = lit ''tool'')"

lemma role_neq [simp]:
  "lit ''user'' \<noteq> lit ''assistant''" "lit ''user'' \<noteq> lit ''system''"
  "lit ''assistant'' \<noteq> lit ''user''" "lit ''assistant'' \<noteq> lit ''system''"
  "lit ''system'' \<noteq> lit ''user''" "lit ''system'' \<noteq> lit ''assistant''"
  "lit ''tool'' \<noteq> lit ''user''" "lit ''tool'' \<noteq> lit ''assistant''" "lit ''tool'' \<noteq> lit ''system''"
  by (simp_all add: lit_def)

lemma user_msg_simps [simp]:
  "msg_role (user_msg c) = lit ''user''" "msg_content (user_msg c) = c" "plain_turn (user_msg c)"
  "is_user (user_msg c)"
  by (simp_all add: user_msg_def plain_turn_def is_user_def)

lemma assistant_msg_simps [simp]:
  "msg_role (assistant_msg c) = lit ''assistant''" "msg_content (assistant_msg c) = c"
  "plain_turn (assistant_msg c)" "\<not> is_user (assistant_msg c)"
  by (simp_all add: assistant_msg_def plain_turn_def is_user_def)

lemma plain_turn_content [simp]: "plain_turn (m\<lparr>msg_content := c\<rparr>) = plain_turn m"
  by (simp add: plain_turn_def)

text \<open>The view so far, as the loop keeps it: plain turns, the user turns of the input, and a user turn
  at the end exactly when the last turn that rendered was one.\<close>

definition view_of :: "ChatMessage list \<Rightarrow> ChatMessage list \<Rightarrow> bool" where
  "view_of seen rendered \<longleftrightarrow>
     list_all plain_turn rendered \<and>
     filter is_user rendered = map (\<lambda>m. user_msg (msg_content m)) (filter is_user seen) \<and>
     (rendered = [] \<longleftrightarrow> filter renders seen = []) \<and>
     (rendered \<noteq> [] \<longrightarrow> (is_user (last rendered) \<longleftrightarrow> is_user (last (filter renders seen))))"

lemma filter_modify_last:
  "xs \<noteq> [] \<Longrightarrow> \<not> P (last xs) \<Longrightarrow> \<not> P (f (last xs)) \<Longrightarrow> filter P (modify_last f xs) = filter P xs"
  by (cases xs rule: rev_cases) (auto simp: modify_last_def)

lemma render_message_view:
  assumes "view_of seen rendered"
  shows "view_of (seen @ [msg]) (render_message rendered msg)"
proof -
  consider (system) "msg_role msg = lit ''system''"
    | (user) "msg_role msg = lit ''user''"
    | (assistant) "msg_role msg = lit ''assistant''"
    | (tool) "msg_role msg \<noteq> lit ''system''" "msg_role msg \<noteq> lit ''user''"
        "msg_role msg \<noteq> lit ''assistant''" "is_tool_result msg \<or> msg_role msg = lit ''tool''"
    | (other) "msg_role msg \<noteq> lit ''system''" "msg_role msg \<noteq> lit ''user''"
        "msg_role msg \<noteq> lit ''assistant''" "\<not> (is_tool_result msg \<or> msg_role msg = lit ''tool'')"
    by blast
  then show ?thesis
  proof cases
    case tool
    define block where
      "block = lit ''[tool result: '' @
         truncate_tool_result (trim (msg_content msg)) REFERENCE_TOOL_RESULT_BUDGET @ lit '']''"
    have r: "renders msg" "\<not> is_user msg"
      using tool by (auto simp: renders_def is_user_def)
    show ?thesis
    proof (cases "is_some_and (last_opt rendered) (\<lambda>m. msg_role m = lit ''assistant'')")
      case True
      then have ne: "rendered \<noteq> []" and la: "\<not> is_user (last rendered)"
        by (auto simp: is_some_and_def last_opt_def is_user_def split: if_splits)
      define f where "f = (\<lambda>m :: ChatMessage. m\<lparr>msg_content := msg_content m @ [nl] @ block\<rparr>)"
      have f: "is_user (f m) = is_user m" "plain_turn (f m) = plain_turn m" for m
        by (simp_all add: f_def is_user_def)
      have "render_message rendered msg = modify_last f rendered"
        using tool True by (auto simp: render_message_def Let_def block_def f_def)
      moreover have "list_all plain_turn (modify_last f rendered)"
        using assms ne by (cases rendered rule: rev_cases) (auto simp: view_of_def modify_last_def f)
      moreover have "filter is_user (modify_last f rendered) = filter is_user rendered"
        using ne la f by (simp add: filter_modify_last)
      moreover have "modify_last f rendered \<noteq> []" "\<not> is_user (last (modify_last f rendered))"
        using ne la f by (auto simp: modify_last_def)
      ultimately show ?thesis
        using assms r by (simp add: view_of_def)
    next
      case False
      then have "render_message rendered msg = rendered @ [assistant_msg block]"
        using tool by (auto simp: render_message_def Let_def block_def)
      then show ?thesis
        using assms r by (simp add: view_of_def)
    qed
  qed (use assms in \<open>auto simp: render_message_def view_of_def renders_def is_user_def\<close>)
qed

lemma render_messages_view: "view_of ms (foldl render_message [] ms)"
proof (induction ms rule: rev_induct)
  case Nil
  then show ?case
    by (simp add: view_of_def)
next
  case (snoc m ms)
  then show ?case
    using render_message_view by simp
qed

lemma reference_view_cases:
  obtains rendered where "view_of ms rendered" "rendered \<noteq> []" "is_user (last rendered)"
      "build_reference_messages ms = rendered"
  | rendered where "view_of ms rendered" "\<not> (rendered \<noteq> [] \<and> is_user (last rendered))"
      "build_reference_messages ms = rendered @ [user_msg ADVISORY_INSTRUCTION]"
  using render_messages_view [of ms]
  by (cases "foldl render_message [] ms = []"; cases "is_user (last (foldl render_message [] ms))")
    (auto simp: build_reference_messages_def Let_def is_some_and_def last_opt_def is_user_def)

lemma reference_view_props:
  "list_all plain_turn (build_reference_messages ms)"
  "build_reference_messages ms \<noteq> []"
  "msg_role (last (build_reference_messages ms)) = lit ''user''"
  by (rule reference_view_cases [of ms]; auto simp: view_of_def is_user_def)+

text \<open>Whatever the conversation, the view of it for reference models consists of plain user and
  assistant turns without tool payloads and ends on a user turn. Its user turns are those of the
  conversation, in order and unchanged; the advisory instruction is added to them exactly when the
  last turn that leaves a trace is not a user turn.\<close>

theorem reference_view_plain:
  "list_all plain_turn (build_reference_messages ms) \<and>
   build_reference_messages ms \<noteq> [] \<and>
   msg_role (last (build_reference_messages ms)) = lit ''user'' \<and>
   filter is_user (build_reference_messages ms) =
     map (\<lambda>m. user_msg (msg_content m)) (filter is_user ms) @
     (if filter renders ms \<noteq> [] \<and> is_user (last (filter renders ms)) then []
      else [user_msg ADVISORY_INSTRUCTION])"
  using reference_view_props [of ms]
  by (cases rule: reference_view_cases [of ms]) (auto simp: view_of_def)

text \<open>System turns leave no trace.\<close>

lemma render_messages_skip_system:
  "foldl render_message r (filter (\<lambda>m. msg_role m \<noteq> lit ''system'') ms) = foldl render_message r ms"
  by (induction ms arbitrary: r) (auto simp: render_message_def)

lemma reference_view_ignores_system:
  "build_reference_messages (filter (\<lambda>m. msg_role m \<noteq> lit ''system'') ms) =
   build_reference_messages ms"
  by (simp add: build_reference_messages_def render_messages_skip_system)

section \<open>Prompts\<close>

lemma guidance_nonblank: "trim (build_guidance s a rs) \<noteq> []"
proof -
  have "\<not> is_whitespace 91" "91 \<in> set (build_guidance s a rs)"
    by (simp_all add: is_whitespace_def build_guidance_def guidance_header_def lit_def)
  then show ?thesis
    unfolding trim_eq_Nil_iff by blast
qed

lemma reference_blocks_append:
  "reference_blocks i (xs @ ys) = reference_blocks i xs @ reference_blocks (i + length xs) ys"
  by (induction i xs rule: reference_blocks.induct) auto

lemma length_reference_blocks [simp]: "length (reference_blocks i xs) = length xs"
  by (induction i xs rule: reference_blocks.induct) auto

lemma joined_references_start:
  "xs \<noteq> [] \<Longrightarrow> \<exists>rest. join [nl, nl] (reference_blocks i xs) = 82 # rest"
  by (cases "(i, xs)" rule: reference_blocks.cases) (auto simp: join_Cons lit_def)

lemma joined_references_nonblank: "xs \<noteq> [] \<Longrightarrow> trim (join [nl, nl] (reference_blocks i xs)) \<noteq> []"
  using joined_references_start [of xs i] by (auto simp: trim_eq_Nil_iff is_whitespace_def)

end
