(* ===== verification/Moa_Run.thy ===== *)
theory Moa_Run
  imports Moa_Advisory "HOL-Library.Multiset"
begin

text \<open>
  One Mixture-of-Agents turn, after \<open>moa/src/run.rs\<close>: the reference models are asked concurrently,
  their answers are put back into the order of the configuration, and an aggregator turns them into
  guidance.

  The model calls and the scheduler are outside the crate. They are the fields of \<open>MoaEnv\<close>: the
  answer each call gives (\<open>None\<close> when the time limit of a reference call runs out first), and the
  order in which \<open>buffer_unordered\<close> of the futures library yields its results. Of that function the
  proofs use what its documentation promises, \<open>yields_all\<close>: every future's result is yielded once, in
  some order. The first argument of a reference call is its position in the configuration; it lets
  two calls to the same slot answer differently.
\<close>

type_synonym u32 = "32 word"

text \<open>An \<open>f32\<close> that is stored and passed on but never computed with, as its bit pattern.\<close>

type_synonym f32 = "32 word"

definition REFERENCE_CALL_TIMEOUT_secs :: nat where
  "REFERENCE_CALL_TIMEOUT_secs = 120"

record ReferenceOutput =
  ref_slot :: MoaModelSlot
  ref_text :: ustring

datatype MoaEvent =
    Reference nat nat ustring ustring
  | Aggregating ustring nat

record MoaEnv =
  call_reference :: "nat \<Rightarrow> MoaModelSlot \<Rightarrow> ustring \<Rightarrow> ChatMessage list \<Rightarrow> f32 \<Rightarrow> u32 option \<Rightarrow>
    (ustring, ustring) result option"
  call_aggregator :: "MoaModelSlot \<Rightarrow> ustring \<Rightarrow> f32 \<Rightarrow> u32 option \<Rightarrow> (ustring, ustring) result"
  buffer_unordered :: "nat \<Rightarrow> (nat \<times> ReferenceOutput) list \<Rightarrow> (nat \<times> ReferenceOutput) list"

definition yields_all :: "MoaEnv \<Rightarrow> bool" where
  "yields_all env \<longleftrightarrow> (\<forall>n xs. 0 < n \<longrightarrow> mset (buffer_unordered env n xs) = mset xs)"

text \<open>The text kept for a reference: its answer, or a note about its failure.\<close>

definition reference_text :: "MoaModelSlot \<Rightarrow> (ustring, ustring) result option \<Rightarrow> ustring" where
  "reference_text slot answer =
     (case answer of
        Some (Inr t) \<Rightarrow>
          if trim t \<noteq> [] then t
          else lit ''[failed: '' @ slot_label slot @ lit '': (empty response)]''
      | Some (Inl err) \<Rightarrow> lit ''[failed: '' @ slot_label slot @ lit '': '' @ err @ lit '']''
      | None \<Rightarrow>
          lit ''[failed: '' @ slot_label slot @ lit '': timed out after '' @
            show_nat REFERENCE_CALL_TIMEOUT_secs @ lit ''s]'')"

text \<open>The future of one reference call.\<close>

definition reference_job ::
  "MoaEnv \<Rightarrow> ChatMessage list \<Rightarrow> f32 \<Rightarrow> u32 option \<Rightarrow> nat \<times> MoaModelSlot \<Rightarrow> nat \<times> ReferenceOutput" where
  "reference_job env messages temperature tokens job =
     (case job of (index, slot) \<Rightarrow>
        (index,
         \<lparr>ref_slot = slot,
          ref_text = reference_text slot
            (call_reference env index slot REFERENCE_SYSTEM_PROMPT messages temperature tokens)\<rparr>))"

fun reference_events :: "nat \<Rightarrow> nat \<Rightarrow> ReferenceOutput list \<Rightarrow> MoaEvent list" where
  "reference_events idx n [] = []"
| "reference_events idx n (out # rest) =
     Reference (idx + 1) n (slot_label (ref_slot out)) (ref_text out)
       # reference_events (idx + 1) n rest"

definition unwrap_or_empty :: "('e, ustring) result \<Rightarrow> ustring" where
  "unwrap_or_empty r = (case r of Inl _ \<Rightarrow> [] | Inr s \<Rightarrow> s)"

definition or_else :: "'a option \<Rightarrow> 'a option \<Rightarrow> 'a option" where
  "or_else a b = (case a of None \<Rightarrow> b | Some _ \<Rightarrow> a)"

text \<open>The result is the guidance, the references, and the events reported on the way.\<close>

definition run_moa_turn ::
  "MoaEnv \<Rightarrow> ustring \<Rightarrow> ChatMessage list \<Rightarrow> MoaModelSlot list \<Rightarrow> MoaModelSlot \<Rightarrow> f32 \<Rightarrow> f32 \<Rightarrow>
   u32 option \<Rightarrow> u32 option \<Rightarrow> (ustring \<times> ReferenceOutput list) \<times> MoaEvent list" where
  "run_moa_turn env user_prompt api_messages reference_models aggregator reference_temperature
     aggregator_temperature max_tokens reference_max_tokens =
     (let ref_messages = build_reference_messages api_messages;
          jobs = map (reference_job env ref_messages reference_temperature
                        (or_else reference_max_tokens max_tokens))
                   (enumerate 0 reference_models);
          indexed = sort_key fst (buffer_unordered env MAX_REFERENCE_WORKERS jobs);
          references = map snd indexed;
          events = reference_events 0 (length references) references @
            [Aggregating (slot_label aggregator) (length references)];
          pairs = map (\<lambda>out. (ref_slot out, ref_text out)) references;
          synth_prompt = build_synthesis_prompt user_prompt pairs aggregator;
          answer = unwrap_or_empty
            (call_aggregator env aggregator synth_prompt aggregator_temperature max_tokens);
          synthesis = (if trim answer = [] then join [nl, nl] (reference_blocks 0 pairs) else answer);
          guidance = build_guidance synthesis aggregator reference_models
      in ((guidance, references), events))"

section \<open>Order of completion\<close>

text \<open>What the references are when the calls are made one after the other.\<close>

definition sequential_references ::
  "MoaEnv \<Rightarrow> ChatMessage list \<Rightarrow> MoaModelSlot list \<Rightarrow> f32 \<Rightarrow> u32 option \<Rightarrow> ReferenceOutput list" where
  "sequential_references env messages slots temperature tokens =
     map (\<lambda>(i, slot). \<lparr>ref_slot = slot, ref_text = reference_text slot
       (call_reference env i slot REFERENCE_SYSTEM_PROMPT messages temperature tokens)\<rparr>)
       (enumerate 0 slots)"

lemma sort_indexed:
  assumes "mset ys = mset xs" "sorted (map fst xs)" "distinct (map fst xs)"
  shows "sort_key fst ys = (xs :: (nat \<times> 'a) list)"
proof -
  have s: "set ys = set xs"
    using assms(1) by (rule mset_eq_setD)
  have "mset (map fst ys) = mset (map fst xs)"
    using assms(1) by simp
  then have "distinct (map fst ys)"
    using assms(3) by (metis mset_eq_imp_distinct_iff)
  then have d: "distinct (map fst (sort_key fst ys))"
    by (metis mset_eq_imp_distinct_iff mset_map mset_sort)
  have "inj_on fst (set xs)"
    using assms(3) by (simp add: distinct_map)
  then show ?thesis
    using assms s d by (intro map_sorted_distinct_set_unique [of fst]) auto
qed

lemma jobs_in_order:
  assumes "yields_all env" "0 < n"
  shows "sort_key fst (buffer_unordered env n (map (reference_job env' ms t k) (enumerate 0 slots)))
    = map (reference_job env' ms t k) (enumerate 0 slots)"
proof (rule sort_indexed)
  have f: "map fst (map (reference_job env' ms t k) (enumerate 0 slots)) = [0..<length slots]"
    by (auto simp: reference_job_def comp_def case_prod_unfold map_fst_enumerate [unfolded fun_eq_iff])
  show "sorted (map fst (map (reference_job env' ms t k) (enumerate 0 slots)))"
    "distinct (map fst (map (reference_job env' ms t k) (enumerate 0 slots)))"
    unfolding f by simp_all
qed (use assms in \<open>simp add: yields_all_def\<close>)

lemma workers_pos: "0 < MAX_REFERENCE_WORKERS"
  by (simp add: MAX_REFERENCE_WORKERS_def)

lemma references_sequential:
  assumes "yields_all env"
  shows "snd (fst (run_moa_turn env p ms slots agg rt at mt rmt)) =
    sequential_references env (build_reference_messages ms) slots rt (or_else rmt mt)"
  unfolding run_moa_turn_def Let_def jobs_in_order [OF assms workers_pos]
  by (simp add: sequential_references_def reference_job_def case_prod_unfold)

text \<open>C26: In whatever order the concurrent reference calls complete, the turn gives the same guidance,
  the same references and the same events as when the calls complete one after the other.\<close>

theorem moa_turn_any_completion_order:
  assumes "yields_all env"
  shows "run_moa_turn env user_prompt api_messages reference_models aggregator reference_temperature
      aggregator_temperature max_tokens reference_max_tokens =
    run_moa_turn (env\<lparr>buffer_unordered := (\<lambda>n xs. xs)\<rparr>) user_prompt api_messages reference_models
      aggregator reference_temperature aggregator_temperature max_tokens reference_max_tokens"
proof -
  let ?env = "env\<lparr>buffer_unordered := (\<lambda>n xs. xs)\<rparr>"
  have "reference_job ?env = reference_job env"
    by (simp add: reference_job_def fun_eq_iff)
  moreover have "yields_all ?env"
    by (simp add: yields_all_def)
  ultimately show ?thesis
    unfolding run_moa_turn_def Let_def
    by (simp only: jobs_in_order [OF assms workers_pos] jobs_in_order [OF \<open>yields_all ?env\<close> workers_pos])
      simp
qed

section \<open>Failures as notes\<close>

lemma reference_text_nonblank: "trim (reference_text slot answer) \<noteq> []"
proof -
  have "\<not> is_whitespace 91"
    by (simp add: is_whitespace_def)
  then show ?thesis
    by (auto simp: reference_text_def trim_eq_Nil_iff lit_def split: option.splits sum.splits)
qed

text \<open>A turn never loses a reference: for every configured slot, in order, there is one output
  with a text that is not blank, which is the slot's own answer or a note that starts with
  \<open>[failed: \<close> and the slot's label.\<close>

theorem moa_references_complete:
  assumes "yields_all env"
  shows "map ref_slot (snd (fst (run_moa_turn env p ms slots agg rt at mt rmt))) = slots \<and>
    list_all (\<lambda>(i, out).
        trim (ref_text out) \<noteq> [] \<and>
        (call_reference env i (ref_slot out) REFERENCE_SYSTEM_PROMPT (build_reference_messages ms) rt
             (or_else rmt mt) = Some (Inr (ref_text out)) \<or>
         starts_with (ref_text out) (lit ''[failed: '' @ slot_label (ref_slot out))))
      (enumerate 0 (snd (fst (run_moa_turn env p ms slots agg rt at mt rmt))))"
proof -
  let ?refs = "sequential_references env (build_reference_messages ms) slots rt (or_else rmt mt)"
  have len: "length ?refs = length slots"
    by (simp add: sequential_references_def)
  have nth: "?refs ! i = \<lparr>ref_slot = slots ! i, ref_text = reference_text (slots ! i)
      (call_reference env i (slots ! i) REFERENCE_SYSTEM_PROMPT (build_reference_messages ms) rt
        (or_else rmt mt))\<rparr>" if "i < length slots" for i
    using that by (simp add: sequential_references_def nth_enumerate_eq)
  have "map ref_slot ?refs = slots"
    by (rule nth_equalityI) (simp_all add: len nth)
  moreover have "reference_text slot answer = t \<Longrightarrow> answer = Some (Inr t) \<or>
      starts_with t (lit ''[failed: '' @ slot_label slot)" for slot answer t
    by (auto simp: reference_text_def starts_with_def split: option.splits sum.splits if_splits)
  ultimately show ?thesis
    unfolding references_sequential [OF assms] list_all_length
    by (auto simp: len nth nth_enumerate_eq reference_text_nonblank)
qed

section \<open>Guidance\<close>

text \<open>With at least one reference model the guidance is the header followed by a body that is not
  blank: the aggregator's answer, or, where the aggregator failed or answered with blanks, the
  references one after the other under their labels.\<close>

theorem moa_guidance_body:
  assumes "yields_all env" "slots \<noteq> []"
  shows "\<exists>content. trim content \<noteq> [] \<and>
    fst (fst (run_moa_turn env p ms slots agg rt at mt rmt)) = guidance_header agg slots @ trim content \<and>
    (let pairs = map (\<lambda>out. (ref_slot out, ref_text out))
           (snd (fst (run_moa_turn env p ms slots agg rt at mt rmt)))
     in call_aggregator env agg (build_synthesis_prompt p pairs agg) at mt = Inr content \<or>
        content = join [nl, nl] (reference_blocks 0 pairs))"
proof -
  define refs where "refs = snd (fst (run_moa_turn env p ms slots agg rt at mt rmt))"
  define pairs where "pairs = map (\<lambda>out. (ref_slot out, ref_text out)) refs"
  define answer where
    "answer = unwrap_or_empty (call_aggregator env agg (build_synthesis_prompt p pairs agg) at mt)"
  define content where
    "content = (if trim answer = [] then join [nl, nl] (reference_blocks 0 pairs) else answer)"
  have "pairs \<noteq> []"
    using assms(2) unfolding pairs_def refs_def references_sequential [OF assms(1)]
    by (cases slots) (simp_all add: sequential_references_def)
  then have nb: "trim content \<noteq> []"
    by (simp add: content_def joined_references_nonblank)
  moreover have "fst (fst (run_moa_turn env p ms slots agg rt at mt rmt)) =
      build_guidance content agg slots"
    by (simp add: run_moa_turn_def Let_def content_def answer_def pairs_def refs_def)
  moreover have "call_aggregator env agg (build_synthesis_prompt p pairs agg) at mt = Inr content \<or>
      content = join [nl, nl] (reference_blocks 0 pairs)"
    by (cases "call_aggregator env agg (build_synthesis_prompt p pairs agg) at mt")
      (auto simp: content_def answer_def unwrap_or_empty_def)
  ultimately show ?thesis
    unfolding refs_def [symmetric] pairs_def [symmetric] Let_def
    by (auto simp: build_guidance_def)
qed

section \<open>A concrete turn\<close>

definition sample_slot :: "string \<Rightarrow> MoaModelSlot" where
  "sample_slot m = \<lparr>slot_provider = lit ''p'', slot_model = lit m\<rparr>"

text \<open>Three references that complete in reverse order: one answers, one fails, one runs out of time;
  the aggregator fails.\<close>

definition sample_env :: MoaEnv where
  "sample_env =
     \<lparr>call_reference = (\<lambda>i slot sys msgs t k.
        if i = 0 then Some (Inr (lit ''do it'')) else if i = 1 then Some (Inl (lit ''down'')) else None),
      call_aggregator = (\<lambda>slot prompt t k. Inl (lit ''down'')),
      buffer_unordered = (\<lambda>n xs. rev xs)\<rparr>"

lemma sample_env_yields: "yields_all sample_env"
  by (simp add: yields_all_def sample_env_def)

lemma moa_turn_any_completion_order_witness:
  "yields_all sample_env \<and>
   run_moa_turn sample_env (lit ''q'') [] [sample_slot ''a'', sample_slot ''b''] (sample_slot ''z'')
     0 0 None None =
   run_moa_turn (sample_env\<lparr>buffer_unordered := (\<lambda>n xs. xs)\<rparr>) (lit ''q'') []
     [sample_slot ''a'', sample_slot ''b''] (sample_slot ''z'') 0 0 None None"
  using sample_env_yields moa_turn_any_completion_order [OF sample_env_yields] by blast

lemma moa_references_complete_witness:
  "map ref_slot (snd (fst (run_moa_turn sample_env (lit ''q'') [] [sample_slot ''a'', sample_slot ''b'']
     (sample_slot ''z'') 0 0 None None))) = [sample_slot ''a'', sample_slot ''b'']"
  using moa_references_complete [OF sample_env_yields] by blast

lemma moa_guidance_body_witness:
  "\<exists>content. trim content \<noteq> [] \<and>
     fst (fst (run_moa_turn sample_env (lit ''q'') [] [sample_slot ''a''] (sample_slot ''z'')
       0 0 None None)) = guidance_header (sample_slot ''z'') [sample_slot ''a''] @ trim content"
  using moa_guidance_body [OF sample_env_yields, of "[sample_slot ''a'']" "lit ''q''" "[]"
      "sample_slot ''z''" 0 0 None None]
  by blast

end
