(* ===== verification/Moa_Config.thy ===== *)
theory Moa_Config
  imports Moa_Run
begin

text \<open>
  The configuration of the Mixture of Agents: the presets of \<open>moa/src/lib.rs\<close>, the \<open>[moa]\<close> section
  as \<open>config/src/config_toml.rs\<close> reads it, and its conversion in \<open>core/src/config/mod.rs\<close>.

  A \<open>HashMap\<close> of presets is the list of its entries in the order the map iterates over them; that
  order is arbitrary, and every statement holds for every order.
\<close>

section \<open>Presets\<close>

definition DEFAULT_MOA_PRESET_NAME :: ustring where
  "DEFAULT_MOA_PRESET_NAME = lit ''default''"

definition MOA_PROVIDER_ID :: ustring where
  "MOA_PROVIDER_ID = lit ''moa''"

record MoaPreset =
  pre_reference_models :: "MoaModelSlot list"
  pre_aggregator :: MoaModelSlot
  pre_reference_temperature :: f32
  pre_aggregator_temperature :: f32
  pre_max_tokens :: u32
  pre_reference_max_tokens :: "u32 option"
  pre_enabled :: bool

definition default_reference_models :: "MoaModelSlot list" where
  "default_reference_models =
     [\<lparr>slot_provider = lit ''openai'', slot_model = lit ''gpt-5.4''\<rparr>,
      \<lparr>slot_provider = lit ''gemini'', slot_model = lit ''gemini-3.7-flash''\<rparr>]"

definition default_aggregator :: MoaModelSlot where
  "default_aggregator = \<lparr>slot_provider = lit ''openai'', slot_model = lit ''gpt-5.1-codex''\<rparr>"

text \<open>The bit patterns of 0.6 and 0.4 in single precision.\<close>

definition default_ref_temp :: f32 where
  "default_ref_temp = 1058642330"

definition default_agg_temp :: f32 where
  "default_agg_temp = 1053609165"

definition default_max_tokens :: u32 where
  "default_max_tokens = 4096"

definition default_preset :: MoaPreset where
  "default_preset =
     \<lparr>pre_reference_models = default_reference_models, pre_aggregator = default_aggregator,
      pre_reference_temperature = default_ref_temp, pre_aggregator_temperature = default_agg_temp,
      pre_max_tokens = default_max_tokens, pre_reference_max_tokens = None, pre_enabled = True\<rparr>"

record MoaConfig =
  cfg_default_preset :: "ustring option"
  cfg_active_preset :: "ustring option"
  cfg_presets :: "(ustring \<times> MoaPreset) list"

definition default_config :: MoaConfig where
  "default_config = \<lparr>cfg_default_preset = None, cfg_active_preset = None, cfg_presets = []\<rparr>"

record NormalizedMoaConfig =
  norm_default_preset :: ustring
  norm_active_preset :: ustring
  norm_presets :: "(ustring \<times> MoaPreset) list"
  norm_reference_models :: "MoaModelSlot list"
  norm_aggregator :: MoaModelSlot
  norm_reference_temperature :: f32
  norm_aggregator_temperature :: f32
  norm_max_tokens :: u32
  norm_reference_max_tokens :: "u32 option"
  norm_enabled :: bool

definition unwrap_or :: "'a \<Rightarrow> 'a option \<Rightarrow> 'a" where
  "unwrap_or d x = (case x of None \<Rightarrow> d | Some y \<Rightarrow> y)"

definition normalized :: "MoaConfig \<Rightarrow> NormalizedMoaConfig" where
  "normalized cfg =
     (let presets = (if cfg_presets cfg = [] then [(DEFAULT_MOA_PRESET_NAME, default_preset)]
            else cfg_presets cfg);
          wanted = unwrap_or DEFAULT_MOA_PRESET_NAME (cfg_default_preset cfg);
          default_name = (if map_of presets wanted \<noteq> None then wanted
            else (case presets of [] \<Rightarrow> DEFAULT_MOA_PRESET_NAME | (k, _) # _ \<Rightarrow> k));
          active = unwrap_or default_preset (map_of presets default_name)
      in \<lparr>norm_default_preset = default_name,
          norm_active_preset = unwrap_or [] (cfg_active_preset cfg),
          norm_presets = presets,
          norm_reference_models = pre_reference_models active,
          norm_aggregator = pre_aggregator active,
          norm_reference_temperature = pre_reference_temperature active,
          norm_aggregator_temperature = pre_aggregator_temperature active,
          norm_max_tokens = pre_max_tokens active,
          norm_reference_max_tokens = pre_reference_max_tokens active,
          norm_enabled = pre_enabled active\<rparr>)"

definition resolve_preset :: "MoaConfig \<Rightarrow> ustring option \<Rightarrow> MoaPreset option" where
  "resolve_preset cfg name =
     (let n = normalized cfg;
          key = unwrap_or (norm_default_preset n) name
      in map_of (norm_presets n) key)"

section \<open>The configuration file\<close>

record MoaSlotToml =
  toml_provider :: ustring
  toml_model :: ustring

record MoaPresetToml =
  toml_reference_models :: "MoaSlotToml list"
  toml_aggregator :: "MoaSlotToml option"
  toml_reference_temperature :: "f32 option"
  toml_aggregator_temperature :: "f32 option"
  toml_max_tokens :: "u32 option"
  toml_reference_max_tokens :: "u32 option"
  toml_enabled :: "bool option"

record MoaToml =
  toml_default_preset :: "ustring option"
  toml_active_preset :: "ustring option"
  toml_presets :: "(ustring \<times> MoaPresetToml) list"

definition clean_slot :: "MoaSlotToml \<Rightarrow> MoaModelSlot option" where
  "clean_slot slot =
     (let p = trim (toml_provider slot);
          m = trim (toml_model slot)
      in if p = [] \<or> m = [] \<or> p = MOA_PROVIDER_ID then None
         else Some \<lparr>slot_provider = p, slot_model = m\<rparr>)"

definition clean_preset :: "MoaPresetToml \<Rightarrow> MoaPreset" where
  "clean_preset preset =
     \<lparr>pre_reference_models = List.map_filter clean_slot (toml_reference_models preset),
      pre_aggregator = unwrap_or (pre_aggregator default_preset)
        (Option.bind (toml_aggregator preset) clean_slot),
      pre_reference_temperature = unwrap_or default_ref_temp (toml_reference_temperature preset),
      pre_aggregator_temperature = unwrap_or default_agg_temp (toml_aggregator_temperature preset),
      pre_max_tokens = unwrap_or 4096 (toml_max_tokens preset),
      pre_reference_max_tokens = toml_reference_max_tokens preset,
      pre_enabled = unwrap_or True (toml_enabled preset)\<rparr>"

definition moa_config_from_toml :: "MoaToml option \<Rightarrow> MoaConfig" where
  "moa_config_from_toml toml =
     (case toml of
        None \<Rightarrow> default_config
      | Some moa \<Rightarrow>
          \<lparr>cfg_default_preset = toml_default_preset moa,
           cfg_active_preset = toml_active_preset moa,
           cfg_presets = map (\<lambda>(name, preset). (name, clean_preset preset)) (toml_presets moa)\<rparr>)"

section \<open>What resolving a preset gives\<close>

text \<open>The preset that a normalized configuration calls its default exists, and its fields are the
  flattened ones.\<close>

lemma normalized_presets_ne: "norm_presets (normalized cfg) \<noteq> []"
  by (simp add: normalized_def Let_def)

lemma normalized_default_exists:
  "\<exists>p. map_of (norm_presets (normalized cfg)) (norm_default_preset (normalized cfg)) = Some p \<and>
     norm_reference_models (normalized cfg) = pre_reference_models p \<and>
     norm_aggregator (normalized cfg) = pre_aggregator p \<and>
     norm_enabled (normalized cfg) = pre_enabled p"
  by (auto simp: normalized_def Let_def unwrap_or_def split: list.splits option.splits)

lemma resolve_default_total: "\<exists>p. resolve_preset cfg None = Some p"
  using normalized_default_exists [of cfg] by (auto simp: resolve_preset_def Let_def unwrap_or_def)

lemma resolve_preset_cases:
  assumes "resolve_preset cfg name = Some p"
  shows "p = default_preset \<or> p \<in> snd ` set (cfg_presets cfg)"
proof -
  have "p \<in> snd ` set (norm_presets (normalized cfg))"
    using assms by (force simp: resolve_preset_def Let_def dest: map_of_SomeD)
  then show ?thesis
    by (auto simp: normalized_def Let_def split: if_splits)
qed

text \<open>A slot that can be called: trimmed, not empty, and not the Mixture of Agents itself.\<close>

definition callable_slot :: "MoaModelSlot \<Rightarrow> bool" where
  "callable_slot s \<longleftrightarrow>
     slot_provider s \<noteq> [] \<and> trim (slot_provider s) = slot_provider s \<and>
     slot_model s \<noteq> [] \<and> trim (slot_model s) = slot_model s \<and>
     slot_provider s \<noteq> MOA_PROVIDER_ID"

definition callable_preset :: "MoaPreset \<Rightarrow> bool" where
  "callable_preset p \<longleftrightarrow> callable_slot (pre_aggregator p) \<and> list_all callable_slot (pre_reference_models p)"

lemma callable_default: "callable_preset default_preset"
  by (simp add: callable_preset_def callable_slot_def default_preset_def default_reference_models_def
      default_aggregator_def MOA_PROVIDER_ID_def trim_id is_whitespace_def lit_def)

lemma clean_slot_callable: "clean_slot s = Some t \<Longrightarrow> callable_slot t"
  by (auto simp: clean_slot_def callable_slot_def Let_def split: if_splits)

lemma clean_preset_callable: "callable_preset (clean_preset p)"
proof -
  have "list_all callable_slot (List.map_filter clean_slot xs)" for xs
    by (auto simp: list_all_iff List.map_filter_def dest: clean_slot_callable)
  moreover have "callable_slot (unwrap_or (pre_aggregator default_preset)
      (Option.bind (toml_aggregator p) clean_slot))"
    using callable_default
    by (cases "Option.bind (toml_aggregator p) clean_slot")
      (auto simp: unwrap_or_def callable_preset_def bind_eq_Some_conv dest: clean_slot_callable)
  ultimately show ?thesis
    by (simp add: callable_preset_def clean_preset_def)
qed

lemma configured_preset_callable:
  assumes "resolve_preset (moa_config_from_toml toml) name = Some p"
  shows "callable_preset p"
  using resolve_preset_cases [OF assms]
  by (auto simp: moa_config_from_toml_def default_config_def callable_default clean_preset_callable
      split: option.splits)

end
