(* ===== verification/Response_Items.thy ===== *)
theory Response_Items
  imports Rust_Prelude
begin

text \<open>
  The items of a conversation: \<open>ResponseItem\<close> and its parts from \<open>protocol/src/models.rs\<close>, the
  history envelope of \<open>history/src/lib.rs\<close> and the annotated message content of
  \<open>context-fragments/src/annotated_content.rs\<close>.

  Payloads that the modelled code stores and passes on without looking into them (JSON values,
  shell actions, reasoning summaries) are kept as their serialized text, type \<open>opaque\<close>.

  The item accessors come in getter/setter pairs over the variants that carry the field. The
  contract they share is the locale \<open>item_field\<close>; the interpretations at the end discharge it for the
  item id and for the message metadata.
\<close>

section \<open>Data\<close>

type_synonym opaque = ustring
type_synonym item_id = ustring
type_synonym content_kind = ustring

datatype ImageDetail = Auto | Low | High | Original

datatype MessagePhase = Commentary | FinalAnswer

datatype ContentItem =
    InputText ustring
  | InputImage ustring "ImageDetail option"
  | InputAudio ustring
  | OutputText ustring

datatype AgentMessageInputContent =
    AgentInputText ustring
  | AgentEncryptedContent ustring

datatype FunctionCallOutputContentItem =
    OutInputText ustring
  | OutInputImage ustring "ImageDetail option"
  | OutInputAudio ustring
  | OutEncryptedContent ustring

datatype FunctionCallOutputBody =
    BodyText ustring
  | ContentItems "FunctionCallOutputContentItem list"

record FunctionCallOutputPayload =
  out_body :: FunctionCallOutputBody
  out_success :: "bool option"

record MetadataPassthrough =
  meta_turn_id :: "ustring option"
  create_time :: "opaque option"
  content_item_kinds :: "content_kind list option"
  cell_id :: "ustring option"
  executed_tool_calls :: "opaque list option"
  tool_calls_complete :: "bool option"

text \<open>The fields of each variant stand in the order of the source.\<close>

datatype ResponseItem =
    AdditionalTools "item_id option" ustring "opaque list"
  | Message "item_id option" ustring "ContentItem list" "MessagePhase option"
      "MetadataPassthrough option"
  | AgentMessage "item_id option" ustring ustring "AgentMessageInputContent list"
      "MetadataPassthrough option"
  | Reasoning "item_id option" "opaque list" "opaque list option" "ustring option"
      "MetadataPassthrough option"
  | LocalShellCall "item_id option" "ustring option" opaque opaque "MetadataPassthrough option"
  | FunctionCall "item_id option" ustring "ustring option" ustring "ustring list option" ustring
      "MetadataPassthrough option"
  | ToolSearchCall "item_id option" "ustring option" "ustring option" ustring opaque
      "MetadataPassthrough option"
  | FunctionCallOutput "item_id option" "ustring option" "ustring option" "ustring option"
      FunctionCallOutputPayload "MetadataPassthrough option"
  | CustomToolCall "item_id option" "ustring option" ustring ustring "ustring option" ustring
      "MetadataPassthrough option"
  | CustomToolCallOutput "item_id option" ustring "ustring option" FunctionCallOutputPayload
      "MetadataPassthrough option"
  | ToolSearchOutput "item_id option" "ustring option" ustring ustring "opaque list"
      "MetadataPassthrough option"
  | WebSearchCall "item_id option" "ustring option" "opaque option" "MetadataPassthrough option"
  | ImageGenerationCall "item_id option" ustring "ustring option" ustring
      "MetadataPassthrough option"
  | Compaction "item_id option" ustring "MetadataPassthrough option"
  | CompactionTrigger
  | ContextCompaction "item_id option" "ustring option" "MetadataPassthrough option"
  | Other

section \<open>Operations on items\<close>

fun is_user_message :: "ResponseItem \<Rightarrow> bool" where
  "is_user_message (Message _ role _ _ _) = (role = lit ''user'')"
| "is_user_message _ = False"

fun get_id :: "ResponseItem \<Rightarrow> item_id option" where
  "get_id (AdditionalTools i _ _) = i"
| "get_id (Message i _ _ _ _) = i"
| "get_id (AgentMessage i _ _ _ _) = i"
| "get_id (LocalShellCall i _ _ _ _) = i"
| "get_id (FunctionCall i _ _ _ _ _ _) = i"
| "get_id (ToolSearchCall i _ _ _ _ _) = i"
| "get_id (FunctionCallOutput i _ _ _ _ _) = i"
| "get_id (CustomToolCall i _ _ _ _ _ _) = i"
| "get_id (CustomToolCallOutput i _ _ _ _) = i"
| "get_id (ToolSearchOutput i _ _ _ _ _) = i"
| "get_id (WebSearchCall i _ _ _) = i"
| "get_id (Reasoning i _ _ _ _) = i"
| "get_id (ImageGenerationCall i _ _ _ _) = i"
| "get_id (Compaction i _ _) = i"
| "get_id (ContextCompaction i _ _) = i"
| "get_id CompactionTrigger = None"
| "get_id Other = None"

fun set_id :: "ResponseItem \<Rightarrow> item_id option \<Rightarrow> ResponseItem" where
  "set_id (AdditionalTools _ a b) i = AdditionalTools i a b"
| "set_id (Message _ a b c d) i = Message i a b c d"
| "set_id (AgentMessage _ a b c d) i = AgentMessage i a b c d"
| "set_id (LocalShellCall _ a b c d) i = LocalShellCall i a b c d"
| "set_id (FunctionCall _ a b c d e f) i = FunctionCall i a b c d e f"
| "set_id (ToolSearchCall _ a b c d e) i = ToolSearchCall i a b c d e"
| "set_id (FunctionCallOutput _ a b c d e) i = FunctionCallOutput i a b c d e"
| "set_id (CustomToolCall _ a b c d e f) i = CustomToolCall i a b c d e f"
| "set_id (CustomToolCallOutput _ a b c d) i = CustomToolCallOutput i a b c d"
| "set_id (ToolSearchOutput _ a b c d e) i = ToolSearchOutput i a b c d e"
| "set_id (WebSearchCall _ a b c) i = WebSearchCall i a b c"
| "set_id (Reasoning _ a b c d) i = Reasoning i a b c d"
| "set_id (ImageGenerationCall _ a b c d) i = ImageGenerationCall i a b c d"
| "set_id (Compaction _ a b) i = Compaction i a b"
| "set_id (ContextCompaction _ a b) i = ContextCompaction i a b"
| "set_id CompactionTrigger i = CompactionTrigger"
| "set_id Other i = Other"

fun id_prefix :: "ResponseItem \<Rightarrow> ustring option" where
  "id_prefix (AdditionalTools _ _ _) = Some (lit ''at'')"
| "id_prefix (Message _ _ _ _ _) = Some (lit ''msg'')"
| "id_prefix (AgentMessage _ _ _ _ _) = Some (lit ''amsg'')"
| "id_prefix (Reasoning _ _ _ _ _) = Some (lit ''rs'')"
| "id_prefix (LocalShellCall _ _ _ _ _) = Some (lit ''lsh'')"
| "id_prefix (FunctionCall _ _ _ _ _ _ _) = Some (lit ''fc'')"
| "id_prefix (ToolSearchCall _ _ _ _ _ _) = Some (lit ''tsc'')"
| "id_prefix (FunctionCallOutput _ _ _ _ _ _) = Some (lit ''fco'')"
| "id_prefix (CustomToolCall _ _ _ _ _ _ _) = Some (lit ''ctc'')"
| "id_prefix (CustomToolCallOutput _ _ _ _ _) = Some (lit ''ctco'')"
| "id_prefix (ToolSearchOutput _ _ _ _ _ _) = Some (lit ''tso'')"
| "id_prefix (WebSearchCall _ _ _ _) = Some (lit ''ws'')"
| "id_prefix (ImageGenerationCall _ _ _ _ _) = Some (lit ''ig'')"
| "id_prefix (Compaction _ _ _) = Some (lit ''cmp'')"
| "id_prefix (ContextCompaction _ _ _) = Some (lit ''cmp'')"
| "id_prefix CompactionTrigger = None"
| "id_prefix Other = None"

text \<open>\<open>internal_chat_message_metadata_passthrough_mut\<close> hands out the place of the metadata, if the
  variant has one: \<open>metadata_place\<close> reads that place and \<open>set_metadata\<close> writes it.\<close>

fun metadata_place :: "ResponseItem \<Rightarrow> MetadataPassthrough option option" where
  "metadata_place (Message _ _ _ _ m) = Some m"
| "metadata_place (AgentMessage _ _ _ _ m) = Some m"
| "metadata_place (Reasoning _ _ _ _ m) = Some m"
| "metadata_place (LocalShellCall _ _ _ _ m) = Some m"
| "metadata_place (FunctionCall _ _ _ _ _ _ m) = Some m"
| "metadata_place (ToolSearchCall _ _ _ _ _ m) = Some m"
| "metadata_place (FunctionCallOutput _ _ _ _ _ m) = Some m"
| "metadata_place (CustomToolCall _ _ _ _ _ _ m) = Some m"
| "metadata_place (CustomToolCallOutput _ _ _ _ m) = Some m"
| "metadata_place (ToolSearchOutput _ _ _ _ _ m) = Some m"
| "metadata_place (WebSearchCall _ _ _ m) = Some m"
| "metadata_place (ImageGenerationCall _ _ _ _ m) = Some m"
| "metadata_place (Compaction _ _ m) = Some m"
| "metadata_place (ContextCompaction _ _ m) = Some m"
| "metadata_place CompactionTrigger = None"
| "metadata_place (AdditionalTools _ _ _) = None"
| "metadata_place Other = None"

fun set_metadata :: "ResponseItem \<Rightarrow> MetadataPassthrough option \<Rightarrow> ResponseItem" where
  "set_metadata (Message a b c d _) m = Message a b c d m"
| "set_metadata (AgentMessage a b c d _) m = AgentMessage a b c d m"
| "set_metadata (Reasoning a b c d _) m = Reasoning a b c d m"
| "set_metadata (LocalShellCall a b c d _) m = LocalShellCall a b c d m"
| "set_metadata (FunctionCall a b c d e f _) m = FunctionCall a b c d e f m"
| "set_metadata (ToolSearchCall a b c d e _) m = ToolSearchCall a b c d e m"
| "set_metadata (FunctionCallOutput a b c d e _) m = FunctionCallOutput a b c d e m"
| "set_metadata (CustomToolCall a b c d e f _) m = CustomToolCall a b c d e f m"
| "set_metadata (CustomToolCallOutput a b c d _) m = CustomToolCallOutput a b c d m"
| "set_metadata (ToolSearchOutput a b c d e _) m = ToolSearchOutput a b c d e m"
| "set_metadata (WebSearchCall a b c _) m = WebSearchCall a b c m"
| "set_metadata (ImageGenerationCall a b c d _) m = ImageGenerationCall a b c d m"
| "set_metadata (Compaction a b _) m = Compaction a b m"
| "set_metadata (ContextCompaction a b _) m = ContextCompaction a b m"
| "set_metadata CompactionTrigger m = CompactionTrigger"
| "set_metadata (AdditionalTools a b c) m = AdditionalTools a b c"
| "set_metadata Other m = Other"

definition internal_metadata :: "ResponseItem \<Rightarrow> MetadataPassthrough option" where
  "internal_metadata it = Option.bind (metadata_place it) (\<lambda>m. m)"

definition default_metadata :: MetadataPassthrough where
  "default_metadata =
     \<lparr>meta_turn_id = None, create_time = None, content_item_kinds = None, cell_id = None,
      executed_tool_calls = None, tool_calls_complete = None\<rparr>"

definition get_or_insert_default :: "MetadataPassthrough option \<Rightarrow> MetadataPassthrough" where
  "get_or_insert_default m = (case m of None \<Rightarrow> default_metadata | Some x \<Rightarrow> x)"

definition turn_id :: "ResponseItem \<Rightarrow> ustring option" where
  "turn_id it =
     (case Option.bind (internal_metadata it) meta_turn_id of
        None \<Rightarrow> None
      | Some t \<Rightarrow> if t = [] then None else Some t)"

definition metadata_set_turn_id_if_missing ::
  "MetadataPassthrough option \<Rightarrow> ustring \<Rightarrow> MetadataPassthrough option" where
  "metadata_set_turn_id_if_missing m t =
     (if t = [] \<or> is_some_and (Option.bind m meta_turn_id) (\<lambda>x. x \<noteq> []) then m
      else Some ((get_or_insert_default m)\<lparr>meta_turn_id := Some t\<rparr>))"

definition set_turn_id_if_missing :: "ResponseItem \<Rightarrow> ustring \<Rightarrow> ResponseItem" where
  "set_turn_id_if_missing it t =
     (case metadata_place it of
        None \<Rightarrow> it
      | Some m \<Rightarrow> set_metadata it (metadata_set_turn_id_if_missing m t))"

text \<open>The items the harness itself writes.\<close>

fun harness_authored :: "ResponseItem \<Rightarrow> bool" where
  "harness_authored (Message _ role _ _ _) = (role = lit ''user'' \<or> role = lit ''developer'')"
| "harness_authored (AgentMessage _ _ _ _ _) = True"
| "harness_authored (FunctionCallOutput _ _ _ _ _ _) = True"
| "harness_authored (CustomToolCallOutput _ _ _ _ _) = True"
| "harness_authored (ToolSearchOutput _ _ _ _ _ _) = True"
| "harness_authored _ = False"

definition set_create_time_if_missing :: "ResponseItem \<Rightarrow> opaque \<Rightarrow> ResponseItem" where
  "set_create_time_if_missing it t =
     (if harness_authored it then
        (let m = get_or_insert_default (internal_metadata it) in
         set_metadata it (Some (case create_time m of
             None \<Rightarrow> m\<lparr>create_time := Some t\<rparr>
           | Some _ \<Rightarrow> m)))
      else it)"

definition clear_metadata :: "ResponseItem \<Rightarrow> ResponseItem" where
  "clear_metadata it = (case metadata_place it of None \<Rightarrow> it | Some _ \<Rightarrow> set_metadata it None)"

definition clear_content_item_kinds :: "ResponseItem \<Rightarrow> ResponseItem" where
  "clear_content_item_kinds it =
     (case metadata_place it of
        None \<Rightarrow> it
      | Some None \<Rightarrow> it
      | Some (Some m) \<Rightarrow>
          (let m' = m\<lparr>content_item_kinds := None\<rparr> in
           set_metadata it (if m' = default_metadata then None else Some m')))"

section \<open>Tool output payloads\<close>

definition from_text :: "ustring \<Rightarrow> FunctionCallOutputPayload" where
  "from_text t = \<lparr>out_body = BodyText t, out_success = None\<rparr>"

definition from_content_items ::
  "FunctionCallOutputContentItem list \<Rightarrow> FunctionCallOutputPayload" where
  "from_content_items xs = \<lparr>out_body = ContentItems xs, out_success = None\<rparr>"

fun nonblank_text :: "FunctionCallOutputContentItem \<Rightarrow> ustring option" where
  "nonblank_text (OutInputText t) = (if trim t \<noteq> [] then Some t else None)"
| "nonblank_text _ = None"

definition content_items_to_text :: "FunctionCallOutputContentItem list \<Rightarrow> ustring option" where
  "content_items_to_text items =
     (let segs = List.map_filter nonblank_text items
      in if segs = [] then None else Some (join [nl] segs))"

fun body_to_text :: "FunctionCallOutputBody \<Rightarrow> ustring option" where
  "body_to_text (BodyText t) = Some t"
| "body_to_text (ContentItems items) = content_items_to_text items"

section \<open>History envelopes and annotated content\<close>

record HarnessMetadata =
  client_authored :: bool
  fallback_token_limit_override :: "nat option"

record Envelope =
  env_item :: ResponseItem
  env_metadata :: "HarnessMetadata option"

definition envelope_new :: "ResponseItem \<Rightarrow> Envelope" where
  "envelope_new it = \<lparr>env_item = it, env_metadata = None\<rparr>"

text \<open>A message's content paired with its classifications; missing ones are unknown. The code takes
  content and kinds out of the item; every caller puts content back with
  \<open>set_annotated_content\<close> or discards the item, so the model returns the pairs only.\<close>

fun zip_kinds :: "ContentItem list \<Rightarrow> content_kind list \<Rightarrow> (ContentItem \<times> content_kind) list" where
  "zip_kinds [] ks = []"
| "zip_kinds (c # cs) [] = (c, lit ''unknown'') # zip_kinds cs []"
| "zip_kinds (c # cs) (k # ks) = (c, k) # zip_kinds cs ks"

fun to_annotated_content :: "ResponseItem \<Rightarrow> (ContentItem \<times> content_kind) list option" where
  "to_annotated_content (Message _ _ content _ m) =
     Some (zip_kinds content
       (case Option.bind m content_item_kinds of None \<Rightarrow> [] | Some ks \<Rightarrow> ks))"
| "to_annotated_content _ = None"

fun set_annotated_content ::
  "ResponseItem \<Rightarrow> (ContentItem \<times> content_kind) list \<Rightarrow> ResponseItem option" where
  "set_annotated_content (Message i r _ p m) cs =
     Some (Message i r (map fst cs) p
       (Some ((get_or_insert_default m)\<lparr>content_item_kinds := Some (map snd cs)\<rparr>)))"
| "set_annotated_content _ cs = None"

section \<open>Getters and setters\<close>

text \<open>The contract of a field that some variants carry: a setter that writes only that field, and
  does nothing where the variant lacks it.\<close>

locale item_field =
  fixes carries :: "'i \<Rightarrow> bool"
    and get :: "'i \<Rightarrow> 'f option"
    and put :: "'i \<Rightarrow> 'f option \<Rightarrow> 'i"
  assumes get_put: "get (put i v) = (if carries i then v else None)"
    and put_get: "put i (get i) = i"
    and put_put: "put (put i v) w = put i w"
begin

lemma get_without: "\<not> carries i \<Longrightarrow> get i = None"
  using get_put [of i "get i"] by (simp add: put_get)

lemma put_without: "\<not> carries i \<Longrightarrow> put i v = i"
  by (metis get_put get_without put_get put_put)

lemma carries_put: "carries (put i (Some v)) = carries i"
  by (metis get_put get_without option.distinct(1) put_put)

lemma put_inj: "put i v = put j w \<Longrightarrow> get i = get j \<Longrightarrow> i = j"
  by (metis put_get put_put)

lemma put_id_iff: "put i v = i \<longleftrightarrow> \<not> carries i \<or> get i = v"
  by (metis get_put put_get put_without)

end

abbreviation has_metadata_place :: "ResponseItem \<Rightarrow> bool" where
  "has_metadata_place it \<equiv> metadata_place it \<noteq> None"

interpretation item_id_field: item_field "\<lambda>it. id_prefix it \<noteq> None" get_id set_id
proof unfold_locales
  show "get_id (set_id i v) = (if id_prefix i \<noteq> None then v else None)" for i v
    by (cases i) auto
  show "set_id i (get_id i) = i" for i
    by (cases i) auto
  show "set_id (set_id i v) w = set_id i w" for i v w
    by (cases i) auto
qed

interpretation metadata_field: item_field has_metadata_place internal_metadata set_metadata
proof unfold_locales
  show "internal_metadata (set_metadata i v) = (if has_metadata_place i then v else None)" for i v
    by (cases i) (auto simp: internal_metadata_def)
  show "set_metadata i (internal_metadata i) = i" for i
    by (cases i) (auto simp: internal_metadata_def)
  show "set_metadata (set_metadata i v) w = set_metadata i w" for i v w
    by (cases i) auto
qed

lemma metadata_place_eq: "metadata_place it = (if has_metadata_place it then Some (internal_metadata it) else None)"
  by (auto simp: internal_metadata_def)

text \<open>Stamping a turn id: it sticks, and later stamps do not replace it.\<close>

lemma turn_id_stamp:
  "turn_id (set_turn_id_if_missing it t) =
     (if has_metadata_place it \<and> turn_id it = None \<and> t \<noteq> [] then Some t else turn_id it)"
proof (cases "has_metadata_place it")
  case True
  then obtain m where m: "metadata_place it = Some m"
    by auto
  then have im: "internal_metadata it = m"
    by (simp add: internal_metadata_def)
  have g: "internal_metadata (set_metadata it v) = v" for v
    using metadata_field.get_put [of it v] m by simp
  show ?thesis
    by (cases m; cases "Option.bind m meta_turn_id")
      (auto simp: turn_id_def set_turn_id_if_missing_def m im g
        metadata_set_turn_id_if_missing_def get_or_insert_default_def default_metadata_def
        is_some_and_def)
next
  case False
  then show ?thesis
    by (simp add: set_turn_id_if_missing_def)
qed

lemma stamp_idem:
  "set_turn_id_if_missing (set_turn_id_if_missing it t) u =
     (if turn_id it = None \<and> t = [] then set_turn_id_if_missing it u
      else set_turn_id_if_missing it t)"
proof (cases "has_metadata_place it")
  case True
  then obtain m where m: "metadata_place it = Some m"
    by auto
  have p: "metadata_place (set_metadata it v) = Some v" for v
    using m by (cases it) auto
  show ?thesis
    using m by (cases "Option.bind m meta_turn_id")
      (auto simp: turn_id_def set_turn_id_if_missing_def internal_metadata_def p
        metadata_set_turn_id_if_missing_def get_or_insert_default_def default_metadata_def
        is_some_and_def metadata_field.put_put metadata_field.put_get)
next
  case False
  then show ?thesis
    by (simp add: set_turn_id_if_missing_def)
qed

lemma zip_kinds_fst [simp]: "map fst (zip_kinds cs ks) = cs"
  by (induction cs ks rule: zip_kinds.induct) auto

lemma length_zip_kinds [simp]: "length (zip_kinds cs ks) = length cs"
  by (induction cs ks rule: zip_kinds.induct) auto

lemma zip_kinds_unzip [simp]: "zip_kinds (map fst cs) (map snd cs) = cs"
  by (induction cs) auto

text \<open>What was put back is what is read again.\<close>

lemma annotated_roundtrip:
  "set_annotated_content it cs = Some it' \<Longrightarrow> to_annotated_content it' = Some cs"
  by (cases it) (auto simp: get_or_insert_default_def)

end
