(* ===== verification/Moa_Caller.thy ===== *)
theory Moa_Caller
  imports Moa_Config Response_Items
begin

text \<open>
  The Mixture of Agents inside a normal turn, after \<open>core/src/session/moa_caller.rs\<close> and the part of
  \<open>core/src/session/turn.rs\<close> that calls it: the conversion of the history, the calls to the models,
  and the decision whether a turn gets guidance.

  The model service is the field \<open>open_stream\<close> of \<open>Caller\<close>: for a call it gives an error, or the events
  of the response stream, an event that is itself an error included. \<open>elapsed\<close> tells which reference
  calls run into their time limit. How the guidance pass as a whole ends is the argument
  \<open>pass_end\<close>: it completes, the turn is cancelled first, or its own time limit runs out.
\<close>

section \<open>Calls\<close>

datatype ResponseEvent =
    OutputItemDone ResponseItem
  | OtherEvent

record 'info Caller =
  providers :: "ustring \<Rightarrow> 'info option"
  open_stream :: "nat option \<Rightarrow> 'info \<Rightarrow> ustring \<Rightarrow> ustring \<Rightarrow> ResponseItem list \<Rightarrow>
    (ustring, (ustring, ResponseEvent) result list) result"
  elapsed :: "nat \<Rightarrow> bool"
  schedule :: "nat \<Rightarrow> (nat \<times> ReferenceOutput) list \<Rightarrow> (nat \<times> ReferenceOutput) list"
  items_to_json :: "FunctionCallOutputContentItem list \<Rightarrow> ustring"

definition client_for_slot :: "'info Caller \<Rightarrow> MoaModelSlot \<Rightarrow> (ustring, 'info) result" where
  "client_for_slot caller slot =
     (case providers caller (slot_provider slot) of
        None \<Rightarrow>
          Inl (lit ''unknown MoA provider '' @ [39] @ slot_provider slot @ [39] @
            lit '' (configure [model_providers.'' @ slot_provider slot @ lit ''])'')
      | Some info \<Rightarrow> Inr info)"

fun output_text :: "ContentItem \<Rightarrow> ustring" where
  "output_text (OutputText chunk) = chunk"
| "output_text _ = []"

text \<open>The loop over the events of a stream, with the text so far.\<close>

fun collect_text ::
  "ustring \<Rightarrow> (ustring, ResponseEvent) result list \<Rightarrow> (ustring, ustring) result" where
  "collect_text acc [] = Inr acc"
| "collect_text acc (Inl err # _) = Inl err"
| "collect_text acc (Inr (OutputItemDone (Message _ _ content _ _)) # rest) =
     collect_text (acc @ concat (map output_text content)) rest"
| "collect_text acc (Inr _ # rest) = collect_text acc rest"

definition call_slot ::
  "'info Caller \<Rightarrow> nat option \<Rightarrow> MoaModelSlot \<Rightarrow> ustring option \<Rightarrow> ResponseItem list \<Rightarrow>
   (ustring, ustring) result" where
  "call_slot caller call slot sys input =
     and_then (client_for_slot caller slot) (\<lambda>info.
     and_then (open_stream caller call info (slot_model slot) (unwrap_or [] sys) input)
       (collect_text []))"

section \<open>Conversions\<close>

definition user_text_item :: "ustring \<Rightarrow> ResponseItem" where
  "user_text_item t = Message None (lit ''user'') [InputText t] None None"

definition message_item :: "ChatMessage \<Rightarrow> ResponseItem" where
  "message_item m = Message None (msg_role m) [InputText (msg_content m)] None None"

definition chat_messages_to_response_items :: "ChatMessage list \<Rightarrow> ResponseItem list" where
  "chat_messages_to_response_items ms =
     map message_item
       (filter (\<lambda>m. msg_role m = lit ''user'' \<or> msg_role m = lit ''assistant'') ms)"

fun content_text :: "ContentItem \<Rightarrow> ustring option" where
  "content_text (InputText t) = Some t"
| "content_text (OutputText t) = Some t"
| "content_text _ = None"

text \<open>\<open>Display\<close> of a tool output payload.\<close>

definition payload_to_string ::
  "(FunctionCallOutputContentItem list \<Rightarrow> ustring) \<Rightarrow> FunctionCallOutputPayload \<Rightarrow> ustring" where
  "payload_to_string to_json out =
     (case out_body out of BodyText t \<Rightarrow> t | ContentItems items \<Rightarrow> to_json items)"

definition message_to_chat :: "ustring \<Rightarrow> ContentItem list \<Rightarrow> ChatMessage list" where
  "message_to_chat role content =
     (let t = join [] (List.map_filter content_text content)
      in if role = lit ''system'' then [system_msg t]
         else if role = lit ''assistant'' then [assistant_msg t]
         else if role = lit ''developer'' \<or> role = lit ''user'' then [user_msg t]
         else [])"

fun item_to_chat ::
  "(FunctionCallOutputContentItem list \<Rightarrow> ustring) \<Rightarrow> ResponseItem \<Rightarrow> ChatMessage list" where
  "item_to_chat js (Message _ role content _ _) = message_to_chat role content"
| "item_to_chat js (FunctionCall _ nm _ args _ _ _) =
     [\<lparr>msg_role = lit ''assistant'', msg_content = [],
       msg_tool_calls = [\<lparr>call_name = nm, call_arguments = args\<rparr>], is_tool_result = False\<rparr>]"
| "item_to_chat js (FunctionCallOutput _ _ _ _ out _) = [tool_result_msg (payload_to_string js out)]"
| "item_to_chat js (CustomToolCallOutput _ _ _ out _) = [tool_result_msg (payload_to_string js out)]"
| "item_to_chat js _ = []"

definition history_to_chat_messages ::
  "(FunctionCallOutputContentItem list \<Rightarrow> ustring) \<Rightarrow> ResponseItem list \<Rightarrow> ChatMessage list" where
  "history_to_chat_messages js history = concat (map (item_to_chat js) history)"

text \<open>\<open>MoaCaller\<close> as the implementation of \<open>MoaLlmCaller\<close>: temperatures and token limits are accepted
  and not sent.\<close>

definition caller_env :: "'info Caller \<Rightarrow> MoaEnv" where
  "caller_env caller =
     \<lparr>call_reference = (\<lambda>i slot sys ms temperature tokens.
        if elapsed caller i then None
        else Some (call_slot caller (Some i) slot (Some sys) (chat_messages_to_response_items ms))),
      call_aggregator = (\<lambda>slot prompt temperature tokens.
        call_slot caller None slot None [user_text_item prompt]),
      buffer_unordered = schedule caller\<rparr>"

section \<open>Guidance for a turn\<close>

datatype PassEnd = Completed | Cancelled | PassTimedOut

definition maybe_run_moa_guidance ::
  "MoaConfig \<Rightarrow> 'info Caller \<Rightarrow> ResponseItem list \<Rightarrow> ustring \<Rightarrow> PassEnd \<Rightarrow> ResponseItem option" where
  "maybe_run_moa_guidance moa caller history user_prompt pass_end =
     (let preset_name =
            or_else
              (case cfg_active_preset moa of
                 None \<Rightarrow> None
               | Some name \<Rightarrow> if trim name = [] then None else Some name)
              (cfg_default_preset moa)
      in case resolve_preset moa preset_name of
           None \<Rightarrow> None
         | Some preset \<Rightarrow>
             if \<not> pre_enabled preset \<or> pre_reference_models preset = [] then None
             else
               (let api_messages = history_to_chat_messages (items_to_json caller) history
                in case pass_end of
                     Cancelled \<Rightarrow> None
                   | PassTimedOut \<Rightarrow> None
                   | Completed \<Rightarrow>
                       (let guidance = fst (fst (run_moa_turn (caller_env caller) user_prompt
                              api_messages (pre_reference_models preset) (pre_aggregator preset)
                              (pre_reference_temperature preset) (pre_aggregator_temperature preset)
                              (Some (pre_max_tokens preset)) (pre_reference_max_tokens preset)))
                        in if trim guidance = [] then None else Some (user_text_item guidance))))"

datatype UserInput = TextInput ustring | OtherInput

fun text_of_input :: "UserInput \<Rightarrow> ustring option" where
  "text_of_input (TextInput t) = Some t"
| "text_of_input OtherInput = None"

definition turn_user_prompt :: "UserInput list \<Rightarrow> ustring" where
  "turn_user_prompt input = join [nl] (List.map_filter text_of_input input)"

text \<open>The guidance step of one iteration of the turn loop: the flag, the request under construction
  and the recorded history.\<close>

definition moa_step ::
  "(ResponseItem list \<Rightarrow> ResponseItem option) \<Rightarrow> bool \<Rightarrow> ResponseItem list \<Rightarrow> ResponseItem list \<Rightarrow>
   bool \<times> ResponseItem list \<times> ResponseItem list" where
  "moa_step guidance moa_ran_this_turn sampling_request_input recorded =
     (if \<not> moa_ran_this_turn then
        (case guidance sampling_request_input of
           Some item \<Rightarrow> (True, sampling_request_input @ [item], recorded @ [item])
         | None \<Rightarrow> (True, sampling_request_input, recorded))
      else (moa_ran_this_turn, sampling_request_input, recorded))"

section \<open>Requests to reference models\<close>

lemma item_to_chat_roles: "m \<in> set (item_to_chat js it) \<Longrightarrow>
    msg_role m \<in> {lit ''system'', lit ''user'', lit ''assistant'', lit ''tool''} \<and>
    (is_tool_result m \<longleftrightarrow> msg_role m = lit ''tool'')"
  by (cases "(js, it)" rule: item_to_chat.cases)
    (auto simp: message_to_chat_def Let_def system_msg_def assistant_msg_def user_msg_def
      tool_result_msg_def role_neq [symmetric] split: if_splits)

text \<open>An item a reference model may receive.\<close>

fun plain_request_item :: "ResponseItem \<Rightarrow> bool" where
  "plain_request_item (Message i role content p m) =
     (i = None \<and> (role = lit ''user'' \<or> role = lit ''assistant'') \<and>
      length content = 1 \<and> p = None \<and> m = None)"
| "plain_request_item _ = False"

lemma view_items:
  "chat_messages_to_response_items (build_reference_messages ms) =
   map message_item (build_reference_messages ms)"
proof -
  have "filter (\<lambda>m. msg_role m = lit ''user'' \<or> msg_role m = lit ''assistant'')
      (build_reference_messages ms) = build_reference_messages ms"
    using reference_view_props(1) [of ms] by (intro filter_True) (auto simp: list_all_iff plain_turn_def)
  then show ?thesis
    by (simp only: chat_messages_to_response_items_def)
qed

text \<open>Whatever items the history holds, the request to a reference model consists of user and
  assistant messages with one text each, one for every turn of the advisory view, and ends with a
  user message; no tool call, tool output or system item is sent.\<close>

theorem reference_request_plain:
  "let view = build_reference_messages (history_to_chat_messages js history);
       request = chat_messages_to_response_items view
   in length request = length view \<and> list_all plain_request_item request \<and> request \<noteq> [] \<and>
      is_user_message (last request)"
proof -
  define ms where "ms = history_to_chat_messages js history"
  have v: "list_all plain_turn (build_reference_messages ms)" "build_reference_messages ms \<noteq> []"
    "msg_role (last (build_reference_messages ms)) = lit ''user''"
    by (rule reference_view_props)+
  have "plain_request_item (message_item m)" if "plain_turn m" for m
    using that by (auto simp: plain_turn_def message_item_def)
  moreover have "is_user_message (last (map message_item (build_reference_messages ms)))"
    using v by (simp add: last_map message_item_def)
  ultimately show ?thesis
    unfolding Let_def ms_def [symmetric] view_items using v by (auto simp: list_all_iff)
qed

section \<open>When a turn gets guidance\<close>

definition selected_preset :: "MoaConfig \<Rightarrow> MoaPreset option" where
  "selected_preset moa =
     resolve_preset moa
       (or_else (case cfg_active_preset moa of
                   None \<Rightarrow> None
                 | Some name \<Rightarrow> if trim name = [] then None else Some name)
         (cfg_default_preset moa))"

lemma maybe_run_selected:
  "maybe_run_moa_guidance moa caller history p e =
     (case selected_preset moa of
        None \<Rightarrow> None
      | Some preset \<Rightarrow>
          if \<not> pre_enabled preset \<or> pre_reference_models preset = [] \<or> e \<noteq> Completed then None
          else Some (user_text_item (fst (fst (run_moa_turn (caller_env caller) p
            (history_to_chat_messages (items_to_json caller) history) (pre_reference_models preset)
            (pre_aggregator preset) (pre_reference_temperature preset)
            (pre_aggregator_temperature preset) (Some (pre_max_tokens preset))
            (pre_reference_max_tokens preset))))))"
proof -
  have "trim (fst (fst (run_moa_turn env q ms slots agg rt at mt rmt))) \<noteq> []"
    for env q ms slots agg rt at mt rmt
    by (simp add: run_moa_turn_def Let_def guidance_nonblank)
  then show ?thesis
    by (auto simp: maybe_run_moa_guidance_def selected_preset_def Let_def
        split: option.splits PassEnd.splits)
qed

text \<open>C39: A turn gets guidance exactly when the selected preset exists, is enabled and has a reference
  model, and the pass is neither cancelled nor timed out. What the models answer plays no part: when
  every call fails the turn still gets a guidance item.\<close>

theorem moa_guidance_iff:
  "(\<exists>g. maybe_run_moa_guidance moa caller history p e = Some (user_text_item g)) \<longleftrightarrow>
     e = Completed \<and>
     (\<exists>preset. selected_preset moa = Some preset \<and> pre_enabled preset \<and> pre_reference_models preset \<noteq> [])"
  unfolding maybe_run_selected by (auto split: option.splits if_splits)

text \<open>C40: A configuration without a \<open>[moa]\<close> section does run the Mixture of Agents: every completed
  pass yields guidance, from the two default reference models.\<close>

theorem moa_runs_without_configuration:
  "(\<exists>g. maybe_run_moa_guidance (moa_config_from_toml None) caller history p Completed =
      Some (user_text_item g)) \<and>
   map_option pre_reference_models (selected_preset (moa_config_from_toml None)) =
     Some default_reference_models"
proof -
  have "selected_preset (moa_config_from_toml None) = Some default_preset"
    by (simp add: selected_preset_def moa_config_from_toml_def default_config_def or_else_def
        resolve_preset_def normalized_def unwrap_or_def)
  then show ?thesis
    by (auto simp: maybe_run_selected default_preset_def default_reference_models_def)
qed

section \<open>No recursion\<close>

lemma client_other_provider:
  "slot_provider slot \<noteq> q \<Longrightarrow>
     client_for_slot (caller\<lparr>providers := (providers caller)(q := x)\<rparr>) slot = client_for_slot caller slot"
  by (simp add: client_for_slot_def)

lemma call_other_provider:
  "slot_provider slot \<noteq> q \<Longrightarrow>
     call_slot (caller\<lparr>providers := (providers caller)(q := x)\<rparr>) c slot sys input =
     call_slot caller c slot sys input"
  by (simp add: call_slot_def client_other_provider)

lemma run_moa_turn_cong:
  assumes refs: "\<And>i slot ms. slot \<in> set slots \<Longrightarrow>
      call_reference env i slot REFERENCE_SYSTEM_PROMPT ms rt (or_else rmt mt) =
      call_reference env' i slot REFERENCE_SYSTEM_PROMPT ms rt (or_else rmt mt)"
    and agg: "\<And>prompt. call_aggregator env agg prompt at mt = call_aggregator env' agg prompt at mt"
    and buf: "buffer_unordered env = buffer_unordered env'"
  shows "run_moa_turn env p ms slots agg rt at mt rmt = run_moa_turn env' p ms slots agg rt at mt rmt"
proof -
  have "map (reference_job env msgs rt (or_else rmt mt)) (enumerate 0 slots) =
      map (reference_job env' msgs rt (or_else rmt mt)) (enumerate 0 slots)" for msgs
    using refs by (auto simp: reference_job_def in_set_enumerate_eq)
  then show ?thesis
    unfolding run_moa_turn_def Let_def by (simp only: agg buf)
qed

text \<open>C6: The Mixture of Agents cannot call itself: under every configuration read from a file the
  guidance does not depend on whether a provider named \<open>moa\<close> exists or on what it does.\<close>

theorem moa_never_recurses:
  "maybe_run_moa_guidance (moa_config_from_toml toml)
     (caller\<lparr>providers := (providers caller)(MOA_PROVIDER_ID := x)\<rparr>) history p e =
   maybe_run_moa_guidance (moa_config_from_toml toml) caller history p e"
proof (cases "selected_preset (moa_config_from_toml toml)")
  case None
  then show ?thesis
    by (simp add: maybe_run_selected)
next
  case (Some preset)
  then have c: "callable_preset preset"
    unfolding selected_preset_def by (rule configured_preset_callable)
  let ?caller = "caller\<lparr>providers := (providers caller)(MOA_PROVIDER_ID := x)\<rparr>"
  have "run_moa_turn (caller_env ?caller) p ms (pre_reference_models preset) (pre_aggregator preset)
      rt at mt rmt = run_moa_turn (caller_env caller) p ms (pre_reference_models preset)
      (pre_aggregator preset) rt at mt rmt" for ms rt at mt rmt
  proof (rule run_moa_turn_cong)
    show "call_reference (caller_env ?caller) i slot s ms t k =
        call_reference (caller_env caller) i slot s ms t k"
      if "slot \<in> set (pre_reference_models preset)" for i slot s ms t k
      using that c
      by (auto simp: caller_env_def callable_preset_def list_all_iff callable_slot_def call_other_provider)
    show "call_aggregator (caller_env ?caller) (pre_aggregator preset) q t k =
        call_aggregator (caller_env caller) (pre_aggregator preset) q t k" for q t k
      using c by (auto simp: caller_env_def callable_preset_def callable_slot_def call_other_provider)
  qed (simp add: caller_env_def)
  then show ?thesis
    by (simp add: maybe_run_selected Some)
qed

text \<open>Over the iterations of a turn at most one guidance item is recorded.\<close>

lemma moa_step_once:
  assumes "moa_step g done_before input recorded = (done_after, input', recorded')"
  shows "done_after \<and> (done_before \<longrightarrow> recorded' = recorded \<and> input' = input)"
  using assms by (auto simp: moa_step_def split: option.splits if_splits)

end
