(* ===== verification/Call_Pairing.thy ===== *)
theory Call_Pairing
  imports Rust_Prelude
begin

text \<open>
  Calls and their outputs in a sequence of items, independent of what the items are. An item may
  carry the key of a call or the key of an output; some outputs are exempt from needing a call. The
  operations below are the reference definitions of the history normalization, and the locale
  \<open>call_pairing\<close> shows what they achieve from the two laws the items obey.
\<close>

section \<open>Keys\<close>

definition keys :: "('i \<Rightarrow> 'k option) \<Rightarrow> 'i list \<Rightarrow> 'k list" where
  "keys f xs = List.map_filter f xs"

lemma keys_simps [simp]:
  "keys f [] = []"
  "keys f (x # xs) = (case f x of None \<Rightarrow> keys f xs | Some k \<Rightarrow> k # keys f xs)"
  "keys f (xs @ ys) = keys f xs @ keys f ys"
  by (auto simp: keys_def List.map_filter_def split: option.splits)

lemma set_keys: "set (keys f xs) = {k. \<exists>x\<in>set xs. f x = Some k}"
  by (induction xs) (auto split: option.splits)

lemma keys_map: "(\<And>x. f (g x) = f x) \<Longrightarrow> keys f (map g xs) = keys f xs"
  by (induction xs) (auto split: option.splits)

definition calls_answered :: "('i \<Rightarrow> 'k option) \<Rightarrow> ('i \<Rightarrow> 'k option) \<Rightarrow> 'i list \<Rightarrow> bool" where
  "calls_answered call outp xs \<longleftrightarrow> list_all (\<lambda>k. k \<in> set (keys outp xs)) (keys call xs)"

definition outputs_called ::
  "('i \<Rightarrow> 'k option) \<Rightarrow> ('i \<Rightarrow> 'k option) \<Rightarrow> ('i \<Rightarrow> bool) \<Rightarrow> 'i list \<Rightarrow> bool" where
  "outputs_called call outp exempt xs \<longleftrightarrow>
     list_all (\<lambda>k. k \<in> set (keys call xs)) (keys outp (filter (\<lambda>x. \<not> exempt x) xs))"

definition well_paired ::
  "('i \<Rightarrow> 'k option) \<Rightarrow> ('i \<Rightarrow> 'k option) \<Rightarrow> ('i \<Rightarrow> bool) \<Rightarrow> 'i list \<Rightarrow> bool" where
  "well_paired call outp exempt xs \<longleftrightarrow>
     distinct (keys call xs) \<and> distinct (keys outp xs) \<and> calls_answered call outp xs \<and>
     outputs_called call outp exempt xs"

lemma outputs_calledI:
  assumes "\<And>y k. y \<in> set xs \<Longrightarrow> \<not> exempt y \<Longrightarrow> outp y = Some k \<Longrightarrow> k \<in> set (keys call xs)"
  shows "outputs_called call outp exempt xs"
  using assms unfolding outputs_called_def list_all_iff by (auto simp: set_keys)

lemma outputs_calledD:
  "outputs_called call outp exempt xs \<Longrightarrow> y \<in> set xs \<Longrightarrow> \<not> exempt y \<Longrightarrow> outp y = Some k \<Longrightarrow>
     k \<in> set (keys call xs)"
  unfolding outputs_called_def list_all_iff by (auto simp: set_keys)

lemma keysI: "x \<in> set xs \<Longrightarrow> f x = Some k \<Longrightarrow> k \<in> set (keys f xs)"
  by (auto simp: set_keys)

section \<open>Reference operations\<close>

definition with_answers ::
  "('i \<Rightarrow> 'k option) \<Rightarrow> ('i \<Rightarrow> 'k option) \<Rightarrow> ('i \<Rightarrow> 'i) \<Rightarrow> 'i list \<Rightarrow> 'i list" where
  "with_answers call outp answer xs =
     concat (map (\<lambda>x. case call x of
         None \<Rightarrow> [x]
       | Some k \<Rightarrow> if k \<in> set (keys outp xs) then [x] else [x, answer x]) xs)"

definition without_orphans ::
  "('i \<Rightarrow> 'k option) \<Rightarrow> ('i \<Rightarrow> 'k option) \<Rightarrow> ('i \<Rightarrow> bool) \<Rightarrow> 'i list \<Rightarrow> 'i list" where
  "without_orphans call outp exempt xs =
     filter (\<lambda>x. case outp x of
         None \<Rightarrow> True
       | Some k \<Rightarrow> exempt x \<or> k \<in> set (keys call xs)) xs"

text \<open>\<open>iter().position\<close> followed by \<open>remove\<close>.\<close>

fun remove_first :: "('i \<Rightarrow> bool) \<Rightarrow> 'i list \<Rightarrow> 'i list" where
  "remove_first P [] = []"
| "remove_first P (x # xs) = (if P x then xs else x # remove_first P xs)"

section \<open>What they achieve\<close>

locale call_pairing =
  fixes call outp :: "'i \<Rightarrow> 'k option"
    and exempt :: "'i \<Rightarrow> bool"
    and answer :: "'i \<Rightarrow> 'i"
  assumes not_both: "call x = None \<or> outp x = None"
    and answer_output: "call x = Some k \<Longrightarrow> outp (answer x) = Some k"
begin

lemma call_no_output: "call x = Some k \<Longrightarrow> outp x = None"
  using not_both [of x] by auto

lemma output_no_call: "outp x = Some k \<Longrightarrow> call x = None"
  using not_both [of x] by auto

lemma answer_no_call: "call x = Some k \<Longrightarrow> call (answer x) = None"
  by (rule output_no_call) (rule answer_output)

lemma keys_with_answers_aux:
  "keys call (concat (map (\<lambda>x. case call x of
       None \<Rightarrow> [x] | Some k \<Rightarrow> if k \<in> S then [x] else [x, answer x]) xs)) = keys call xs"
  by (induction xs) (auto simp: answer_no_call split: option.splits)

lemma call_keys_with_answers: "keys call (with_answers call outp answer xs) = keys call xs"
  unfolding with_answers_def by (rule keys_with_answers_aux)

lemma set_with_answers:
  "set (with_answers call outp answer xs) =
     set xs \<union> {answer x |x k. x \<in> set xs \<and> call x = Some k \<and> k \<notin> set (keys outp xs)}"
  unfolding with_answers_def by (auto split: option.splits if_splits)

lemma with_answers_answered: "calls_answered call outp (with_answers call outp answer xs)"
proof -
  have "k \<in> set (keys outp (with_answers call outp answer xs))" if "k \<in> set (keys call xs)" for k
  proof -
    obtain x where x: "x \<in> set xs" "call x = Some k"
      using \<open>k \<in> set (keys call xs)\<close> by (auto simp: set_keys)
    show ?thesis
    proof (cases "k \<in> set (keys outp xs)")
      case True
      then show ?thesis
        unfolding set_keys set_with_answers by auto
    next
      case False
      then show ?thesis
        using x answer_output [of x k] unfolding set_keys set_with_answers by blast
    qed
  qed
  then show ?thesis
    by (simp add: calls_answered_def call_keys_with_answers list_all_iff)
qed

lemma with_answers_id: "calls_answered call outp xs \<Longrightarrow> with_answers call outp answer xs = xs"
proof -
  assume a: "calls_answered call outp xs"
  have "concat (map (\<lambda>x. case call x of
       None \<Rightarrow> [x] | Some k \<Rightarrow> if k \<in> S then [x] else [x, answer x]) ys) = ys"
    if "list_all (\<lambda>k. k \<in> S) (keys call ys)" for S ys
    using that by (induction ys) (auto split: option.splits)
  then show ?thesis
    using a unfolding with_answers_def calls_answered_def by blast
qed

lemma call_keys_without_orphans:
  "keys call (without_orphans call outp exempt xs) = keys call xs"
proof -
  have "keys call (filter (\<lambda>x. case outp x of None \<Rightarrow> True | Some k \<Rightarrow> exempt x \<or> k \<in> S) ys) =
      keys call ys" for S ys
    by (induction ys) (auto split: option.splits dest: output_no_call)
  then show ?thesis
    by (simp add: without_orphans_def)
qed

lemma without_orphans_called:
  "outputs_called call outp exempt (without_orphans call outp exempt xs)"
  unfolding outputs_called_def call_keys_without_orphans list_all_iff set_keys
  by (auto simp: without_orphans_def set_keys)

lemma without_orphans_answered:
  assumes "calls_answered call outp xs"
  shows "calls_answered call outp (without_orphans call outp exempt xs)"
proof -
  have "k \<in> set (keys outp (without_orphans call outp exempt xs))" if k: "k \<in> set (keys call xs)" for k
  proof -
    obtain x where x: "x \<in> set xs" "outp x = Some k"
      using k assms by (auto simp: calls_answered_def list_all_iff set_keys)
    have "x \<in> set (without_orphans call outp exempt xs)"
      using x k by (simp add: without_orphans_def)
    then show ?thesis
      using x(2) by (rule keysI)
  qed
  then show ?thesis
    by (simp add: calls_answered_def call_keys_without_orphans list_all_iff)
qed

lemma without_orphans_id:
  assumes "outputs_called call outp exempt xs"
  shows "without_orphans call outp exempt xs = xs"
  unfolding without_orphans_def
  using assms by (intro filter_True) (auto simp: outputs_called_def list_all_iff set_keys split: option.splits)

text \<open>Both passes together: everything is paired, and a second run changes nothing.\<close>

lemma normalize_paired:
  fixes xs
  defines "ys \<equiv> without_orphans call outp exempt (with_answers call outp answer xs)"
  shows "calls_answered call outp ys" "outputs_called call outp exempt ys"
  unfolding ys_def
  by (rule without_orphans_answered, rule with_answers_answered) (rule without_orphans_called)

lemma normalize_idem:
  fixes xs
  defines "ys \<equiv> without_orphans call outp exempt (with_answers call outp answer xs)"
  shows "without_orphans call outp exempt (with_answers call outp answer ys) = ys"
  using normalize_paired [of xs] unfolding ys_def
  by (simp add: with_answers_id without_orphans_id)

text \<open>Dropping an item together with its counterpart.\<close>

lemma keys_remove_first_key:
  assumes "distinct (keys f xs)"
  shows "keys f (remove_first (\<lambda>y. f y = Some k) xs) = filter (\<lambda>j. j \<noteq> k) (keys f xs)"
  using assms
proof (induction xs)
  case (Cons x xs)
  show ?case
  proof (cases "f x = Some k")
    case True
    then have "k \<notin> set (keys f xs)"
      using Cons.prems by simp
    then have "filter (\<lambda>j. j \<noteq> k) (keys f xs) = keys f xs"
      by (intro filter_True) auto
    then show ?thesis
      using True by simp
  next
    case False
    then show ?thesis
      using Cons by (auto split: option.splits)
  qed
qed simp

lemma keys_remove_first_other:
  assumes "\<And>y. P y \<Longrightarrow> f y = None"
  shows "keys f (remove_first P xs) = keys f xs"
  using assms by (induction xs) (auto split: option.splits)

lemma set_remove_first: "set (remove_first P xs) \<subseteq> set xs"
  by (induction xs) auto

lemma drop_call_paired:
  assumes "well_paired call outp exempt (x # xs)" "call x = Some k"
  shows "well_paired call outp exempt (remove_first (\<lambda>y. outp y = Some k) xs)"
proof -
  let ?ys = "remove_first (\<lambda>y. outp y = Some k) xs"
  have o: "outp x = None"
    using assms(2) by (rule call_no_output)
  have d: "k \<notin> set (keys call xs)" "distinct (keys call xs)" "distinct (keys outp xs)"
    using assms o by (auto simp: well_paired_def)
  have c: "keys call ?ys = keys call xs"
    by (rule keys_remove_first_other) (rule output_no_call)
  have ok: "keys outp ?ys = filter (\<lambda>j. j \<noteq> k) (keys outp xs)"
    using d(3) by (rule keys_remove_first_key)
  have "calls_answered call outp ?ys"
    using assms o d(1) by (auto simp: calls_answered_def well_paired_def list_all_iff c ok)
  moreover have "outputs_called call outp exempt ?ys"
  proof -
    have "j \<in> set (keys call xs)" if y: "y \<in> set ?ys" "\<not> exempt y" "outp y = Some j" for y j
    proof -
      have "j \<noteq> k"
        using keysI [of y ?ys outp j] y by (auto simp: ok)
      moreover have "j \<in> set (keys call (x # xs))"
        using y assms(1) set_remove_first [of "\<lambda>y. outp y = Some k" xs]
        by (intro outputs_calledD [of call outp exempt "x # xs" y j]) (auto simp: well_paired_def)
      ultimately show ?thesis
        using assms(2) by simp
    qed
    then show ?thesis
      by (intro outputs_calledI) (simp add: c)
  qed
  ultimately show ?thesis
    using d c ok by (simp add: well_paired_def)
qed

lemma drop_output_paired:
  assumes "well_paired call outp exempt (x # xs)" "outp x = Some k"
  shows "well_paired call outp exempt (remove_first (\<lambda>y. call y = Some k) xs)"
proof -
  let ?ys = "remove_first (\<lambda>y. call y = Some k) xs"
  have o: "call x = None"
    using assms(2) by (rule output_no_call)
  have d: "k \<notin> set (keys outp xs)" "distinct (keys call xs)" "distinct (keys outp xs)"
    using assms o by (auto simp: well_paired_def)
  have ok: "keys outp ?ys = keys outp xs"
    by (rule keys_remove_first_other) (rule call_no_output)
  have c: "keys call ?ys = filter (\<lambda>j. j \<noteq> k) (keys call xs)"
    using d(2) by (rule keys_remove_first_key)
  have "calls_answered call outp ?ys"
    using assms o by (auto simp: calls_answered_def well_paired_def list_all_iff c ok)
  moreover have "outputs_called call outp exempt ?ys"
  proof -
    have "j \<in> set (keys call ?ys)" if y: "y \<in> set ?ys" "\<not> exempt y" "outp y = Some j" for y j
    proof -
      have yx: "y \<in> set xs"
        using y set_remove_first [of "\<lambda>y. call y = Some k" xs] by auto
      then have "j \<noteq> k"
        using keysI [of y xs outp j] y d(1) by auto
      moreover have "j \<in> set (keys call (x # xs))"
        using y yx assms(1)
        by (intro outputs_calledD [of call outp exempt "x # xs" y j]) (auto simp: well_paired_def)
      ultimately show ?thesis
        using o c by auto
    qed
    then show ?thesis
      by (intro outputs_calledI)
  qed
  ultimately show ?thesis
    using d c ok by (simp add: well_paired_def)
qed

lemma drop_other_paired:
  assumes "well_paired call outp exempt (x # xs)" "call x = None" "outp x = None"
  shows "well_paired call outp exempt xs"
  using assms by (auto simp: well_paired_def calls_answered_def outputs_called_def split: if_splits)

end

end
