(* ===== verification/History_Normalize.thy ===== *)
theory History_Normalize
  imports Call_Pairing Response_Items
begin

text \<open>
  The normalization of a history before it is sent to a model, after
  \<open>core/src/context_manager/normalize.rs\<close> and \<open>normalize_history\<close> of \<open>history.rs\<close>: every call gets an
  output, outputs without a call go, and media the model cannot read are replaced by a text.

  The code works with index lists: outputs to insert at positions, positions to drop. The lemmas show
  that this computes the reference operations of \<open>Call_Pairing\<close>, whose locale is interpreted here on
  the items of a history.

  \<open>error_or_panic\<close> panics in builds with debug assertions and logs otherwise; the argument \<open>debug\<close>
  selects the build and \<open>None\<close> is the panic. The name-based UUIDs of the library are the argument
  \<open>new_v5\<close>.
\<close>

section \<open>Definitions\<close>

datatype InputModality = TextModality | ImageModality | AudioModality

text \<open>The three sets of output ids and of call ids, as the lists of their members.\<close>

fun function_output_id :: "ResponseItem \<Rightarrow> ustring option" where
  "function_output_id (FunctionCallOutput _ c _ _ _ _) = c"
| "function_output_id _ = None"

fun tool_search_output_id :: "ResponseItem \<Rightarrow> ustring option" where
  "tool_search_output_id (ToolSearchOutput _ c _ _ _ _) = c"
| "tool_search_output_id _ = None"

fun custom_tool_output_id :: "ResponseItem \<Rightarrow> ustring option" where
  "custom_tool_output_id (CustomToolCallOutput _ c _ _ _) = Some c"
| "custom_tool_output_id _ = None"

fun function_call_id :: "ResponseItem \<Rightarrow> ustring option" where
  "function_call_id (FunctionCall _ _ _ _ _ c _) = Some c"
| "function_call_id (LocalShellCall _ c _ _ _) = c"
| "function_call_id _ = None"

fun tool_search_call_id :: "ResponseItem \<Rightarrow> ustring option" where
  "tool_search_call_id (ToolSearchCall _ c _ _ _ _) = c"
| "tool_search_call_id _ = None"

fun custom_tool_call_id :: "ResponseItem \<Rightarrow> ustring option" where
  "custom_tool_call_id (CustomToolCall _ _ c _ _ _ _) = Some c"
| "custom_tool_call_id _ = None"

definition ids :: "(ResponseItem \<Rightarrow> ustring option) \<Rightarrow> Envelope list \<Rightarrow> ustring list" where
  "ids f items = List.map_filter (\<lambda>e. f (env_item e)) items"

definition synthetic_output_id ::
  "(ustring \<Rightarrow> ustring) \<Rightarrow> ustring \<Rightarrow> item_id option \<Rightarrow> item_id option" where
  "synthetic_output_id new_v5 pre item_id =
     (case item_id of
        None \<Rightarrow> None
      | Some source_id \<Rightarrow>
          if source_id = [] then None
          else Some (pre @ lit ''_'' @ new_v5 (pre @ lit '':'' @ source_id)))"

text \<open>The output that is missing for an item, if one is, and whether its absence is an error.\<close>

fun missing_output ::
  "(ustring \<Rightarrow> ustring) \<Rightarrow> ustring list \<Rightarrow> ustring list \<Rightarrow> ustring list \<Rightarrow> ResponseItem \<Rightarrow>
   (bool \<times> ResponseItem) option" where
  "missing_output v5 fs ts cs (FunctionCall i _ _ _ _ c _) =
     (if c \<notin> set fs then
        Some (False, FunctionCallOutput (synthetic_output_id v5 (lit ''fco'') i) (Some c) None None
          (from_text (lit ''aborted'')) None)
      else None)"
| "missing_output v5 fs ts cs (ToolSearchCall i (Some c) _ _ _ _) =
     (if c \<notin> set ts then
        Some (False, ToolSearchOutput (synthetic_output_id v5 (lit ''tso'') i) (Some c)
          (lit ''completed'') (lit ''client'') [] None)
      else None)"
| "missing_output v5 fs ts cs (CustomToolCall i _ c _ _ _ _) =
     (if c \<notin> set cs then
        Some (True, CustomToolCallOutput (synthetic_output_id v5 (lit ''ctco'') i) c None
          (from_text (lit ''aborted'')) None)
      else None)"
| "missing_output v5 fs ts cs (LocalShellCall i (Some c) _ _ _) =
     (if c \<notin> set fs then
        Some (True, FunctionCallOutput (synthetic_output_id v5 (lit ''fco'') i) (Some c) None None
          (from_text (lit ''aborted'')) None)
      else None)"
| "missing_output v5 fs ts cs _ = None"

fun missing_outputs ::
  "(ResponseItem \<Rightarrow> (bool \<times> ResponseItem) option) \<Rightarrow> nat \<Rightarrow> Envelope list \<Rightarrow>
   (nat \<times> bool \<times> Envelope) list" where
  "missing_outputs missing idx [] = []"
| "missing_outputs missing idx (e # es) =
     (case missing (env_item e) of
        None \<Rightarrow> missing_outputs missing (idx + 1) es
      | Some (err, out) \<Rightarrow> (idx, err, envelope_new out) # missing_outputs missing (idx + 1) es)"

text \<open>\<open>Vec::insert\<close> at an index within the vector.\<close>

definition vec_insert :: "nat \<Rightarrow> 'a \<Rightarrow> 'a list \<Rightarrow> 'a list" where
  "vec_insert i x xs = take i xs @ x # drop i xs"

definition insert_outputs :: "(nat \<times> bool \<times> Envelope) list \<Rightarrow> Envelope list \<Rightarrow> Envelope list" where
  "insert_outputs missing items =
     fold (\<lambda>(idx, _, out) xs. vec_insert (idx + 1) out xs) (rev missing) items"

definition ensure_call_outputs_present ::
  "bool \<Rightarrow> (ustring \<Rightarrow> ustring) \<Rightarrow> Envelope list \<Rightarrow> Envelope list option" where
  "ensure_call_outputs_present debug new_v5 items =
     (let missing = missing_outputs
            (missing_output new_v5 (ids function_output_id items) (ids tool_search_output_id items)
               (ids custom_tool_output_id items)) 0 items
      in if debug \<and> (\<exists>(_, err, _) \<in> set missing. err) then None
         else Some (insert_outputs missing items))"

text \<open>Whether an item is an output whose call is not in the history.\<close>

fun is_orphan :: "ustring list \<Rightarrow> ustring list \<Rightarrow> ustring list \<Rightarrow> ResponseItem \<Rightarrow> bool" where
  "is_orphan fs ts cs (FunctionCallOutput _ (Some c) _ _ _ _) = (c \<notin> set fs)"
| "is_orphan fs ts cs (CustomToolCallOutput _ c _ _ _) = (c \<notin> set cs)"
| "is_orphan fs ts cs (ToolSearchOutput _ (Some c) _ execution _ _) =
     (execution \<noteq> lit ''server'' \<and> c \<notin> set ts)"
| "is_orphan fs ts cs _ = False"

fun orphan_positions :: "(ResponseItem \<Rightarrow> bool) \<Rightarrow> nat \<Rightarrow> Envelope list \<Rightarrow> nat list" where
  "orphan_positions orphan pos [] = []"
| "orphan_positions orphan pos (e # es) =
     (if orphan (env_item e) then pos # orphan_positions orphan (pos + 1) es
      else orphan_positions orphan (pos + 1) es)"

text \<open>The \<open>retain\<close> loop with its peekable iterator of positions.\<close>

fun retain_positions :: "nat list \<Rightarrow> nat \<Rightarrow> 'a list \<Rightarrow> 'a list" where
  "retain_positions ps pos [] = []"
| "retain_positions ps pos (x # xs) =
     (case ps of
        [] \<Rightarrow> x # retain_positions [] (pos + 1) xs
      | p # ps' \<Rightarrow>
          if p = pos then retain_positions ps' (pos + 1) xs
          else x # retain_positions ps (pos + 1) xs)"

definition remove_orphan_outputs :: "bool \<Rightarrow> Envelope list \<Rightarrow> Envelope list option" where
  "remove_orphan_outputs debug items =
     (let positions = orphan_positions
            (is_orphan (ids function_call_id items) (ids tool_search_call_id items)
               (ids custom_tool_call_id items)) 0 items
      in if positions = [] then Some items
         else if debug then None
         else Some (retain_positions positions 0 items))"

definition remove_first_matching :: "Envelope list \<Rightarrow> (ResponseItem \<Rightarrow> bool) \<Rightarrow> Envelope list" where
  "remove_first_matching items p = remove_first (\<lambda>e. p (env_item e)) items"

fun is_function_call :: "ustring \<Rightarrow> ResponseItem \<Rightarrow> bool" where
  "is_function_call c (FunctionCall _ _ _ _ _ c' _) = (c' = c)"
| "is_function_call c _ = False"

fun is_local_shell_call :: "ustring \<Rightarrow> ResponseItem \<Rightarrow> bool" where
  "is_local_shell_call c (LocalShellCall _ c' _ _ _) = (c' = Some c)"
| "is_local_shell_call c _ = False"

fun remove_corresponding_for :: "Envelope list \<Rightarrow> ResponseItem \<Rightarrow> Envelope list" where
  "remove_corresponding_for items (FunctionCall _ _ _ _ _ c _) =
     remove_first_matching items (\<lambda>i. function_output_id i = Some c)"
| "remove_corresponding_for items (FunctionCallOutput _ (Some c) _ _ _ _) =
     (if \<exists>e\<in>set items. is_function_call c (env_item e) then
        remove_first_matching items (is_function_call c)
      else if \<exists>e\<in>set items. is_local_shell_call c (env_item e) then
        remove_first_matching items (is_local_shell_call c)
      else items)"
| "remove_corresponding_for items (ToolSearchCall _ (Some c) _ _ _ _) =
     remove_first_matching items (\<lambda>i. tool_search_output_id i = Some c)"
| "remove_corresponding_for items (ToolSearchOutput _ (Some c) _ _ _ _) =
     remove_first_matching items (\<lambda>i. tool_search_call_id i = Some c)"
| "remove_corresponding_for items (CustomToolCall _ _ c _ _ _ _) =
     remove_first_matching items (\<lambda>i. custom_tool_output_id i = Some c)"
| "remove_corresponding_for items (CustomToolCallOutput _ c _ _ _) =
     remove_first_matching items (\<lambda>i. custom_tool_call_id i = Some c)"
| "remove_corresponding_for items (LocalShellCall _ (Some c) _ _ _) =
     remove_first_matching items (\<lambda>i. function_output_id i = Some c)"
| "remove_corresponding_for items _ = items"

section \<open>Media\<close>

text \<open>\<open>UnsupportedMedia\<close>: the text that takes the place of a medium and its classification.\<close>

definition IMAGE_TEXT :: ustring where
  "IMAGE_TEXT = lit ''image content omitted because you do not support image input''"

definition IMAGE_KIND :: ustring where
  "IMAGE_KIND = lit ''images.unsupported''"

definition AUDIO_TEXT :: ustring where
  "AUDIO_TEXT = lit ''audio content omitted because you do not support audio input''"

definition AUDIO_KIND :: ustring where
  "AUDIO_KIND = lit ''audio.unsupported''"

fun is_image :: "ContentItem \<Rightarrow> bool" where
  "is_image (InputImage _ _) = True"
| "is_image _ = False"

fun is_audio :: "ContentItem \<Rightarrow> bool" where
  "is_audio (InputAudio _) = True"
| "is_audio _ = False"

fun is_output_image :: "FunctionCallOutputContentItem \<Rightarrow> bool" where
  "is_output_image (OutInputImage _ _) = True"
| "is_output_image _ = False"

fun is_output_audio :: "FunctionCallOutputContentItem \<Rightarrow> bool" where
  "is_output_audio (OutInputAudio _) = True"
| "is_output_audio _ = False"

definition strip_message ::
  "(ContentItem \<Rightarrow> bool) \<Rightarrow> ustring \<Rightarrow> content_kind \<Rightarrow> ResponseItem \<Rightarrow> ResponseItem" where
  "strip_message medium t kind it =
     (case to_annotated_content it of
        None \<Rightarrow> it
      | Some content \<Rightarrow>
          (case set_annotated_content it
                  (map (\<lambda>(c, k). if medium c then (InputText t, kind) else (c, k)) content) of
             None \<Rightarrow> it
           | Some it' \<Rightarrow> it'))"

definition strip_payload ::
  "(FunctionCallOutputContentItem \<Rightarrow> bool) \<Rightarrow> ustring \<Rightarrow> FunctionCallOutputPayload \<Rightarrow>
   FunctionCallOutputPayload" where
  "strip_payload medium t out =
     (case out_body out of
        BodyText _ \<Rightarrow> out
      | ContentItems items \<Rightarrow>
          out\<lparr>out_body := ContentItems (map (\<lambda>c. if medium c then OutInputText t else c) items)\<rparr>)"

fun strip_image :: "ResponseItem \<Rightarrow> ResponseItem" where
  "strip_image (FunctionCallOutput i c n ns out m) =
     FunctionCallOutput i c n ns (strip_payload is_output_image IMAGE_TEXT out) m"
| "strip_image (CustomToolCallOutput i c n out m) =
     CustomToolCallOutput i c n (strip_payload is_output_image IMAGE_TEXT out) m"
| "strip_image (ImageGenerationCall i st rp _ m) = ImageGenerationCall i st rp [] m"
| "strip_image it = strip_message is_image IMAGE_TEXT IMAGE_KIND it"

definition strip_images_when_unsupported ::
  "InputModality list \<Rightarrow> Envelope list \<Rightarrow> Envelope list" where
  "strip_images_when_unsupported modalities items =
     (if ImageModality \<in> set modalities then items
      else map (\<lambda>e. e\<lparr>env_item := strip_image (env_item e)\<rparr>) items)"

fun strip_audio :: "ResponseItem \<Rightarrow> ResponseItem" where
  "strip_audio (FunctionCallOutput i c n ns out m) =
     FunctionCallOutput i c n ns (strip_payload is_output_audio AUDIO_TEXT out) m"
| "strip_audio (CustomToolCallOutput i c n out m) =
     CustomToolCallOutput i c n (strip_payload is_output_audio AUDIO_TEXT out) m"
| "strip_audio it = strip_message is_audio AUDIO_TEXT AUDIO_KIND it"

definition strip_audio_when_unsupported ::
  "InputModality list \<Rightarrow> Envelope list \<Rightarrow> Envelope list" where
  "strip_audio_when_unsupported modalities items =
     (if AudioModality \<in> set modalities then items
      else map (\<lambda>e. e\<lparr>env_item := strip_audio (env_item e)\<rparr>) items)"

definition normalize_history ::
  "bool \<Rightarrow> (ustring \<Rightarrow> ustring) \<Rightarrow> InputModality list \<Rightarrow> Envelope list \<Rightarrow> Envelope list option" where
  "normalize_history debug new_v5 modalities items =
     Option.bind (ensure_call_outputs_present debug new_v5 items) (\<lambda>items.
     Option.bind (remove_orphan_outputs debug items) (\<lambda>items.
     Some (strip_audio_when_unsupported modalities
       (strip_images_when_unsupported modalities items))))"

section \<open>Calls and outputs of a history\<close>

datatype CallKind = FunctionKind | SearchKind | CustomKind

definition call_key :: "ResponseItem \<Rightarrow> (CallKind \<times> ustring) option" where
  "call_key it =
     (case function_call_id it of
        Some c \<Rightarrow> Some (FunctionKind, c)
      | None \<Rightarrow>
          (case tool_search_call_id it of
             Some c \<Rightarrow> Some (SearchKind, c)
           | None \<Rightarrow> map_option (Pair CustomKind) (custom_tool_call_id it)))"

definition output_key :: "ResponseItem \<Rightarrow> (CallKind \<times> ustring) option" where
  "output_key it =
     (case function_output_id it of
        Some c \<Rightarrow> Some (FunctionKind, c)
      | None \<Rightarrow>
          (case tool_search_output_id it of
             Some c \<Rightarrow> Some (SearchKind, c)
           | None \<Rightarrow> map_option (Pair CustomKind) (custom_tool_output_id it)))"

fun is_server_output :: "ResponseItem \<Rightarrow> bool" where
  "is_server_output (ToolSearchOutput _ _ _ execution _ _) = (execution = lit ''server'')"
| "is_server_output _ = False"

definition call_of :: "Envelope \<Rightarrow> (CallKind \<times> ustring) option" where
  "call_of e = call_key (env_item e)"

definition output_of :: "Envelope \<Rightarrow> (CallKind \<times> ustring) option" where
  "output_of e = output_key (env_item e)"

definition served :: "Envelope \<Rightarrow> bool" where
  "served e = is_server_output (env_item e)"

definition answer_of :: "(ustring \<Rightarrow> ustring) \<Rightarrow> Envelope \<Rightarrow> Envelope" where
  "answer_of v5 e =
     (case missing_output v5 [] [] [] (env_item e) of
        None \<Rightarrow> e
      | Some (_, out) \<Rightarrow> envelope_new out)"

lemma call_key_simps [simp]:
  "call_key (FunctionCall x1a x1b x1c x1d x1e x1f x1g) = Some (FunctionKind, x1f)"
  "call_key (LocalShellCall x2a x2b x2c x2d x2e) = map_option (Pair FunctionKind) x2b"
  "call_key (ToolSearchCall x3a x3b x3c x3d x3e x3f) = map_option (Pair SearchKind) x3b"
  "call_key (CustomToolCall x4a x4b x4c x4d x4e x4f x4g) = Some (CustomKind, x4c)"
  "call_key (AdditionalTools x5a x5b x5c) = None"
  "call_key (Message x6a x6b x6c x6d x6e) = None"
  "call_key (AgentMessage x7a x7b x7c x7d x7e) = None"
  "call_key (Reasoning x8a x8b x8c x8d x8e) = None"
  "call_key (FunctionCallOutput x9a x9b x9c x9d x9e x9f) = None"
  "call_key (CustomToolCallOutput x10a x10b x10c x10d x10e) = None"
  "call_key (ToolSearchOutput x11a x11b x11c x11d x11e x11f) = None"
  "call_key (WebSearchCall x12a x12b x12c x12d) = None"
  "call_key (ImageGenerationCall x13a x13b x13c x13d x13e) = None"
  "call_key (Compaction x14a x14b x14c) = None"
  "call_key CompactionTrigger = None"
  "call_key (ContextCompaction x16a x16b x16c) = None"
  "call_key Other = None"
  by (auto simp: call_key_def split: option.splits)

lemma output_key_simps [simp]:
  "output_key (FunctionCallOutput x1a x1b x1c x1d x1e x1f) = map_option (Pair FunctionKind) x1b"
  "output_key (CustomToolCallOutput x2a x2b x2c x2d x2e) = Some (CustomKind, x2b)"
  "output_key (ToolSearchOutput x3a x3b x3c x3d x3e x3f) = map_option (Pair SearchKind) x3b"
  "output_key (FunctionCall x4a x4b x4c x4d x4e x4f x4g) = None"
  "output_key (LocalShellCall x5a x5b x5c x5d x5e) = None"
  "output_key (ToolSearchCall x6a x6b x6c x6d x6e x6f) = None"
  "output_key (CustomToolCall x7a x7b x7c x7d x7e x7f x7g) = None"
  "output_key (AdditionalTools x8a x8b x8c) = None"
  "output_key (Message x9a x9b x9c x9d x9e) = None"
  "output_key (AgentMessage x10a x10b x10c x10d x10e) = None"
  "output_key (Reasoning x11a x11b x11c x11d x11e) = None"
  "output_key (WebSearchCall x12a x12b x12c x12d) = None"
  "output_key (ImageGenerationCall x13a x13b x13c x13d x13e) = None"
  "output_key (Compaction x14a x14b x14c) = None"
  "output_key CompactionTrigger = None"
  "output_key (ContextCompaction x16a x16b x16c) = None"
  "output_key Other = None"
  by (auto simp: output_key_def split: option.splits)

lemma call_key_ids:
  "call_key it = Some (FunctionKind, c) \<longleftrightarrow> function_call_id it = Some c"
  "call_key it = Some (SearchKind, c) \<longleftrightarrow> tool_search_call_id it = Some c"
  "call_key it = Some (CustomKind, c) \<longleftrightarrow> custom_tool_call_id it = Some c"
  by (cases it; auto)+

lemma output_key_ids:
  "output_key it = Some (FunctionKind, c) \<longleftrightarrow> function_output_id it = Some c"
  "output_key it = Some (SearchKind, c) \<longleftrightarrow> tool_search_output_id it = Some c"
  "output_key it = Some (CustomKind, c) \<longleftrightarrow> custom_tool_output_id it = Some c"
  by (cases it; auto)+

text \<open>A missing output is the answer to a call whose key no output has.\<close>

lemma missing_output_call:
  "missing_output v5 fs ts cs it =
     (case call_key it of
        None \<Rightarrow> None
      | Some (kind, c) \<Rightarrow>
          if c \<in> set (case kind of FunctionKind \<Rightarrow> fs | SearchKind \<Rightarrow> ts | CustomKind \<Rightarrow> cs) then None
          else missing_output v5 [] [] [] it)"
  by (cases "(v5, fs, ts, cs, it)" rule: missing_output.cases) auto

lemma missing_output_answer:
  "call_key it = Some k \<Longrightarrow> \<exists>err out. missing_output v5 [] [] [] it = Some (err, out) \<and> output_key out = Some k"
  by (cases "(v5, [] :: ustring list, [] :: ustring list, [] :: ustring list, it)"
      rule: missing_output.cases) auto

interpretation history: call_pairing call_of output_of served "answer_of v5" for v5
proof unfold_locales
  show "call_of e = None \<or> output_of e = None" for e
    unfolding call_of_def output_of_def by (cases "env_item e") simp_all
  show "output_of (answer_of v5 e) = Some k" if "call_of e = Some k" for e k
    using missing_output_answer [of "env_item e" k v5] that
    by (auto simp: answer_of_def output_of_def call_of_def envelope_new_def)
qed

lemma ids_keys:
  "c \<in> set (ids function_output_id items) \<longleftrightarrow> (FunctionKind, c) \<in> set (keys output_of items)"
  "c \<in> set (ids tool_search_output_id items) \<longleftrightarrow> (SearchKind, c) \<in> set (keys output_of items)"
  "c \<in> set (ids custom_tool_output_id items) \<longleftrightarrow> (CustomKind, c) \<in> set (keys output_of items)"
  "c \<in> set (ids function_call_id items) \<longleftrightarrow> (FunctionKind, c) \<in> set (keys call_of items)"
  "c \<in> set (ids tool_search_call_id items) \<longleftrightarrow> (SearchKind, c) \<in> set (keys call_of items)"
  "c \<in> set (ids custom_tool_call_id items) \<longleftrightarrow> (CustomKind, c) \<in> set (keys call_of items)"
  unfolding ids_def keys_def [symmetric] set_keys
  by (simp_all add: output_of_def call_of_def output_key_ids call_key_ids)

section \<open>The index lists compute the reference operations\<close>

lemma insert_outputs_aux:
  "insert_outputs (missing_outputs missing (length pre) es) (pre @ es) =
   pre @ concat (map (\<lambda>e. case missing (env_item e) of
       None \<Rightarrow> [e] | Some (_, out) \<Rightarrow> [e, envelope_new out]) es)"
proof (induction es arbitrary: pre)
  case Nil
  then show ?case
    by (simp add: insert_outputs_def)
next
  case (Cons e es)
  from Cons [of "pre @ [e]"] show ?case
    by (auto simp: insert_outputs_def vec_insert_def split: option.splits)
qed

lemma insert_outputs_eq:
  "insert_outputs (missing_outputs missing 0 items) items =
   concat (map (\<lambda>e. case missing (env_item e) of
       None \<Rightarrow> [e] | Some (_, out) \<Rightarrow> [e, envelope_new out]) items)"
  using insert_outputs_aux [of missing "[]" items] by simp

lemma ensure_with_answers:
  assumes "ensure_call_outputs_present debug v5 items = Some out"
  shows "out = with_answers call_of output_of (answer_of v5) items"
proof -
  let ?missing = "missing_output v5 (ids function_output_id items) (ids tool_search_output_id items)
    (ids custom_tool_output_id items)"
  have "(case ?missing (env_item e) of None \<Rightarrow> [e] | Some (_, out) \<Rightarrow> [e, envelope_new out]) =
      (case call_of e of None \<Rightarrow> [e]
       | Some k \<Rightarrow> if k \<in> set (keys output_of items) then [e] else [e, answer_of v5 e])" for e
  proof (cases "call_key (env_item e)")
    case None
    then show ?thesis
      by (subst missing_output_call) (simp add: call_of_def)
  next
    case (Some k)
    obtain kind c where k: "k = (kind, c)"
      by (cases k)
    obtain err out where "missing_output v5 [] [] [] (env_item e) = Some (err, out)"
      using missing_output_answer [OF Some] by blast
    then show ?thesis
      using Some k
      by (subst missing_output_call) (cases kind; simp add: call_of_def answer_of_def ids_keys)
  qed
  then show ?thesis
    using assms
    by (auto simp: ensure_call_outputs_present_def Let_def insert_outputs_eq with_answers_def
        split: if_splits)
qed

lemma orphan_positions_ge: "p \<in> set (orphan_positions orphan n es) \<Longrightarrow> n \<le> p"
  by (induction es arbitrary: n) (auto split: if_splits dest: Suc_leD)

lemma retain_positions_filter:
  "retain_positions (orphan_positions orphan n es) n es = filter (\<lambda>e. \<not> orphan (env_item e)) es"
proof (induction es arbitrary: n)
  case (Cons e es)
  have "retain_positions (orphan_positions orphan (n + 1) es) n (e # es) =
      e # retain_positions (orphan_positions orphan (n + 1) es) (n + 1) es"
  proof (cases "orphan_positions orphan (n + 1) es")
    case (Cons p ps)
    then have "n + 1 \<le> p"
      using orphan_positions_ge [of p orphan "n + 1" es] by simp
    then show ?thesis
      using Cons by simp
  qed simp
  then show ?case
    using Cons [of "n + 1"]
    by (cases "orphan (env_item e)") (simp, simp del: retain_positions.simps(2) One_nat_def add_Suc_right)
qed simp

lemma orphan_positions_empty:
  "orphan_positions orphan n es = [] \<longleftrightarrow> list_all (\<lambda>e. \<not> orphan (env_item e)) es"
  by (induction es arbitrary: n) auto

lemma is_orphan_key:
  "is_orphan fs ts cs it \<longleftrightarrow>
     (case output_key it of
        None \<Rightarrow> False
      | Some (kind, c) \<Rightarrow> \<not> is_server_output it \<and>
          c \<notin> set (case kind of FunctionKind \<Rightarrow> fs | SearchKind \<Rightarrow> ts | CustomKind \<Rightarrow> cs))"
  by (cases "(fs, ts, cs, it)" rule: is_orphan.cases) auto

lemma is_orphan_of:
  "is_orphan (ids function_call_id items) (ids tool_search_call_id items)
     (ids custom_tool_call_id items) (env_item e) \<longleftrightarrow>
   \<not> (case output_of e of None \<Rightarrow> True | Some k \<Rightarrow> served e \<or> k \<in> set (keys call_of items))"
proof (cases "output_key (env_item e)")
  case (Some k)
  obtain kind c where k: "k = (kind, c)"
    by (cases k)
  then show ?thesis
    using Some unfolding is_orphan_key by (cases kind; simp add: output_of_def served_def ids_keys)
qed (simp add: is_orphan_key output_of_def)

lemma remove_without_orphans:
  assumes "remove_orphan_outputs debug items = Some out"
  shows "out = without_orphans call_of output_of served items"
proof -
  have f: "filter (\<lambda>e. \<not> is_orphan (ids function_call_id items) (ids tool_search_call_id items)
      (ids custom_tool_call_id items) (env_item e)) items = without_orphans call_of output_of served items"
    unfolding without_orphans_def is_orphan_of by simp
  show ?thesis
  proof (cases "orphan_positions (is_orphan (ids function_call_id items) (ids tool_search_call_id items)
      (ids custom_tool_call_id items)) 0 items = []")
    case True
    then have "without_orphans call_of output_of served items = items"
      unfolding f [symmetric] orphan_positions_empty by (intro filter_True) (simp add: list_all_iff)
    then show ?thesis
      using assms True by (simp add: remove_orphan_outputs_def)
  next
    case False
    then show ?thesis
      using assms unfolding remove_orphan_outputs_def Let_def retain_positions_filter f
      by (simp split: if_splits)
  qed
qed

section \<open>Stripping media\<close>

definition payload_free ::
  "(FunctionCallOutputContentItem \<Rightarrow> bool) \<Rightarrow> FunctionCallOutputPayload \<Rightarrow> bool" where
  "payload_free medium out =
     (case out_body out of BodyText _ \<Rightarrow> True | ContentItems xs \<Rightarrow> list_all (\<lambda>c. \<not> medium c) xs)"

fun image_free :: "ResponseItem \<Rightarrow> bool" where
  "image_free (Message _ _ content _ _) = list_all (\<lambda>c. \<not> is_image c) content"
| "image_free (FunctionCallOutput _ _ _ _ out _) = payload_free is_output_image out"
| "image_free (CustomToolCallOutput _ _ _ out _) = payload_free is_output_image out"
| "image_free (ImageGenerationCall _ _ _ res _) = (res = [])"
| "image_free _ = True"

fun audio_free :: "ResponseItem \<Rightarrow> bool" where
  "audio_free (Message _ _ content _ _) = list_all (\<lambda>c. \<not> is_audio c) content"
| "audio_free (FunctionCallOutput _ _ _ _ out _) = payload_free is_output_audio out"
| "audio_free (CustomToolCallOutput _ _ _ out _) = payload_free is_output_audio out"
| "audio_free _ = True"

text \<open>A message whose classifications are aligned with its content.\<close>

fun annotated :: "ResponseItem \<Rightarrow> bool" where
  "annotated (Message _ _ content _ m) =
     (case Option.bind m content_item_kinds of None \<Rightarrow> False | Some ks \<Rightarrow> length ks = length content)"
| "annotated _ = True"

text \<open>The content of a message after stripping.\<close>

abbreviation replace_medium ::
  "(ContentItem \<Rightarrow> bool) \<Rightarrow> ustring \<Rightarrow> content_kind \<Rightarrow> ContentItem \<times> content_kind \<Rightarrow> ContentItem \<times> content_kind"
  where "replace_medium medium t kind \<equiv> (\<lambda>(c, k). if medium c then (InputText t, kind) else (c, k))"

lemma strip_message_other [simp]:
  "to_annotated_content it = None \<Longrightarrow> strip_message medium t kind it = it"
  by (simp add: strip_message_def)

lemma strip_message_Message:
  "\<exists>content' m'. strip_message medium t kind (Message i r content p m) = Message i r content' p (Some m') \<and>
     content' = map (\<lambda>c. if medium c then InputText t else c) content \<and>
     (\<exists>ks. content_item_kinds m' = Some ks \<and> length ks = length content)"
proof -
  have "map (fst \<circ> replace_medium medium t kind) (zip_kinds cs ks) =
      map (\<lambda>c. if medium c then InputText t else c) cs" for cs ks
    by (induction cs ks rule: zip_kinds.induct) auto
  then show ?thesis
    by (simp add: strip_message_def)
qed

lemma zip_kinds_fst_snd:
  "length ks = length cs \<Longrightarrow> map fst (zip_kinds cs ks) = cs \<and> map snd (zip_kinds cs ks) = ks"
  by (induction cs ks rule: zip_kinds.induct) auto

lemma strip_message_id:
  assumes "case Option.bind m content_item_kinds of None \<Rightarrow> False | Some ks \<Rightarrow> length ks = length content"
    and "list_all (\<lambda>c. \<not> medium c) content"
  shows "strip_message medium t kind (Message i r content p m) = Message i r content p m"
proof -
  obtain m' ks where m: "m = Some m'" "content_item_kinds m' = Some ks" "length ks = length content"
    using assms(1) by (cases m) (auto split: option.splits)
  have "list_all (\<lambda>c. \<not> medium c) cs \<Longrightarrow>
      map (replace_medium medium t kind) (zip_kinds cs ks) = zip_kinds cs ks" for cs ks
    by (induction cs ks rule: zip_kinds.induct) auto
  then have "map (replace_medium medium t kind) (zip_kinds content ks) = zip_kinds content ks"
    using assms(2) by blast
  then show ?thesis
    using m zip_kinds_fst_snd [of ks content] by (simp add: strip_message_def get_or_insert_default_def)
qed

lemma strip_payload_free: "\<not> medium (OutInputText t) \<Longrightarrow> payload_free medium (strip_payload medium t out)"
  by (auto simp: payload_free_def strip_payload_def list_all_iff split: FunctionCallOutputBody.splits)

lemma strip_payload_id: "payload_free medium out \<Longrightarrow> strip_payload medium t out = out"
  by (cases out) (auto simp: payload_free_def strip_payload_def list_all_iff map_idI
      split: FunctionCallOutputBody.splits)

lemma strip_payload_other:
  "payload_free m1 out \<Longrightarrow> \<not> m1 (OutInputText t) \<Longrightarrow> payload_free m1 (strip_payload m2 t out)"
  by (auto simp: payload_free_def strip_payload_def list_all_iff split: FunctionCallOutputBody.splits)

lemma strip_image_free: "image_free (strip_image it)" "annotated (strip_image it)"
proof -
  show "image_free (strip_image it)"
  proof (cases it)
    case (Message i r content p m)
    then show ?thesis
      using strip_message_Message [of is_image IMAGE_TEXT IMAGE_KIND i r content p m]
      by (auto simp: list_all_iff)
  qed (simp_all add: strip_payload_free)
  show "annotated (strip_image it)"
  proof (cases it)
    case (Message i r content p m)
    then show ?thesis
      using strip_message_Message [of is_image IMAGE_TEXT IMAGE_KIND i r content p m] by auto
  qed simp_all
qed

lemma strip_audio_free: "audio_free (strip_audio it)" "annotated (strip_audio it)"
proof -
  show "audio_free (strip_audio it)"
  proof (cases it)
    case (Message i r content p m)
    then show ?thesis
      using strip_message_Message [of is_audio AUDIO_TEXT AUDIO_KIND i r content p m]
      by (auto simp: list_all_iff)
  qed (simp_all add: strip_payload_free)
  show "annotated (strip_audio it)"
  proof (cases it)
    case (Message i r content p m)
    then show ?thesis
      using strip_message_Message [of is_audio AUDIO_TEXT AUDIO_KIND i r content p m] by auto
  qed simp_all
qed

lemma strip_audio_keeps_image_free: "image_free it \<Longrightarrow> image_free (strip_audio it)"
proof (cases it)
  case (Message i r content p m)
  then show "image_free it \<Longrightarrow> image_free (strip_audio it)"
    using strip_message_Message [of is_audio AUDIO_TEXT AUDIO_KIND i r content p m]
    by (auto simp: list_all_iff)
qed (simp_all add: strip_payload_other)

lemma strip_image_id: "image_free it \<Longrightarrow> annotated it \<Longrightarrow> strip_image it = it"
  by (cases it) (simp_all add: strip_payload_id strip_message_id)

lemma strip_audio_id: "audio_free it \<Longrightarrow> annotated it \<Longrightarrow> strip_audio it = it"
  by (cases it) (simp_all add: strip_payload_id strip_message_id)

lemma strip_keys [simp]:
  "call_key (strip_image it) = call_key it" "output_key (strip_image it) = output_key it"
  "is_server_output (strip_image it) = is_server_output it"
  "call_key (strip_audio it) = call_key it" "output_key (strip_audio it) = output_key it"
  "is_server_output (strip_audio it) = is_server_output it"
proof -
  have "\<exists>content' m'. strip_image (Message i r content p m) = Message i r content' p m' "
    "\<exists>content' m'. strip_audio (Message i r content p m) = Message i r content' p m'"
    for i r content p m
    using strip_message_Message [of is_image IMAGE_TEXT IMAGE_KIND i r content p m]
      strip_message_Message [of is_audio AUDIO_TEXT AUDIO_KIND i r content p m] by auto
  then have "call_key (strip_image it) = call_key it \<and> output_key (strip_image it) = output_key it \<and>
    is_server_output (strip_image it) = is_server_output it \<and>
    call_key (strip_audio it) = call_key it \<and> output_key (strip_audio it) = output_key it \<and>
    is_server_output (strip_audio it) = is_server_output it"
    by (cases it) (simp_all, (metis call_key_simps(6) output_key_simps(9) is_server_output.simps(3)))
  then show "call_key (strip_image it) = call_key it" "output_key (strip_image it) = output_key it"
    "is_server_output (strip_image it) = is_server_output it"
    "call_key (strip_audio it) = call_key it" "output_key (strip_audio it) = output_key it"
    "is_server_output (strip_audio it) = is_server_output it"
    by blast+
qed

section \<open>The whole normalization\<close>

abbreviation strip_envelope :: "(ResponseItem \<Rightarrow> ResponseItem) \<Rightarrow> Envelope \<Rightarrow> Envelope" where
  "strip_envelope f e \<equiv> e\<lparr>env_item := f (env_item e)\<rparr>"

text \<open>What stripping does to one item under the given modalities.\<close>

definition strip_media :: "InputModality list \<Rightarrow> ResponseItem \<Rightarrow> ResponseItem" where
  "strip_media modalities it =
     (let it' = (if ImageModality \<in> set modalities then it else strip_image it)
      in if AudioModality \<in> set modalities then it' else strip_audio it')"

lemma strip_both:
  "strip_audio_when_unsupported modalities (strip_images_when_unsupported modalities items) =
   map (strip_envelope (strip_media modalities)) items"
  by (simp add: strip_audio_when_unsupported_def strip_images_when_unsupported_def strip_media_def Let_def)

lemma strip_media_keys:
  "call_of (strip_envelope (strip_media ms) e) = call_of e"
  "output_of (strip_envelope (strip_media ms) e) = output_of e"
  "served (strip_envelope (strip_media ms) e) = served e"
  by (simp_all add: call_of_def output_of_def served_def strip_media_def Let_def)

lemma strip_media_free:
  "ImageModality \<notin> set ms \<Longrightarrow> image_free (strip_media ms it)"
  "AudioModality \<notin> set ms \<Longrightarrow> audio_free (strip_media ms it)"
  by (auto simp: strip_media_def Let_def strip_image_free strip_audio_free strip_audio_keeps_image_free)

lemma strip_media_idem: "strip_media ms (strip_media ms it) = strip_media ms it"
  by (simp add: strip_media_def Let_def strip_image_id strip_audio_id strip_image_free strip_audio_free
      strip_audio_keeps_image_free)

lemma keys_strip:
  "keys call_of (map (strip_envelope (strip_media ms)) items) = keys call_of items"
  "keys output_of (map (strip_envelope (strip_media ms)) items) = keys output_of items"
  by (rule keys_map, rule strip_media_keys)+

lemma paired_strip:
  "calls_answered call_of output_of (map (strip_envelope (strip_media ms)) items) =
     calls_answered call_of output_of items"
  "outputs_called call_of output_of served (map (strip_envelope (strip_media ms)) items) =
     outputs_called call_of output_of served items"
proof -
  show "calls_answered call_of output_of (map (strip_envelope (strip_media ms)) items) =
      calls_answered call_of output_of items"
    by (simp add: calls_answered_def keys_strip)
  have "filter (\<lambda>e. \<not> served e) (map (strip_envelope (strip_media ms)) items) =
      map (strip_envelope (strip_media ms)) (filter (\<lambda>e. \<not> served e) items)"
    unfolding filter_map comp_def strip_media_keys by simp
  then show "outputs_called call_of output_of served (map (strip_envelope (strip_media ms)) items) =
      outputs_called call_of output_of served items"
    by (simp add: outputs_called_def keys_strip)
qed

text \<open>The normalization in one equation: the index lists and the build mode are gone.\<close>

lemma normalize_history_eq:
  assumes "normalize_history debug v5 ms items = Some out"
  shows "out = map (strip_envelope (strip_media ms))
    (without_orphans call_of output_of served (with_answers call_of output_of (answer_of v5) items))"
  using assms unfolding normalize_history_def strip_both
  by (auto simp: bind_eq_Some_conv dest!: ensure_with_answers remove_without_orphans)

text \<open>C5: In a normalized history every call has an output with its id and kind, every output that
  names a call has that call, unless it is the result of a search the server ran, and no medium that
  the model does not support is left in any message or tool output.\<close>

theorem normalized_history_paired:
  assumes "normalize_history debug new_v5 modalities items = Some out"
  shows "calls_answered call_of output_of out \<and> outputs_called call_of output_of served out \<and>
    (ImageModality \<in> set modalities \<or> list_all (\<lambda>e. image_free (env_item e)) out) \<and>
    (AudioModality \<in> set modalities \<or> list_all (\<lambda>e. audio_free (env_item e)) out)"
  unfolding normalize_history_eq [OF assms] paired_strip
  using history.normalize_paired [of new_v5 items]
  by (auto simp: list_all_iff strip_media_free)

lemma missing_output_iff:
  "missing_output v5 (ids function_output_id items) (ids tool_search_output_id items)
     (ids custom_tool_output_id items) (env_item e) = None \<longleftrightarrow>
   (case call_of e of None \<Rightarrow> True | Some k \<Rightarrow> k \<in> set (keys output_of items))"
proof (cases "call_key (env_item e)")
  case (Some k)
  obtain kind c where k: "k = (kind, c)"
    by (cases k)
  then show ?thesis
    using Some missing_output_answer [OF Some, of v5]
    by (subst missing_output_call) (cases kind; auto simp: ids_keys call_of_def)
qed (subst missing_output_call, simp add: call_of_def)

lemma ensure_answered:
  assumes "calls_answered call_of output_of items"
  shows "ensure_call_outputs_present debug v5 items = Some items"
proof -
  let ?missing = "missing_output v5 (ids function_output_id items) (ids tool_search_output_id items)
    (ids custom_tool_output_id items)"
  have "?missing (env_item e) = None" if "e \<in> set items" for e
    using assms that keysI [of e items call_of]
    by (auto simp: missing_output_iff calls_answered_def list_all_iff split: option.splits)
  then have "missing_outputs ?missing n es = []" if "set es \<subseteq> set items" for n es
    using that by (induction es arbitrary: n) auto
  then show ?thesis
    by (simp add: ensure_call_outputs_present_def insert_outputs_def)
qed

lemma remove_orphans_called:
  assumes "outputs_called call_of output_of served items"
  shows "remove_orphan_outputs debug items = Some items"
proof -
  have "list_all (\<lambda>e. \<not> is_orphan (ids function_call_id items) (ids tool_search_call_id items)
      (ids custom_tool_call_id items) (env_item e)) items"
    unfolding is_orphan_of list_all_iff using outputs_calledD [OF assms] by (auto split: option.splits)
  then show ?thesis
    by (simp add: remove_orphan_outputs_def orphan_positions_empty [symmetric, where n = 0])
qed

text \<open>Normalizing a normalized history changes nothing, and does not panic in any build.\<close>

theorem normalize_history_stable:
  assumes "normalize_history debug new_v5 modalities items = Some out"
  shows "normalize_history debug' new_v5 modalities out = Some out"
proof -
  have "calls_answered call_of output_of out" "outputs_called call_of output_of served out"
    unfolding normalize_history_eq [OF assms] paired_strip by (rule history.normalize_paired)+
  moreover have "map (strip_envelope (strip_media modalities)) out = out"
    unfolding normalize_history_eq [OF assms] by (simp add: strip_media_idem)
  ultimately show ?thesis
    by (simp add: normalize_history_def strip_both ensure_answered remove_orphans_called)
qed

text \<open>The items that are not outputs are all kept, in order; only their media are stripped.\<close>

lemma not_output_with_answers:
  "filter (\<lambda>e. output_of e = None) (with_answers call_of output_of (answer_of v5) items) =
   filter (\<lambda>e. output_of e = None) items"
proof -
  have "filter (\<lambda>e. output_of e = None) (concat (map (\<lambda>e. case call_of e of
      None \<Rightarrow> [e] | Some k \<Rightarrow> if k \<in> S then [e] else [e, answer_of v5 e]) es)) =
    filter (\<lambda>e. output_of e = None) es" for S es
    by (induction es) (auto simp: history.answer_output split: option.splits)
  then show ?thesis
    by (simp add: with_answers_def)
qed

lemma not_output_without_orphans:
  "filter (\<lambda>e. output_of e = None) (without_orphans call_of output_of served items) =
   filter (\<lambda>e. output_of e = None) items"
  unfolding without_orphans_def filter_filter by (rule filter_cong) (auto split: option.splits)

text \<open>Normalization never drops, duplicates or reorders anything but tool outputs: the other items
  of the result are those of the history, in order, with unsupported media replaced.\<close>

theorem normalize_history_keeps:
  assumes "normalize_history debug new_v5 modalities items = Some out"
  shows "filter (\<lambda>e. output_of e = None) out =
    map (\<lambda>e. e\<lparr>env_item := strip_media modalities (env_item e)\<rparr>)
      (filter (\<lambda>e. output_of e = None) items)"
  unfolding normalize_history_eq [OF assms] filter_map comp_def strip_media_keys
    not_output_without_orphans not_output_with_answers ..

section \<open>Panics\<close>

text \<open>Calls whose output is expected to be present always.\<close>

fun always_answered :: "ResponseItem \<Rightarrow> bool" where
  "always_answered (CustomToolCall _ _ _ _ _ _ _) = True"
| "always_answered (LocalShellCall _ _ _ _ _) = True"
| "always_answered _ = False"

definition anomalous :: "Envelope list \<Rightarrow> bool" where
  "anomalous items \<longleftrightarrow>
     list_ex (\<lambda>e. always_answered (env_item e) \<and>
        (case call_of e of None \<Rightarrow> False | Some k \<Rightarrow> k \<notin> set (keys output_of items))) items \<or>
     list_ex (\<lambda>e. \<not> served e \<and>
        (case output_of e of None \<Rightarrow> False | Some k \<Rightarrow> k \<notin> set (keys call_of items))) items"

lemma missing_output_err:
  "missing_output v5 fs ts cs it = Some (err, out) \<Longrightarrow> err = always_answered it"
  by (cases "(v5, fs, ts, cs, it)" rule: missing_output.cases) (auto split: if_splits)

lemma missing_outputs_err:
  "(\<exists>(_, err, _) \<in> set (missing_outputs missing n es). err) \<longleftrightarrow>
   (\<exists>e\<in>set es. \<exists>out. missing (env_item e) = Some (True, out))"
proof (induction es arbitrary: n)
  case (Cons e es)
  then show ?case
    by (cases "missing (env_item e)") (simp_all add: case_prod_unfold prod_eq_iff)
qed simp

lemma ensure_panics_iff:
  "ensure_call_outputs_present debug v5 items = None \<longleftrightarrow>
   debug \<and> list_ex (\<lambda>e. always_answered (env_item e) \<and>
     (case call_of e of None \<Rightarrow> False | Some k \<Rightarrow> k \<notin> set (keys output_of items))) items"
proof -
  let ?missing = "missing_output v5 (ids function_output_id items) (ids tool_search_output_id items)
    (ids custom_tool_output_id items)"
  have "(\<exists>out. ?missing (env_item e) = Some (True, out)) \<longleftrightarrow> always_answered (env_item e) \<and>
      (case call_of e of None \<Rightarrow> False | Some k \<Rightarrow> k \<notin> set (keys output_of items))" for e
    using missing_output_iff [of v5 items e]
      missing_output_err [of v5 "ids function_output_id items" "ids tool_search_output_id items"
        "ids custom_tool_output_id items" "env_item e"]
    by (cases "?missing (env_item e)") (auto split: option.splits)
  then show ?thesis
    unfolding ensure_call_outputs_present_def Let_def missing_outputs_err list_ex_iff by auto
qed

lemma remove_orphans_panics_iff:
  "remove_orphan_outputs debug items = None \<longleftrightarrow>
   debug \<and> list_ex (\<lambda>e. \<not> served e \<and>
     (case output_of e of None \<Rightarrow> False | Some k \<Rightarrow> k \<notin> set (keys call_of items))) items"
  unfolding remove_orphan_outputs_def Let_def orphan_positions_empty
  by (auto simp: is_orphan_of list_all_iff list_ex_iff split: option.splits)

lemma orphans_with_answers:
  "list_ex (\<lambda>e. \<not> served e \<and> (case output_of e of None \<Rightarrow> False | Some k \<Rightarrow>
       k \<notin> set (keys call_of (with_answers call_of output_of (answer_of v5) items))))
     (with_answers call_of output_of (answer_of v5) items) \<longleftrightarrow>
   list_ex (\<lambda>e. \<not> served e \<and> (case output_of e of None \<Rightarrow> False | Some k \<Rightarrow>
       k \<notin> set (keys call_of items))) items"
proof -
  have "k \<in> set (keys call_of items)" if "e \<in> set items" "call_of e = Some k" for e k
    using that by (rule keysI)
  then show ?thesis
    unfolding history.call_keys_with_answers list_ex_iff history.set_with_answers
    by (auto simp: history.answer_output)
qed

text \<open>Normalization fails in exactly one situation: a build with debug assertions meets a custom
  tool call or local shell call without an output, or an output without its call. A release build
  normalizes every history.\<close>

theorem normalize_history_panics_iff:
  "normalize_history debug new_v5 modalities items = None \<longleftrightarrow> debug \<and> anomalous items"
proof (cases "ensure_call_outputs_present debug new_v5 items")
  case None
  then show ?thesis
    using ensure_panics_iff [of debug new_v5 items]
    by (auto simp: normalize_history_def anomalous_def)
next
  case (Some out)
  then have "out = with_answers call_of output_of (answer_of new_v5) items"
    by (rule ensure_with_answers)
  then show ?thesis
    using Some ensure_panics_iff [of debug new_v5 items]
    by (auto simp: normalize_history_def anomalous_def bind_eq_None_conv remove_orphans_panics_iff
        orphans_with_answers)
qed

section \<open>A concrete history\<close>

text \<open>A message with an image, a call without an output and an output without a call.\<close>

definition sample_history :: "Envelope list" where
  "sample_history =
     map envelope_new
       [Message None (lit ''user'') [InputImage (lit ''u'') None] None None,
        FunctionCall (Some (lit ''i'')) (lit ''f'') None (lit ''{}'') None (lit ''c1'') None,
        FunctionCallOutput None (Some (lit ''c9'')) None None (from_text (lit ''x'')) None]"

definition sample_normalized :: "Envelope list" where
  "sample_normalized =
     map envelope_new
       [Message None (lit ''user'') [InputText IMAGE_TEXT] None
          (Some (default_metadata\<lparr>content_item_kinds := Some [IMAGE_KIND]\<rparr>)),
        FunctionCall (Some (lit ''i'')) (lit ''f'') None (lit ''{}'') None (lit ''c1'') None,
        FunctionCallOutput (Some (lit ''fco_fco:i'')) (Some (lit ''c1'')) None None
          (from_text (lit ''aborted'')) None]"

lemma sample_normalizes:
  "normalize_history False (\<lambda>s. s) [TextModality] sample_history = Some sample_normalized"
  by code_simp

lemma normalized_history_paired_witness:
  "normalize_history False (\<lambda>s. s) [TextModality] sample_history = Some sample_normalized \<and>
   calls_answered call_of output_of sample_normalized \<and>
   outputs_called call_of output_of served sample_normalized \<and>
   list_all (\<lambda>e. image_free (env_item e)) sample_normalized"
  using sample_normalizes normalized_history_paired [OF sample_normalizes] by simp

lemma normalize_history_stable_witness:
  "normalize_history True (\<lambda>s. s) [TextModality] sample_normalized = Some sample_normalized"
  by (rule normalize_history_stable [OF sample_normalizes])

lemma normalize_history_keeps_witness:
  "filter (\<lambda>e. output_of e = None) sample_normalized =
     map (\<lambda>e. e\<lparr>env_item := strip_media [TextModality] (env_item e)\<rparr>)
       (filter (\<lambda>e. output_of e = None) sample_history)"
  by (rule normalize_history_keeps [OF sample_normalizes])

end
