(* ===== verification/Machine_Ints.thy ===== *)
theory Machine_Ints
  imports Rust_Prelude
begin

text \<open>
  The saturating arithmetic of Rust's 64-bit integers, on numbers: \<open>usize\<close> and \<open>u64\<close> values are
  natural numbers up to \<open>usize_max\<close>, \<open>i64\<close> values integers between \<open>i64_min\<close> and \<open>i64_max\<close>. The lemmas say
  when an operation is exact and that results stay in range.
\<close>

definition usize_max :: nat where
  "usize_max = 18446744073709551615"

definition sat_add :: "nat \<Rightarrow> nat \<Rightarrow> nat" where
  "sat_add a b = min (a + b) usize_max"

definition sat_mul :: "nat \<Rightarrow> nat \<Rightarrow> nat" where
  "sat_mul a b = min (a * b) usize_max"

definition i64_max :: int where
  "i64_max = 9223372036854775807"

definition i64_min :: int where
  "i64_min = - 9223372036854775808"

definition i64_clamp :: "int \<Rightarrow> int" where
  "i64_clamp x = (if x > i64_max then i64_max else if x < i64_min then i64_min else x)"

definition i64_sat_add :: "int \<Rightarrow> int \<Rightarrow> int" where
  "i64_sat_add a b = i64_clamp (a + b)"

definition i64_sat_sub :: "int \<Rightarrow> int \<Rightarrow> int" where
  "i64_sat_sub a b = i64_clamp (a - b)"

text \<open>\<open>i64::try_from(n).unwrap_or(i64::MAX)\<close> of an unsigned value.\<close>

definition i64_of_usize :: "nat \<Rightarrow> int" where
  "i64_of_usize n = (if int n \<le> i64_max then int n else i64_max)"

definition in_i64 :: "int \<Rightarrow> bool" where
  "in_i64 x \<longleftrightarrow> i64_min \<le> x \<and> x \<le> i64_max"

named_theorems i64_defs \<open>definitions of the 64-bit operations\<close>

declare i64_max_def [i64_defs] i64_min_def [i64_defs] i64_clamp_def [i64_defs]
  i64_sat_add_def [i64_defs] i64_sat_sub_def [i64_defs] i64_of_usize_def [i64_defs]
  in_i64_def [i64_defs]

lemma sat_add_exact: "a + b \<le> usize_max \<Longrightarrow> sat_add a b = a + b"
  by (simp add: sat_add_def)

lemma sat_mul_exact: "a * b \<le> usize_max \<Longrightarrow> sat_mul a b = a * b"
  by (simp add: sat_mul_def)

lemma sat_le [simp]: "sat_add a b \<le> usize_max" "sat_mul a b \<le> usize_max"
  by (simp_all add: sat_add_def sat_mul_def)

lemma sat_add_le: "sat_add a b \<le> a + b"
  by (simp add: sat_add_def)

lemma sat_add_mono: "a \<le> a' \<Longrightarrow> b \<le> b' \<Longrightarrow> sat_add a b \<le> sat_add a' b'"
  by (auto simp: sat_add_def min_def)

lemma sat_mul_mono: "a \<le> a' \<Longrightarrow> b \<le> b' \<Longrightarrow> sat_mul a b \<le> sat_mul a' b'"
  using mult_le_mono [of a a' b b'] by (auto simp: sat_mul_def min_def)

lemma in_i64_results [simp]:
  "in_i64 (i64_sat_add a b)" "in_i64 (i64_sat_sub a b)" "in_i64 (i64_of_usize n)" "in_i64 0"
  by (simp_all add: i64_defs)

lemma i64_sat_add_mono: "a \<le> a' \<Longrightarrow> b \<le> b' \<Longrightarrow> i64_sat_add a b \<le> i64_sat_add a' b'"
  by (auto simp: i64_defs)

lemma i64_sat_add_exact: "in_i64 (a + b) \<Longrightarrow> i64_sat_add a b = a + b"
  by (auto simp: i64_defs)

lemma i64_of_usize_nonneg [simp]: "0 \<le> i64_of_usize n"
  by (simp add: i64_defs)

lemma i64_sat_add_nonneg: "0 \<le> a \<Longrightarrow> 0 \<le> b \<Longrightarrow> 0 \<le> i64_sat_add a b"
  by (auto simp: i64_defs)

lemma i64_sat_add_ge: "0 \<le> b \<Longrightarrow> in_i64 a \<Longrightarrow> a \<le> i64_sat_add a b"
  by (auto simp: i64_defs)

end
