(* ===== verification/Truncation.thy ===== *)
theory Truncation
  imports Machine_Ints Response_Items
begin

text \<open>
  Truncation of tool output, after \<open>utils/string/src/truncate.rs\<close>, \<open>take_bytes_at_char_boundary\<close> of
  \<open>utils/string/src/lib.rs\<close>, \<open>utils/output-truncation/src/lib.rs\<close> and \<open>TruncationPolicy\<close> of
  \<open>protocol/src/protocol.rs\<close>.

  Budgets are in bytes, texts are sequences of characters. The code finds byte offsets in one pass
  and slices the text there; slicing off a character boundary would panic, which is \<open>None\<close> here. The
  lemmas show that it never happens, that what is kept are a prefix and a suffix within the budget,
  and that the marker counts exactly the characters left out.
\<close>

section \<open>Byte offsets\<close>

text \<open>\<open>&s[..n]\<close> and \<open>&s[n..]\<close>.\<close>

fun byte_split :: "nat \<Rightarrow> ustring \<Rightarrow> (ustring \<times> ustring) option" where
  "byte_split n [] = (if n = 0 then Some ([], []) else None)"
| "byte_split n (c # cs) =
     (if n = 0 then Some ([], c # cs)
      else if len_utf8 c \<le> n then
        map_option (\<lambda>(a, b). (c # a, b)) (byte_split (n - len_utf8 c) cs)
      else None)"

definition slice_to :: "ustring \<Rightarrow> nat \<Rightarrow> ustring option" where
  "slice_to s n = map_option fst (byte_split n s)"

definition slice_from :: "ustring \<Rightarrow> nat \<Rightarrow> ustring option" where
  "slice_from s n = map_option snd (byte_split n s)"

section \<open>Truncating a text\<close>

definition APPROX_BYTES_PER_TOKEN :: nat where
  "APPROX_BYTES_PER_TOKEN = 4"

definition approx_token_count :: "ustring \<Rightarrow> nat" where
  "approx_token_count t =
     sat_add (utf8_len t) (APPROX_BYTES_PER_TOKEN - 1) div APPROX_BYTES_PER_TOKEN"

definition approx_bytes_for_tokens :: "nat \<Rightarrow> nat" where
  "approx_bytes_for_tokens tokens = sat_mul tokens APPROX_BYTES_PER_TOKEN"

definition approx_tokens_from_byte_count :: "nat \<Rightarrow> nat" where
  "approx_tokens_from_byte_count bytes =
     sat_add bytes (APPROX_BYTES_PER_TOKEN - 1) div APPROX_BYTES_PER_TOKEN"

text \<open>The scan over the characters with their byte offsets: end of the prefix, start of the suffix if
  it has started, and the number of characters in between.\<close>

fun split_scan ::
  "nat \<Rightarrow> nat \<Rightarrow> nat \<Rightarrow> nat \<times> nat option \<times> nat \<Rightarrow> ustring \<Rightarrow> nat \<times> nat option \<times> nat" where
  "split_scan beginning tail_start idx st [] = st"
| "split_scan beginning tail_start idx (prefix_end, suffix_start, removed) (ch # rest) =
     (let char_end = idx + len_utf8 ch in
      split_scan beginning tail_start char_end
        (if char_end \<le> beginning then (char_end, suffix_start, removed)
         else if idx \<ge> tail_start then
           (prefix_end, (case suffix_start of None \<Rightarrow> Some idx | Some i \<Rightarrow> Some i), removed)
         else (prefix_end, suffix_start, sat_add removed 1))
        rest)"

definition split_string :: "ustring \<Rightarrow> nat \<Rightarrow> nat \<Rightarrow> (nat \<times> ustring \<times> ustring) option" where
  "split_string s beginning_bytes end_bytes =
     (if s = [] then Some (0, [], [])
      else
        (let len = utf8_len s;
             tail_start_target = len - end_bytes;
             (prefix_end, started, removed_chars) =
               split_scan beginning_bytes tail_start_target 0 (0, None, 0) s;
             suffix_start = (case started of None \<Rightarrow> len | Some i \<Rightarrow> i);
             suffix_start = (if suffix_start < prefix_end then prefix_end else suffix_start)
         in case (slice_to s prefix_end, slice_from s suffix_start) of
              (Some before, Some after) \<Rightarrow> Some (removed_chars, before, after)
            | _ \<Rightarrow> None))"

definition split_budget :: "nat \<Rightarrow> nat \<times> nat" where
  "split_budget budget = (let left = budget div 2 in (left, budget - left))"

text \<open>The ellipsis is the character U+2026.\<close>

definition format_truncation_marker :: "bool \<Rightarrow> nat \<Rightarrow> ustring" where
  "format_truncation_marker use_tokens removed_count =
     (if use_tokens then [8230] @ show_nat removed_count @ lit '' tokens truncated'' @ [8230]
      else [8230] @ show_nat removed_count @ lit '' chars truncated'' @ [8230])"

definition removed_units :: "bool \<Rightarrow> nat \<Rightarrow> nat \<Rightarrow> nat" where
  "removed_units use_tokens removed_bytes removed_chars =
     (if use_tokens then approx_tokens_from_byte_count removed_bytes else removed_chars)"

definition assemble_truncated_output :: "ustring \<Rightarrow> ustring \<Rightarrow> ustring \<Rightarrow> ustring" where
  "assemble_truncated_output pre suf marker = pre @ marker @ suf"

definition truncate_with_byte_estimate :: "ustring \<Rightarrow> nat \<Rightarrow> bool \<Rightarrow> ustring option" where
  "truncate_with_byte_estimate s max_bytes use_tokens =
     (if s = [] then Some []
      else if max_bytes = 0 then
        Some (format_truncation_marker use_tokens (removed_units use_tokens (utf8_len s) (length s)))
      else if utf8_len s \<le> max_bytes then Some s
      else
        (let (left_budget, right_budget) = split_budget max_bytes
         in map_option (\<lambda>(removed_chars, left, right).
              assemble_truncated_output left right
                (format_truncation_marker use_tokens
                   (removed_units use_tokens (utf8_len s - max_bytes) removed_chars)))
              (split_string s left_budget right_budget)))"

definition truncate_middle_chars :: "ustring \<Rightarrow> nat \<Rightarrow> ustring option" where
  "truncate_middle_chars s max_bytes = truncate_with_byte_estimate s max_bytes False"

definition truncate_middle_with_token_budget ::
  "ustring \<Rightarrow> nat \<Rightarrow> (ustring \<times> nat option) option" where
  "truncate_middle_with_token_budget s max_tokens =
     (if s = [] then Some ([], None)
      else if max_tokens > 0 \<and> utf8_len s \<le> approx_bytes_for_tokens max_tokens then Some (s, None)
      else map_option (\<lambda>truncated.
             if truncated = s then (truncated, None)
             else (truncated, Some (approx_token_count s)))
             (truncate_with_byte_estimate s (approx_bytes_for_tokens max_tokens) True))"

text \<open>A prefix within a byte budget.\<close>

fun last_boundary :: "nat \<Rightarrow> nat \<Rightarrow> nat \<Rightarrow> ustring \<Rightarrow> nat" where
  "last_boundary maxb idx last_ok [] = last_ok"
| "last_boundary maxb idx last_ok (ch # rest) =
     (let nb = idx + len_utf8 ch
      in if nb > maxb then last_ok else last_boundary maxb nb nb rest)"

definition take_bytes_at_char_boundary :: "ustring \<Rightarrow> nat \<Rightarrow> ustring option" where
  "take_bytes_at_char_boundary s maxb =
     (if utf8_len s \<le> maxb then Some s else slice_to s (last_boundary maxb 0 0 s))"

section \<open>Policies and tool output\<close>

datatype TruncationPolicy = Bytes nat | Tokens nat

fun token_budget :: "TruncationPolicy \<Rightarrow> nat" where
  "token_budget (Bytes bytes) = approx_tokens_from_byte_count bytes"
| "token_budget (Tokens tokens) = tokens"

fun byte_budget :: "TruncationPolicy \<Rightarrow> nat" where
  "byte_budget (Bytes bytes) = bytes"
| "byte_budget (Tokens tokens) = approx_bytes_for_tokens tokens"

fun truncate_text :: "ustring \<Rightarrow> TruncationPolicy \<Rightarrow> ustring option" where
  "truncate_text content (Bytes bytes) = truncate_middle_chars content bytes"
| "truncate_text content (Tokens tokens) =
     map_option fst (truncate_middle_with_token_budget content tokens)"

definition formatted_truncate_text :: "ustring \<Rightarrow> TruncationPolicy \<Rightarrow> ustring option" where
  "formatted_truncate_text content policy =
     (if utf8_len content \<le> byte_budget policy then Some content
      else map_option (\<lambda>res.
        lit ''Warning: truncated output (original token count: '' @
        show_nat (approx_token_count content) @ lit '')'' @ [nl] @ lit ''Total output lines: '' @
        show_nat (length (str_lines content)) @ [nl] @ [nl] @ res)
        (truncate_text content policy))"

fun text_segment_of :: "FunctionCallOutputContentItem \<Rightarrow> ustring option" where
  "text_segment_of (OutInputText t) = Some t"
| "text_segment_of _ = None"

fun combine_segments :: "ustring \<Rightarrow> ustring list \<Rightarrow> ustring" where
  "combine_segments combined [] = combined"
| "combine_segments combined (t # ts) =
     combine_segments ((if combined \<noteq> [] then combined @ [nl] else combined) @ t) ts"

definition formatted_truncate_text_content_items_with_policy ::
  "FunctionCallOutputContentItem list \<Rightarrow> TruncationPolicy \<Rightarrow>
   (FunctionCallOutputContentItem list \<times> nat option) option" where
  "formatted_truncate_text_content_items_with_policy items policy =
     (let segments = List.map_filter text_segment_of items in
      if segments = [] then Some (items, None)
      else
        (let combined = combine_segments [] segments in
         if utf8_len combined \<le> byte_budget policy then Some (items, None)
         else map_option (\<lambda>t.
                (OutInputText t # filter (\<lambda>it. text_segment_of it = None) items,
                 Some (approx_token_count combined)))
                (formatted_truncate_text combined policy)))"

fun policy_cost :: "TruncationPolicy \<Rightarrow> ustring \<Rightarrow> nat" where
  "policy_cost (Bytes _) t = utf8_len t"
| "policy_cost (Tokens _) t = approx_token_count t"

fun audio_cost :: "TruncationPolicy \<Rightarrow> nat \<Rightarrow> nat" where
  "audio_cost (Bytes _) tokens = approx_bytes_for_tokens tokens"
| "audio_cost (Tokens _) tokens = tokens"

fun policy_budget :: "TruncationPolicy \<Rightarrow> nat" where
  "policy_budget (Bytes n) = byte_budget (Bytes n)"
| "policy_budget (Tokens n) = token_budget (Tokens n)"

fun snippet_policy :: "TruncationPolicy \<Rightarrow> nat \<Rightarrow> TruncationPolicy" where
  "snippet_policy (Bytes _) remaining = Bytes remaining"
| "snippet_policy (Tokens _) remaining = Tokens remaining"

text \<open>The loop over the items with the remaining budget and the counts of omitted items; the result is
  what it appends to the output and the final counts.\<close>

fun truncate_loop ::
  "TruncationPolicy \<Rightarrow> (ustring \<Rightarrow> nat) \<Rightarrow> nat \<Rightarrow> nat \<Rightarrow> nat \<Rightarrow> FunctionCallOutputContentItem list \<Rightarrow>
   (FunctionCallOutputContentItem list \<times> nat \<times> nat) option" where
  "truncate_loop policy audio remaining ot oa [] = Some ([], ot, oa)"
| "truncate_loop policy audio remaining ot oa (OutInputText t # rest) =
     (if t = [] then truncate_loop policy audio remaining ot oa rest
      else if remaining = 0 then truncate_loop policy audio remaining (ot + 1) oa rest
      else if policy_cost policy t \<le> remaining then
        map_option (apfst ((#) (OutInputText t)))
          (truncate_loop policy audio (remaining - policy_cost policy t) ot oa rest)
      else
        Option.bind (truncate_text t (snippet_policy policy remaining)) (\<lambda>snippet.
          if snippet = [] then truncate_loop policy audio 0 (ot + 1) oa rest
          else map_option (apfst ((#) (OutInputText snippet)))
                 (truncate_loop policy audio 0 ot oa rest)))"
| "truncate_loop policy audio remaining ot oa (OutInputImage url detail # rest) =
     map_option (apfst ((#) (OutInputImage url detail))) (truncate_loop policy audio remaining ot oa rest)"
| "truncate_loop policy audio remaining ot oa (OutInputAudio url # rest) =
     (let cost = audio_cost policy (audio url) in
      if cost \<le> remaining then
        map_option (apfst ((#) (OutInputAudio url)))
          (truncate_loop policy audio (remaining - cost) ot oa rest)
      else truncate_loop policy audio remaining ot (oa + 1) rest)"
| "truncate_loop policy audio remaining ot oa (OutEncryptedContent enc # rest) =
     map_option (apfst ((#) (OutEncryptedContent enc))) (truncate_loop policy audio remaining ot oa rest)"

definition omission_notes :: "nat \<Rightarrow> nat \<Rightarrow> FunctionCallOutputContentItem list" where
  "omission_notes ot oa =
     (if ot > 0 then [OutInputText (lit ''[omitted '' @ show_nat ot @ lit '' text items ...]'')] else []) @
     (if oa > 0 then [OutInputText (lit ''[omitted '' @ show_nat oa @ lit '' audio items ...]'')] else [])"

definition truncate_function_output_items_with_policy ::
  "FunctionCallOutputContentItem list \<Rightarrow> TruncationPolicy \<Rightarrow> (ustring \<Rightarrow> nat) \<Rightarrow>
   FunctionCallOutputContentItem list option" where
  "truncate_function_output_items_with_policy items policy audio =
     map_option (\<lambda>(out, ot, oa). out @ omission_notes ot oa)
       (truncate_loop policy audio (policy_budget policy) 0 0 items)"

definition truncate_function_output_payload ::
  "FunctionCallOutputPayload \<Rightarrow> TruncationPolicy \<Rightarrow> (ustring \<Rightarrow> nat) \<Rightarrow>
   FunctionCallOutputPayload option" where
  "truncate_function_output_payload out policy audio =
     (case out_body out of
        BodyText t \<Rightarrow> map_option (\<lambda>t'. out\<lparr>out_body := BodyText t'\<rparr>) (truncate_text t policy)
      | ContentItems items \<Rightarrow>
          map_option (\<lambda>xs. out\<lparr>out_body := ContentItems xs\<rparr>)
            (truncate_function_output_items_with_policy items policy audio))"

definition approx_tokens_from_byte_count_i64 :: "int \<Rightarrow> int" where
  "approx_tokens_from_byte_count_i64 bytes =
     (if bytes \<le> 0 then 0 else i64_of_usize (approx_tokens_from_byte_count (nat bytes)))"

section \<open>Slices\<close>

lemma len_utf8_pos [simp]: "0 < len_utf8 c"
  by (simp add: len_utf8_def)

lemma utf8_len_simps [simp]:
  "utf8_len [] = 0" "utf8_len (c # s) = len_utf8 c + utf8_len s"
  "utf8_len (a @ b) = utf8_len a + utf8_len b"
  by (simp_all add: utf8_len_def)

lemma byte_split_append [simp]: "byte_split (utf8_len a) (a @ b) = Some (a, b)"
proof (induction a)
  case Nil
  show ?case
    by (cases b) simp_all
next
  case (Cons c a)
  have "len_utf8 c + utf8_len a \<noteq> 0"
    using len_utf8_pos [of c] by linarith
  then show ?case
    using Cons by simp
qed

lemma slice_append [simp]:
  "slice_to (a @ b) (utf8_len a) = Some a" "slice_from (a @ b) (utf8_len a) = Some b"
  by (simp_all add: slice_to_def slice_from_def)

section \<open>The scan\<close>

text \<open>The reference: the longest prefix within a budget, and the characters that start before an
  offset.\<close>

fun fit :: "nat \<Rightarrow> ustring \<Rightarrow> ustring" where
  "fit n [] = []"
| "fit n (c # s) = (if len_utf8 c \<le> n then c # fit (n - len_utf8 c) s else [])"

fun starting_before :: "nat \<Rightarrow> ustring \<Rightarrow> ustring" where
  "starting_before k [] = []"
| "starting_before k (c # s) = (if 0 < k then c # starting_before (k - len_utf8 c) s else [])"

lemma fit_split: "\<exists>rest. s = fit n s @ rest \<and> utf8_len (fit n s) \<le> n \<and>
    (rest = [] \<or> n < utf8_len (fit n s) + len_utf8 (hd rest))"
proof (induction n s rule: fit.induct)
  case (2 n c s)
  show ?case
  proof (cases "len_utf8 c \<le> n")
    case True
    then obtain rest where r: "s = fit (n - len_utf8 c) s @ rest"
      "utf8_len (fit (n - len_utf8 c) s) \<le> n - len_utf8 c"
      "rest = [] \<or> n - len_utf8 c < utf8_len (fit (n - len_utf8 c) s) + len_utf8 (hd rest)"
      using "2.IH" by blast
    have "c # s = fit n (c # s) @ rest"
      using r(1) True by simp
    then show ?thesis
      using r True by (intro exI [of _ rest]) auto
  qed simp
qed simp

lemma starting_before_split: "\<exists>rest. s = starting_before k s @ rest \<and>
    (rest = [] \<or> k \<le> utf8_len (starting_before k s))"
proof (induction k s rule: starting_before.induct)
  case (2 k c s)
  show ?case
  proof (cases "0 < k")
    case True
    then obtain rest where "s = starting_before (k - len_utf8 c) s @ rest"
      "rest = [] \<or> k - len_utf8 c \<le> utf8_len (starting_before (k - len_utf8 c) s)"
      using "2.IH" by blast
    then show ?thesis
      using True by (intro exI [of _ rest]) auto
  qed simp
qed simp

lemma split_scan_prefix:
  "idx + utf8_len a \<le> b \<Longrightarrow>
   split_scan b ts idx (p, None, r) (a @ s) =
   split_scan b ts (idx + utf8_len a) (if a = [] then p else idx + utf8_len a, None, r) s"
  by (induction a arbitrary: idx p) (auto simp: Let_def add.assoc)

lemma split_scan_suffix:
  "ts \<le> idx \<Longrightarrow> s = [] \<or> b < idx + len_utf8 (hd s) \<Longrightarrow>
   split_scan b ts idx (p, st, r) s =
   (p, (if s = [] then st else case st of None \<Rightarrow> Some idx | Some i \<Rightarrow> Some i), r)"
proof (induction s arbitrary: idx st)
  case (Cons c s)
  have "b < idx + len_utf8 c"
    using Cons.prems(2) by simp
  then show ?case
    using Cons.IH [of "idx + len_utf8 c"] Cons.prems(1)
    by (auto simp: Let_def split: option.splits)
qed simp

lemma split_scan_rest:
  "s = [] \<or> b < idx + len_utf8 (hd s) \<Longrightarrow> r \<le> usize_max \<Longrightarrow>
   split_scan b ts idx (p, None, r) s =
   (p,
    (if length (starting_before (ts - idx) s) < length s
     then Some (idx + utf8_len (starting_before (ts - idx) s)) else None),
    min (r + length (starting_before (ts - idx) s)) usize_max)"
proof (induction s arbitrary: idx r)
  case (Cons c s)
  have over: "b < idx + len_utf8 c"
    using Cons.prems(1) by simp
  show ?case
  proof (cases "idx < ts")
    case True
    have "split_scan b ts (idx + len_utf8 c) (p, None, sat_add r 1) s =
        (p,
         (if length (starting_before (ts - (idx + len_utf8 c)) s) < length s
          then Some (idx + len_utf8 c + utf8_len (starting_before (ts - (idx + len_utf8 c)) s)) else None),
         min (sat_add r 1 + length (starting_before (ts - (idx + len_utf8 c)) s)) usize_max)"
      using over by (intro Cons.IH) auto
    then show ?thesis
      using True over Cons.prems(2) by (auto simp: Let_def sat_add_def min_def)
  next
    case False
    then show ?thesis
      using split_scan_suffix [of ts idx "c # s" b p None r] over Cons.prems(2)
      by (simp del: split_scan.simps)
  qed
qed simp

text \<open>The pass over the text finds the longest prefix within the first budget and, after it, cuts out
  the characters that start before the second budget's offset.\<close>

lemma split_string_exact:
  assumes "length s \<le> usize_max"
  obtains before middle after where
    "s = before @ middle @ after" "before = fit b s" "utf8_len after \<le> e"
    "split_string s b e = Some (length middle, before, after)"
proof (cases "s = []")
  case True
  then show ?thesis
    using that [of "[]" "[]" "[]"] by (simp add: split_string_def)
next
  case False
  define before where "before = fit b s"
  obtain rest where rest: "s = before @ rest" "utf8_len before \<le> b"
    "rest = [] \<or> b < utf8_len before + len_utf8 (hd rest)"
    using fit_split [of s b] by (auto simp: before_def)
  define ts where "ts = utf8_len s - e"
  define middle where "middle = starting_before (ts - utf8_len before) rest"
  obtain after where after: "rest = middle @ after"
    "after = [] \<or> ts - utf8_len before \<le> utf8_len middle"
    using starting_before_split [of rest "ts - utf8_len before"] by (auto simp: middle_def)
  have len: "length middle \<le> usize_max" "0 \<le> usize_max"
    using assms rest(1) after(1) by auto
  have scan: "split_scan b ts 0 (0, None, 0) s =
      (utf8_len before, (if after = [] then None else Some (utf8_len before + utf8_len middle)),
       length middle)"
  proof -
    have "split_scan b ts 0 (0, None, 0) (before @ rest) =
        split_scan b ts (utf8_len before) (utf8_len before, None, 0) rest"
      using split_scan_prefix [of 0 before b ts 0 0 rest] rest(2) by (cases "before = []") auto
    also have "\<dots> = (utf8_len before,
        (if length middle < length rest then Some (utf8_len before + utf8_len middle) else None),
        min (0 + length middle) usize_max)"
      unfolding middle_def using rest(3) len(2) by (rule split_scan_rest)
    finally show ?thesis
      using rest(1) len(1) arg_cong [OF after(1), of length] by simp
  qed
  have s: "s = (before @ middle) @ after" "s = before @ middle @ after"
    using rest(1) after(1) by simp_all
  define start where "start = (if after = [] then utf8_len s else utf8_len before + utf8_len middle)"
  have start: "start = utf8_len (before @ middle)" "\<not> start < utf8_len before"
    by (simp_all add: start_def s(2))
  have "slice_to s (utf8_len before) = Some before" "slice_from s start = Some after"
    using s(2) slice_append(1) [of before "middle @ after"] slice_append(2) [of "before @ middle" after]
    by (simp_all add: start(1))
  moreover have "(case (if after = [] then None else Some (utf8_len before + utf8_len middle)) of
      None \<Rightarrow> utf8_len s | Some i \<Rightarrow> i) = start"
    by (simp add: start_def)
  ultimately have "split_string s b e = Some (length middle, before, after)"
    using False start(2) unfolding split_string_def Let_def ts_def [symmetric] scan by simp
  moreover have "utf8_len after \<le> e"
    using after(2) s(2) by (auto simp: ts_def)
  ultimately show ?thesis
    using that s(2) before_def by blast
qed

section \<open>Truncated texts\<close>

lemma utf8_len_0 [simp]: "utf8_len s = 0 \<longleftrightarrow> s = []"
  by (cases s) auto

lemma utf8_len_pos [simp]: "0 < utf8_len s \<longleftrightarrow> s \<noteq> []"
  using utf8_len_0 [of s] by linarith

text \<open>What a truncated text is: kept within the budget, or a prefix, a marker and a suffix.\<close>

lemma truncate_with_byte_estimate_exact:
  assumes "length s \<le> usize_max"
  shows "(utf8_len s \<le> max_bytes \<and> truncate_with_byte_estimate s max_bytes use_tokens = Some s) \<or>
    (max_bytes < utf8_len s \<and> (\<exists>before middle after.
      s = before @ middle @ after \<and> middle \<noteq> [] \<and> utf8_len before \<le> max_bytes div 2 \<and>
      utf8_len before + utf8_len after \<le> max_bytes \<and>
      truncate_with_byte_estimate s max_bytes use_tokens =
        Some (before @ format_truncation_marker use_tokens
          (if use_tokens then approx_tokens_from_byte_count (utf8_len s - max_bytes) else length middle) @
          after)))"
proof (cases "utf8_len s \<le> max_bytes")
  case True
  then show ?thesis
    by (auto simp: truncate_with_byte_estimate_def)
next
  case False
  show ?thesis
  proof (cases "max_bytes = 0")
    case True
    have "s = [] @ s @ []" "s \<noteq> []" "max_bytes < utf8_len s"
      using False True by auto
    moreover have "truncate_with_byte_estimate s max_bytes use_tokens =
        Some ([] @ format_truncation_marker use_tokens
          (if use_tokens then approx_tokens_from_byte_count (utf8_len s - max_bytes) else length s) @ [])"
      using True \<open>s \<noteq> []\<close> by (simp add: truncate_with_byte_estimate_def removed_units_def)
    moreover have "utf8_len [] \<le> max_bytes div 2" "utf8_len [] + utf8_len [] \<le> max_bytes"
      by simp_all
    ultimately show ?thesis
      by blast
  next
    case pos: False
    obtain before middle after where c: "s = before @ middle @ after"
      "before = fit (max_bytes div 2) s" "utf8_len after \<le> max_bytes - max_bytes div 2"
      "split_string s (max_bytes div 2) (max_bytes - max_bytes div 2) =
         Some (length middle, before, after)"
      using split_string_exact [OF assms] by blast
    have b: "utf8_len before \<le> max_bytes div 2"
      using fit_split [of s "max_bytes div 2"] c(2) by auto
    then have sum: "utf8_len before + utf8_len after \<le> max_bytes"
      using c(3) by linarith
    moreover have "middle \<noteq> []"
      using False sum c(1) by auto
    moreover have "s \<noteq> []"
      using False by auto
    moreover have "truncate_with_byte_estimate s max_bytes use_tokens =
        Some (before @ format_truncation_marker use_tokens
          (if use_tokens then approx_tokens_from_byte_count (utf8_len s - max_bytes) else length middle) @
          after)"
      using False pos c(4) \<open>s \<noteq> []\<close>
      by (simp add: truncate_with_byte_estimate_def split_budget_def Let_def
          assemble_truncated_output_def removed_units_def)
    moreover have "max_bytes < utf8_len s"
      using False by simp
    ultimately show ?thesis
      using b c(1) by blast
  qed
qed

text \<open>C29: Truncating a text to a number of bytes returns it unchanged if it fits. Otherwise the result
  is a prefix of at most half the budget, a marker, and a suffix, where prefix and suffix together
  stay within the budget, are cut between characters, and the marker names exactly the number of
  characters between them.\<close>

theorem truncate_middle_chars_exact:
  assumes "length s \<le> usize_max"
  shows "if utf8_len s \<le> max_bytes then truncate_middle_chars s max_bytes = Some s
    else \<exists>before middle after.
      s = before @ middle @ after \<and> middle \<noteq> [] \<and> utf8_len before \<le> max_bytes div 2 \<and>
      utf8_len before + utf8_len after \<le> max_bytes \<and>
      truncate_middle_chars s max_bytes =
        Some (before @ [8230] @ show_nat (length middle) @ lit '' chars truncated'' @ [8230] @ after)"
  using truncate_with_byte_estimate_exact [OF assms, of max_bytes False]
  by (auto simp: truncate_middle_chars_def format_truncation_marker_def)

lemma truncate_middle_chars_exact_witness:
  "length (lit ''abcdefgh'') \<le> usize_max \<and>
   (\<exists>before middle after. lit ''abcdefgh'' = before @ middle @ after \<and> middle \<noteq> [] \<and>
     truncate_middle_chars (lit ''abcdefgh'') 4 =
       Some (before @ [8230] @ show_nat (length middle) @ lit '' chars truncated'' @ [8230] @ after))"
proof -
  have l: "length (lit ''abcdefgh'') \<le> usize_max" "\<not> utf8_len (lit ''abcdefgh'') \<le> 4"
    by (simp_all add: lit_def usize_max_def utf8_len_def len_utf8_def)
  show ?thesis
    using truncate_middle_chars_exact [OF l(1), of 4] l unfolding if_not_P [OF l(2)] by blast
qed

text \<open>Truncation never panics.\<close>

lemma truncate_with_byte_estimate_total:
  assumes "length s \<le> usize_max"
  shows "\<exists>t'. truncate_with_byte_estimate s max_bytes use_tokens = Some t'"
  using truncate_with_byte_estimate_exact [OF assms, of max_bytes use_tokens] by blast

lemma truncate_text_total:
  assumes "length t \<le> usize_max"
  shows "\<exists>t'. truncate_text t policy = Some t'"
proof (cases policy)
  case (Bytes n)
  then show ?thesis
    using truncate_with_byte_estimate_total [OF assms] by (simp add: truncate_middle_chars_def)
next
  case (Tokens n)
  obtain t' where "truncate_with_byte_estimate t (approx_bytes_for_tokens n) True = Some t'"
    using truncate_with_byte_estimate_total [OF assms] by blast
  then show ?thesis
    using Tokens by (simp add: truncate_middle_with_token_budget_def)
qed

section \<open>Truncated tool outputs\<close>

fun always_kept :: "FunctionCallOutputContentItem \<Rightarrow> bool" where
  "always_kept (OutInputImage _ _) = True"
| "always_kept (OutEncryptedContent _) = True"
| "always_kept _ = False"

fun item_cost :: "TruncationPolicy \<Rightarrow> (ustring \<Rightarrow> nat) \<Rightarrow> FunctionCallOutputContentItem \<Rightarrow> nat" where
  "item_cost policy audio (OutInputText t) = policy_cost policy t"
| "item_cost policy audio (OutInputAudio url) = audio_cost policy (audio url)"
| "item_cost policy audio _ = 0"

abbreviation items_cost ::
  "TruncationPolicy \<Rightarrow> (ustring \<Rightarrow> nat) \<Rightarrow> FunctionCallOutputContentItem list \<Rightarrow> nat" where
  "items_cost policy audio items \<equiv> sum_list (map (item_cost policy audio) items)"

fun text_in_memory :: "FunctionCallOutputContentItem \<Rightarrow> bool" where
  "text_in_memory (OutInputText t) = (length t \<le> usize_max)"
| "text_in_memory _ = True"

lemma truncate_loop_total:
  "list_all text_in_memory items \<Longrightarrow> \<exists>r. truncate_loop policy audio remaining ot oa items = Some r"
proof (induction policy audio remaining ot oa items rule: truncate_loop.induct)
  case (2 policy audio remaining ot oa t rest)
  obtain t' where "truncate_text t (snippet_policy policy remaining) = Some t'"
    using truncate_text_total [of t] "2.prems" by auto
  with 2 show ?case
    by (cases "t = []"; cases "remaining = 0"; cases "policy_cost policy t \<le> remaining"; cases "t' = []")
      auto
next
  case (4 policy audio remaining ot oa url rest)
  then show ?case
    by (cases "audio_cost policy (audio url) \<le> remaining") (auto simp: Let_def)
qed auto

lemma truncate_loop_kept:
  "truncate_loop policy audio remaining ot oa items = Some (out, ot', oa') \<Longrightarrow>
   filter always_kept out = filter always_kept items"
proof (induction items arbitrary: remaining ot oa out)
  case (Cons it rest)
  show ?case
  proof (cases it)
    case (OutInputText t)
    consider (skip) "t = [] \<or> remaining = 0"
      | (whole) "t \<noteq> []" "remaining \<noteq> 0" "policy_cost policy t \<le> remaining"
      | (cut) "t \<noteq> []" "remaining \<noteq> 0" "\<not> policy_cost policy t \<le> remaining"
      by blast
    then show ?thesis
    proof cases
      case skip
      then show ?thesis
        using Cons OutInputText by (auto split: if_splits)
    next
      case whole
      then show ?thesis
        using Cons OutInputText by auto
    next
      case cut
      then obtain snippet where "truncate_text t (snippet_policy policy remaining) = Some snippet"
        using Cons.prems OutInputText by (auto simp: bind_eq_Some_conv)
      then show ?thesis
        using cut Cons OutInputText by (cases "snippet = []") auto
    qed
  next
    case (OutInputAudio url)
    then show ?thesis
      using Cons by (cases "audio_cost policy (audio url) \<le> remaining") (auto simp: Let_def)
  qed (use Cons in auto)
qed simp

lemma policy_cost_pos: "t \<noteq> [] \<Longrightarrow> 0 < policy_cost policy t"
proof -
  assume "t \<noteq> []"
  then have "1 \<le> utf8_len t"
    using utf8_len_0 [of t] by linarith
  then have "4 \<le> sat_add (utf8_len t) 3"
    by (auto simp: sat_add_def usize_max_def)
  then show ?thesis
    using \<open>1 \<le> utf8_len t\<close>
    by (cases policy) (auto simp: approx_token_count_def APPROX_BYTES_PER_TOKEN_def)
qed

lemma truncate_loop_fits:
  "items_cost policy audio items \<le> remaining \<Longrightarrow>
   truncate_loop policy audio remaining ot oa items =
     Some (filter (\<lambda>it. it \<noteq> OutInputText []) items, ot, oa)"
proof (induction policy audio remaining ot oa items rule: truncate_loop.induct)
  case (2 policy audio remaining ot oa t rest)
  then show ?case
    using policy_cost_pos [of t policy] by (cases "t = []") auto
qed (auto simp: Let_def)

text \<open>Truncating a tool output never fails, keeps every image and every encrypted part, in order,
  and leaves an output that fits its budget as it is, up to empty texts.\<close>

theorem truncate_items_conserve:
  assumes "list_all text_in_memory items"
  shows "\<exists>out. truncate_function_output_items_with_policy items policy audio = Some out \<and>
    filter always_kept out = filter always_kept items \<and>
    (items_cost policy audio items > policy_budget policy \<or>
     out = filter (\<lambda>it. it \<noteq> OutInputText []) items)"
proof -
  obtain out ot oa where r:
    "truncate_loop policy audio (policy_budget policy) 0 0 items = Some (out, ot, oa)"
    using truncate_loop_total [OF assms] by (metis prod_cases3)
  have n: "filter always_kept (omission_notes ot oa) = []"
    by (simp add: omission_notes_def)
  have "out @ omission_notes ot oa = filter (\<lambda>it. it \<noteq> OutInputText []) items"
    if "items_cost policy audio items \<le> policy_budget policy"
    using truncate_loop_fits [OF that, of 0 0] r by (simp add: omission_notes_def)
  then show ?thesis
    using truncate_loop_kept [OF r] r n
    by (simp add: truncate_function_output_items_with_policy_def) linarith
qed

lemma truncate_items_conserve_witness:
  "list_all text_in_memory [OutInputText (lit ''abcdefgh''), OutInputImage (lit ''u'') None, OutInputText (lit ''z'')] \<and>
   (\<exists>out. truncate_function_output_items_with_policy
       [OutInputText (lit ''abcdefgh''), OutInputImage (lit ''u'') None, OutInputText (lit ''z'')]
       (Bytes 4) (\<lambda>_. 0) = Some out \<and> filter always_kept out = [OutInputImage (lit ''u'') None])"
proof -
  have m: "list_all text_in_memory
      [OutInputText (lit ''abcdefgh''), OutInputImage (lit ''u'') None, OutInputText (lit ''z'')]"
    by (simp add: lit_def usize_max_def)
  show ?thesis
    using m truncate_items_conserve [OF m, of "Bytes 4" "\<lambda>_. 0"] by auto
qed

section \<open>Prefixes\<close>

lemma last_boundary_eq:
  "idx \<le> maxb \<Longrightarrow> last_boundary maxb idx idx s = idx + utf8_len (fit (maxb - idx) s)"
proof (induction s arbitrary: idx)
  case (Cons c s)
  show ?case
  proof (cases "idx + len_utf8 c \<le> maxb")
    case True
    then show ?thesis
      using Cons.IH [of "idx + len_utf8 c"] by (auto simp: Let_def)
  next
    case False
    then show ?thesis
      using Cons.prems by (simp add: Let_def)
  qed
qed simp

text \<open>The prefix is the longest one within the budget.\<close>

lemma take_bytes_at_char_boundary_fit: "take_bytes_at_char_boundary s maxb = Some (fit maxb s)"
proof -
  obtain rest where r: "s = fit maxb s @ rest" "utf8_len (fit maxb s) \<le> maxb"
    "rest = [] \<or> maxb < utf8_len (fit maxb s) + len_utf8 (hd rest)"
    using fit_split [of s maxb] by blast
  show ?thesis
  proof (cases "utf8_len s \<le> maxb")
    case True
    have "utf8_len s = utf8_len (fit maxb s) + utf8_len rest"
      using arg_cong [OF r(1), of utf8_len] by simp
    then have "rest = []"
      using r(3) True by (cases rest) auto
    then have "fit maxb s = s"
      using r(1) by simp
    then show ?thesis
      using True by (simp add: take_bytes_at_char_boundary_def)
  next
    case False
    have "slice_to s (utf8_len (fit maxb s)) = Some (fit maxb s)"
      by (metis r(1) slice_append(1))
    then show ?thesis
      using False last_boundary_eq [of 0 maxb s] by (simp add: take_bytes_at_char_boundary_def)
  qed
qed

end
