(* ===== verification/Head_Tail_Buffer.thy ===== *)
theory Head_Tail_Buffer
  imports Machine_Ints "HOL-Library.Word"
begin

text \<open>
  The capped output buffer of the unified exec tool, after
  \<open>core/src/unified_exec/head_tail_buffer.rs\<close>: it keeps the first and the last bytes of an output and
  counts the bytes between them.

  The abstract specification is \<open>summary max w\<close>, what a buffer of capacity \<open>max\<close> should hold after the
  output \<open>w\<close>. Every operation refines it: pushing a chunk computes the summary of the longer output,
  and appending a buffer computes the summary of the concatenation, with the omission count, from the
  two summaries alone. Where a \<open>VecDeque\<close> exposes its content as two slices, the place where the
  ring wraps is an argument.
\<close>

section \<open>Definitions\<close>

type_synonym byte = "8 word"

record HeadTailBuffer =
  head :: "byte list"
  tail :: "byte list"
  omitted_bytes :: nat

definition empty_buffer :: HeadTailBuffer where
  "empty_buffer = \<lparr>head = [], tail = [], omitted_bytes = 0\<rparr>"

definition HEAD_BUDGET :: "nat \<Rightarrow> nat" where
  "HEAD_BUDGET max_bytes = max_bytes div 2"

definition TAIL_BUDGET :: "nat \<Rightarrow> nat" where
  "TAIL_BUDGET max_bytes = max_bytes - HEAD_BUDGET max_bytes"

definition retained_bytes :: "HeadTailBuffer \<Rightarrow> nat" where
  "retained_bytes b = sat_add (length (head b)) (length (tail b))"

definition total_bytes :: "HeadTailBuffer \<Rightarrow> nat" where
  "total_bytes b = sat_add (retained_bytes b) (omitted_bytes b)"

definition fill_head :: "nat \<Rightarrow> HeadTailBuffer \<Rightarrow> byte list \<Rightarrow> HeadTailBuffer \<times> byte list" where
  "fill_head max_bytes b chunk =
     (let remaining_head = HEAD_BUDGET max_bytes - length (head b);
          (chunk_head, chunk_tail) =
            (if remaining_head \<le> length chunk then (take remaining_head chunk, drop remaining_head chunk)
             else (chunk, []))
      in (b\<lparr>head := head b @ chunk_head\<rparr>, chunk_tail))"

definition push_tail :: "nat \<Rightarrow> HeadTailBuffer \<Rightarrow> byte list \<Rightarrow> HeadTailBuffer" where
  "push_tail max_bytes b chunk =
     (let remaining_tail = TAIL_BUDGET max_bytes - length (tail b);
          excess_tail = length chunk - remaining_tail;
          b1 = b\<lparr>omitted_bytes := sat_add (omitted_bytes b) excess_tail\<rparr>
      in if excess_tail < length (tail b) then
           b1\<lparr>tail := drop excess_tail (tail b) @ chunk\<rparr>
         else
           b1\<lparr>tail := drop (excess_tail - length (tail b)) chunk\<rparr>)"

definition push_chunk :: "nat \<Rightarrow> HeadTailBuffer \<Rightarrow> byte list \<Rightarrow> HeadTailBuffer" where
  "push_chunk max_bytes b chunk =
     (let (b1, rest) = fill_head max_bytes b chunk in push_tail max_bytes b1 rest)"

definition to_bytes :: "HeadTailBuffer \<Rightarrow> byte list" where
  "to_bytes b = head b @ tail b"

definition format_output_omission_marker :: "nat \<Rightarrow> ustring" where
  "format_output_omission_marker n = lit ''... '' @ show_nat n @ lit '' bytes omitted ...''"

definition ascii_bytes :: "ustring \<Rightarrow> byte list" where
  "ascii_bytes s = map of_nat s"

definition to_bytes_with_omission_marker :: "HeadTailBuffer \<Rightarrow> byte list" where
  "to_bytes_with_omission_marker b =
     (if omitted_bytes b = 0 then to_bytes b
      else head b @ [10] @ ascii_bytes (format_output_omission_marker (omitted_bytes b)) @ [10] @ tail b)"

definition push_buffer :: "nat \<Rightarrow> nat \<Rightarrow> HeadTailBuffer \<Rightarrow> HeadTailBuffer \<Rightarrow> HeadTailBuffer" where
  "push_buffer max_bytes wrap b buffer =
     (let b = b\<lparr>omitted_bytes := sat_add (omitted_bytes b) (omitted_bytes buffer)\<rparr>;
          (b, overflow) =
            (if head b = [] then (b\<lparr>head := head buffer\<rparr>, [])
             else fill_head max_bytes b (head buffer))
      in if length (tail buffer) = TAIL_BUDGET max_bytes then
           b\<lparr>omitted_bytes :=
               sat_add (sat_add (omitted_bytes b) (length (tail b))) (length overflow),
             tail := tail buffer\<rparr>
         else
           (let b = push_tail max_bytes b overflow in
            if tail b = [] then b\<lparr>tail := tail buffer\<rparr>
            else push_tail max_bytes (push_tail max_bytes b (take wrap (tail buffer)))
                   (drop wrap (tail buffer))))"

section \<open>The specification\<close>

text \<open>The last \<open>n\<close> elements of a list.\<close>

definition last_n :: "nat \<Rightarrow> 'a list \<Rightarrow> 'a list" where
  "last_n n xs = drop (length xs - n) xs"

definition summary :: "nat \<Rightarrow> byte list \<Rightarrow> HeadTailBuffer" where
  "summary max_bytes w =
     \<lparr>head = take (HEAD_BUDGET max_bytes) w,
      tail = last_n (TAIL_BUDGET max_bytes) (drop (HEAD_BUDGET max_bytes) w),
      omitted_bytes = min (length w - max_bytes) usize_max\<rparr>"

lemma budgets: "HEAD_BUDGET m + TAIL_BUDGET m = m"
  by (simp add: HEAD_BUDGET_def TAIL_BUDGET_def)

lemma length_last_n [simp]: "length (last_n n xs) = min n (length xs)"
  by (simp add: last_n_def)

lemma last_n_short: "length xs \<le> n \<Longrightarrow> last_n n xs = xs"
  by (simp add: last_n_def)

lemma last_n_append: "last_n n (xs @ ys) = last_n (n - length ys) xs @ last_n n ys"
proof -
  have "drop (length xs + length ys - n) xs = drop (length xs - (n - length ys)) xs"
  proof (cases "n \<le> length ys")
    case False
    then have "length xs + length ys - n = length xs - (n - length ys)"
      by arith
    then show ?thesis
      by (simp only:)
  qed simp
  moreover have "length xs + length ys - n - length xs = length ys - n"
    by arith
  ultimately show ?thesis
    unfolding last_n_def length_append drop_append by (simp only:)
qed

lemma last_n_last_n: "n \<le> m \<Longrightarrow> last_n n (last_n m xs) = last_n n xs"
proof -
  assume "n \<le> m"
  then have "length xs - (length xs - m) - n + (length xs - m) = length xs - n"
    by arith
  then show ?thesis
    unfolding last_n_def drop_drop length_drop by (simp only:)
qed

lemma last_n_suffix: "n \<le> m \<Longrightarrow> last_n n (last_n m xs @ ys) = last_n n (xs @ ys)"
  by (simp add: last_n_append last_n_last_n)

lemma summary_simps [simp]:
  "head (summary m w) = take (HEAD_BUDGET m) w"
  "tail (summary m w) = last_n (TAIL_BUDGET m) (drop (HEAD_BUDGET m) w)"
  "omitted_bytes (summary m w) = min (length w - m) usize_max"
  by (simp_all add: summary_def)

lemma summary_Nil: "summary m [] = empty_buffer"
  by (simp add: summary_def empty_buffer_def last_n_def)

section \<open>Pushing\<close>

text \<open>Pushing on the tail keeps the newest bytes and counts the others.\<close>

lemma push_tail_eq:
  assumes "length (tail b) \<le> TAIL_BUDGET m"
  shows "push_tail m b chunk =
    b\<lparr>tail := last_n (TAIL_BUDGET m) (tail b @ chunk),
      omitted_bytes := sat_add (omitted_bytes b) (length (tail b @ chunk) - TAIL_BUDGET m)\<rparr>"
proof -
  have "length chunk - (TAIL_BUDGET m - length (tail b)) = length (tail b @ chunk) - TAIL_BUDGET m"
    using assms by simp
  then show ?thesis
    by (auto simp: push_tail_def Let_def last_n_def)
qed

lemma fill_head_eq:
  "length (head b) \<le> HEAD_BUDGET m \<Longrightarrow>
   fill_head m b chunk =
     (b\<lparr>head := take (HEAD_BUDGET m) (head b @ chunk)\<rparr>, drop (HEAD_BUDGET m) (head b @ chunk))"
  by (auto simp: fill_head_def Let_def)

lemma sat_add_min: "sat_add (min a usize_max) b = min (a + b) usize_max"
  by (simp add: sat_add_def min_def)

text \<open>A buffer whose tail has seen the bytes \<open>x\<close>.\<close>

definition tail_state :: "nat \<Rightarrow> byte list \<Rightarrow> byte list \<Rightarrow> HeadTailBuffer" where
  "tail_state m h x =
     \<lparr>head = h, tail = last_n (TAIL_BUDGET m) x,
      omitted_bytes = min (length x - TAIL_BUDGET m) usize_max\<rparr>"

lemma summary_tail_state:
  "summary m w = tail_state m (take (HEAD_BUDGET m) w) (drop (HEAD_BUDGET m) w)"
  using budgets [of m] by (auto simp: summary_def tail_state_def)

lemma push_tail_state: "push_tail m (tail_state m h x) chunk = tail_state m h (x @ chunk)"
proof -
  let ?T = "TAIL_BUDGET m"
  have "length x - ?T + (length (last_n ?T x @ chunk) - ?T) = length (x @ chunk) - ?T"
    by (simp add: min_def)
  moreover have "last_n ?T (last_n ?T x @ chunk) = last_n ?T (x @ chunk)"
    by (rule last_n_suffix) simp
  ultimately show ?thesis
    by (subst push_tail_eq) (simp_all only: tail_state_def HeadTailBuffer.simps length_last_n sat_add_min
        HeadTailBuffer.update_convs min.cobounded1)
qed

lemma take_twice_append: "take n (take n u @ take n v) = take n (u @ v)"
  by (cases "length u \<le> n") (auto simp: min_def)

lemma overflow_append: "drop n u @ drop n (take n u @ v) = drop n (u @ v)"
  by (cases "length u \<le> n") auto

text \<open>Pushing a chunk computes the summary of the longer output.\<close>

lemma push_chunk_summary: "push_chunk m (summary m w) chunk = summary m (w @ chunk)"
proof -
  let ?H = "HEAD_BUDGET m"
  have "take ?H (take ?H w @ chunk) = take ?H (w @ chunk)"
    by (cases "length w \<le> ?H") auto
  then have "fill_head m (summary m w) chunk =
      (tail_state m (take ?H (w @ chunk)) (drop ?H w), drop ?H (take ?H w @ chunk))"
    by (simp add: summary_tail_state tail_state_def fill_head_eq del: take_append)
  then have "push_chunk m (summary m w) chunk =
      tail_state m (take ?H (w @ chunk)) (drop ?H w @ drop ?H (take ?H w @ chunk))"
    by (simp only: push_chunk_def Let_def prod.case push_tail_state)
  then show ?thesis
    by (simp only: overflow_append summary_tail_state)
qed

section \<open>Appending a buffer\<close>

lemma sat_add_min2: "sat_add (min a usize_max) (min b usize_max) = min (a + b) usize_max"
  by (simp add: sat_add_def min_def)

text \<open>The bytes of the second head that do not fit, and the parts of the joint output after its head.\<close>

lemma joint_tail:
  "drop n (u @ v) = drop n u @ drop n (take n u @ take n v) @ drop n v"
proof -
  let ?a = "take n u @ take n v"
  have "take n u @ v = ?a @ drop n v"
    by simp
  then have "drop n (take n u @ v) = drop n ?a @ drop (n - length ?a) (drop n v)"
    by (simp only: drop_append)
  also have "drop (n - length ?a) (drop n v) = drop n v"
    by (cases "length v \<le> n") auto
  finally show ?thesis
    by (simp only: overflow_append [of n u v, symmetric])
qed

text \<open>The head after appending, with what did not fit, whichever way it is computed.\<close>

lemma push_buffer_head:
  assumes "head b = take (HEAD_BUDGET m) u"
  shows "(if head b = [] then (b\<lparr>head := take (HEAD_BUDGET m) v\<rparr>, [])
      else fill_head m b (take (HEAD_BUDGET m) v)) =
    (b\<lparr>head := take (HEAD_BUDGET m) (u @ v)\<rparr>,
     drop (HEAD_BUDGET m) (take (HEAD_BUDGET m) u @ take (HEAD_BUDGET m) v))"
proof (cases "head b = []")
  case True
  then show ?thesis
    using assms by auto
next
  case False
  then show ?thesis
    using fill_head_eq [of b m "take (HEAD_BUDGET m) v"] assms
    by (simp only: take_twice_append if_False length_take min.cobounded2)
qed

text \<open>Appending, with the heads already joined: \<open>x\<close> and \<open>z\<close> are what the two tails have seen, \<open>y\<close> did
  not fit into the head.\<close>

lemma push_buffer_step:
  fixes m u v x z
  defines "y \<equiv> drop (HEAD_BUDGET m) (take (HEAD_BUDGET m) u @ take (HEAD_BUDGET m) v)"
  defines "b \<equiv> \<lparr>head = take (HEAD_BUDGET m) (u @ v), tail = last_n (TAIL_BUDGET m) x,
     omitted_bytes = sat_add (min (length x - TAIL_BUDGET m) usize_max)
       (min (length z - TAIL_BUDGET m) usize_max)\<rparr>"
  shows "push_buffer m wrap (tail_state m (take (HEAD_BUDGET m) u) x)
      (tail_state m (take (HEAD_BUDGET m) v) z) =
    (if length (last_n (TAIL_BUDGET m) z) = TAIL_BUDGET m then
       b\<lparr>omitted_bytes := sat_add (sat_add (omitted_bytes b) (length (tail b))) (length y),
         tail := last_n (TAIL_BUDGET m) z\<rparr>
     else (let b = push_tail m b y in
           if tail b = [] then b\<lparr>tail := last_n (TAIL_BUDGET m) z\<rparr>
           else push_tail m (push_tail m b (take wrap (last_n (TAIL_BUDGET m) z)))
                  (drop wrap (last_n (TAIL_BUDGET m) z))))"
proof -
  define b0 where "b0 = b\<lparr>head := take (HEAD_BUDGET m) u\<rparr>"
  have "(tail_state m (take (HEAD_BUDGET m) u) x)\<lparr>omitted_bytes :=
      sat_add (omitted_bytes (tail_state m (take (HEAD_BUDGET m) u) x))
        (omitted_bytes (tail_state m (take (HEAD_BUDGET m) v) z))\<rparr> = b0"
    by (simp add: tail_state_def b0_def b_def)
  moreover have "(if head b0 = [] then (b0\<lparr>head := head (tail_state m (take (HEAD_BUDGET m) v) z)\<rparr>, [])
      else fill_head m b0 (head (tail_state m (take (HEAD_BUDGET m) v) z))) = (b, y)"
  proof -
    have "head b0 = take (HEAD_BUDGET m) u" "b0\<lparr>head := take (HEAD_BUDGET m) (u @ v)\<rparr> = b"
      "head (tail_state m (take (HEAD_BUDGET m) v) z) = take (HEAD_BUDGET m) v"
      by (simp_all add: b0_def b_def tail_state_def)
    then show ?thesis
      using push_buffer_head [of b0 m u v] unfolding y_def by (simp only:)
  qed
  moreover have "tail (tail_state m (take (HEAD_BUDGET m) v) z) = last_n (TAIL_BUDGET m) z"
    by (simp add: tail_state_def)
  ultimately show ?thesis
    unfolding push_buffer_def Let_def by (simp only: prod.case)
qed

text \<open>Appending a buffer computes the summary of the joint output, from the two summaries.\<close>

lemma push_buffer_summary:
  "push_buffer m wrap (summary m u) (summary m v) = summary m (u @ v)"
proof -
  let ?H = "HEAD_BUDGET m" and ?T = "TAIL_BUDGET m"
  define x y z where "x = drop ?H u" and "y = drop ?H (take ?H u @ take ?H v)" and "z = drop ?H v"
  define h where "h = take ?H (u @ v)"
  have s: "summary m (u @ v) = tail_state m h (x @ y @ z)"
    unfolding summary_tail_state h_def x_def y_def z_def joint_tail [of ?H u v] ..
  note step = push_buffer_step [of m wrap u x v z, folded y_def h_def]
  have su: "summary m u = tail_state m (take ?H u) x" and sv: "summary m v = tail_state m (take ?H v) z"
    by (simp_all only: summary_tail_state x_def z_def)
  show ?thesis
  proof (cases "?T \<le> length z")
    case True
    then have "last_n ?T (x @ y @ z) = last_n ?T z"
      by (simp add: last_n_append) (simp add: last_n_def)
    moreover have "length x - ?T + (length z - ?T) + length (last_n ?T x) + length y =
        length (x @ y @ z) - ?T"
      using True by (simp add: min_def) arith
    then have "sat_add (sat_add (sat_add (min (length x - ?T) usize_max)
        (min (length z - ?T) usize_max)) (length (last_n ?T x))) (length y) =
        min (length (x @ y @ z) - ?T) usize_max"
      unfolding sat_add_min2 unfolding sat_add_min by (simp only:)
    moreover have "length (last_n ?T z) = ?T"
      using True by simp
    ultimately show ?thesis
      unfolding su sv step unfolding s tail_state_def by (simp del: length_last_n)
  next
    case False
    then have z: "last_n ?T z = z" "length z \<noteq> ?T" and o: "length z - ?T = 0"
      by (simp_all add: last_n_short)
    have b: "\<lparr>head = h, tail = last_n ?T x, omitted_bytes = sat_add (min (length x - ?T) usize_max)
        (min (length z - ?T) usize_max)\<rparr> = tail_state m h x"
      by (simp add: tail_state_def o sat_add_def)
    show ?thesis
    proof (cases "x @ y = []")
      case True
      then show ?thesis
        using z o unfolding su sv step s b push_tail_state Let_def
        by (simp add: tail_state_def last_n_short)
    next
      case xy: False
      then have "length (tail (tail_state m h (x @ y))) \<noteq> 0"
        using False by (simp add: tail_state_def)
      then have "tail (tail_state m h (x @ y)) \<noteq> []"
        by simp
      then show ?thesis
        using z unfolding su sv step s b push_tail_state Let_def by simp
    qed
  qed
qed

section \<open>Properties\<close>

text \<open>After any sequence of chunks the buffer holds the summary of the whole output: its first and
  its last bytes within the two budgets, and the number of bytes between them.\<close>

theorem head_tail_any_chunking:
  "foldl (push_chunk max_bytes) empty_buffer chunks = summary max_bytes (concat chunks)"
proof (induction chunks rule: rev_induct)
  case (snoc c cs)
  then show ?case
    by (simp add: push_chunk_summary)
qed (simp add: summary_Nil)

text \<open>C27: Appending a later buffer gives the same buffer as pushing the chunks of both one after the
  other, wherever the ring of the later one wraps.\<close>

theorem head_tail_append:
  "push_buffer max_bytes wrap (foldl (push_chunk max_bytes) empty_buffer earlier)
     (foldl (push_chunk max_bytes) empty_buffer later) =
   foldl (push_chunk max_bytes) empty_buffer (earlier @ later)"
proof -
  have "foldl (push_chunk m) (summary m w) cs = summary m (w @ concat cs)" for m w cs
    by (induction cs arbitrary: w) (simp_all add: push_chunk_summary)
  from this [of max_bytes "[]"] show ?thesis
    by (simp only: summary_Nil append_Nil push_buffer_summary concat_append)
qed

text \<open>An output within the capacity is returned whole, without a marker.\<close>

lemma small_output_whole:
  "length w \<le> m \<Longrightarrow> to_bytes_with_omission_marker (summary m w) = w"
  using budgets [of m]
  by (simp add: to_bytes_with_omission_marker_def to_bytes_def last_n_short)

lemma total_bytes_summary: "total_bytes (summary m w) = min (length w) usize_max"
  using budgets [of m]
  by (auto simp: total_bytes_def retained_bytes_def sat_add_def min_def)

end
