(* ===== verification/Review_History.thy ===== *)
theory Review_History
  imports Machine_Ints History_Normalize
begin

text \<open>
  The bounded evidence kept for approval reviews, after \<open>guardian-context/src/history.rs\<close>. User messages
  and all other entries have separate budgets; an entry that does not fit evicts the oldest entries of
  its own kind.

  Entries are measured by serializing them into a writer that only counts. The serializer is a library:
  the lengths of the chunks it writes are the fields of \<open>Json\<close>, and \<open>item_size\<close> there is the size of a
  \<open>ResponseItem\<close> in memory. Counters that the code decrements are checked: \<open>None\<close> is an underflow.
\<close>

section \<open>Definitions\<close>

definition MAX_ITEMS_PER_KIND :: nat where
  "MAX_ITEMS_PER_KIND = 128"

definition MAX_BYTES_PER_KIND :: nat where
  "MAX_BYTES_PER_KIND = 4 * 1024 * 1024"

record Json =
  item_size :: nat
  item_chunks :: "ResponseItem \<Rightarrow> nat list"
  reasoning_chunks :: "opaque list option \<Rightarrow> nat list"
  head_chunks :: "item_id option \<times> ustring \<times> MessagePhase option \<times> MetadataPassthrough option \<Rightarrow> nat list"
  content_chunks :: "ContentItem \<Rightarrow> nat list"

record TranscriptHistory =
  entries :: "(ResponseItem \<times> nat) list"
  generation :: nat

definition transcript_new :: "nat \<Rightarrow> TranscriptHistory" where
  "transcript_new g = \<lparr>entries = [], generation = g\<rparr>"

text \<open>\<open>BoundedSize\<close>: one \<open>write\<close> per chunk; \<open>None\<close> is the error of a chunk beyond the budget.\<close>

fun bounded_write :: "nat \<Rightarrow> nat list \<Rightarrow> nat option" where
  "bounded_write bytes [] = Some bytes"
| "bounded_write bytes (n # ns) =
     (if n > MAX_BYTES_PER_KIND - bytes then None else bounded_write (bytes + n) ns)"

definition measured :: "Json \<Rightarrow> ResponseItem \<Rightarrow> nat option" where
  "measured json item =
     Option.bind (bounded_write (item_size json) (item_chunks json item)) (\<lambda>bytes.
       case item of
         Reasoning _ _ content _ _ \<Rightarrow> bounded_write bytes (reasoning_chunks json content)
       | _ \<Rightarrow> Some bytes)"

fun is_text_content :: "ContentItem \<Rightarrow> bool" where
  "is_text_content (InputText _) = True"
| "is_text_content (OutputText _) = True"
| "is_text_content _ = False"

text \<open>The texts of an oversized message, measured before they are copied.\<close>

fun fitting_texts :: "Json \<Rightarrow> nat \<Rightarrow> ContentItem list \<Rightarrow> ContentItem list option" where
  "fitting_texts json bytes [] = Some []"
| "fitting_texts json bytes (c # cs) =
     (case bounded_write bytes (content_chunks json c) of
        None \<Rightarrow> None
      | Some bytes \<Rightarrow> map_option (Cons c) (fitting_texts json bytes cs))"

definition text_fallback :: "Json \<Rightarrow> ResponseItem \<Rightarrow> ResponseItem option" where
  "text_fallback json item =
     (case item of
        Message i role content phase m \<Rightarrow>
          if role = lit ''user'' \<and> list_ex is_image content then
            (case bounded_write (item_size json) (head_chunks json (i, role, phase, m)) of
               None \<Rightarrow> None
             | Some bytes \<Rightarrow>
                 (case fitting_texts json bytes (filter is_text_content content) of
                    None \<Rightarrow> None
                  | Some texts \<Rightarrow>
                      if texts \<noteq> [] then Some (Message i role texts phase m) else None))
          else None
      | _ \<Rightarrow> None)"

definition over_limit :: "nat \<Rightarrow> nat \<Rightarrow> bool" where
  "over_limit n bytes \<longleftrightarrow> n \<ge> MAX_ITEMS_PER_KIND \<or> bytes > MAX_BYTES_PER_KIND"

definition kind_totals :: "bool \<Rightarrow> nat \<Rightarrow> (ResponseItem \<times> nat) list \<Rightarrow> nat \<times> nat" where
  "kind_totals is_user sz xs =
     fold (\<lambda>(_, s) (n, bytes). (n + 1, bytes + s))
       (filter (\<lambda>(item, _). is_user_message item = is_user) xs) (0, sz)"

fun retain_within :: "bool \<Rightarrow> nat \<Rightarrow> nat \<Rightarrow> (ResponseItem \<times> nat) list \<Rightarrow> (ResponseItem \<times> nat) list option" where
  "retain_within is_user n bytes [] = Some []"
| "retain_within is_user n bytes ((item, sz) # xs) =
     (if is_user_message item = is_user \<and> over_limit n bytes then
        (if n < 1 \<or> bytes < sz then None
         else retain_within is_user (n - 1) (bytes - sz) xs)
      else map_option (Cons (item, sz)) (retain_within is_user n bytes xs))"

definition append_bounded :: "TranscriptHistory \<Rightarrow> ResponseItem \<Rightarrow> nat \<Rightarrow> TranscriptHistory option" where
  "append_bounded self item sz =
     (let is_user = is_user_message item;
          (n, bytes) = kind_totals is_user sz (entries self)
      in map_option (\<lambda>self. self\<lparr>entries := entries self @ [(item, sz)]\<rparr>)
           (if over_limit n bytes then
              map_option (\<lambda>xs. \<lparr>entries = xs, generation = sat_add (generation self) 1\<rparr>)
                (retain_within is_user n bytes (entries self))
            else Some self))"

lemma fitting_texts_Some: "fitting_texts json bytes cs = Some ts \<Longrightarrow> ts = cs"
  by (induction json bytes cs arbitrary: ts rule: fitting_texts.induct) (auto split: option.splits)

text \<open>Messages that still carry images; a fallback carries none, so the recursion ends.\<close>

fun images_in :: "ResponseItem \<Rightarrow> nat" where
  "images_in (Message _ _ content _ _) = length (filter is_image content)"
| "images_in _ = 0"

lemma text_no_image: "filter is_image (filter is_text_content cs) = []"
  by (induction cs) (auto elim!: is_image.elims)

lemma text_fallback_images:
  assumes "text_fallback json item = Some item'"
  shows "images_in item' = 0 \<and> 0 < images_in item"
proof -
  obtain i content phase m where item: "item = Message i (lit ''user'') content phase m"
      "list_ex is_image content" "item' = Message i (lit ''user'') (filter is_text_content content) phase m"
    using assms
    by (auto simp: text_fallback_def split: ResponseItem.splits if_splits option.splits dest!: fitting_texts_Some)
  then show ?thesis
    by (simp add: text_no_image filter_empty_conv list_ex_iff del: filter_filter)
qed

function transcript_record :: "Json \<Rightarrow> TranscriptHistory \<Rightarrow> ResponseItem \<Rightarrow> TranscriptHistory option" where
  "transcript_record json self item =
     (case measured json item of
        Some sz \<Rightarrow> append_bounded self item sz
      | None \<Rightarrow>
          (case text_fallback json item of
             Some item' \<Rightarrow> transcript_record json self item'
           | None \<Rightarrow> Some self))"
  by auto
termination
  by (relation "measure (\<lambda>(_, _, item). images_in item)") (auto dest: text_fallback_images)

declare transcript_record.simps [simp del]

fun record_each :: "Json \<Rightarrow> TranscriptHistory \<Rightarrow> ResponseItem list \<Rightarrow> TranscriptHistory option" where
  "record_each json self [] = Some self"
| "record_each json self (item # items) =
     Option.bind (transcript_record json self item) (\<lambda>self. record_each json self items)"

definition transcript_reset :: "Json \<Rightarrow> TranscriptHistory \<Rightarrow> ResponseItem list \<Rightarrow> TranscriptHistory option" where
  "transcript_reset json self items =
     record_each json (self\<lparr>entries := [], generation := sat_add (generation self) 1\<rparr>) items"

definition transcript_items :: "TranscriptHistory \<Rightarrow> ResponseItem list" where
  "transcript_items self = map fst (entries self)"

section \<open>Eviction\<close>

text \<open>The reference: the oldest \<open>n\<close> entries of a kind go, everything else stays in place.\<close>

fun drop_kind :: "('a \<Rightarrow> bool) \<Rightarrow> nat \<Rightarrow> 'a list \<Rightarrow> 'a list" where
  "drop_kind P 0 xs = xs"
| "drop_kind P (Suc n) [] = []"
| "drop_kind P (Suc n) (x # xs) = (if P x then drop_kind P n xs else x # drop_kind P (Suc n) xs)"

lemma drop_kind_Nil [simp]: "drop_kind P n [] = []"
  by (cases n) simp_all

lemma drop_kind_skip: "\<not> P x \<Longrightarrow> drop_kind P n (x # xs) = x # drop_kind P n xs"
  by (cases n) simp_all

lemma drop_kind_same: "filter P (drop_kind P n xs) = drop n (filter P xs)"
  by (induction P n xs rule: drop_kind.induct) simp_all

lemma drop_kind_other: "filter (\<lambda>x. \<not> P x) (drop_kind P n xs) = filter (\<lambda>x. \<not> P x) xs"
  by (induction P n xs rule: drop_kind.induct) simp_all

definition of_kind :: "bool \<Rightarrow> ResponseItem \<times> nat \<Rightarrow> bool" where
  "of_kind is_user e \<longleftrightarrow> is_user_message (fst e) = is_user"

definition kind_sizes :: "bool \<Rightarrow> (ResponseItem \<times> nat) list \<Rightarrow> nat list" where
  "kind_sizes is_user xs = map snd (filter (of_kind is_user) xs)"

definition within_limits :: "TranscriptHistory \<Rightarrow> bool" where
  "within_limits self \<longleftrightarrow>
     list_all (\<lambda>k. length (kind_sizes k (entries self)) \<le> MAX_ITEMS_PER_KIND \<and>
                   sum_list (kind_sizes k (entries self)) \<le> MAX_BYTES_PER_KIND) [True, False]"

lemma of_kind_pair [simp]: "of_kind k (item, s) \<longleftrightarrow> is_user_message item = k"
  by (simp add: of_kind_def)

lemma kind_sizes_simps [simp]:
  "kind_sizes k [] = []"
  "kind_sizes k ((item, s) # xs) =
     (if is_user_message item = k then s # kind_sizes k xs else kind_sizes k xs)"
  "kind_sizes k (xs @ ys) = kind_sizes k xs @ kind_sizes k ys"
  by (simp_all add: kind_sizes_def of_kind_def)

lemma kind_totals_eq:
  "kind_totals k sz xs = (length (kind_sizes k xs), sz + sum_list (kind_sizes k xs))"
proof -
  have "fold (\<lambda>(_, s) (n, bytes). (n + 1, bytes + s)) ys (n, b) = (n + length ys, b + sum_list (map snd ys))"
    for ys :: "(ResponseItem \<times> nat) list" and n b
    by (induction ys arbitrary: n b) auto
  moreover have "of_kind k = (\<lambda>(item, _). is_user_message item = k)"
    by (auto simp: of_kind_def)
  ultimately show ?thesis
    by (simp add: kind_totals_def kind_sizes_def)
qed

lemma kind_sizes_drop:
  "kind_sizes k (drop_kind (of_kind k') n xs) = (if k = k' then drop n (kind_sizes k xs) else kind_sizes k xs)"
proof (cases "k = k'")
  case True
  then show ?thesis
    by (simp add: kind_sizes_def drop_kind_same drop_map)
next
  case False
  then have "of_kind k = (\<lambda>x. \<not> of_kind k' x)"
    by (auto simp: of_kind_def)
  then show ?thesis
    using False by (simp add: kind_sizes_def drop_kind_other)
qed

text \<open>The \<open>retain\<close> pass removes the least number of entries that makes room, without underflow.\<close>

lemma retain_within_spec:
  assumes "n = length (kind_sizes k xs)" "bytes = sz + sum_list (kind_sizes k xs)"
    "sz \<le> MAX_BYTES_PER_KIND"
  shows "\<exists>m. retain_within k n bytes xs = Some (drop_kind (of_kind k) m xs) \<and> m \<le> n \<and>
    \<not> over_limit (n - m) (sz + sum_list (drop m (kind_sizes k xs))) \<and>
    (\<forall>j<m. over_limit (n - j) (sz + sum_list (drop j (kind_sizes k xs))))"
  using assms
proof (induction xs arbitrary: n bytes)
  case Nil
  then show ?case
    by (auto simp: over_limit_def MAX_ITEMS_PER_KIND_def intro: exI [of _ 0])
next
  case (Cons x xs)
  obtain item s where x: "x = (item, s)"
    by (cases x)
  show ?case
  proof (cases "is_user_message item = k")
    case other: False
    then obtain m where "retain_within k n bytes xs = Some (drop_kind (of_kind k) m xs) \<and> m \<le> n \<and>
        \<not> over_limit (n - m) (sz + sum_list (drop m (kind_sizes k xs))) \<and>
        (\<forall>j<m. over_limit (n - j) (sz + sum_list (drop j (kind_sizes k xs))))"
      using Cons.IH [of n bytes] Cons.prems x by auto
    then show ?thesis
      using other x by (intro exI [of _ m]) (simp add: drop_kind_skip)
  next
    case same: True
    then have n: "n = Suc (length (kind_sizes k xs))" "bytes = sz + s + sum_list (kind_sizes k xs)"
      using Cons.prems x by simp_all
    show ?thesis
    proof (cases "over_limit n bytes")
      case True
      obtain m where m: "retain_within k (n - 1) (bytes - s) xs = Some (drop_kind (of_kind k) m xs)"
          "m \<le> n - 1" "\<not> over_limit (n - 1 - m) (sz + sum_list (drop m (kind_sizes k xs)))"
          "\<forall>j<m. over_limit (n - 1 - j) (sz + sum_list (drop j (kind_sizes k xs)))"
        using Cons.IH [of "n - 1" "bytes - s"] Cons.prems(3) n by auto
      have "over_limit (n - j) (sz + sum_list (drop j (s # kind_sizes k xs)))" if "j < Suc m" for j
        using that m(4) True n by (cases j) (auto simp: add.assoc)
      then show ?thesis
        using m True same x n by (intro exI [of _ "Suc m"]) auto
    next
      case False
      have "retain_within k n bytes ys = Some ys" for ys
        using False by (induction ys) auto
      then show ?thesis
        using False same x n by (intro exI [of _ 0]) (simp add: add.assoc)
    qed
  qed
qed

lemma bounded_write_le:
  "bounded_write b ns = Some c \<Longrightarrow> b \<le> MAX_BYTES_PER_KIND \<Longrightarrow> c \<le> MAX_BYTES_PER_KIND"
  by (induction b ns rule: bounded_write.induct) (auto split: if_splits)

text \<open>The writer fails exactly when the whole serialization does not fit, however it is chunked.\<close>

lemma bounded_write_total:
  "b \<le> MAX_BYTES_PER_KIND \<Longrightarrow>
   bounded_write b ns = (if b + sum_list ns \<le> MAX_BYTES_PER_KIND then Some (b + sum_list ns) else None)"
  by (induction b ns rule: bounded_write.induct) auto

lemma measured_le:
  assumes "measured json item = Some sz" "item_size json \<le> MAX_BYTES_PER_KIND"
  shows "sz \<le> MAX_BYTES_PER_KIND"
proof -
  obtain y where "bounded_write (item_size json) (item_chunks json item) = Some y"
    "sz = y \<or> (\<exists>ns. bounded_write y ns = Some sz)"
    using assms(1) by (cases item) (auto simp: measured_def Option.bind_eq_Some_conv)
  then show ?thesis
    using assms(2) bounded_write_le by blast
qed

definition evicting :: "TranscriptHistory \<Rightarrow> ResponseItem \<Rightarrow> nat \<Rightarrow> nat \<Rightarrow> TranscriptHistory" where
  "evicting self item sz m =
     \<lparr>entries = drop_kind (of_kind (is_user_message item)) m (entries self) @ [(item, sz)],
      generation = (if m = 0 then generation self else sat_add (generation self) 1)\<rparr>"

definition room_after :: "TranscriptHistory \<Rightarrow> ResponseItem \<Rightarrow> nat \<Rightarrow> nat \<Rightarrow> bool" where
  "room_after self item sz m \<longleftrightarrow>
     (let sizes = kind_sizes (is_user_message item) (entries self) in
      \<not> over_limit (length sizes - m) (sz + sum_list (drop m sizes)))"

lemma append_bounded_spec:
  assumes "sz \<le> MAX_BYTES_PER_KIND"
  shows "\<exists>m. append_bounded self item sz = Some (evicting self item sz m) \<and>
    room_after self item sz m \<and> (\<forall>j<m. \<not> room_after self item sz j)"
proof (cases "over_limit (length (kind_sizes (is_user_message item) (entries self)))
    (sz + sum_list (kind_sizes (is_user_message item) (entries self)))")
  case True
  define k where "k = is_user_message item"
  obtain m where m: "retain_within k (length (kind_sizes k (entries self)))
        (sz + sum_list (kind_sizes k (entries self))) (entries self) = Some (drop_kind (of_kind k) m (entries self))"
      "\<not> over_limit (length (kind_sizes k (entries self)) - m) (sz + sum_list (drop m (kind_sizes k (entries self))))"
      "\<forall>j<m. over_limit (length (kind_sizes k (entries self)) - j) (sz + sum_list (drop j (kind_sizes k (entries self))))"
    using retain_within_spec [OF refl refl assms] by blast
  have "m \<noteq> 0"
    using m(2) True by (cases m) (simp_all add: k_def)
  then show ?thesis
    using True m
    by (intro exI [of _ m])
      (simp add: append_bounded_def kind_totals_eq evicting_def room_after_def Let_def flip: k_def)
next
  case False
  then show ?thesis
    by (intro exI [of _ 0]) (simp add: append_bounded_def kind_totals_eq evicting_def room_after_def Let_def)
qed

lemma sum_drop_le: "sum_list (drop m xs) \<le> sum_list (xs :: nat list)"
  by (metis append_take_drop_id le_add2 sum_list_append)

lemma evicting_within_limits:
  assumes "within_limits self" "room_after self item sz m"
  shows "within_limits (evicting self item sz m)"
  using assms
  by (auto simp: within_limits_def evicting_def room_after_def kind_sizes_drop over_limit_def Let_def)

text \<open>What is recorded of an item: the item itself, the texts of an oversized user message with
  images, or nothing.\<close>

definition recorded_form :: "Json \<Rightarrow> ResponseItem \<Rightarrow> (ResponseItem \<times> nat) option" where
  "recorded_form json item =
     (case measured json item of
        Some sz \<Rightarrow> Some (item, sz)
      | None \<Rightarrow>
          Option.bind (text_fallback json item) (\<lambda>item'. map_option (Pair item') (measured json item')))"

lemma text_fallback_once: "text_fallback json item = Some item' \<Longrightarrow> text_fallback json item' = None"
  by (metis not_None_eq text_fallback_images less_numeral_extra(3))

lemma transcript_record_form:
  "transcript_record json self item =
     (case recorded_form json item of
        None \<Rightarrow> Some self
      | Some (item', sz) \<Rightarrow> append_bounded self item' sz)"
  by (auto simp: transcript_record.simps [of json self] recorded_form_def text_fallback_once split: option.splits)

lemma recorded_form_le:
  "recorded_form json item = Some (item', sz) \<Longrightarrow> item_size json \<le> MAX_BYTES_PER_KIND \<Longrightarrow>
   sz \<le> MAX_BYTES_PER_KIND"
  by (auto simp: recorded_form_def Option.bind_eq_Some_conv split: option.splits dest: measured_le)

lemma transcript_record_evicting:
  assumes "recorded_form json item = Some (item', sz)" "item_size json \<le> MAX_BYTES_PER_KIND"
  shows "\<exists>m. transcript_record json self item = Some (evicting self item' sz m) \<and>
    room_after self item' sz m \<and> (\<forall>j<m. \<not> room_after self item' sz j)"
  using append_bounded_spec [OF recorded_form_le [OF assms]] assms(1) by (simp add: transcript_record_form)

lemma transcript_record_cases:
  assumes "item_size json \<le> MAX_BYTES_PER_KIND"
  obtains "transcript_record json self item = Some self"
  | item' sz m where "recorded_form json item = Some (item', sz)"
    "transcript_record json self item = Some (evicting self item' sz m)" "room_after self item' sz m"
proof (cases "recorded_form json item")
  case None
  then show thesis
    using that(1) by (simp add: transcript_record_form)
next
  case (Some r)
  then have r: "recorded_form json item = Some (fst r, snd r)"
    by simp
  then show thesis
    using transcript_record_evicting [OF r assms, of self] that(2) by blast
qed

lemma transcript_record_within:
  assumes "within_limits self" "item_size json \<le> MAX_BYTES_PER_KIND"
  shows "\<exists>self'. transcript_record json self item = Some self' \<and> within_limits self'"
  by (rule transcript_record_cases [OF assms(2), of self item])
    (use assms(1) in \<open>auto intro: evicting_within_limits\<close>)

lemma record_each_within:
  assumes "within_limits self" "item_size json \<le> MAX_BYTES_PER_KIND"
  shows "\<exists>self'. record_each json self items = Some self' \<and> within_limits self'"
  using assms(1)
proof (induction items arbitrary: self)
  case (Cons item items)
  obtain self' where "transcript_record json self item = Some self'" "within_limits self'"
    using transcript_record_within [OF Cons.prems assms(2)] by blast
  then show ?case
    using Cons.IH by simp
qed simp

lemma within_limits_empty [simp]: "entries self = [] \<Longrightarrow> within_limits self"
  by (simp add: within_limits_def)

lemma transcript_reset_within:
  "item_size json \<le> MAX_BYTES_PER_KIND \<Longrightarrow>
   \<exists>self'. transcript_reset json self items = Some self' \<and> within_limits self'"
  unfolding transcript_reset_def by (rule record_each_within) simp_all

section \<open>Property\<close>

text \<open>Recording an item that fits, as itself or as the texts of an oversized image message, never
  underflows a counter; it evicts the fewest oldest entries of the item's own kind that make room,
  leaves the other kind and the order alone, appends the item, and starts a new generation exactly when
  something was evicted. Both kinds stay within 128 entries and 4 MiB.\<close>

theorem review_record_bounded:
  assumes "within_limits self" "item_size json \<le> MAX_BYTES_PER_KIND"
    "recorded_form json item = Some (item', sz)"
  shows "\<exists>m. transcript_record json self item = Some
        \<lparr>entries = drop_kind (of_kind (is_user_message item')) m (entries self) @ [(item', sz)],
         generation = (if m = 0 then generation self else sat_add (generation self) 1)\<rparr> \<and>
      within_limits (the (transcript_record json self item)) \<and>
      (\<forall>j<m. \<not> room_after self item' sz j)"
proof -
  obtain m where m: "transcript_record json self item = Some (evicting self item' sz m)"
    "room_after self item' sz m" "\<forall>j<m. \<not> room_after self item' sz j"
    using transcript_record_evicting [OF assms(3,2)] by blast
  have "within_limits (the (transcript_record json self item))"
    using m(1) evicting_within_limits [OF assms(1) m(2)] by simp
  then show ?thesis
    using m unfolding evicting_def by (intro exI [of _ m] conjI)
qed

definition sample_json :: Json where
  "sample_json =
     \<lparr>item_size = 100, item_chunks = (\<lambda>_. [1000000, 1000000]), reasoning_chunks = (\<lambda>_. []),
      head_chunks = (\<lambda>_. []), content_chunks = (\<lambda>_. [])\<rparr>"

definition sample_user :: "ustring \<Rightarrow> ResponseItem" where
  "sample_user t = Message None (lit ''user'') [InputText t] None None"

definition sample_review :: TranscriptHistory where
  "sample_review =
     \<lparr>entries = [(sample_user [97], 2000100), (Other, 7), (sample_user [98], 2000100)], generation = 4\<rparr>"

theorem review_record_bounded_witness:
  "\<exists>m. transcript_record sample_json sample_review (sample_user [99]) = Some
      \<lparr>entries = drop_kind (of_kind (is_user_message (sample_user [99]))) m (entries sample_review) @
         [(sample_user [99], 2000100)],
       generation = (if m = 0 then generation sample_review else sat_add (generation sample_review) 1)\<rparr>"
proof -
  have within: "within_limits sample_review"
    by (simp add: within_limits_def sample_review_def sample_user_def MAX_ITEMS_PER_KIND_def MAX_BYTES_PER_KIND_def)
  have budget: "item_size sample_json \<le> MAX_BYTES_PER_KIND"
    by (simp add: sample_json_def MAX_BYTES_PER_KIND_def)
  have form: "recorded_form sample_json (sample_user [99]) = Some (sample_user [99], 2000100)"
    by (simp add: recorded_form_def measured_def sample_json_def sample_user_def MAX_BYTES_PER_KIND_def)
  show ?thesis
    using review_record_bounded [OF within budget form] by blast
qed

end
