(* ===== verification/Token_Usage.thy ===== *)
theory Token_Usage
  imports Machine_Ints "HOL-Library.Monad_Syntax"
begin

text \<open>
  Token accounting, after \<open>TokenUsage\<close> and \<open>TokenUsageInfo\<close> of \<open>protocol/src/protocol.rs\<close>. The sums are
  plain \<open>i64\<close> additions: \<open>None\<close> is the overflow, a panic in builds with overflow checks. The rollout
  units are a number the code only carries along.
\<close>

section \<open>Definitions\<close>

definition i64_add :: "int \<Rightarrow> int \<Rightarrow> int option" where
  "i64_add a b = (if in_i64 (a + b) then Some (a + b) else None)"

definition i64_sub :: "int \<Rightarrow> int \<Rightarrow> int option" where
  "i64_sub a b = (if in_i64 (a - b) then Some (a - b) else None)"

record TokenUsage =
  input_tokens :: int
  cached_input_tokens :: int
  cache_write_input_tokens :: int
  output_tokens :: int
  reasoning_output_tokens :: int
  total_tokens :: int
  codex_rollout_budget_units :: "ustring option"

definition default_usage :: TokenUsage where
  "default_usage =
     \<lparr>input_tokens = 0, cached_input_tokens = 0, cache_write_input_tokens = 0, output_tokens = 0,
      reasoning_output_tokens = 0, total_tokens = 0, codex_rollout_budget_units = None\<rparr>"

definition is_zero :: "TokenUsage \<Rightarrow> bool" where
  "is_zero self \<longleftrightarrow> total_tokens self = 0"

definition cached_input :: "TokenUsage \<Rightarrow> int" where
  "cached_input self = max (cached_input_tokens self) 0"

definition non_cached_input :: "TokenUsage \<Rightarrow> int option" where
  "non_cached_input self =
     map_option (\<lambda>n. max n 0) (i64_sub (input_tokens self) (cached_input self))"

definition blended_total :: "TokenUsage \<Rightarrow> int option" where
  "blended_total self =
     Option.bind (non_cached_input self) (\<lambda>n.
       map_option (\<lambda>t. max t 0) (i64_add n (max (output_tokens self) 0)))"

definition add_assign :: "TokenUsage \<Rightarrow> TokenUsage \<Rightarrow> TokenUsage option" where
  "add_assign self other =
     do {
       i \<leftarrow> i64_add (input_tokens self) (input_tokens other);
       c \<leftarrow> i64_add (cached_input_tokens self) (cached_input_tokens other);
       w \<leftarrow> i64_add (cache_write_input_tokens self) (cache_write_input_tokens other);
       p \<leftarrow> i64_add (output_tokens self) (output_tokens other);
       r \<leftarrow> i64_add (reasoning_output_tokens self) (reasoning_output_tokens other);
       t \<leftarrow> i64_add (total_tokens self) (total_tokens other);
       Some (self\<lparr>input_tokens := i, cached_input_tokens := c, cache_write_input_tokens := w,
         output_tokens := p, reasoning_output_tokens := r, total_tokens := t\<rparr>)
     }"

record TokenUsageInfo =
  total_token_usage :: TokenUsage
  last_token_usage :: TokenUsage
  model_context_window :: "int option"

definition append_last_usage :: "TokenUsageInfo \<Rightarrow> TokenUsage \<Rightarrow> TokenUsageInfo option" where
  "append_last_usage self u =
     map_option (\<lambda>t. self\<lparr>total_token_usage := t, last_token_usage := u\<rparr>)
       (add_assign (total_token_usage self) u)"

text \<open>The outer option is the overflow, the inner one the result.\<close>

definition new_or_append ::
  "TokenUsageInfo option \<Rightarrow> TokenUsage option \<Rightarrow> int option \<Rightarrow> TokenUsageInfo option option" where
  "new_or_append info u window =
     (if info = None \<and> u = None then Some None
      else
        (let info =
           (case info of
              Some i \<Rightarrow> i
            | None \<Rightarrow>
                \<lparr>total_token_usage = default_usage, last_token_usage = default_usage,
                 model_context_window = window\<rparr>)
         in map_option
              (\<lambda>i. Some (case window of None \<Rightarrow> i | Some w \<Rightarrow> i\<lparr>model_context_window := Some w\<rparr>))
              (case u of None \<Rightarrow> Some info | Some l \<Rightarrow> append_last_usage info l)))"

definition fill_to_context_window :: "TokenUsageInfo \<Rightarrow> int \<Rightarrow> TokenUsageInfo option" where
  "fill_to_context_window self window =
     map_option
       (\<lambda>d. \<lparr>total_token_usage = default_usage\<lparr>total_tokens := window\<rparr>,
             last_token_usage = default_usage\<lparr>total_tokens := max d 0\<rparr>,
             model_context_window = Some window\<rparr>)
       (i64_sub window (total_tokens (total_token_usage self)))"

definition full_context_window :: "int \<Rightarrow> TokenUsageInfo option" where
  "full_context_window window =
     fill_to_context_window
       \<lparr>total_token_usage = default_usage, last_token_usage = default_usage,
        model_context_window = Some window\<rparr> window"

section \<open>Totals\<close>

text \<open>The counts of a usage as a list; sums are element-wise.\<close>

definition counts :: "TokenUsage \<Rightarrow> int list" where
  "counts u = [input_tokens u, cached_input_tokens u, cache_write_input_tokens u, output_tokens u,
     reasoning_output_tokens u, total_tokens u]"

definition add_counts :: "int list \<Rightarrow> int list \<Rightarrow> int list" where
  "add_counts = map2 (+)"

lemma add_assign_Some:
  "add_assign a b = Some c \<Longrightarrow> counts c = add_counts (counts a) (counts b) \<and> list_all in_i64 (counts c) \<and>
   codex_rollout_budget_units c = codex_rollout_budget_units a"
  by (auto simp: add_assign_def i64_add_def counts_def add_counts_def Option.bind_eq_Some_conv split: if_splits)

lemma add_assign_total:
  "(\<exists>c. add_assign a b = Some c) \<longleftrightarrow> list_all in_i64 (add_counts (counts a) (counts b))"
  by (auto simp: add_assign_def i64_add_def counts_def add_counts_def)

text \<open>Usage reports recorded one after another.\<close>

fun append_usages :: "TokenUsageInfo option \<Rightarrow> int option \<Rightarrow> TokenUsage list \<Rightarrow> TokenUsageInfo option option" where
  "append_usages info window [] = Some info"
| "append_usages info window (u # us) =
     Option.bind (new_or_append info (Some u) window) (\<lambda>info. append_usages info window us)"

lemma new_or_append_Some:
  assumes "new_or_append (Some info) (Some u) window = Some r"
  obtains info' where "r = Some info'" "last_token_usage info' = u"
    "counts (total_token_usage info') = add_counts (counts (total_token_usage info)) (counts u)"
  using assms add_assign_Some [of "total_token_usage info" u]
  by (cases window) (auto simp: new_or_append_def append_last_usage_def)

text \<open>However many reports come in, the totals are the sums of the reports and the last usage is the
  latest report.\<close>

lemma append_usages_totals:
  assumes "append_usages (Some info) window us = Some (Some info')" "us \<noteq> []"
  shows "counts (total_token_usage info') =
      foldl add_counts (counts (total_token_usage info)) (map counts us) \<and>
    last_token_usage info' = last us"
  using assms
proof (induction us arbitrary: info)
  case (Cons u us)
  then obtain r where r: "new_or_append (Some info) (Some u) window = Some r"
      "append_usages r window us = Some (Some info')"
    by (auto simp: Option.bind_eq_Some_conv)
  then obtain i where i: "r = Some i" "last_token_usage i = u"
      "counts (total_token_usage i) = add_counts (counts (total_token_usage info)) (counts u)"
    using new_or_append_Some by blast
  show ?case
    using Cons.IH [of i] r(2) i by (cases "us = []") auto
qed simp

end
