(* ===== verification/Context_Fragments.thy ===== *)
theory Context_Fragments
  imports Truncation
begin

text \<open>
  Recognition of the context that the harness itself injects into a conversation, after
  \<open>context-fragments/src/fragment.rs\<close>, \<open>core/src/context/contextual_user_message.rs\<close> with the matchers it
  lists, and the developer prefixes of \<open>core/src/event_mapping.rs\<close>.

  The XML parser behind hook prompts is third-party code and the argument \<open>from_xml\<close>; of it the
  lemmas use only that an XML document starts with a tag.
\<close>

section \<open>Markers\<close>

text \<open>A slice compared without regard to ASCII case; slices off a character boundary are \<open>None\<close>.\<close>

definition slice_matches :: "ustring option \<Rightarrow> ustring \<Rightarrow> bool" where
  "slice_matches slice marker = is_some_and slice (\<lambda>c. eq_ignore_ascii_case c marker)"

definition matches_marked_text :: "ustring \<Rightarrow> ustring \<Rightarrow> ustring \<Rightarrow> bool" where
  "matches_marked_text start_marker end_marker t =
     (if start_marker = [] \<or> end_marker = [] then False
      else
        (let trimmed = trim_start t;
             starts = slice_matches (slice_to trimmed (utf8_len start_marker)) start_marker;
             trimmed = trim_end trimmed;
             ends = slice_matches (slice_from trimmed (utf8_len trimmed - utf8_len end_marker)) end_marker
         in starts \<and> ends))"

section \<open>Matchers\<close>

text \<open>The fragments that are recognized by their two markers alone.\<close>

definition user_instructions_matches :: "ustring \<Rightarrow> bool" where
  "user_instructions_matches t =
     matches_marked_text (lit ''# AGENTS.md instructions'') (lit ''</INSTRUCTIONS>'') t"

definition environments_matches :: "ustring \<Rightarrow> bool" where
  "environments_matches t =
     matches_marked_text (lit ''<environment_context>'') (lit ''</environment_context>'') t"

definition is_skill_prompt_fragment :: "ustring \<Rightarrow> bool" where
  "is_skill_prompt_fragment t =
     matches_marked_text (lit ''<skill>'') (lit ''</skill>'') t"

definition user_shell_command_matches :: "ustring \<Rightarrow> bool" where
  "user_shell_command_matches t =
     matches_marked_text (lit ''<user_shell_command>'') (lit ''</user_shell_command>'') t"

definition turn_aborted_matches :: "ustring \<Rightarrow> bool" where
  "turn_aborted_matches t =
     matches_marked_text (lit ''<turn_aborted>'') (lit ''</turn_aborted>'') t"

definition subagent_notification_matches :: "ustring \<Rightarrow> bool" where
  "subagent_notification_matches t =
     matches_marked_text (lit ''<subagent_notification>'') (lit ''</subagent_notification>'') t"

definition recommended_plugins_matches :: "ustring \<Rightarrow> bool" where
  "recommended_plugins_matches t =
     matches_marked_text (lit ''<recommended_plugins>'') (lit ''</recommended_plugins>'') t"

lemmas marked_matchers = user_instructions_matches_def environments_matches_def is_skill_prompt_fragment_def user_shell_command_matches_def
  turn_aborted_matches_def subagent_notification_matches_def recommended_plugins_matches_def

text \<open>The fragments with a syntax of their own.\<close>

definition additional_context_matches :: "ustring \<Rightarrow> bool" where
  "additional_context_matches t =
     (case strip_prefix (lit ''<external_'') (trim t) of
        None \<Rightarrow> False
      | Some rest \<Rightarrow>
          (case split_once rest (lit ''>'') of
             None \<Rightarrow> False
           | Some (key, value_and_close) \<Rightarrow>
               ends_with value_and_close (lit ''</external_'' @ key @ lit ''>'')))"

definition is_valid_source :: "ustring \<Rightarrow> bool" where
  "is_valid_source source =
     (case source of
        [] \<Rightarrow> False
      | first # chars \<Rightarrow>
          is_ascii_lowercase first \<and>
          list_all (\<lambda>ch. is_ascii_lowercase ch \<or> is_ascii_digit ch \<or> ch = 95) chars)"

definition matches_legacy_goal_context :: "ustring \<Rightarrow> bool" where
  "matches_legacy_goal_context t \<longleftrightarrow>
     starts_with t (lit ''<goal_context>'') \<and> ends_with t (lit ''</goal_context>'')"

definition internal_context_matches :: "ustring \<Rightarrow> bool" where
  "internal_context_matches t =
     (let trimmed = trim t in
      if matches_legacy_goal_context trimmed then True
      else
        (case strip_prefix (lit ''<codex_internal_context'') trimmed of
           None \<Rightarrow> False
         | Some rest \<Rightarrow>
             (case strip_prefix (lit '' source='' @ [34]) rest of
                None \<Rightarrow> False
              | Some rest \<Rightarrow>
                  (case split_once rest ([34] @ lit ''>'') of
                     None \<Rightarrow> False
                   | Some (source, body_and_close) \<Rightarrow>
                       is_valid_source source \<and>
                       ends_with body_and_close (lit ''</codex_internal_context>'')))))"

definition process_limit_warning_matches :: "ustring \<Rightarrow> bool" where
  "process_limit_warning_matches t \<longleftrightarrow>
     starts_with (trim t)
       (lit ''Warning: The maximum number of unified exec processes you can keep open is'')"

definition apply_patch_warning_matches :: "ustring \<Rightarrow> bool" where
  "apply_patch_warning_matches t \<longleftrightarrow>
     starts_with (trim t) (lit ''Warning: apply_patch was requested via '') \<and>
     ends_with (trim t) (lit ''Use the apply_patch tool instead of exec_command.'')"

definition model_mismatch_warning_matches :: "ustring \<Rightarrow> bool" where
  "model_mismatch_warning_matches t \<longleftrightarrow>
     starts_with (trim t)
       (lit ''Warning: Your account was flagged for potentially high-risk cyber activity'')"

definition CONTEXTUAL_USER_FRAGMENT_MATCHERS :: "(ustring \<Rightarrow> bool) list" where
  "CONTEXTUAL_USER_FRAGMENT_MATCHERS =
     [user_instructions_matches, environments_matches, additional_context_matches,
      is_skill_prompt_fragment, user_shell_command_matches, turn_aborted_matches,
      subagent_notification_matches, internal_context_matches, recommended_plugins_matches,
      process_limit_warning_matches, apply_patch_warning_matches, model_mismatch_warning_matches]"

definition is_standard_contextual_user_text :: "ustring \<Rightarrow> bool" where
  "is_standard_contextual_user_text t =
     list_ex (\<lambda>matches_text. matches_text t) CONTEXTUAL_USER_FRAGMENT_MATCHERS"

text \<open>A hook prompt: its text and the id of the run.\<close>

definition parse_hook_prompt_fragment ::
  "(ustring \<Rightarrow> (ustring \<times> ustring) option) \<Rightarrow> ustring \<Rightarrow> (ustring \<times> ustring) option" where
  "parse_hook_prompt_fragment from_xml t =
     (case from_xml (trim t) of
        None \<Rightarrow> None
      | Some (txt, hook_run_id) \<Rightarrow> if trim hook_run_id = [] then None else Some (txt, hook_run_id))"

fun is_contextual_user_fragment ::
  "(ustring \<Rightarrow> (ustring \<times> ustring) option) \<Rightarrow> ContentItem \<Rightarrow> bool" where
  "is_contextual_user_fragment from_xml (InputText t) =
     (parse_hook_prompt_fragment from_xml t \<noteq> None \<or> is_standard_contextual_user_text t)"
| "is_contextual_user_fragment from_xml _ = False"

definition is_contextual_user_message_content ::
  "(ustring \<Rightarrow> (ustring \<times> ustring) option) \<Rightarrow> ContentItem list \<Rightarrow> bool" where
  "is_contextual_user_message_content from_xml message =
     list_ex (is_contextual_user_fragment from_xml) message"

section \<open>Developer context\<close>

definition CONTEXTUAL_DEVELOPER_PREFIXES :: "ustring list" where
  "CONTEXTUAL_DEVELOPER_PREFIXES =
     [lit ''<permissions instructions>'', lit ''Approved command prefix saved:'', lit ''<model_switch>'',
      lit ''<managed_developer_instructions>'', lit ''<persistent_mode>'', lit ''<apps_instructions>'',
      lit ''<collaboration_mode>'', lit ''<multi_agent_role>'', lit ''<multi_agent_mode>'',
      lit ''<environments_instructions>'', lit ''<git_attribution>'', lit ''<plugins_instructions>'',
      lit ''<realtime_conversation>'', lit ''<skills_instructions>'', lit ''<tools>'',
      lit ''<personality_spec>'', lit ''<token_budget>'', lit ''<context_window>'',
      lit ''<context_window_guidance>'', lit ''<rollout_budget>'']"

fun is_contextual_dev_fragment :: "ContentItem \<Rightarrow> bool" where
  "is_contextual_dev_fragment (InputText t) =
     list_ex (\<lambda>p. slice_matches (slice_to (trim_start t) (utf8_len p)) p) CONTEXTUAL_DEVELOPER_PREFIXES"
| "is_contextual_dev_fragment _ = False"

definition is_contextual_dev_message_content :: "ContentItem list \<Rightarrow> bool" where
  "is_contextual_dev_message_content message = list_ex is_contextual_dev_fragment message"

definition has_non_contextual_dev_message_content :: "ContentItem list \<Rightarrow> bool" where
  "has_non_contextual_dev_message_content message =
     list_ex (\<lambda>c. \<not> is_contextual_dev_fragment c) message"

definition model_switch_matches :: "ustring \<Rightarrow> bool" where
  "model_switch_matches t = matches_marked_text (lit ''<model_switch>'') (lit ''</model_switch>'') t"

definition persistent_mode_matches :: "ustring \<Rightarrow> bool" where
  "persistent_mode_matches t =
     matches_marked_text (lit ''<persistent_mode>'') (lit ''</persistent_mode>'') t"

section \<open>User authorization\<close>

text \<open>Whether a message counts as input of the user, by the classifications of its content.\<close>

definition user_kind :: "content_kind \<Rightarrow> bool" where
  "user_kind kind \<longleftrightarrow>
     starts_with kind (lit ''user.'') \<or> kind = [] \<or> kind = lit ''unknown'' \<or>
     kind = lit ''images.preparation_error'' \<or> kind = lit ''images.unsupported'' \<or>
     kind = lit ''audio.unsupported''"

fun is_user_authorization_message :: "ResponseItem \<Rightarrow> bool" where
  "is_user_authorization_message (Message _ role content _ m) =
     (role = lit ''user'' \<and>
      (case Option.bind m content_item_kinds of
         None \<Rightarrow> True
       | Some kinds \<Rightarrow> kinds = [] \<or> length kinds \<noteq> length content \<or> list_ex user_kind kinds))"
| "is_user_authorization_message _ = False"

section \<open>How a contextual text starts\<close>

definition xml_starts_with_tag :: "(ustring \<Rightarrow> (ustring \<times> ustring) option) \<Rightarrow> bool" where
  "xml_starts_with_tag from_xml \<longleftrightarrow> (\<forall>t r. from_xml t = Some r \<longrightarrow> starts_with t [60])"

lemma slice_to_hd:
  assumes "slice_matches (slice_to s (utf8_len p)) p" "p \<noteq> []"
  shows "s \<noteq> [] \<and> ascii_lower (hd s) = ascii_lower (hd p)"
proof -
  obtain a b where ab: "byte_split (utf8_len p) s = Some (a, b)" "eq_ignore_ascii_case a p"
    using assms(1) by (auto simp: slice_matches_def slice_to_def is_some_and_def split: option.splits)
  then have a: "map ascii_lower a = map ascii_lower p"
    by (simp add: eq_ignore_ascii_case_def to_ascii_lowercase_def)
  have "byte_split n s = Some (a, b) \<Longrightarrow> s = a @ b" for n a b
    by (induction n s arbitrary: a rule: byte_split.induct) (auto split: if_splits)
  then have "s = a @ b"
    using ab(1) by blast
  moreover have "a \<noteq> []" "ascii_lower (hd a) = ascii_lower (hd p)"
    using a assms(2) by (cases a; cases p; auto)+
  ultimately show ?thesis
    by auto
qed

lemma ascii_lower_punct: "ascii_lower c = 60 \<longleftrightarrow> c = 60" "ascii_lower c = 35 \<longleftrightarrow> c = 35"
  by (auto simp: ascii_lower_def)

lemma trim_hd_start: "trim t \<noteq> [] \<Longrightarrow> hd (trim t) = hd (trim_start t)"
  unfolding trim_def by (metis hd_append2 prefix_def trim_end_prefix)

text \<open>Every contextual text starts with a tag, a heading or a warning.\<close>

lemma marked_hd:
  assumes "matches_marked_text a b t" "a \<noteq> []" "hd a = 60 \<or> hd a = 35"
  shows "trim_start t \<noteq> [] \<and> (hd (trim_start t) = 60 \<or> hd (trim_start t) = 35)"
proof -
  have "slice_matches (slice_to (trim_start t) (utf8_len a)) a"
    using assms(1) by (auto simp: matches_marked_text_def Let_def split: if_splits)
  from slice_to_hd [OF this assms(2)] show ?thesis
    using assms(3) by (auto simp: ascii_lower_punct ascii_lower_def [of 60] ascii_lower_def [of 35])
qed

lemma prefix_hd: "starts_with s p \<Longrightarrow> p \<noteq> [] \<Longrightarrow> s \<noteq> [] \<and> hd s = hd p"
  by (cases s; cases p) (auto simp: starts_with_def)

lemma trim_start_of_trim: "trim t \<noteq> [] \<Longrightarrow> trim_start t \<noteq> []"
  by (auto simp: trim_def)

lemma contextual_hd:
  assumes "is_contextual_user_fragment from_xml (InputText t)" "xml_starts_with_tag from_xml"
  shows "trim_start t \<noteq> [] \<and> hd (trim_start t) \<in> {60, 35, 87}"
proof -
  have from_trim: "trim_start t \<noteq> [] \<and> hd (trim_start t) \<in> {60, 35, 87}"
    if "starts_with (trim t) p" "p \<noteq> []" "hd p \<in> {60, 35, 87}" for p
    using prefix_hd [OF that(1,2)] that(3) trim_hd_start [of t] trim_start_of_trim [of t] by auto
  have strip: "strip_prefix p s = Some r \<Longrightarrow> starts_with s p" for p s r
    by (auto simp: strip_prefix_def starts_with_def split: if_splits)
  have marker: "\<exists>a b. matches_marked_text a b t \<and> a \<noteq> [] \<and> (hd a = 60 \<or> hd a = 35)"
    if "user_instructions_matches t \<or> environments_matches t \<or> is_skill_prompt_fragment t \<or>
      user_shell_command_matches t \<or> turn_aborted_matches t \<or> subagent_notification_matches t \<or>
      recommended_plugins_matches t"
    using that unfolding marked_matchers by (elim disjE) (rule exI, rule exI, erule conjI, simp add: lit_def)+
  consider (hook) "parse_hook_prompt_fragment from_xml t \<noteq> None"
    | (marked) "\<exists>a b. matches_marked_text a b t \<and> a \<noteq> [] \<and> (hd a = 60 \<or> hd a = 35)"
    | (additional) "additional_context_matches t"
    | (internal) "internal_context_matches t"
    | (warning) "process_limit_warning_matches t \<or> apply_patch_warning_matches t \<or>
        model_mismatch_warning_matches t"
    using assms(1) marker
    by (simp add: is_standard_contextual_user_text_def CONTEXTUAL_USER_FRAGMENT_MATCHERS_def) blast
  then show ?thesis
  proof cases
    case hook
    then have "starts_with (trim t) [60]"
      using assms(2) by (auto simp: parse_hook_prompt_fragment_def xml_starts_with_tag_def split: option.splits)
    then show ?thesis
      by (rule from_trim) simp_all
  next
    case marked
    then show ?thesis
      using marked_hd by blast
  next
    case additional
    then have "starts_with (trim t) (lit ''<external_'')"
      by (auto simp: additional_context_matches_def split: option.splits dest: strip)
    then show ?thesis
      by (rule from_trim) (simp_all add: lit_def)
  next
    case internal
    then have "starts_with (trim t) (lit ''<goal_context>'') \<or>
        starts_with (trim t) (lit ''<codex_internal_context'')"
      by (auto simp: internal_context_matches_def matches_legacy_goal_context_def Let_def
          split: if_splits option.splits dest: strip)
    then show ?thesis
      using from_trim [of "lit ''<goal_context>''"] from_trim [of "lit ''<codex_internal_context''"]
      by (auto simp: lit_def)
  next
    case warning
    then have "\<exists>p. starts_with (trim t) p \<and> p \<noteq> [] \<and> hd p = 87"
      by (auto simp: process_limit_warning_matches_def apply_patch_warning_matches_def
          model_mismatch_warning_matches_def lit_def intro: exI [rotated])
    then show ?thesis
      using from_trim by auto
  qed
qed

end
