(* ===== verification/Media_Urls.thy ===== *)
theory Media_Urls
  imports Context_Fragments "HOL-Library.Word"
begin

text \<open>
  Data URLs of images and audio: the recognizer of \<open>core/src/context_manager/history.rs\<close> and the
  preparation of audio inputs of \<open>utils/audio/src/lib.rs\<close>.

  The base64 codec is a library: \<open>decode\<close> and \<open>encode\<close> are arguments, with the laws \<open>base64_laws\<close> where a
  lemma needs them. Slicing inside a character is a panic, \<open>None\<close>.
\<close>

section \<open>Recognizing data URLs\<close>

text \<open>The position \<open>find(',')\<close> returns is that of a one-byte character, so slicing there is the split of
  the text at the comma.\<close>

definition has_base64 :: "ustring list \<Rightarrow> bool" where
  "has_base64 parts = list_ex (\<lambda>part. eq_ignore_ascii_case part (lit ''base64'')) parts"

definition parse_base64_data_url :: "ustring \<Rightarrow> ustring \<Rightarrow> ustring option option" where
  "parse_base64_data_url url media_type_prefix =
     (if \<not> slice_matches (slice_to url 5) (lit ''data:'') then Some None
      else
        (case split_once url (lit '','') of
           None \<Rightarrow> Some None
         | Some (metadata, payload) \<Rightarrow>
             (case slice_from metadata 5 of
                None \<Rightarrow> None
              | Some metadata_without_scheme \<Rightarrow>
                  (let parts = split_on 59 metadata_without_scheme;
                       mime_type = hd parts;
                       has_base64_marker = has_base64 (tl parts)
                   in if \<not> slice_matches (slice_to mime_type (utf8_len media_type_prefix)) media_type_prefix
                      then Some None
                      else if \<not> has_base64_marker then Some None
                      else Some (Some payload)))))"

definition parse_base64_image_data_url :: "ustring \<Rightarrow> ustring option option" where
  "parse_base64_image_data_url url = parse_base64_data_url url (lit ''image/'')"

definition parse_base64_audio_data_url :: "ustring \<Rightarrow> ustring option option" where
  "parse_base64_audio_data_url url = parse_base64_data_url url (lit ''audio/'')"

section \<open>Preparing audio\<close>

datatype AudioPreparationError =
    InvalidDataUrl ustring
  | UnsupportedFormat
  | AudioTooLarge nat

fun placeholder :: "AudioPreparationError \<Rightarrow> ustring" where
  "placeholder (InvalidDataUrl _) = lit ''audio content omitted because it could not be processed''"
| "placeholder UnsupportedFormat =
     lit ''audio content omitted because its format is not supported; use wav, mp3, m4a, webm, or ogg''"
| "placeholder (AudioTooLarge _) =
     lit ''audio content omitted because it exceeded the supported size limit; use a smaller audio file''"

definition MAX_PROMPT_AUDIO_INPUT_BYTES :: nat where
  "MAX_PROMPT_AUDIO_INPUT_BYTES = 50 * 1024 * 1024"

definition MAX_PROMPT_AUDIO_BASE64_BYTES :: nat where
  "MAX_PROMPT_AUDIO_BASE64_BYTES = (MAX_PROMPT_AUDIO_INPUT_BYTES + 2) div 3 * 4"

definition is_data_url :: "ustring \<Rightarrow> bool" where
  "is_data_url url = slice_matches (slice_to url 5) (lit ''data:'')"

definition canonical_audio_mime :: "ustring \<Rightarrow> ustring option" where
  "canonical_audio_mime mime =
     (let is = (\<lambda>s. eq_ignore_ascii_case mime (lit s)) in
      if is ''audio/wav'' \<or> is ''audio/x-wav'' \<or> is ''audio/wave'' \<or> is ''audio/vnd.wave'' then
        Some (lit ''audio/wav'')
      else if is ''audio/mpeg'' \<or> is ''audio/mp3'' then Some (lit ''audio/mpeg'')
      else if is ''audio/mp4'' \<or> is ''audio/m4a'' \<or> is ''audio/x-m4a'' then Some (lit ''audio/mp4'')
      else if is ''audio/webm'' then Some (lit ''audio/webm'')
      else if is ''audio/ogg'' then Some (lit ''audio/ogg'')
      else None)"

definition canonical_url :: "ustring \<Rightarrow> ustring \<Rightarrow> ustring" where
  "canonical_url mime encoded = lit ''data:'' @ mime @ lit '';base64,'' @ encoded"

definition prepare_audio ::
  "(ustring \<Rightarrow> 8 word list option) \<Rightarrow> (8 word list \<Rightarrow> ustring) \<Rightarrow> ustring \<Rightarrow>
   (AudioPreparationError, ustring) result" where
  "prepare_audio decode encode url =
     (if \<not> is_data_url url then Inl (InvalidDataUrl (lit ''audio input must be a data URL''))
      else
      case split_once url (lit '','') of
        None \<Rightarrow> Inl (InvalidDataUrl (lit ''missing payload separator''))
      | Some (metadata, payload) \<Rightarrow>
      case slice_from metadata 5 of
        None \<Rightarrow> Inl (InvalidDataUrl (lit ''missing data URL prefix''))
      | Some metadata \<Rightarrow>
      let parts = split_on 59 metadata; mime = hd parts in
      if mime = [] then Inl (InvalidDataUrl (lit ''missing media type''))
      else
      case canonical_audio_mime mime of
        None \<Rightarrow> Inl UnsupportedFormat
      | Some canonical_mime \<Rightarrow>
      if \<not> has_base64 (tl parts) then Inl (InvalidDataUrl (lit ''audio payload is not base64 encoded''))
      else if utf8_len payload > MAX_PROMPT_AUDIO_BASE64_BYTES then Inl (AudioTooLarge (utf8_len payload))
      else
      case decode payload of
        None \<Rightarrow> Inl (InvalidDataUrl (lit ''invalid base64 payload''))
      | Some bytes \<Rightarrow>
      if length bytes > MAX_PROMPT_AUDIO_INPUT_BYTES then Inl (AudioTooLarge (length bytes))
      else Inr (canonical_url canonical_mime (encode bytes)))"

fun prepare_content :: "(ustring \<Rightarrow> (AudioPreparationError, ustring) result) \<Rightarrow> ContentItem \<Rightarrow> ContentItem" where
  "prepare_content prepare (InputAudio url) =
     (case prepare url of Inl e \<Rightarrow> InputText (placeholder e) | Inr url' \<Rightarrow> InputAudio url')"
| "prepare_content prepare c = c"

fun prepare_output_content ::
  "(ustring \<Rightarrow> (AudioPreparationError, ustring) result) \<Rightarrow> FunctionCallOutputContentItem \<Rightarrow>
   FunctionCallOutputContentItem" where
  "prepare_output_content prepare (OutInputAudio url) =
     (case prepare url of Inl e \<Rightarrow> OutInputText (placeholder e) | Inr url' \<Rightarrow> OutInputAudio url')"
| "prepare_output_content prepare c = c"

definition prepare_payload ::
  "(ustring \<Rightarrow> (AudioPreparationError, ustring) result) \<Rightarrow> FunctionCallOutputPayload \<Rightarrow>
   FunctionCallOutputPayload" where
  "prepare_payload prepare out =
     (case out_body out of
        BodyText _ \<Rightarrow> out
      | ContentItems cs \<Rightarrow> out\<lparr>out_body := ContentItems (map (prepare_output_content prepare) cs)\<rparr>)"

fun prepare_response_item ::
  "(ustring \<Rightarrow> (AudioPreparationError, ustring) result) \<Rightarrow> ResponseItem \<Rightarrow> ResponseItem" where
  "prepare_response_item prepare (Message i r content p m) =
     Message i r (map (prepare_content prepare) content) p m"
| "prepare_response_item prepare (FunctionCallOutput i c n ns out m) =
     FunctionCallOutput i c n ns (prepare_payload prepare out) m"
| "prepare_response_item prepare (CustomToolCallOutput i c n out m) =
     CustomToolCallOutput i c n (prepare_payload prepare out) m"
| "prepare_response_item prepare item = item"

definition prepare_response_items ::
  "(ustring \<Rightarrow> 8 word list option) \<Rightarrow> (8 word list \<Rightarrow> ustring) \<Rightarrow> ResponseItem list \<Rightarrow> ResponseItem list" where
  "prepare_response_items decode encode items =
     map (prepare_response_item (prepare_audio decode encode)) items"

section \<open>Slicing data URLs is safe\<close>

lemma byte_split_append_eq: "byte_split n s = Some (a, b) \<Longrightarrow> s = a @ b \<and> utf8_len a = n"
  by (induction n s arbitrary: a rule: byte_split.induct) (auto split: if_splits)

lemma data_prefix:
  assumes "slice_matches (slice_to url 5) (lit ''data:'')"
  obtains p rest where "url = p @ rest" "utf8_len p = 5" "44 \<notin> set p"
proof -
  obtain p rest where s: "byte_split 5 url = Some (p, rest)" "eq_ignore_ascii_case p (lit ''data:'')"
    using assms by (auto simp: slice_matches_def slice_to_def is_some_and_def split: option.splits)
  then have "set (map ascii_lower p) = set (map ascii_lower (lit ''data:''))"
    by (simp add: eq_ignore_ascii_case_def to_ascii_lowercase_def)
  moreover have "ascii_lower 44 \<notin> set (map ascii_lower (lit ''data:''))"
    by (simp add: lit_def ascii_lower_def)
  ultimately have "44 \<notin> set p"
    by (metis image_eqI set_map)
  then show thesis
    using that byte_split_append_eq [OF s(1)] by blast
qed

lemma comma_after_prefix:
  assumes "a @ 44 # b = p @ rest" "44 \<notin> set p"
  obtains x where "a = p @ x"
  using assms by (auto simp: append_eq_append_conv2 Cons_eq_append_conv)

lemma data_metadata:
  assumes "slice_matches (slice_to url 5) (lit ''data:'')" "split_once url (lit '','') = Some (metadata, payload)"
  obtains x where "slice_from metadata 5 = Some x"
proof -
  obtain p rest where p: "url = p @ rest" "utf8_len p = 5" "44 \<notin> set p"
    using data_prefix [OF assms(1)] by blast
  then obtain x where "metadata = p @ x"
    using comma_after_prefix [of metadata payload p rest] split_once_Some [OF assms(2)] by (auto simp: lit_def)
  then have "slice_from metadata (utf8_len p) = Some x"
    by simp
  then show thesis
    using that p(2) by simp
qed

lemma parse_base64_data_url_total: "parse_base64_data_url url kind \<noteq> None"
  by (auto simp: parse_base64_data_url_def Let_def split: option.splits elim: data_metadata)

section \<open>Preparation is idempotent\<close>

definition base64_laws :: "(ustring \<Rightarrow> 8 word list option) \<Rightarrow> (8 word list \<Rightarrow> ustring) \<Rightarrow> bool" where
  "base64_laws decode encode \<longleftrightarrow>
     (\<forall>bytes. decode (encode bytes) = Some bytes \<and> utf8_len (encode bytes) = (length bytes + 2) div 3 * 4)"

definition canonical_mimes :: "ustring list" where
  "canonical_mimes =
     [lit ''audio/wav'', lit ''audio/mpeg'', lit ''audio/mp4'', lit ''audio/webm'', lit ''audio/ogg'']"

lemma canonical_mime_in: "canonical_audio_mime mime = Some c \<Longrightarrow> c \<in> set canonical_mimes"
  unfolding canonical_audio_mime_def canonical_mimes_def Let_def by (simp split: if_splits)

lemma canonical_mimes_fixed:
  "list_all (\<lambda>c. canonical_audio_mime c = Some c \<and> c \<noteq> [] \<and> \<not> List.member c 44 \<and> \<not> List.member c 59)
     canonical_mimes"
  by code_simp

lemma canonical_mime_canonical:
  "canonical_audio_mime mime = Some c \<Longrightarrow> canonical_audio_mime c = Some c \<and> c \<noteq> [] \<and> 44 \<notin> set c \<and> 59 \<notin> set c"
  using canonical_mimes_fixed canonical_mime_in by (auto simp: list_all_iff)

lemma prepare_canonical_url:
  assumes "canonical_audio_mime c = Some c" "c \<noteq> []" "44 \<notin> set c" "59 \<notin> set c"
    "base64_laws decode encode" "length bytes \<le> MAX_PROMPT_AUDIO_INPUT_BYTES"
  shows "prepare_audio decode encode (canonical_url c (encode bytes)) = Inr (canonical_url c (encode bytes))"
proof -
  let ?meta = "c @ lit '';base64''"
  have url: "canonical_url c (encode bytes) = lit ''data:'' @ ?meta @ 44 # encode bytes"
    by (simp add: canonical_url_def lit_def)
  have five: "utf8_len (lit ''data:'') = 5"
    by (simp add: lit_def len_utf8_def)
  have slices: "slice_to (lit ''data:'' @ s) 5 = Some (lit ''data:'')" "slice_from (lit ''data:'' @ s) 5 = Some s" for s
    using slice_append [of "lit ''data:''" s] unfolding five by simp_all
  have split: "split_once (canonical_url c (encode bytes)) (lit '','') = Some (lit ''data:'' @ ?meta, encode bytes)"
    using split_once_char [of 44 "lit ''data:'' @ ?meta" "encode bytes"] assms(3) unfolding url by (simp add: lit_def)
  have parts: "split_on 59 ?meta = [c, lit ''base64'']"
    using split_on_append_sep [OF assms(4), of "lit ''base64''"] by (simp add: lit_def)
  have small: "utf8_len (encode bytes) \<le> MAX_PROMPT_AUDIO_BASE64_BYTES"
    using assms(5,6) unfolding base64_laws_def MAX_PROMPT_AUDIO_BASE64_BYTES_def
    by (simp add: div_le_mono)
  have dec: "decode (encode bytes) = Some bytes"
    using assms(5) by (simp add: base64_laws_def)
  have "is_data_url (canonical_url c (encode bytes))"
    unfolding is_data_url_def url by (simp add: slices slice_matches_def eq_ignore_ascii_case_def)
  then show ?thesis
    unfolding prepare_audio_def split option.case prod.case slices(2) Let_def parts
    using assms(1,2,6) small dec by (simp add: has_base64_def eq_ignore_ascii_case_def)
qed

lemma prepare_audio_idempotent:
  assumes "prepare_audio decode encode url = Inr url'" "base64_laws decode encode"
  shows "prepare_audio decode encode url' = Inr url'"
proof -
  obtain mime c bytes where "canonical_audio_mime mime = Some c" "length bytes \<le> MAX_PROMPT_AUDIO_INPUT_BYTES"
      "url' = canonical_url c (encode bytes)"
    using assms(1) by (auto simp: prepare_audio_def Let_def not_less split: if_splits option.splits)
  then show ?thesis
    using canonical_mime_canonical prepare_canonical_url assms(2) by blast
qed

text \<open>Preparing the items of a request twice is preparing them once, and leaves no audio behind that the
  preparation refuses.\<close>

lemma prepare_items_idempotent:
  assumes "base64_laws decode encode"
  shows "prepare_response_items decode encode (prepare_response_items decode encode items) =
    prepare_response_items decode encode items"
proof -
  let ?p = "prepare_audio decode encode"
  have idem: "?p url = Inr url' \<Longrightarrow> ?p url' = Inr url'" for url url'
    using prepare_audio_idempotent [OF _ assms] .
  have content: "prepare_content ?p (prepare_content ?p c) = prepare_content ?p c" for c
    by (cases c) (auto split: sum.splits dest: idem)
  have out: "prepare_output_content ?p (prepare_output_content ?p c) = prepare_output_content ?p c" for c
    by (cases c) (auto split: sum.splits dest: idem)
  have payload: "prepare_payload ?p (prepare_payload ?p p) = prepare_payload ?p p" for p
    by (cases "out_body p") (simp_all add: prepare_payload_def out)
  have "prepare_response_item ?p (prepare_response_item ?p item) = prepare_response_item ?p item" for item
    by (cases item) (simp_all add: content payload)
  then show ?thesis
    by (simp add: prepare_response_items_def)
qed

end
