(* ===== verification/Token_Estimate.thy ===== *)
theory Token_Estimate
  imports Media_Urls
begin

text \<open>
  The byte-based token estimates of \<open>core/src/context_manager/history.rs\<close>. Base64 payloads inside an
  item count by what the model sees of them, everything else by the length of its JSON.

  Libraries are the fields of \<open>Estimator\<close>: the length of an item's JSON if it serializes, the width and
  height of an encoded image if it decodes, and the duration-based estimate of an audio URL. The two
  caches of the code hold results of these functions and are not modelled.
\<close>

section \<open>Definitions\<close>

record Estimator =
  json_bytes :: "ResponseItem \<Rightarrow> nat option"
  image_dimensions :: "ustring \<Rightarrow> (nat \<times> nat) option"
  audio_token_count :: "ustring \<Rightarrow> nat"

definition i64_sat_mul :: "int \<Rightarrow> int \<Rightarrow> int" where
  "i64_sat_mul a b = i64_clamp (a * b)"

definition estimate_reasoning_length :: "nat \<Rightarrow> nat" where
  "estimate_reasoning_length encoded_len = sat_mul encoded_len 3 div 4 - 650"

definition estimate_encrypted_function_output_length :: "nat \<Rightarrow> nat" where
  "estimate_encrypted_function_output_length encoded_len = (sat_mul encoded_len 9 + 15) div 16"

definition RESIZED_IMAGE_BYTES_ESTIMATE :: int where
  "RESIZED_IMAGE_BYTES_ESTIMATE = 7373"

definition ORIGINAL_IMAGE_PATCH_SIZE :: int where
  "ORIGINAL_IMAGE_PATCH_SIZE = 32"

definition ORIGINAL_IMAGE_MAX_PATCHES :: nat where
  "ORIGINAL_IMAGE_MAX_PATCHES = 10000"

text \<open>The recognizer never panics (\<open>parse_base64_data_url_total\<close>), so its outer option is dropped.\<close>

definition image_payload :: "ustring \<Rightarrow> ustring option" where
  "image_payload url = Option.bind (parse_base64_image_data_url url) id"

definition audio_payload :: "ustring \<Rightarrow> ustring option" where
  "audio_payload url = Option.bind (parse_base64_audio_data_url url) id"

definition estimate_original_image_bytes :: "Estimator \<Rightarrow> ustring \<Rightarrow> int option" where
  "estimate_original_image_bytes est image_url =
     (case image_payload image_url of
        None \<Rightarrow> None
      | Some payload \<Rightarrow>
          (case image_dimensions est payload of
             None \<Rightarrow> None
           | Some (w, h) \<Rightarrow>
               (let patch_size = ORIGINAL_IMAGE_PATCH_SIZE;
                    patches_wide = i64_sat_add (int w) (i64_sat_sub patch_size 1) div patch_size;
                    patches_high = i64_sat_add (int h) (i64_sat_sub patch_size 1) div patch_size;
                    patch_count = i64_sat_mul patches_wide patches_high;
                    patch_count = (if patch_count < 0 then usize_max else nat patch_count);
                    patch_count = min patch_count ORIGINAL_IMAGE_MAX_PATCHES
                in Some (i64_of_usize (approx_bytes_for_tokens patch_count)))))"

definition estimate_image_bytes :: "Estimator \<Rightarrow> ustring \<Rightarrow> ImageDetail option \<Rightarrow> int" where
  "estimate_image_bytes est image_url detail =
     (if detail = Some Original then
        (case estimate_original_image_bytes est image_url of
           None \<Rightarrow> RESIZED_IMAGE_BYTES_ESTIMATE
         | Some n \<Rightarrow> n)
      else RESIZED_IMAGE_BYTES_ESTIMATE)"

text \<open>A pair of running sums: payload bytes to take off, replacement bytes to put in.\<close>

definition accumulate :: "nat \<Rightarrow> int \<Rightarrow> int \<times> int \<Rightarrow> int \<times> int" where
  "accumulate payload_len replacement acc =
     (i64_sat_add (fst acc) (i64_of_usize payload_len), i64_sat_add (snd acc) replacement)"

definition accumulate_image :: "Estimator \<Rightarrow> ustring \<Rightarrow> ImageDetail option \<Rightarrow> int \<times> int \<Rightarrow> int \<times> int" where
  "accumulate_image est image_url detail acc =
     (case image_payload image_url of
        None \<Rightarrow> acc
      | Some payload \<Rightarrow> accumulate (utf8_len payload) (estimate_image_bytes est image_url detail) acc)"

fun content_images :: "Estimator \<Rightarrow> ContentItem \<Rightarrow> int \<times> int \<Rightarrow> int \<times> int" where
  "content_images est (InputImage url detail) acc = accumulate_image est url detail acc"
| "content_images est _ acc = acc"

fun output_images :: "Estimator \<Rightarrow> FunctionCallOutputContentItem \<Rightarrow> int \<times> int \<Rightarrow> int \<times> int" where
  "output_images est (OutInputImage url detail) acc = accumulate_image est url detail acc"
| "output_images est _ acc = acc"

definition payload_fold :: "(FunctionCallOutputContentItem \<Rightarrow> int \<times> int \<Rightarrow> int \<times> int) \<Rightarrow>
  FunctionCallOutputPayload \<Rightarrow> int \<times> int" where
  "payload_fold f out =
     (case out_body out of BodyText _ \<Rightarrow> (0, 0) | ContentItems items \<Rightarrow> fold f items (0, 0))"

fun image_data_url_estimate_adjustment :: "Estimator \<Rightarrow> ResponseItem \<Rightarrow> int \<times> int" where
  "image_data_url_estimate_adjustment est (Message _ _ content _ _) = fold (content_images est) content (0, 0)"
| "image_data_url_estimate_adjustment est (FunctionCallOutput _ _ _ _ out _) = payload_fold (output_images est) out"
| "image_data_url_estimate_adjustment est (CustomToolCallOutput _ _ _ out _) = payload_fold (output_images est) out"
| "image_data_url_estimate_adjustment est _ = (0, 0)"

definition accumulate_audio :: "Estimator \<Rightarrow> ustring \<Rightarrow> int \<times> int \<Rightarrow> int \<times> int" where
  "accumulate_audio est audio_url acc =
     (case audio_payload audio_url of
        None \<Rightarrow> acc
      | Some payload \<Rightarrow>
          accumulate (utf8_len payload)
            (i64_of_usize (approx_bytes_for_tokens (audio_token_count est audio_url))) acc)"

fun content_audio :: "Estimator \<Rightarrow> ContentItem \<Rightarrow> int \<times> int \<Rightarrow> int \<times> int" where
  "content_audio est (InputAudio url) acc = accumulate_audio est url acc"
| "content_audio est _ acc = acc"

fun output_audio :: "Estimator \<Rightarrow> FunctionCallOutputContentItem \<Rightarrow> int \<times> int \<Rightarrow> int \<times> int" where
  "output_audio est (OutInputAudio url) acc = accumulate_audio est url acc"
| "output_audio est _ acc = acc"

fun audio_data_url_estimate_adjustment :: "Estimator \<Rightarrow> ResponseItem \<Rightarrow> int \<times> int" where
  "audio_data_url_estimate_adjustment est (Message _ _ content _ _) = fold (content_audio est) content (0, 0)"
| "audio_data_url_estimate_adjustment est (FunctionCallOutput _ _ _ _ out _) = payload_fold (output_audio est) out"
| "audio_data_url_estimate_adjustment est (CustomToolCallOutput _ _ _ out _) = payload_fold (output_audio est) out"
| "audio_data_url_estimate_adjustment est _ = (0, 0)"

definition accumulate_encrypted :: "ustring \<Rightarrow> int \<times> int \<Rightarrow> int \<times> int" where
  "accumulate_encrypted encrypted acc =
     accumulate (utf8_len encrypted)
       (i64_of_usize (estimate_encrypted_function_output_length (utf8_len encrypted))) acc"

fun output_encrypted :: "FunctionCallOutputContentItem \<Rightarrow> int \<times> int \<Rightarrow> int \<times> int" where
  "output_encrypted (OutEncryptedContent e) acc = accumulate_encrypted e acc"
| "output_encrypted _ acc = acc"

fun agent_encrypted :: "AgentMessageInputContent \<Rightarrow> int \<times> int \<Rightarrow> int \<times> int" where
  "agent_encrypted (AgentEncryptedContent e) acc = accumulate_encrypted e acc"
| "agent_encrypted _ acc = acc"

fun encrypted_function_output_estimate_adjustment :: "ResponseItem \<Rightarrow> int \<times> int" where
  "encrypted_function_output_estimate_adjustment (FunctionCallOutput _ _ _ _ out _) = payload_fold output_encrypted out"
| "encrypted_function_output_estimate_adjustment (AgentMessage _ _ _ content _) = fold agent_encrypted content (0, 0)"
| "encrypted_function_output_estimate_adjustment _ = (0, 0)"

text \<open>The payload an item carries in encrypted form only.\<close>

fun encrypted_only :: "ResponseItem \<Rightarrow> ustring option" where
  "encrypted_only (Reasoning _ _ _ content _) = content"
| "encrypted_only (Compaction _ content _) = Some content"
| "encrypted_only (ContextCompaction _ content _) = content"
| "encrypted_only _ = None"

definition replace_bytes :: "int \<Rightarrow> int \<times> int \<Rightarrow> int" where
  "replace_bytes raw adjustment = i64_sat_add (i64_sat_sub raw (fst adjustment)) (snd adjustment)"

definition estimate_response_item_model_visible_bytes :: "Estimator \<Rightarrow> ResponseItem \<Rightarrow> int" where
  "estimate_response_item_model_visible_bytes est item =
     (case encrypted_only item of
        Some content \<Rightarrow> i64_of_usize (estimate_reasoning_length (utf8_len content))
      | None \<Rightarrow>
          (let raw = (case json_bytes est item of None \<Rightarrow> 0 | Some len \<Rightarrow> i64_of_usize len);
               raw = replace_bytes raw (image_data_url_estimate_adjustment est item);
               raw = replace_bytes raw (audio_data_url_estimate_adjustment est item)
           in replace_bytes raw (encrypted_function_output_estimate_adjustment item)))"

definition estimate_item_token_count :: "Estimator \<Rightarrow> ResponseItem \<Rightarrow> int" where
  "estimate_item_token_count est item =
     approx_tokens_from_byte_count_i64 (estimate_response_item_model_visible_bytes est item)"

text \<open>\<open>fold(0i64, i64::saturating_add)\<close> over the estimates.\<close>

definition estimate_items :: "Estimator \<Rightarrow> ResponseItem list \<Rightarrow> int" where
  "estimate_items est items = foldl i64_sat_add 0 (map (estimate_item_token_count est) items)"

section \<open>Bounds\<close>

lemma estimate_item_bounds: "0 \<le> estimate_item_token_count est item" "in_i64 (estimate_item_token_count est item)"
  by (simp_all add: estimate_item_token_count_def approx_tokens_from_byte_count_i64_def)

text \<open>The cost of an image does not depend on the length of its encoding.\<close>

lemma estimate_image_bounds:
  "0 \<le> estimate_image_bytes est url detail \<and> estimate_image_bytes est url detail \<le> 40000"
proof -
  have "i64_of_usize (approx_bytes_for_tokens (min n ORIGINAL_IMAGE_MAX_PATCHES)) \<le> 40000" for n
    by (auto simp: i64_of_usize_def i64_max_def approx_bytes_for_tokens_def sat_mul_def APPROX_BYTES_PER_TOKEN_def
        ORIGINAL_IMAGE_MAX_PATCHES_def usize_max_def min_def)
  then show ?thesis
    by (auto simp: estimate_image_bytes_def estimate_original_image_bytes_def RESIZED_IMAGE_BYTES_ESTIMATE_def
        Let_def split: option.splits)
qed

lemma sat_sum_mono:
  assumes "list_all (\<lambda>x. 0 \<le> x) xs" "in_i64 a"
  shows "a \<le> foldl i64_sat_add a xs \<and> in_i64 (foldl i64_sat_add a xs)"
  using assms
proof (induction xs arbitrary: a)
  case (Cons x xs)
  then have "a \<le> i64_sat_add a x" "i64_sat_add a x \<le> foldl i64_sat_add (i64_sat_add a x) xs"
      "in_i64 (foldl i64_sat_add (i64_sat_add a x) xs)"
    using i64_sat_add_ge [of x a] by simp_all
  then show ?case
    by simp
qed simp

lemma estimate_items_bounds: "0 \<le> estimate_items est items" "in_i64 (estimate_items est items)"
  using sat_sum_mono [of "map (estimate_item_token_count est) items" 0] estimate_item_bounds(1)
  by (simp_all add: estimate_items_def list_all_iff)

text \<open>The saturating sum is the exact sum capped at the largest value.\<close>

lemma sat_sum_exact:
  assumes "list_all (\<lambda>x. 0 \<le> x) xs" "0 \<le> a" "a \<le> i64_max"
  shows "foldl i64_sat_add a xs = min (a + sum_list xs) i64_max"
  using assms
proof (induction xs arbitrary: a)
  case (Cons x xs)
  have nonneg: "0 \<le> sum_list xs"
    using Cons.prems(1) by (induction xs) auto
  have "foldl i64_sat_add (i64_sat_add a x) xs = min (i64_sat_add a x + sum_list xs) i64_max"
    using Cons by (intro Cons.IH) (auto simp: i64_defs)
  moreover have "i64_sat_add a x = min (a + x) i64_max"
    using Cons.prems by (auto simp: i64_defs)
  ultimately show ?case
    using Cons.prems nonneg by (auto simp: min_def)
qed simp

end
