(* ===== verification/Context_Manager.thy ===== *)
theory Context_Manager
  imports Review_History Token_Usage Token_Estimate
begin

text \<open>
  The history of a thread, after \<open>core/src/context_manager/history.rs\<close>: recording, compaction, rollback,
  the removal of the oldest item, and the token counts.

  The fields of \<open>Host\<close> are what the manager gets from libraries: the XML parser of hook prompts, the
  JSON parser that recognizes an inter-agent message, the JSON writer of the review history, the scaling
  of a budget by 1.2 in floating point, and the duration-based estimate of audio. A panic is \<open>None\<close>.
\<close>

section \<open>State\<close>

record Host =
  from_xml :: "ustring \<Rightarrow> (ustring \<times> ustring) option"
  is_inter_agent_json :: "ustring \<Rightarrow> bool"
  json :: Json
  scale_budget :: "nat \<Rightarrow> nat"
  audio_tokens :: "ustring \<Rightarrow> nat"

record ContextManager =
  cm_items :: "Envelope list"
  review_history :: "TranscriptHistory option"
  history_version :: nat
  user_message_revision :: nat
  token_info :: "TokenUsageInfo option"
  reference_context_item :: "opaque option"
  world_state_baseline :: "opaque option"

definition manager_new :: ContextManager where
  "manager_new =
     \<lparr>cm_items = [], review_history = None, history_version = 0, user_message_revision = 0,
      token_info = None, reference_context_item = None, world_state_baseline = None\<rparr>"

section \<open>Kinds of items\<close>

fun is_api_message :: "ResponseItem \<Rightarrow> bool" where
  "is_api_message (Message _ role _ _ _) = (role \<noteq> lit ''system'')"
| "is_api_message CompactionTrigger = False"
| "is_api_message Other = False"
| "is_api_message _ = True"

fun is_model_generated_item :: "ResponseItem \<Rightarrow> bool" where
  "is_model_generated_item (Message _ role _ _ _) = (role = lit ''assistant'')"
| "is_model_generated_item (Reasoning _ _ _ _ _) = True"
| "is_model_generated_item (FunctionCall _ _ _ _ _ _ _) = True"
| "is_model_generated_item (ToolSearchCall _ _ _ _ _ _) = True"
| "is_model_generated_item (WebSearchCall _ _ _ _) = True"
| "is_model_generated_item (ImageGenerationCall _ _ _ _ _) = True"
| "is_model_generated_item (CustomToolCall _ _ _ _ _ _ _) = True"
| "is_model_generated_item (LocalShellCall _ _ _ _ _) = True"
| "is_model_generated_item (Compaction _ _ _) = True"
| "is_model_generated_item (ContextCompaction _ _ _) = True"
| "is_model_generated_item _ = False"

fun is_inter_agent_instruction_content :: "(ustring \<Rightarrow> bool) \<Rightarrow> ContentItem list \<Rightarrow> bool" where
  "is_inter_agent_instruction_content is_json [InputText t] = is_json t"
| "is_inter_agent_instruction_content is_json [OutputText t] = is_json t"
| "is_inter_agent_instruction_content is_json _ = False"

fun is_user_turn_boundary :: "Host \<Rightarrow> ResponseItem \<Rightarrow> bool" where
  "is_user_turn_boundary host (AgentMessage _ _ _ _ _) = True"
| "is_user_turn_boundary host (Message _ role content _ _) =
     ((role = lit ''user'' \<and> \<not> is_contextual_user_message_content (from_xml host) content) \<or>
      (role = lit ''assistant'' \<and> is_inter_agent_instruction_content (is_inter_agent_json host) content))"
| "is_user_turn_boundary host _ = False"

text \<open>The user messages that the harness itself injected are kept out of reviews and snapshots.\<close>

fun is_injected :: "Host \<Rightarrow> ResponseItem \<Rightarrow> bool" where
  "is_injected host (Message _ role content _ _) =
     (role = lit ''user'' \<and> is_contextual_user_message_content (from_xml host) content)"
| "is_injected host _ = False"

fun boundary_positions :: "Host \<Rightarrow> nat \<Rightarrow> Envelope list \<Rightarrow> nat list" where
  "boundary_positions host idx [] = []"
| "boundary_positions host idx (e # es) =
     (if is_user_turn_boundary host (env_item e) then idx # boundary_positions host (idx + 1) es
      else boundary_positions host (idx + 1) es)"

definition user_message_positions :: "Host \<Rightarrow> Envelope list \<Rightarrow> nat list" where
  "user_message_positions host items = boundary_positions host 0 items"

section \<open>Recording\<close>

fun policy_mul :: "(nat \<Rightarrow> nat) \<Rightarrow> TruncationPolicy \<Rightarrow> TruncationPolicy" where
  "policy_mul f (Bytes n) = Bytes (f n)"
| "policy_mul f (Tokens n) = Tokens (f n)"

definition record_policy :: "Host \<Rightarrow> TruncationPolicy \<Rightarrow> HarnessMetadata option \<Rightarrow> TruncationPolicy" where
  "record_policy host policy metadata =
     (case Option.bind metadata fallback_token_limit_override of
        Some n \<Rightarrow> Tokens n
      | None \<Rightarrow> policy_mul (scale_budget host) policy)"

fun process_item :: "Host \<Rightarrow> TruncationPolicy \<Rightarrow> ResponseItem \<Rightarrow> ResponseItem option" where
  "process_item host policy (FunctionCallOutput i c n ns out m) =
     map_option (\<lambda>out'. FunctionCallOutput i c n ns out' m)
       (truncate_function_output_payload out policy (audio_tokens host))"
| "process_item host policy (CustomToolCallOutput i c n out m) =
     map_option (\<lambda>out'. CustomToolCallOutput i c n out' m)
       (truncate_function_output_payload out policy (audio_tokens host))"
| "process_item host policy item = Some item"

definition record_review ::
  "Host \<Rightarrow> TranscriptHistory option \<Rightarrow> ResponseItem \<Rightarrow> ResponseItem \<Rightarrow> TranscriptHistory option option" where
  "record_review host review item processed =
     (case review of
        None \<Rightarrow> Some None
      | Some h \<Rightarrow>
          if is_injected host item then Some (Some h)
          else map_option Some (transcript_record (json host) h processed))"

definition record_item ::
  "Host \<Rightarrow> TruncationPolicy \<Rightarrow> ContextManager \<Rightarrow> ResponseItem \<times> HarnessMetadata option \<Rightarrow> ContextManager option" where
  "record_item host policy self im =
     (let (item, metadata) = im in
      if \<not> is_api_message item then Some self
      else do {
        processed \<leftarrow> process_item host (record_policy host policy metadata) item;
        review \<leftarrow> record_review host (review_history self) item processed;
        Some (self\<lparr>
          cm_items := cm_items self @ [\<lparr>env_item = processed, env_metadata = metadata\<rparr>],
          review_history := review,
          user_message_revision :=
            (if is_user_authorization_message item then sat_add (user_message_revision self) 1
             else user_message_revision self)\<rparr>)
      })"

fun record_items_with_metadata ::
  "Host \<Rightarrow> TruncationPolicy \<Rightarrow> ContextManager \<Rightarrow> (ResponseItem \<times> HarnessMetadata option) list \<Rightarrow>
   ContextManager option" where
  "record_items_with_metadata host policy self [] = Some self"
| "record_items_with_metadata host policy self (im # ims) =
     Option.bind (record_item host policy self im) (\<lambda>self. record_items_with_metadata host policy self ims)"

definition record_items ::
  "Host \<Rightarrow> TruncationPolicy \<Rightarrow> ContextManager \<Rightarrow> ResponseItem list \<Rightarrow> ContextManager option" where
  "record_items host policy self items =
     record_items_with_metadata host policy self (map (\<lambda>item. (item, None)) items)"

definition record_annotated_items ::
  "Host \<Rightarrow> TruncationPolicy \<Rightarrow> ContextManager \<Rightarrow> Envelope list \<Rightarrow> ContextManager option" where
  "record_annotated_items host policy self es =
     record_items_with_metadata host policy self (map (\<lambda>e. (env_item e, env_metadata e)) es)"

section \<open>Rewriting\<close>

definition raw_items :: "ContextManager \<Rightarrow> ResponseItem list" where
  "raw_items self = map env_item (cm_items self)"

definition visible_items :: "Host \<Rightarrow> ResponseItem list \<Rightarrow> ResponseItem list" where
  "visible_items host items = filter (\<lambda>item. \<not> is_injected host item) items"

definition remove_first_item :: "ContextManager \<Rightarrow> ContextManager" where
  "remove_first_item self =
     (case cm_items self of
        [] \<Rightarrow> self
      | removed # items \<Rightarrow>
          self\<lparr>cm_items := remove_corresponding_for items (env_item removed), world_state_baseline := None\<rparr>)"

definition replace_annotated :: "Host \<Rightarrow> ContextManager \<Rightarrow> Envelope list \<Rightarrow> ContextManager option" where
  "replace_annotated host self items =
     map_option
       (\<lambda>review. self\<lparr>
          cm_items := items,
          review_history := review,
          history_version := sat_add (history_version self) 1,
          user_message_revision := sat_add (user_message_revision self) 1,
          world_state_baseline := None\<rparr>)
       (case review_history self of
          None \<Rightarrow> Some None
        | Some h \<Rightarrow> map_option Some (transcript_reset (json host) h (visible_items host (map env_item items))))"

definition replace_compacted :: "Host \<Rightarrow> ContextManager \<Rightarrow> Envelope list \<Rightarrow> ContextManager option" where
  "replace_compacted host self items =
     map_option
       (\<lambda>retained. self\<lparr>
          cm_items := items,
          review_history := Some retained,
          history_version := sat_add (history_version self) 1,
          world_state_baseline := None\<rparr>)
       (case review_history self of
          Some h \<Rightarrow> Some h
        | None \<Rightarrow>
            record_each (json host) (transcript_new (sat_add (history_version self) 1))
              (visible_items host (raw_items self)))"

section \<open>Rollback\<close>

fun trims_context :: "Host \<Rightarrow> ResponseItem \<Rightarrow> bool" where
  "trims_context host (Message _ role content _ _) =
     ((role = lit ''developer'' \<and> is_contextual_dev_message_content content) \<or>
      (role = lit ''user'' \<and> is_contextual_user_message_content (from_xml host) content))"
| "trims_context host _ = False"

fun is_mixed_bundle :: "ResponseItem \<Rightarrow> bool" where
  "is_mixed_bundle (Message _ role content _ _) =
     (role = lit ''developer'' \<and> is_contextual_dev_message_content content \<and>
      has_non_contextual_dev_message_content content)"
| "is_mixed_bundle _ = False"

text \<open>The loop down from the cut; it also tells whether a mixed bundle was trimmed, which clears the
  reference context.\<close>

fun trim_pre_turn_context_updates :: "Host \<Rightarrow> Envelope list \<Rightarrow> nat \<Rightarrow> nat \<Rightarrow> nat \<times> bool" where
  "trim_pre_turn_context_updates host snapshot first 0 = (0, False)"
| "trim_pre_turn_context_updates host snapshot first (Suc i) =
     (if Suc i > first \<and> trims_context host (env_item (snapshot ! i)) then
        (let (cut, mixed) = trim_pre_turn_context_updates host snapshot first i
         in (cut, mixed \<or> is_mixed_bundle (env_item (snapshot ! i))))
      else (Suc i, False))"

fun rebuilt_later :: "ContentItem \<Rightarrow> bool" where
  "rebuilt_later (InputText t) = (model_switch_matches t \<or> persistent_mode_matches t)"
| "rebuilt_later _ = False"

fun is_developer_message :: "ResponseItem \<Rightarrow> bool" where
  "is_developer_message (Message _ role _ _ _) = (role = lit ''developer'')"
| "is_developer_message _ = False"

text \<open>The \<open>retain_mut\<close> pass over the session prefix: developer messages of the first turn lose what is
  rebuilt after the rollback, and go when nothing is left.\<close>

definition retain_prefix_item :: "ustring \<Rightarrow> Envelope \<Rightarrow> Envelope option" where
  "retain_prefix_item first_turn_id e =
     (if turn_id (env_item e) = Some first_turn_id \<and> is_developer_message (env_item e) then
        (case to_annotated_content (env_item e) of
           None \<Rightarrow> None
         | Some content \<Rightarrow>
             (let content = filter (\<lambda>c. \<not> rebuilt_later (fst c)) content in
              if content = [] then None
              else map_option (\<lambda>item. e\<lparr>env_item := item\<rparr>) (set_annotated_content (env_item e) content)))
      else Some e)"

definition retain_prefix :: "ustring \<Rightarrow> Envelope list \<Rightarrow> Envelope list" where
  "retain_prefix first_turn_id es = List.map_filter (retain_prefix_item first_turn_id) es"

text \<open>The boundary of the first turn to drop.\<close>

definition rollback_cut :: "nat \<Rightarrow> nat list \<Rightarrow> nat \<Rightarrow> nat" where
  "rollback_cut num_turns user_positions first =
     (if num_turns \<ge> length user_positions then first
      else user_positions ! (length user_positions - num_turns))"

definition drop_last_n_user_turns :: "Host \<Rightarrow> ContextManager \<Rightarrow> nat \<Rightarrow> ContextManager option" where
  "drop_last_n_user_turns host self num_turns =
     (if num_turns = 0 then Some self
      else
        (let snapshot = cm_items self;
             user_positions = user_message_positions host snapshot
         in case user_positions of
              [] \<Rightarrow> replace_annotated host self snapshot
            | first # _ \<Rightarrow>
                (let (cut, mixed) = trim_pre_turn_context_updates host snapshot first
                       (rollback_cut num_turns user_positions first);
                     self = (if mixed then self\<lparr>reference_context_item := None\<rparr> else self);
                     retained = take cut snapshot;
                     retained =
                       (if cut = first then
                          (case turn_id (env_item (snapshot ! first)) of
                             None \<Rightarrow> retained
                           | Some t \<Rightarrow> retain_prefix t retained)
                        else retained)
                 in replace_annotated host self retained)))"

section \<open>Tokens and snapshots\<close>

definition update_token_info :: "ContextManager \<Rightarrow> TokenUsage \<Rightarrow> int option \<Rightarrow> ContextManager option" where
  "update_token_info self usage window =
     map_option (\<lambda>info. self\<lparr>token_info := info\<rparr>) (new_or_append (token_info self) (Some usage) window)"

definition set_token_usage_full :: "ContextManager \<Rightarrow> int \<Rightarrow> ContextManager option" where
  "set_token_usage_full self window =
     map_option (\<lambda>info. self\<lparr>token_info := Some info\<rparr>)
       (case token_info self of
          Some info \<Rightarrow> fill_to_context_window info window
        | None \<Rightarrow> full_context_window window)"

definition estimate_token_count_with_base_instructions :: "Estimator \<Rightarrow> ContextManager \<Rightarrow> ustring \<Rightarrow> int" where
  "estimate_token_count_with_base_instructions est self base =
     i64_sat_add (i64_of_usize (approx_token_count base)) (estimate_items est (raw_items self))"

text \<open>\<open>rposition\<close>.\<close>

definition rposition :: "('a \<Rightarrow> bool) \<Rightarrow> 'a list \<Rightarrow> nat option" where
  "rposition P xs =
     (case dropWhile (\<lambda>x. \<not> P x) (rev xs) of [] \<Rightarrow> None | _ # ys \<Rightarrow> Some (length ys))"

fun is_encrypted_reasoning :: "ResponseItem \<Rightarrow> bool" where
  "is_encrypted_reasoning (Reasoning _ _ _ (Some _) _) = True"
| "is_encrypted_reasoning _ = False"

definition get_non_last_reasoning_items_tokens :: "Host \<Rightarrow> Estimator \<Rightarrow> ContextManager \<Rightarrow> int" where
  "get_non_last_reasoning_items_tokens host est self =
     (case rposition (is_user_turn_boundary host) (raw_items self) of
        None \<Rightarrow> 0
      | Some i \<Rightarrow> estimate_items est (filter is_encrypted_reasoning (take i (raw_items self))))"

definition items_after_last_model_generated_item :: "ContextManager \<Rightarrow> ResponseItem list" where
  "items_after_last_model_generated_item self =
     drop (case rposition is_model_generated_item (raw_items self) of
             None \<Rightarrow> length (raw_items self)
           | Some i \<Rightarrow> sat_add i 1) (raw_items self)"

definition get_total_token_usage :: "Host \<Rightarrow> Estimator \<Rightarrow> ContextManager \<Rightarrow> bool \<Rightarrow> int" where
  "get_total_token_usage host est self server_reasoning_included =
     (let last_tokens = (case token_info self of None \<Rightarrow> 0 | Some i \<Rightarrow> total_tokens (last_token_usage i));
          after = estimate_items est (items_after_last_model_generated_item self)
      in if server_reasoning_included then i64_sat_add last_tokens after
         else i64_sat_add (i64_sat_add last_tokens (get_non_last_reasoning_items_tokens host est self)) after)"

definition for_prompt_annotated ::
  "bool \<Rightarrow> (ustring \<Rightarrow> ustring) \<Rightarrow> ContextManager \<Rightarrow> InputModality list \<Rightarrow> Envelope list option" where
  "for_prompt_annotated debug new_v5 self modalities = normalize_history debug new_v5 modalities (cm_items self)"

definition for_prompt ::
  "bool \<Rightarrow> (ustring \<Rightarrow> ustring) \<Rightarrow> ContextManager \<Rightarrow> InputModality list \<Rightarrow> ResponseItem list option" where
  "for_prompt debug new_v5 self modalities =
     map_option (map env_item) (for_prompt_annotated debug new_v5 self modalities)"

text \<open>The snapshot handed to extensions and approval reviews.\<close>

definition snapshot_items :: "Host \<Rightarrow> ContextManager \<Rightarrow> ResponseItem list" where
  "snapshot_items host self = visible_items host (raw_items self)"

definition review_items :: "Host \<Rightarrow> ContextManager \<Rightarrow> ResponseItem list" where
  "review_items host self =
     (case review_history self of Some h \<Rightarrow> transcript_items h | None \<Rightarrow> snapshot_items host self)"

definition review_history_version :: "ContextManager \<Rightarrow> nat" where
  "review_history_version self =
     (case review_history self of None \<Rightarrow> history_version self | Some h \<Rightarrow> generation h)"

end
