(* ===== verification/Rollback.thy ===== *)
theory Rollback
  imports Context_Manager
begin

text \<open>
  Lemmas on the history of \<open>Context_Manager\<close>: the removal of the oldest item keeps calls and outputs
  paired, and a rollback drops exactly the requested number of turns.
\<close>

section \<open>Removing the oldest item\<close>

lemma remove_first_cong: "(\<And>y. y \<in> set xs \<Longrightarrow> P y = Q y) \<Longrightarrow> remove_first P xs = remove_first Q xs"
  by (induction xs) auto

lemma remove_first_unique:
  assumes "distinct (keys f xs)" "\<And>y. P y \<Longrightarrow> f y = Some k" "\<exists>y\<in>set xs. P y"
  shows "remove_first P xs = remove_first (\<lambda>y. f y = Some k) xs"
  using assms(1,3)
proof (induction xs)
  case (Cons x xs)
  show ?case
  proof (cases "P x")
    case True
    then show ?thesis
      using assms(2) by simp
  next
    case False
    then have "\<exists>y\<in>set xs. P y"
      using Cons.prems by auto
    moreover from this have "f x \<noteq> Some k"
      using Cons.prems(1) assms(2) keysI [of _ xs f k] by (auto split: option.splits)
    ultimately show ?thesis
      using Cons False by (auto split: option.splits)
  qed
qed simp

lemma remove_output_key:
  "remove_first_matching xs (\<lambda>i. function_output_id i = Some c) = remove_first (\<lambda>y. output_of y = Some (FunctionKind, c)) xs"
  "remove_first_matching xs (\<lambda>i. tool_search_output_id i = Some c) = remove_first (\<lambda>y. output_of y = Some (SearchKind, c)) xs"
  "remove_first_matching xs (\<lambda>i. custom_tool_output_id i = Some c) = remove_first (\<lambda>y. output_of y = Some (CustomKind, c)) xs"
  by (simp_all add: remove_first_matching_def output_of_def output_key_ids)

lemma remove_call_key:
  "remove_first_matching xs (\<lambda>i. tool_search_call_id i = Some c) = remove_first (\<lambda>y. call_of y = Some (SearchKind, c)) xs"
  "remove_first_matching xs (\<lambda>i. custom_tool_call_id i = Some c) = remove_first (\<lambda>y. call_of y = Some (CustomKind, c)) xs"
  by (simp_all add: remove_first_matching_def call_of_def call_key_ids)

lemma function_call_id_iff: "function_call_id i = Some c \<longleftrightarrow> is_function_call c i \<or> is_local_shell_call c i"
  by (cases i) auto

lemma remove_function_call:
  assumes "distinct (keys call_of xs)"
  shows "remove_corresponding_for xs (FunctionCallOutput i (Some c) n ns out m) =
    remove_first (\<lambda>y. call_of y = Some (FunctionKind, c)) xs"
proof -
  have key: "call_of y = Some (FunctionKind, c) \<longleftrightarrow> is_function_call c (env_item y) \<or> is_local_shell_call c (env_item y)" for y
    by (simp add: call_of_def call_key_ids function_call_id_iff)
  consider (fc) "\<exists>e\<in>set xs. is_function_call c (env_item e)"
    | (shell) "\<not> (\<exists>e\<in>set xs. is_function_call c (env_item e))" "\<exists>e\<in>set xs. is_local_shell_call c (env_item e)"
    | (none) "\<not> (\<exists>e\<in>set xs. is_function_call c (env_item e))" "\<not> (\<exists>e\<in>set xs. is_local_shell_call c (env_item e))"
    by blast
  then show ?thesis
  proof cases
    case fc
    then show ?thesis
      using remove_first_unique [OF assms, of "\<lambda>e. is_function_call c (env_item e)" "(FunctionKind, c)"]
      by (simp add: remove_first_matching_def key)
  next
    case shell
    then show ?thesis
      using remove_first_unique [OF assms, of "\<lambda>e. is_local_shell_call c (env_item e)" "(FunctionKind, c)"]
      by (simp add: remove_first_matching_def key)
  next
    case none
    have "remove_first P ys = ys" if "\<forall>y\<in>set ys. \<not> P y" for P and ys :: "Envelope list"
      using that by (induction ys) auto
    then show ?thesis
      using none key by simp
  qed
qed

lemma drop_counterpart_paired:
  assumes "well_paired call_of output_of served (x # xs)"
  shows "well_paired call_of output_of served (remove_corresponding_for xs (env_item x))"
proof -
  note call = history.drop_call_paired [OF assms]
  note out = history.drop_output_paired [OF assms]
  note other = history.drop_other_paired [OF assms]
  have d: "distinct (keys call_of xs)"
    using assms by (auto simp: well_paired_def split: option.splits)
  consider (call) k where "call_of x = Some k" | (outp) k where "output_of x = Some k"
    | (other) "call_of x = None" "output_of x = None"
    by fastforce
  then show ?thesis
  proof cases
    case call
    have "remove_corresponding_for xs (env_item x) = remove_first (\<lambda>y. output_of y = Some k) xs"
      using call by (cases "env_item x") (auto simp: call_of_def remove_output_key)
    then show ?thesis
      using history.drop_call_paired [OF assms call] by simp
  next
    case outp
    have "remove_corresponding_for xs (env_item x) = remove_first (\<lambda>y. call_of y = Some k) xs"
      using outp by (cases "env_item x")
        (auto simp: output_of_def remove_call_key remove_function_call [OF d] simp del: remove_corresponding_for.simps(2))
    then show ?thesis
      using history.drop_output_paired [OF assms outp] by simp
  next
    case other
    have "remove_corresponding_for xs (env_item x) = xs"
      using other by (cases "(xs, env_item x)" rule: remove_corresponding_for.cases)
        (auto simp: call_of_def output_of_def)
    then show ?thesis
      using history.drop_other_paired [OF assms other] by simp
  qed
qed

section \<open>Turn boundaries\<close>

abbreviation boundary :: "Host \<Rightarrow> Envelope \<Rightarrow> bool" where
  "boundary host e \<equiv> is_user_turn_boundary host (env_item e)"

definition turn_count :: "Host \<Rightarrow> Envelope list \<Rightarrow> nat" where
  "turn_count host items = length (filter (boundary host) items)"

lemma length_boundary_positions: "length (boundary_positions host k es) = turn_count host es"
  by (induction es arbitrary: k) (simp_all add: turn_count_def)

lemma boundary_position_nth:
  assumes "j < length (boundary_positions host k es)"
  shows "\<exists>p. boundary_positions host k es ! j = k + p \<and> p < length es \<and> boundary host (es ! p) \<and>
    turn_count host (take p es) = j"
  using assms
proof (induction es arbitrary: j k)
  case (Cons e es)
  show ?case
  proof (cases "boundary host e")
    case b: True
    show ?thesis
    proof (cases j)
      case 0
      then show ?thesis
        using b by (intro exI [of _ 0]) (simp add: turn_count_def)
    next
      case (Suc i)
      then obtain p where "boundary_positions host (k + 1) es ! i = k + 1 + p" "p < length es"
          "boundary host (es ! p)" "turn_count host (take p es) = i"
        using Cons.IH [of i "k + 1"] Cons.prems b by auto
      then show ?thesis
        using b Suc by (intro exI [of _ "Suc p"]) (simp add: turn_count_def)
    qed
  next
    case False
    then obtain p where "boundary_positions host (k + 1) es ! j = k + 1 + p" "p < length es"
        "boundary host (es ! p)" "turn_count host (take p es) = j"
      using Cons.IH [of j "k + 1"] Cons.prems by auto
    then show ?thesis
      using False by (intro exI [of _ "Suc p"]) (simp add: turn_count_def)
  qed
qed simp

lemma user_position_nth:
  assumes "j < turn_count host items"
  shows "user_message_positions host items ! j < length items"
    "boundary host (items ! (user_message_positions host items ! j))"
    "turn_count host (take (user_message_positions host items ! j) items) = j"
  using boundary_position_nth [of j host 0 items] assms
  by (auto simp: user_message_positions_def length_boundary_positions)

lemma trimmed_no_boundary: "trims_context host item \<Longrightarrow> \<not> is_user_turn_boundary host item"
  by (cases item) auto

lemma trim_low: "pos \<le> first \<Longrightarrow> trim_pre_turn_context_updates host items first pos = (pos, False)"
  by (cases pos) simp_all

lemma trim_pre_turn:
  assumes "trim_pre_turn_context_updates host items first pos = (pos', mixed)" "pos \<le> length items"
    "first < pos" "boundary host (items ! first)"
  shows "first < pos' \<and> pos' \<le> pos \<and>
    list_all (\<lambda>e. trims_context host (env_item e)) (drop pos' (take pos items))"
  using assms(1-3)
proof (induction pos arbitrary: pos' mixed)
  case (Suc i)
  show ?case
  proof (cases "trims_context host (env_item (items ! i))")
    case True
    then have "i \<noteq> first"
      using assms(4) trimmed_no_boundary by blast
    then have lt: "first < i"
      using Suc.prems(3) by simp
    obtain mixed' where "trim_pre_turn_context_updates host items first i = (pos', mixed')"
      using Suc.prems(1,3) True by (auto split: prod.splits)
    then have ih: "first < pos'" "pos' \<le> i"
        "list_all (\<lambda>e. trims_context host (env_item e)) (drop pos' (take i items))"
      using Suc.IH Suc.prems(2) lt by auto
    have "drop pos' (take (Suc i) items) = drop pos' (take i items) @ [items ! i]"
      using ih(2) Suc.prems(2) by (simp add: take_Suc_conv_app_nth)
    then show ?thesis
      using ih True by simp
  next
    case False
    then show ?thesis
      using Suc.prems by auto
  qed
qed simp

section \<open>Rolling back\<close>

lemma set_annotated_role:
  "set_annotated_content item cs = Some item' \<Longrightarrow> is_developer_message item' = is_developer_message item"
  by (cases item) auto

lemma developer_no_boundary: "is_developer_message item \<Longrightarrow> \<not> is_user_turn_boundary host item"
  by (cases item) auto

lemma retain_prefix_no_boundary:
  assumes "turn_count host es = 0"
  shows "turn_count host (retain_prefix t es) = 0"
proof -
  have "\<not> boundary host e'" if e: "retain_prefix_item t e = Some e'" "\<not> boundary host e" for e e'
    using e set_annotated_role developer_no_boundary
    by (fastforce simp: retain_prefix_item_def Let_def split: if_splits option.splits)
  then have "list_all (\<lambda>e. \<not> boundary host e) (retain_prefix t es)" if "list_all (\<lambda>e. \<not> boundary host e) es"
    using that by (auto simp: retain_prefix_def List.map_filter_def list_all_iff)
  then show ?thesis
    using assms by (auto simp: turn_count_def filter_empty_conv list_all_iff)
qed

definition review_ok :: "ContextManager \<Rightarrow> bool" where
  "review_ok self = (case review_history self of None \<Rightarrow> True | Some h \<Rightarrow> within_limits h)"

definition small_items :: "Host \<Rightarrow> bool" where
  "small_items host \<longleftrightarrow> item_size (json host) \<le> MAX_BYTES_PER_KIND"

lemma replace_annotated_total:
  assumes "small_items host"
  shows "\<exists>self'. replace_annotated host self items = Some self' \<and> cm_items self' = items \<and> review_ok self' \<and>
    history_version self' = sat_add (history_version self) 1 \<and>
    user_message_revision self' = sat_add (user_message_revision self) 1"
proof (cases "review_history self")
  case None
  then show ?thesis
    by (simp add: replace_annotated_def review_ok_def)
next
  case (Some h)
  obtain h' where "transcript_reset (json host) h (visible_items host (map env_item items)) = Some h'" "within_limits h'"
    using transcript_reset_within assms unfolding small_items_def by blast
  then show ?thesis
    using Some by (simp add: replace_annotated_def review_ok_def)
qed

text \<open>What a rollback of some of the turns keeps: everything up to the boundary of the first dropped turn,
  less the context updates right before it.\<close>

definition rolled_back :: "Host \<Rightarrow> nat \<Rightarrow> Envelope list \<Rightarrow> Envelope list \<Rightarrow> bool" where
  "rolled_back host n items kept \<longleftrightarrow>
     (\<exists>context dropped. items = kept @ context @ dropped \<and>
        list_all (\<lambda>e. trims_context host (env_item e)) context \<and>
        dropped \<noteq> [] \<and> boundary host (hd dropped) \<and> turn_count host dropped = n)"

lemma turn_count_append: "turn_count host (xs @ ys) = turn_count host xs + turn_count host ys"
  by (simp add: turn_count_def)

lemma turn_count_trimmed: "list_all (\<lambda>e. trims_context host (env_item e)) es \<Longrightarrow> turn_count host es = 0"
  by (induction es) (auto simp: turn_count_def dest: trimmed_no_boundary)

lemma positions_hd:
  assumes "user_message_positions host items = first # ps"
  shows "first < length items" "boundary host (items ! first)" "turn_count host (take first items) = 0"
    "0 < turn_count host items"
proof -
  have n: "turn_count host items = Suc (length ps)"
    using assms length_boundary_positions [of host 0 items] by (simp add: user_message_positions_def)
  then show "0 < turn_count host items"
    by simp
  show "first < length items" "boundary host (items ! first)" "turn_count host (take first items) = 0"
    using n assms user_position_nth [of 0 host items] by simp_all
qed

lemma rollback_some:
  assumes "user_message_positions host items = first # ps" "0 < n" "n < turn_count host items"
    "trim_pre_turn_context_updates host items first
       (user_message_positions host items ! (turn_count host items - n)) = (pos, mixed)"
  shows "first < pos" "rolled_back host n items (take pos items)"
proof -
  let ?p = "user_message_positions host items ! (turn_count host items - n)"
  have p: "?p < length items" "boundary host (items ! ?p)" "turn_count host (take ?p items) = turn_count host items - n"
    using assms(2,3) user_position_nth [of "turn_count host items - n" host items] by simp_all
  have "first < ?p"
  proof (rule ccontr)
    assume "\<not> first < ?p"
    then have "take first items = take ?p items @ take (first - ?p) (drop ?p items)"
      by (metis le_add_diff_inverse not_less take_add)
    then have "turn_count host (take ?p items) = 0"
      using positions_hd(3) [OF assms(1)] by (simp add: turn_count_append)
    then show False
      using p(3) assms(3) by simp
  qed
  then have t: "first < pos" "pos \<le> ?p" "list_all (\<lambda>e. trims_context host (env_item e)) (drop pos (take ?p items))"
    using trim_pre_turn [OF assms(4)] p(1) positions_hd(2) [OF assms(1)] by auto
  then show "first < pos"
    by simp
  have split: "items = take pos items @ drop pos (take ?p items) @ drop ?p items"
    using t(2) by (metis append_assoc append_take_drop_id min.absorb1 take_take)
  have "turn_count host (take ?p items) + turn_count host (drop ?p items) = turn_count host items"
    by (metis append_take_drop_id turn_count_append)
  then have "turn_count host (drop ?p items) = n"
    using p(3) assms(3) by simp
  then show "rolled_back host n items (take pos items)"
    unfolding rolled_back_def using split t(3) p(1,2)
    by (intro exI [of _ "drop pos (take ?p items)"] exI [of _ "drop ?p items"]) (auto simp: hd_drop_conv_nth)
qed

lemma rolled_back_count: "rolled_back host n items kept \<Longrightarrow> turn_count host kept = turn_count host items - n"
  by (auto simp: rolled_back_def turn_count_append turn_count_trimmed)

text \<open>The items a rollback hands to \<open>replace_annotated\<close>.\<close>

lemma rollback_all_count:
  assumes "user_message_positions host items = first # ps"
  shows "turn_count host (case turn_id (env_item (items ! first)) of
      None \<Rightarrow> take first items | Some t \<Rightarrow> retain_prefix t (take first items)) = 0"
  using positions_hd(3) [OF assms] retain_prefix_no_boundary by (auto split: option.splits)

lemma rollback_cases:
  assumes "0 < n"
  obtains self0 kept where "drop_last_n_user_turns host self n = replace_annotated host self0 kept"
    "turn_count host kept = turn_count host (cm_items self) - n"
    "n < turn_count host (cm_items self) \<Longrightarrow> rolled_back host n (cm_items self) kept"
    "history_version self0 = history_version self" "user_message_revision self0 = user_message_revision self"
proof (cases "user_message_positions host (cm_items self)")
  case Nil
  then have "turn_count host (cm_items self) = 0"
    using length_boundary_positions [of host 0 "cm_items self"] by (simp add: user_message_positions_def)
  then show thesis
    using that [of self "cm_items self"] Nil assms by (simp add: drop_last_n_user_turns_def)
next
  case (Cons first ps)
  have len: "length (user_message_positions host (cm_items self)) = turn_count host (cm_items self)"
    by (simp add: user_message_positions_def length_boundary_positions)
  obtain pos mixed where trim: "trim_pre_turn_context_updates host (cm_items self) first
      (rollback_cut n (user_message_positions host (cm_items self)) first) = (pos, mixed)"
    by fastforce
  let ?self0 = "if mixed then self\<lparr>reference_context_item := None\<rparr> else self"
  let ?prefix = "case turn_id (env_item (cm_items self ! first)) of
      None \<Rightarrow> take pos (cm_items self) | Some t \<Rightarrow> retain_prefix t (take pos (cm_items self))"
  have drop: "drop_last_n_user_turns host self n =
      replace_annotated host ?self0 (if pos = first then ?prefix else take pos (cm_items self))"
    using assms Cons trim by (simp add: drop_last_n_user_turns_def Let_def)
  show thesis
  proof (cases "n < turn_count host (cm_items self)")
    case True
    then have "first < pos" "rolled_back host n (cm_items self) (take pos (cm_items self))"
      using rollback_some [OF Cons assms True] trim len by (auto simp: rollback_cut_def)
    then show thesis
      using that [of ?self0 "take pos (cm_items self)"] drop rolled_back_count by auto
  next
    case False
    then have pos: "pos = first"
      using trim trim_low [of first first host "cm_items self"] len by (simp add: rollback_cut_def)
    show thesis
      using that [of ?self0 ?prefix] drop rollback_all_count [OF Cons] False unfolding pos by (simp split: if_splits)
  qed
qed

section \<open>Properties\<close>

text \<open>C33: Removing the oldest item of a history in which calls and outputs are paired removes its counterpart
  too: the history stays paired without another normalization.\<close>

theorem remove_first_item_keeps_pairs:
  assumes "well_paired call_of output_of served (cm_items self)"
  shows "well_paired call_of output_of served (cm_items (remove_first_item self))"
proof (cases "cm_items self")
  case Nil
  then show ?thesis
    using assms by (simp add: remove_first_item_def)
next
  case (Cons x xs)
  then show ?thesis
    using assms drop_counterpart_paired [of x xs] by (simp add: remove_first_item_def)
qed

definition sample_call :: "ustring \<Rightarrow> Envelope" where
  "sample_call c = envelope_new (FunctionCall None (lit ''shell'') None (lit ''{}'') None c None)"

definition sample_output :: "ustring \<Rightarrow> Envelope" where
  "sample_output c = envelope_new (FunctionCallOutput None (Some c) None None (from_text (lit ''ok'')) None)"

definition sample_manager :: ContextManager where
  "sample_manager =
     manager_new\<lparr>cm_items := [sample_call [49], sample_call [50], sample_output [50], sample_output [49]]\<rparr>"

theorem remove_first_item_keeps_pairs_witness:
  "well_paired call_of output_of served (cm_items sample_manager) \<and>
   well_paired call_of output_of served (cm_items (remove_first_item sample_manager)) \<and>
   cm_items (remove_first_item sample_manager) = [sample_call [50], sample_output [50]]"
proof -
  have "well_paired call_of output_of served (cm_items sample_manager)"
    by (simp add: well_paired_def calls_answered_def outputs_called_def sample_manager_def sample_call_def
        sample_output_def envelope_new_def call_of_def output_of_def served_def)
  moreover have "cm_items (remove_first_item sample_manager) = [sample_call [50], sample_output [50]]"
    by (simp add: remove_first_item_def sample_manager_def sample_call_def sample_output_def envelope_new_def
        remove_first_matching_def manager_new_def)
  ultimately show ?thesis
    using remove_first_item_keeps_pairs [of sample_manager] by simp
qed

text \<open>C22: Rolling back n turns always returns and leaves exactly n turns fewer, or none. When turns remain,
  the kept items are the history up to the boundary of the first dropped turn, less the context updates
  right before that boundary, and the dropped tail holds exactly n boundaries. The history gets a new
  version and a new user revision.\<close>

theorem rollback_drops_turns:
  assumes "0 < n" "small_items host"
  shows "\<exists>self'. drop_last_n_user_turns host self n = Some self' \<and>
    turn_count host (cm_items self') = turn_count host (cm_items self) - n \<and>
    (if n < turn_count host (cm_items self) then rolled_back host n (cm_items self) (cm_items self') else True) \<and>
    history_version self' = sat_add (history_version self) 1 \<and>
    user_message_revision self' = sat_add (user_message_revision self) 1"
proof -
  obtain self0 kept where k: "drop_last_n_user_turns host self n = replace_annotated host self0 kept"
      "turn_count host kept = turn_count host (cm_items self) - n"
      "n < turn_count host (cm_items self) \<Longrightarrow> rolled_back host n (cm_items self) kept"
      "history_version self0 = history_version self" "user_message_revision self0 = user_message_revision self"
    using rollback_cases [OF assms(1)] by blast
  then show ?thesis
    using replace_annotated_total [OF assms(2), of self0 kept] by auto
qed

definition sample_host :: Host where
  "sample_host =
     \<lparr>from_xml = (\<lambda>t. if starts_with t (lit ''<hook_prompt'') then Some (t, lit ''run'') else None),
      is_inter_agent_json = (\<lambda>_. False), json = sample_json,
      scale_budget = (\<lambda>n. n + n div 5), audio_tokens = utf8_len\<rparr>"

definition sample_turns :: ContextManager where
  "sample_turns =
     manager_new\<lparr>cm_items := map envelope_new
       [sample_user [97],
        Message None (lit ''developer'') [InputText (lit ''<model_switch>x</model_switch>'')] None None,
        sample_user [98]]\<rparr>"

theorem rollback_drops_turns_witness:
  "turn_count sample_host (cm_items sample_turns) = 2 \<and>
   (\<exists>self'. drop_last_n_user_turns sample_host sample_turns 1 = Some self' \<and>
      turn_count sample_host (cm_items self') = 1 \<and>
      rolled_back sample_host 1 (cm_items sample_turns) (cm_items self'))"
proof -
  have small: "small_items sample_host"
    by code_simp
  have two: "turn_count sample_host (cm_items sample_turns) = 2"
    by code_simp
  show ?thesis
    using rollback_drops_turns [OF zero_less_one small, of sample_turns] unfolding two by auto
qed

end
