(* ===== verification/History_Evidence.thy ===== *)
theory History_Evidence
  imports Rollback
begin

text \<open>
  The history as a machine: its operations in any order. The states it reaches keep the review evidence
  within its bounds, no operation gets stuck, and compaction is invisible to reviews.
\<close>

section \<open>Operations in any order\<close>

datatype HistoryOp =
    Record TruncationPolicy "(ResponseItem \<times> HarnessMetadata option) list"
  | Compact "Envelope list"
  | Replace "Envelope list"
  | RollBack nat
  | RemoveFirst

fun apply_op :: "Host \<Rightarrow> ContextManager \<Rightarrow> HistoryOp \<Rightarrow> ContextManager option" where
  "apply_op host self (Record policy ims) = record_items_with_metadata host policy self ims"
| "apply_op host self (Compact items) = replace_compacted host self items"
| "apply_op host self (Replace items) = replace_annotated host self items"
| "apply_op host self (RollBack n) = drop_last_n_user_turns host self n"
| "apply_op host self RemoveFirst = Some (remove_first_item self)"

text \<open>Texts in memory are shorter than the address space.\<close>

fun output_in_memory :: "ResponseItem \<Rightarrow> bool" where
  "output_in_memory (FunctionCallOutput _ _ _ _ out _) =
     (case out_body out of BodyText t \<Rightarrow> length t \<le> usize_max | ContentItems cs \<Rightarrow> list_all text_in_memory cs)"
| "output_in_memory (CustomToolCallOutput _ _ _ out _) =
     (case out_body out of BodyText t \<Rightarrow> length t \<le> usize_max | ContentItems cs \<Rightarrow> list_all text_in_memory cs)"
| "output_in_memory _ = True"

fun op_in_memory :: "HistoryOp \<Rightarrow> bool" where
  "op_in_memory (Record _ ims) = list_all (output_in_memory \<circ> fst) ims"
| "op_in_memory _ = True"

inductive reachable :: "Host \<Rightarrow> ContextManager \<Rightarrow> bool" for host where
  start: "reachable host manager_new"
| step: "reachable host self \<Longrightarrow> op_in_memory op \<Longrightarrow> apply_op host self op = Some self' \<Longrightarrow> reachable host self'"

section \<open>No operation gets stuck\<close>

lemma truncate_payload_total:
  assumes "case out_body out of BodyText t \<Rightarrow> length t \<le> usize_max | ContentItems cs \<Rightarrow> list_all text_in_memory cs"
  shows "\<exists>out'. truncate_function_output_payload out policy audio = Some out'"
proof (cases "out_body out")
  case (BodyText t)
  then show ?thesis
    using assms truncate_text_total [of t policy] by (auto simp: truncate_function_output_payload_def)
next
  case (ContentItems cs)
  then show ?thesis
    using assms truncate_loop_total [of cs policy audio "policy_budget policy" 0 0]
    by (auto simp: truncate_function_output_payload_def truncate_function_output_items_with_policy_def)
qed

lemma process_item_total: "output_in_memory item \<Longrightarrow> \<exists>p. process_item host policy item = Some p"
  using truncate_payload_total by (cases item) fastforce+

lemma record_review_total:
  assumes "case review of None \<Rightarrow> True | Some h \<Rightarrow> within_limits h" "small_items host"
  shows "\<exists>review'. record_review host review item p = Some review' \<and>
    (case review' of None \<Rightarrow> True | Some h \<Rightarrow> within_limits h)"
proof (cases review)
  case (Some h)
  then obtain h' where "transcript_record (json host) h p = Some h'" "within_limits h'"
    using assms transcript_record_within [of h "json host" p] by (auto simp: small_items_def)
  then show ?thesis
    using Some assms(1) by (simp add: record_review_def)
qed (simp add: record_review_def)

lemma record_item_total:
  assumes "review_ok self" "small_items host" "output_in_memory item"
  shows "\<exists>self'. record_item host policy self (item, md) = Some self' \<and> review_ok self' \<and>
    user_message_revision self' \<in> {user_message_revision self, sat_add (user_message_revision self) 1}"
proof (cases "is_api_message item")
  case True
  obtain p where p: "process_item host (record_policy host policy md) item = Some p"
    using process_item_total [OF assms(3)] by blast
  obtain review where "record_review host (review_history self) item p = Some review"
      "case review of None \<Rightarrow> True | Some h \<Rightarrow> within_limits h"
    using record_review_total assms(1,2) unfolding review_ok_def by blast
  then show ?thesis
    using True p by (simp add: record_item_def review_ok_def)
next
  case False
  then show ?thesis
    using assms by (simp add: record_item_def)
qed

definition revision_ok :: "ContextManager \<Rightarrow> bool" where
  "revision_ok self \<longleftrightarrow> review_ok self \<and> user_message_revision self \<le> usize_max"

lemma record_items_total:
  assumes "revision_ok self" "small_items host" "list_all (output_in_memory \<circ> fst) ims"
  shows "\<exists>self'. record_items_with_metadata host policy self ims = Some self' \<and> revision_ok self' \<and>
    user_message_revision self \<le> user_message_revision self'"
  using assms(1,3)
proof (induction ims arbitrary: self)
  case (Cons im ims)
  obtain item md where im: "im = (item, md)"
    by (cases im)
  obtain s where s: "record_item host policy self im = Some s" "review_ok s"
      "user_message_revision s \<in> {user_message_revision self, sat_add (user_message_revision self) 1}"
    using record_item_total [of self host item policy md] Cons.prems assms(2) unfolding im revision_ok_def by auto
  then have ok: "revision_ok s" "user_message_revision self \<le> user_message_revision s"
    using Cons.prems(1) by (auto simp: revision_ok_def sat_add_def)
  then obtain s' where "record_items_with_metadata host policy s ims = Some s'" "revision_ok s'"
      "user_message_revision s \<le> user_message_revision s'"
    using Cons.IH Cons.prems(2) by auto
  then show ?case
    using s(1) ok(2) by auto
qed simp

lemma replace_compacted_total:
  assumes "review_ok self" "small_items host"
  shows "\<exists>self'. replace_compacted host self items = Some self' \<and> review_ok self' \<and>
    user_message_revision self' = user_message_revision self"
proof (cases "review_history self")
  case None
  obtain h where "record_each (json host) (transcript_new (sat_add (history_version self) 1))
      (visible_items host (raw_items self)) = Some h" "within_limits h"
    using record_each_within [of "transcript_new (sat_add (history_version self) 1)" "json host"] assms(2)
    unfolding small_items_def by (auto simp: transcript_new_def)
  then show ?thesis
    using None by (simp add: replace_compacted_def review_ok_def)
next
  case (Some h)
  then show ?thesis
    using assms(1) by (simp add: replace_compacted_def review_ok_def)
qed

lemma replace_revision:
  assumes "revision_ok self" "small_items host"
  shows "\<exists>self'. replace_annotated host self items = Some self' \<and> revision_ok self' \<and>
    user_message_revision self \<le> user_message_revision self'"
  using replace_annotated_total [OF assms(2), of self items] assms(1) by (auto simp: revision_ok_def sat_add_def)

lemma rollback_revision:
  assumes "revision_ok self" "small_items host"
  shows "\<exists>self'. drop_last_n_user_turns host self n = Some self' \<and> revision_ok self' \<and>
    user_message_revision self \<le> user_message_revision self'"
proof (cases "n = 0")
  case True
  then show ?thesis
    using assms(1) by (simp add: drop_last_n_user_turns_def)
next
  case False
  then obtain self0 kept where "drop_last_n_user_turns host self n = replace_annotated host self0 kept"
      "user_message_revision self0 = user_message_revision self"
    using rollback_cases [of n host self] by blast
  then show ?thesis
    using replace_annotated_total [OF assms(2), of self0 kept] assms(1) by (auto simp: revision_ok_def sat_add_def)
qed

lemma remove_first_revision:
  "revision_ok self \<Longrightarrow> revision_ok (remove_first_item self) \<and>
     user_message_revision (remove_first_item self) = user_message_revision self"
  by (cases "cm_items self") (simp_all add: remove_first_item_def revision_ok_def review_ok_def)

lemma apply_op_total:
  assumes "revision_ok self" "small_items host" "op_in_memory op"
  shows "\<exists>self'. apply_op host self op = Some self' \<and> revision_ok self' \<and>
    user_message_revision self \<le> user_message_revision self'"
proof (cases op)
  case (Record policy ims)
  then show ?thesis
    using record_items_total [OF assms(1,2)] assms(3) by simp
next
  case (Compact items)
  then show ?thesis
    using replace_compacted_total [OF _ assms(2), of self items] assms(1) by (auto simp: revision_ok_def)
next
  case (Replace items)
  then show ?thesis
    using replace_revision [OF assms(1,2)] by simp
next
  case (RollBack n)
  then show ?thesis
    using rollback_revision [OF assms(1,2)] by simp
next
  case RemoveFirst
  then show ?thesis
    using remove_first_revision [OF assms(1)] by simp
qed

lemma reachable_revision_ok: "reachable host self \<Longrightarrow> small_items host \<Longrightarrow> revision_ok self"
proof (induction rule: reachable.induct)
  case start
  show ?case
    by (simp add: manager_new_def revision_ok_def review_ok_def)
next
  case (step self op self')
  then show ?case
    using apply_op_total by fastforce
qed

section \<open>What reviews see\<close>

fun run_ops :: "Host \<Rightarrow> ContextManager \<Rightarrow> HistoryOp list \<Rightarrow> ContextManager option" where
  "run_ops host self [] = Some self"
| "run_ops host self (op # ops) = Option.bind (apply_op host self op) (\<lambda>self. run_ops host self ops)"

text \<open>The abstract log: every item recorded, as it was stored, except what the harness injected.\<close>

definition logged :: "Host \<Rightarrow> TruncationPolicy \<Rightarrow> ResponseItem \<times> HarnessMetadata option \<Rightarrow> ResponseItem list" where
  "logged host policy im =
     (if is_api_message (fst im) \<and> \<not> is_injected host (fst im) then
        (case process_item host (record_policy host policy (snd im)) (fst im) of None \<Rightarrow> [] | Some p \<Rightarrow> [p])
      else [])"

fun evidence :: "Host \<Rightarrow> HistoryOp list \<Rightarrow> ResponseItem list" where
  "evidence host [] = []"
| "evidence host (Record policy ims # ops) = concat (map (logged host policy) ims) @ evidence host ops"
| "evidence host (_ # ops) = evidence host ops"

fun keeps_evidence :: "HistoryOp \<Rightarrow> bool" where
  "keeps_evidence (Record _ _) = True"
| "keeps_evidence (Compact _) = True"
| "keeps_evidence _ = False"

definition holds_log :: "Host \<Rightarrow> ContextManager \<Rightarrow> ResponseItem list \<Rightarrow> bool" where
  "holds_log host self log \<longleftrightarrow>
     (case review_history self of
        None \<Rightarrow> visible_items host (raw_items self) = log
      | Some h \<Rightarrow> \<exists>g. record_each (json host) (transcript_new g) log = Some h)"

lemma record_each_append:
  "record_each js h (xs @ ys) = Option.bind (record_each js h xs) (\<lambda>h. record_each js h ys)"
  by (induction xs arbitrary: h) (auto simp: bind_assoc)

lemma process_item_injected: "process_item host policy item = Some p \<Longrightarrow> is_injected host p = is_injected host item"
  by (cases item) auto

lemma record_item_log:
  assumes "record_item host policy self im = Some self'" "holds_log host self log"
  shows "holds_log host self' (log @ logged host policy im)"
proof (cases "is_api_message (fst im)")
  case False
  then show ?thesis
    using assms by (simp add: record_item_def logged_def split_beta)
next
  case True
  then obtain p review where p: "process_item host (record_policy host policy (snd im)) (fst im) = Some p"
      "record_review host (review_history self) (fst im) p = Some review"
      "review_history self' = review" "raw_items self' = raw_items self @ [p]"
    using assms(1) by (auto simp: record_item_def split_beta raw_items_def Option.bind_eq_Some_conv)
  have inj: "is_injected host p = is_injected host (fst im)"
    using p(1) by (rule process_item_injected)
  show ?thesis
  proof (cases "review_history self")
    case None
    then show ?thesis
      using p inj assms(2) True by (auto simp: holds_log_def record_review_def logged_def visible_items_def)
  next
    case (Some h)
    then obtain g where g: "record_each (json host) (transcript_new g) log = Some h"
      using assms(2) by (auto simp: holds_log_def)
    show ?thesis
    proof (cases "is_injected host (fst im)")
      case True
      then have "review_history self' = Some h" "logged host policy im = []"
        using p Some by (auto simp: record_review_def logged_def)
      then show ?thesis
        using g by (auto simp: holds_log_def)
    next
      case False
      then obtain h' where "transcript_record (json host) h p = Some h'" "review_history self' = Some h'"
          "logged host policy im = [p]"
        using p Some True by (cases "transcript_record (json host) h p") (auto simp: record_review_def logged_def)
      then have "record_each (json host) (transcript_new g) (log @ logged host policy im) = Some h'"
        using g by (simp add: record_each_append)
      then show ?thesis
        using \<open>review_history self' = Some h'\<close> by (auto simp: holds_log_def)
    qed
  qed
qed

lemma record_items_log:
  assumes "record_items_with_metadata host policy self ims = Some self'" "holds_log host self log"
  shows "holds_log host self' (log @ concat (map (logged host policy) ims))"
  using assms
proof (induction ims arbitrary: self log)
  case (Cons im ims)
  then obtain s where s: "record_item host policy self im = Some s" "record_items_with_metadata host policy s ims = Some self'"
    by (auto simp: Option.bind_eq_Some_conv)
  from Cons.IH [OF s(2) record_item_log [OF s(1) Cons.prems(2)]] show ?case
    by simp
qed simp

lemma compact_log:
  assumes "replace_compacted host self items = Some self'" "holds_log host self log"
  shows "holds_log host self' log"
  using assms by (auto simp: replace_compacted_def holds_log_def split: option.splits)

lemma run_ops_log:
  assumes "run_ops host self ops = Some self'" "list_all keeps_evidence ops" "holds_log host self log"
  shows "holds_log host self' (log @ evidence host ops)"
  using assms
proof (induction ops arbitrary: self log)
  case (Cons op ops)
  then obtain s where s: "apply_op host self op = Some s" "run_ops host s ops = Some self'"
    by (auto simp: Option.bind_eq_Some_conv)
  show ?case
  proof (cases op)
    case (Record policy ims)
    then have "holds_log host s (log @ concat (map (logged host policy) ims))"
      using record_items_log s(1) Cons.prems(3) by auto
    from Cons.IH [OF s(2) _ this] show ?thesis
      using Cons.prems(2) Record by simp
  next
    case (Compact items)
    then have "holds_log host s log"
      using compact_log s(1) Cons.prems(3) by auto
    from Cons.IH [OF s(2) _ this] show ?thesis
      using Cons.prems(2) Compact by simp
  qed (use Cons.prems(2) in simp_all)
qed simp

text \<open>A log within the bounds: nothing of it is evicted.\<close>

definition sized :: "Json \<Rightarrow> ResponseItem list \<Rightarrow> (ResponseItem \<times> nat) list" where
  "sized js log = map (\<lambda>item. (item, the (measured js item))) log"

definition evidence_fits :: "Json \<Rightarrow> ResponseItem list \<Rightarrow> bool" where
  "evidence_fits js log \<longleftrightarrow>
     list_all (\<lambda>item. measured js item \<noteq> None) log \<and>
     within_limits \<lparr>entries = sized js log, generation = 0\<rparr>"

lemma evidence_fits_snoc:
  assumes "evidence_fits js (log @ [item])"
  shows "evidence_fits js log" "\<exists>sz. measured js item = Some sz \<and>
    \<not> over_limit (length (kind_sizes (is_user_message item) (sized js log)))
        (sz + sum_list (kind_sizes (is_user_message item) (sized js log)))"
  using assms
  by (auto simp: evidence_fits_def sized_def within_limits_def over_limit_def split: if_splits)

lemma fitting_log_kept:
  "evidence_fits js log \<Longrightarrow>
   record_each js (transcript_new g) log = Some \<lparr>entries = sized js log, generation = g\<rparr>"
proof (induction log rule: rev_induct)
  case Nil
  show ?case
    by (simp add: transcript_new_def sized_def)
next
  case (snoc item log)
  obtain sz where sz: "measured js item = Some sz"
      "\<not> over_limit (length (kind_sizes (is_user_message item) (sized js log)))
        (sz + sum_list (kind_sizes (is_user_message item) (sized js log)))"
    using evidence_fits_snoc(2) [OF snoc.prems] by blast
  have "record_each js (transcript_new g) log = Some \<lparr>entries = sized js log, generation = g\<rparr>"
    using snoc.IH evidence_fits_snoc(1) [OF snoc.prems] by blast
  then show ?case
    using sz by (simp add: record_each_append transcript_record_form recorded_form_def append_bounded_def
        kind_totals_eq Let_def) (simp add: sized_def)
qed

lemma holds_log_review:
  assumes "holds_log host self log" "evidence_fits (json host) log"
  shows "review_items host self = log"
proof (cases "review_history self")
  case None
  then show ?thesis
    using assms by (simp add: holds_log_def review_items_def snapshot_items_def)
next
  case (Some h)
  then obtain g where "record_each (json host) (transcript_new g) log = Some h"
    using assms(1) by (auto simp: holds_log_def)
  then have "entries h = sized (json host) log"
    using fitting_log_kept [OF assms(2)] by auto
  then show ?thesis
    using Some by (simp add: review_items_def transcript_items_def sized_def comp_def)
qed

section \<open>Properties\<close>

text \<open>C20: In every state the history reaches, every operation returns: no order of recording, compacting,
  replacing, rolling back and dropping the oldest item leads to a panic. The review evidence stays within
  its bounds and the revision of the user's input never goes back.\<close>

theorem history_never_stuck:
  assumes "reachable host self" "small_items host" "op_in_memory op"
  shows "\<exists>self'. apply_op host self op = Some self' \<and> reachable host self' \<and> review_ok self' \<and>
    user_message_revision self \<le> user_message_revision self'"
proof -
  obtain self' where "apply_op host self op = Some self'" "revision_ok self'"
      "user_message_revision self \<le> user_message_revision self'"
    using apply_op_total [OF reachable_revision_ok [OF assms(1,2)] assms(2,3)] by blast
  then show ?thesis
    using reachable.step [OF assms(1,3)] by (auto simp: revision_ok_def)
qed

theorem history_never_stuck_witness:
  "\<exists>self'. apply_op sample_host manager_new (Record (Bytes 10) [(sample_user [97], None)]) = Some self' \<and>
     reachable sample_host self' \<and> review_ok self'"
proof -
  have small: "small_items sample_host"
    by code_simp
  have mem: "op_in_memory (Record (Bytes 10) [(sample_user [97], None)])"
    by (simp add: sample_user_def)
  show ?thesis
    using history_never_stuck [OF reachable.start small mem] by blast
qed

text \<open>C8: Compaction is invisible to approval reviews. However often the history is compacted between
  recordings, and whatever it is compacted to, a review sees exactly the items ever recorded, as stored,
  except those the harness injected, as long as they fit the bounds of the evidence.\<close>

theorem compaction_invisible_to_review:
  assumes "run_ops host manager_new ops = Some self" "list_all keeps_evidence ops"
    "evidence_fits (json host) (evidence host ops)"
  shows "review_items host self = evidence host ops"
proof -
  have "holds_log host manager_new []"
    by (simp add: holds_log_def manager_new_def visible_items_def raw_items_def)
  from run_ops_log [OF assms(1,2) this] have "holds_log host self (evidence host ops)"
    by simp
  then show ?thesis
    using assms(3) by (rule holds_log_review)
qed

definition sample_ops :: "HistoryOp list" where
  "sample_ops =
     [Record (Bytes 10) [(sample_user [97], None)], Compact [], Compact [envelope_new (sample_user [120])],
      Record (Bytes 10) [(sample_user [98], None), (Other, None)]]"

theorem compaction_invisible_to_review_witness:
  "\<exists>self. run_ops sample_host manager_new sample_ops = Some self \<and> raw_items self = [sample_user [120], sample_user [98]] \<and>
     review_items sample_host self = [sample_user [97], sample_user [98]]"
proof -
  have "map_option raw_items (run_ops sample_host manager_new sample_ops) = Some [sample_user [120], sample_user [98]]"
    by code_simp
  then have run: "\<exists>self. run_ops sample_host manager_new sample_ops = Some self \<and> raw_items self = [sample_user [120], sample_user [98]]"
    by auto
  have ev: "evidence sample_host sample_ops = [sample_user [97], sample_user [98]]"
    by code_simp
  have keeps: "list_all keeps_evidence sample_ops"
    by (simp add: sample_ops_def)
  have fits: "evidence_fits (json sample_host) (evidence sample_host sample_ops)"
    unfolding ev by code_simp
  show ?thesis
    using run compaction_invisible_to_review [OF _ keeps fits] ev by auto
qed

end
