(* ===== verification/Image_Preparation.thy ===== *)
theory Image_Preparation
  imports Media_Urls History_Normalize
begin

text \<open>
  The preparation of images before items enter the history, after \<open>core/src/image_preparation.rs\<close>, the
  data-URL front end of \<open>utils/image/src/lib.rs\<close> and the notice of \<open>core/src/context/image_resize_notice.rs\<close>.

  Libraries are the fields of \<open>ImageCodec\<close>: base64 decoding and encoding, and the loader, which decodes,
  scales and encodes pictures. The cache in front of the loader holds its results and is not modelled.
\<close>

section \<open>Loading an image from a data URL\<close>

record PromptImageResizeLimits =
  max_dimension :: nat
  max_patches :: nat

datatype ImageProcessingError =
    ReadError | DecodeError | EncodeError
  | UnsupportedImageFormat ustring
  | ImageInvalidDataUrl ustring
  | ImageTooLarge ustring nat nat

record EncodedImage =
  img_bytes :: "8 word list"
  img_mime :: ustring
  source_width :: nat
  source_height :: nat
  img_width :: nat
  img_height :: nat

record ImageCodec =
  b64_decode :: "ustring \<Rightarrow> 8 word list option"
  b64_encode :: "8 word list \<Rightarrow> ustring"
  load_for_prompt :: "8 word list \<Rightarrow> PromptImageResizeLimits \<Rightarrow> (ImageProcessingError, EncodedImage) result"

definition MAX_PROMPT_IMAGE_INPUT_BYTES :: nat where
  "MAX_PROMPT_IMAGE_INPUT_BYTES = 1024 * 1024 * 1024"

definition data_url_from_bytes :: "ImageCodec \<Rightarrow> ustring \<Rightarrow> 8 word list \<Rightarrow> ustring" where
  "data_url_from_bytes codec mime bytes = lit ''data:'' @ mime @ lit '';base64,'' @ b64_encode codec bytes"

definition prompt_image_dimensions_fit :: "nat \<Rightarrow> nat \<Rightarrow> PromptImageResizeLimits \<Rightarrow> bool" where
  "prompt_image_dimensions_fit w h limits \<longleftrightarrow>
     (let patches_wide = (w + 31) div 32; patches_high = (h + 31) div 32 in
      w \<le> max_dimension limits \<and> h \<le> max_dimension limits \<and> patches_wide * patches_high \<le> max_patches limits)"

definition load_data_url_for_prompt ::
  "ImageCodec \<Rightarrow> ustring \<Rightarrow> PromptImageResizeLimits \<Rightarrow> (ImageProcessingError, EncodedImage) result" where
  "load_data_url_for_prompt codec image_url limits =
     (case (if slice_matches (slice_to image_url 5) (lit ''data:'') then slice_from image_url 5 else None) of
        None \<Rightarrow> Inl (ImageInvalidDataUrl (lit ''missing data: prefix''))
      | Some rest \<Rightarrow>
      case split_once rest (lit '','') of
        None \<Rightarrow> Inl (ImageInvalidDataUrl (lit ''missing comma separator''))
      | Some (metadata, encoded) \<Rightarrow>
      if \<not> has_base64 (split_on 59 metadata) then
        Inl (ImageInvalidDataUrl (lit ''only base64 data URLs are supported''))
      else if utf8_len encoded > MAX_PROMPT_IMAGE_INPUT_BYTES then
        Inl (ImageTooLarge (lit ''base64 payload'') (utf8_len encoded) MAX_PROMPT_IMAGE_INPUT_BYTES)
      else
      case b64_decode codec encoded of
        None \<Rightarrow> Inl (ImageInvalidDataUrl (lit ''invalid base64 payload''))
      | Some file_bytes \<Rightarrow>
      if length file_bytes > MAX_PROMPT_IMAGE_INPUT_BYTES then
        Inl (ImageTooLarge (lit ''decoded input'') (length file_bytes) MAX_PROMPT_IMAGE_INPUT_BYTES)
      else load_for_prompt codec file_bytes limits)"

section \<open>Preparing one image\<close>

datatype ImagePreparationMode = DetailBased | UnifiedBudget

definition HIGH_DETAIL_LIMITS :: PromptImageResizeLimits where
  "HIGH_DETAIL_LIMITS = \<lparr>max_dimension = 2048, max_patches = 2500\<rparr>"

definition UNIFIED_IMAGE_LIMITS :: PromptImageResizeLimits where
  "UNIFIED_IMAGE_LIMITS = \<lparr>max_dimension = 6000, max_patches = 10000\<rparr>"

datatype ImagePreparationError =
    RemoteUrlUnsupported
  | UnsupportedLowDetail
  | Processing ImageProcessingError

fun image_placeholder :: "ImagePreparationError \<Rightarrow> ustring" where
  "image_placeholder RemoteUrlUnsupported =
     lit ''image content omitted because remote image URLs are not supported''"
| "image_placeholder UnsupportedLowDetail =
     lit ''image content omitted because detail '' @ [39] @ lit ''low'' @ [39] @
     lit '' is not supported; use '' @ [39] @ lit ''high'' @ [39] @ lit '', '' @ [39] @ lit ''original'' @ [39] @
     lit '', or '' @ [39] @ lit ''auto'' @ [39]"
| "image_placeholder (Processing (ImageTooLarge _ _ _)) =
     lit ''image content omitted because it exceeded the supported size limit; use a smaller image''"
| "image_placeholder (Processing _) = lit ''image content omitted because it could not be processed''"

record PreparedImageResize =
  from_width :: nat
  from_height :: nat
  to_width :: nat
  to_height :: nat

datatype ImageDetailSetting = HighSetting | OriginalSetting

record ImageOrigin =
  message_role :: "ustring option"
  origin_item_id :: "ustring option"

record ImagePreparationMetadata =
  prep_origin :: ImageOrigin
  effective_detail :: ImageDetailSetting
  prep_sizes :: PreparedImageResize

definition is_remote_image_url :: "ustring \<Rightarrow> bool" where
  "is_remote_image_url image_url =
     is_some_and (split_once image_url (lit '':'')) (\<lambda>(scheme, _).
       eq_ignore_ascii_case scheme (lit ''http'') \<or> eq_ignore_ascii_case scheme (lit ''https''))"

fun image_limits ::
  "ImagePreparationMode \<Rightarrow> ImageDetail option \<Rightarrow> (ImageDetailSetting \<times> PromptImageResizeLimits) option" where
  "image_limits UnifiedBudget _ = Some (OriginalSetting, UNIFIED_IMAGE_LIMITS)"
| "image_limits DetailBased None = Some (HighSetting, HIGH_DETAIL_LIMITS)"
| "image_limits DetailBased (Some Auto) = Some (HighSetting, HIGH_DETAIL_LIMITS)"
| "image_limits DetailBased (Some High) = Some (HighSetting, HIGH_DETAIL_LIMITS)"
| "image_limits DetailBased (Some Original) = Some (OriginalSetting, UNIFIED_IMAGE_LIMITS)"
| "image_limits DetailBased (Some Low) = None"

text \<open>The URL and the detail after preparation, the resize if there was one, and what is reported.\<close>

definition prepare_image ::
  "ImageCodec \<Rightarrow> ImagePreparationMode \<Rightarrow> ImageOrigin \<Rightarrow> ustring \<Rightarrow> ImageDetail option \<Rightarrow>
   (ImagePreparationError,
    ustring \<times> ImageDetail option \<times> PreparedImageResize option \<times> ImagePreparationMetadata list) result" where
  "prepare_image codec mode origin image_url detail =
     (if is_remote_image_url image_url then Inl RemoteUrlUnsupported
      else if \<not> is_data_url image_url then Inr (image_url, detail, None, [])
      else
      case image_limits mode detail of
        None \<Rightarrow> Inl UnsupportedLowDetail
      | Some (effective, limits) \<Rightarrow>
      case load_data_url_for_prompt codec image_url limits of
        Inl e \<Rightarrow> Inl (Processing e)
      | Inr img \<Rightarrow>
          (let sizes = \<lparr>from_width = source_width img, from_height = source_height img,
                        to_width = img_width img, to_height = img_height img\<rparr>
           in Inr (data_url_from_bytes codec (img_mime img) (img_bytes img),
                   (if mode = UnifiedBudget then Some Original else detail),
                   (if (source_width img, source_height img) \<noteq> (img_width img, img_height img)
                    then Some sizes else None),
                   [\<lparr>prep_origin = origin, effective_detail = effective, prep_sizes = sizes\<rparr>])))"

section \<open>Preparing items\<close>

record ResizedImage =
  image_number :: nat
  image_count :: nat
  resize :: PreparedImageResize

text \<open>Both content loops: \<open>pick\<close> recognizes an image, \<open>put\<close> writes it back, \<open>omit\<close> puts a text in its
  place. The number of the next image and the number of images are passed along.\<close>

fun prepare_images ::
  "(ustring \<Rightarrow> ImageDetail option \<Rightarrow> (ImagePreparationError,
      ustring \<times> ImageDetail option \<times> PreparedImageResize option \<times> ImagePreparationMetadata list) result) \<Rightarrow>
   ('c \<Rightarrow> (ustring \<times> ImageDetail option) option) \<Rightarrow> ('c \<Rightarrow> ustring \<Rightarrow> ImageDetail option \<Rightarrow> 'c) \<Rightarrow>
   (ustring \<Rightarrow> 'c) \<Rightarrow> bool \<Rightarrow> nat \<Rightarrow> nat \<Rightarrow> 'c list \<Rightarrow>
   'c list \<times> ResizedImage list \<times> ImagePreparationMetadata list" where
  "prepare_images prepare pick put omit notices of_all number [] = ([], [], [])"
| "prepare_images prepare pick put omit notices of_all number (c # cs) =
     (case pick c of
        None \<Rightarrow>
          (let (cs', rs, ms) = prepare_images prepare pick put omit notices of_all number cs in (c # cs', rs, ms))
      | Some (url, detail) \<Rightarrow>
          (let (cs', rs, ms) = prepare_images prepare pick put omit notices of_all (number + 1) cs in
           case prepare url detail of
             Inl e \<Rightarrow> (omit (image_placeholder e) # cs', rs, ms)
           | Inr (url', detail', resized, meta) \<Rightarrow>
               (put c url' detail' # cs',
                (case resized of
                   Some sizes \<Rightarrow>
                     if notices then \<lparr>image_number = number + 1, image_count = of_all, resize = sizes\<rparr> # rs else rs
                 | None \<Rightarrow> rs),
                meta @ ms)))"

fun message_image :: "ContentItem \<times> content_kind \<Rightarrow> (ustring \<times> ImageDetail option) option" where
  "message_image (InputImage url detail, _) = Some (url, detail)"
| "message_image _ = None"

fun output_image :: "FunctionCallOutputContentItem \<Rightarrow> (ustring \<times> ImageDetail option) option" where
  "output_image (OutInputImage url detail) = Some (url, detail)"
| "output_image _ = None"

definition prepare_message_content ::
  "ImageCodec \<Rightarrow> ImagePreparationMode \<Rightarrow> ImageOrigin \<Rightarrow> bool \<Rightarrow> (ContentItem \<times> content_kind) list \<Rightarrow>
   (ContentItem \<times> content_kind) list \<times> ResizedImage list \<times> ImagePreparationMetadata list" where
  "prepare_message_content codec mode origin notices items =
     prepare_images (prepare_image codec mode origin) message_image
       (\<lambda>c url detail. (InputImage url detail, snd c)) (\<lambda>t. (InputText t, lit ''images.preparation_error''))
       notices (length (filter (\<lambda>c. message_image c \<noteq> None) items)) 0 items"

definition prepare_tool_output_content ::
  "ImageCodec \<Rightarrow> ImagePreparationMode \<Rightarrow> ImageOrigin \<Rightarrow> bool \<Rightarrow> FunctionCallOutputContentItem list \<Rightarrow>
   FunctionCallOutputContentItem list \<times> ResizedImage list \<times> ImagePreparationMetadata list" where
  "prepare_tool_output_content codec mode origin notices items =
     prepare_images (prepare_image codec mode origin) output_image
       (\<lambda>c url detail. OutInputImage url detail) OutInputText
       notices (length (filter (\<lambda>c. output_image c \<noteq> None) items)) 0 items"

datatype ImageResizeNoticeSource = UserMessage | ToolOutput

definition resize_line :: "ImageResizeNoticeSource \<Rightarrow> ResizedImage \<Rightarrow> ustring" where
  "resize_line source img =
     lit ''Image '' @ show_nat (image_number img) @ lit '' of '' @ show_nat (image_count img) @
     lit '' in the preceding '' @ (case source of UserMessage \<Rightarrow> lit ''user message'' | ToolOutput \<Rightarrow> lit ''tool output'') @
     lit '' was resized from '' @ show_nat (from_width (resize img)) @ lit ''x'' @ show_nat (from_height (resize img)) @
     lit '' to '' @ show_nat (to_width (resize img)) @ lit ''x'' @ show_nat (to_height (resize img)) @ lit '' pixels.''"

text \<open>\<open>ResponseItem::from(render_fragment())\<close>: one classified text of a role.\<close>

definition fragment_item :: "ustring \<Rightarrow> ustring \<Rightarrow> content_kind \<Rightarrow> ResponseItem" where
  "fragment_item role t kind =
     Message None role [InputText t] None (Some (default_metadata\<lparr>content_item_kinds := Some [kind]\<rparr>))"

definition resize_notice :: "ImageResizeNoticeSource \<Rightarrow> ResizedImage list \<Rightarrow> ResponseItem list" where
  "resize_notice source images =
     (if images = [] then []
      else [fragment_item (lit ''developer'')
              (lit ''<image_resize_notice>'' @ [nl] @ join [nl] (map (resize_line source) images) @ [nl] @
               lit ''</image_resize_notice>'')
              (lit ''images.resize_notice'')])"

definition prepare_tool_output ::
  "ImageCodec \<Rightarrow> ImagePreparationMode \<Rightarrow> bool \<Rightarrow> ustring option \<Rightarrow> FunctionCallOutputPayload \<Rightarrow>
   FunctionCallOutputPayload \<times> ResponseItem list \<times> ImagePreparationMetadata list" where
  "prepare_tool_output codec mode notices item_id out =
     (case out_body out of
        BodyText _ \<Rightarrow> (out, [], [])
      | ContentItems cs \<Rightarrow>
          (let (cs', rs, ms) = prepare_tool_output_content codec mode
                 \<lparr>message_role = None, origin_item_id = item_id\<rparr> notices cs
           in (out\<lparr>out_body := ContentItems cs'\<rparr>, resize_notice ToolOutput rs, ms)))"

text \<open>The items one item turns into: itself, and a notice about its resized images.\<close>

fun prepare_item_images ::
  "ImageCodec \<Rightarrow> ImagePreparationMode \<Rightarrow> bool \<Rightarrow> ResponseItem \<Rightarrow> ResponseItem list \<times> ImagePreparationMetadata list" where
  "prepare_item_images codec mode notices (Message i role content phase m) =
     (let (cs', rs, ms) = prepare_message_content codec mode
            \<lparr>message_role = Some role, origin_item_id = None\<rparr> (role = lit ''user'' \<and> notices)
            (zip_kinds content (case Option.bind m content_item_kinds of None \<Rightarrow> [] | Some ks \<Rightarrow> ks))
      in (Message i role (map fst cs') phase
            (Some ((get_or_insert_default m)\<lparr>content_item_kinds := Some (map snd cs')\<rparr>))
            # resize_notice UserMessage rs, ms))"
| "prepare_item_images codec mode notices (FunctionCallOutput i c n ns out m) =
     (let (out', ns', ms) = prepare_tool_output codec mode notices c out
      in (FunctionCallOutput i c n ns out' m # ns', ms))"
| "prepare_item_images codec mode notices (CustomToolCallOutput i c n out m) =
     (let (out', ns', ms) = prepare_tool_output codec mode notices (Some c) out
      in (CustomToolCallOutput i c n out' m # ns', ms))"
| "prepare_item_images codec mode notices item = ([item], [])"

definition prepare_image_response_items ::
  "ImageCodec \<Rightarrow> ImagePreparationMode \<Rightarrow> bool \<Rightarrow> ResponseItem list \<Rightarrow>
   ResponseItem list \<times> ImagePreparationMetadata list" where
  "prepare_image_response_items codec mode notices items =
     (concat (map (fst \<circ> prepare_item_images codec mode notices) items),
      concat (map (snd \<circ> prepare_item_images codec mode notices) items))"

section \<open>What preparation leaves\<close>

text \<open>No remote image survives in a message.\<close>

definition local_image :: "ContentItem \<Rightarrow> bool" where
  "local_image c = (case c of InputImage url _ \<Rightarrow> \<not> is_remote_image_url url | _ \<Rightarrow> True)"

text \<open>The contents after preparation: each item on its own.\<close>

definition prepared_content ::
  "(ustring \<Rightarrow> ImageDetail option \<Rightarrow> (ImagePreparationError,
      ustring \<times> ImageDetail option \<times> PreparedImageResize option \<times> ImagePreparationMetadata list) result) \<Rightarrow>
   ('c \<Rightarrow> (ustring \<times> ImageDetail option) option) \<Rightarrow> ('c \<Rightarrow> ustring \<Rightarrow> ImageDetail option \<Rightarrow> 'c) \<Rightarrow>
   (ustring \<Rightarrow> 'c) \<Rightarrow> 'c \<Rightarrow> 'c" where
  "prepared_content prepare pick put omit c =
     (case pick c of
        None \<Rightarrow> c
      | Some (url, detail) \<Rightarrow>
          (case prepare url detail of
             Inl e \<Rightarrow> omit (image_placeholder e)
           | Inr (url', detail', _) \<Rightarrow> put c url' detail'))"

lemma prepare_images_fst:
  "fst (prepare_images prepare pick put omit notices of_all number cs) =
     map (prepared_content prepare pick put omit) cs"
  by (induction cs arbitrary: number)
    (simp_all add: prepared_content_def split_beta split: option.split sum.split)

lemma prepare_images_all:
  assumes "\<And>c. pick c = None \<Longrightarrow> P c" "\<And>t. P (omit t)"
    "\<And>c url detail url' detail' r ms. pick c = Some (url, detail) \<Longrightarrow> prepare url detail = Inr (url', detail', r, ms) \<Longrightarrow>
       P (put c url' detail')"
  shows "list_all P (fst (prepare_images prepare pick put omit notices of_all number cs))"
proof -
  have "P (prepared_content prepare pick put omit c)" for c
    using assms by (auto simp: prepared_content_def split: option.split sum.split)
  then show ?thesis
    by (simp add: prepare_images_fst list_all_iff)
qed

lemma data_url_local: "\<not> is_remote_image_url (data_url_from_bytes codec mime bytes)"
  using split_once_char [of 58 "lit ''data''" "mime @ lit '';base64,'' @ b64_encode codec bytes"]
  by (simp add: is_remote_image_url_def data_url_from_bytes_def lit_def eq_ignore_ascii_case_def
      to_ascii_lowercase_def ascii_lower_def)

lemma prepare_image_local:
  "prepare_image codec mode origin url detail = Inr (url', detail', r, ms) \<Longrightarrow> \<not> is_remote_image_url url'"
  by (auto simp: prepare_image_def Let_def data_url_local split: if_splits option.splits sum.splits prod.splits)

lemma prepare_message_local:
  "list_all (local_image \<circ> fst) (fst (prepare_message_content codec mode origin notices cs))"
  unfolding prepare_message_content_def
  by (rule prepare_images_all)
    (auto simp: local_image_def split: ContentItem.splits elim: message_image.elims dest: prepare_image_local)

fun local_images :: "ResponseItem \<Rightarrow> bool" where
  "local_images (Message _ _ content _ _) = list_all local_image content"
| "local_images _ = True"

lemma prepared_images_local:
  "list_all local_images (fst (prepare_image_response_items codec mode notices items))"
proof -
  have notice: "list_all local_images (resize_notice source rs)" for source rs
    by (simp add: resize_notice_def fragment_item_def local_image_def)
  have msg: "list_all local_image (map fst (fst (prepare_message_content codec mode origin ntc cs)))" for origin ntc cs
    using prepare_message_local [of codec mode origin ntc cs] by (simp add: list_all_iff)
  have tool: "list_all local_images (fst (snd (prepare_tool_output codec mode notices i out)))" for i out
    by (simp add: prepare_tool_output_def notice split_beta split: FunctionCallOutputBody.split)
  have "list_all local_images (fst (prepare_item_images codec mode notices item))" for item
    using notice msg tool by (cases item) (simp_all add: split_beta)
  then show ?thesis
    by (simp add: prepare_image_response_items_def list_all_iff)
qed

text \<open>A message without images keeps its content; its missing classifications become explicit.\<close>

lemma prepare_images_none:
  "list_all (\<lambda>c. pick c = None) cs \<Longrightarrow> prepare_images prepare pick put omit notices of_all number cs = (cs, [], [])"
  by (induction cs) auto

lemma message_image_None [simp]: "message_image (c, k) = None \<longleftrightarrow> \<not> is_image c"
  by (cases c) simp_all

lemma zip_kinds_no_image:
  "list_all (\<lambda>c. \<not> is_image c) content \<Longrightarrow> list_all (\<lambda>c. message_image c = None) (zip_kinds content ks)"
  by (induction content ks rule: zip_kinds.induct) simp_all

lemma prepare_text_message:
  assumes "list_all (\<lambda>c. \<not> is_image c) content"
  shows "prepare_item_images codec mode notices (Message i role content phase m) =
    ([Message i role content phase
       (Some ((get_or_insert_default m)\<lparr>content_item_kinds :=
          Some (map snd (zip_kinds content (case Option.bind m content_item_kinds of None \<Rightarrow> [] | Some ks \<Rightarrow> ks)))\<rparr>))], [])"
proof -
  let ?cs = "zip_kinds content (case Option.bind m content_item_kinds of None \<Rightarrow> [] | Some ks \<Rightarrow> ks)"
  have "list_all (\<lambda>c. message_image c = None) ?cs"
    using assms by (rule zip_kinds_no_image)
  then have "prepare_message_content codec mode origin ntc ?cs = (?cs, [], [])" for origin ntc
    unfolding prepare_message_content_def by (rule prepare_images_none)
  then show ?thesis
    by (simp add: resize_notice_def)
qed

end
