(* ===== verification/Session_Record.thy ===== *)
theory Session_Record
  imports History_Evidence Image_Preparation Moa_Caller
begin

text \<open>
  How items enter the history of a session, after \<open>core/src/session/mod.rs\<close>: images and audio are
  prepared, every item gets the id of its turn, a creation time and an id, and the history records the
  result. The last part composes this with the Mixture of Agents: what happens to a guidance item.

  Fresh ids and the clock are the fields \<open>new_item_id\<close> and \<open>create_time_of\<close> of \<open>Recorder\<close>, by position of the
  item. Persisting and announcing the items are input and output.
\<close>

section \<open>Definitions\<close>

record Recorder =
  codec :: ImageCodec
  image_mode :: ImagePreparationMode
  notices_enabled :: bool
  current_turn :: ustring
  create_time_of :: "nat \<Rightarrow> opaque"
  new_item_id :: "nat \<Rightarrow> ustring \<Rightarrow> item_id"

definition stamp_response_item_for_history :: "ustring \<Rightarrow> opaque \<Rightarrow> ResponseItem \<Rightarrow> ResponseItem" where
  "stamp_response_item_for_history turn now item =
     set_create_time_if_missing (set_turn_id_if_missing item turn) now"

definition has_item_id :: "ResponseItem \<Rightarrow> bool" where
  "has_item_id item = is_some_and (get_id item) (\<lambda>i. i \<noteq> [])"

definition assign_missing_response_item_id :: "(ustring \<Rightarrow> item_id) \<Rightarrow> ResponseItem \<Rightarrow> ResponseItem" where
  "assign_missing_response_item_id new_id item =
     (if has_item_id item then item
      else
        (case id_prefix item of
           None \<Rightarrow> item
         | Some pre \<Rightarrow> set_id item (Some (new_id pre))))"

definition assign_missing_response_item_ids :: "(nat \<Rightarrow> ustring \<Rightarrow> item_id) \<Rightarrow> ResponseItem list \<Rightarrow> ResponseItem list" where
  "assign_missing_response_item_ids new_id items =
     (if list_all has_item_id items then items
      else map (\<lambda>(n, item). assign_missing_response_item_id (new_id n) item) (enumerate 0 items))"

definition prepare_conversation_items_for_history ::
  "Recorder \<Rightarrow> ResponseItem list \<Rightarrow> ResponseItem list \<times> ImagePreparationMetadata list" where
  "prepare_conversation_items_for_history rec items =
     (let (items, image_preparations) =
            prepare_image_response_items (codec rec) (image_mode rec) (notices_enabled rec) items;
          items = prepare_response_items (b64_decode (codec rec)) (b64_encode (codec rec)) items;
          items = map (\<lambda>(n, item). stamp_response_item_for_history (current_turn rec) (create_time_of rec n) item)
            (enumerate 0 items)
      in (assign_missing_response_item_ids (new_item_id rec) items, image_preparations))"

definition record_conversation_items ::
  "Host \<Rightarrow> TruncationPolicy \<Rightarrow> Recorder \<Rightarrow> ContextManager \<Rightarrow> ResponseItem list \<Rightarrow> ContextManager option" where
  "record_conversation_items host policy rec self items =
     record_annotated_items host policy self
       (map envelope_new (fst (prepare_conversation_items_for_history rec items)))"

text \<open>The message a user's input becomes, with every content item classified as the user's.\<close>

fun user_content_kind :: "ContentItem \<Rightarrow> content_kind" where
  "user_content_kind (InputText _) = lit ''user.text''"
| "user_content_kind (OutputText _) = lit ''user.text''"
| "user_content_kind (InputImage _ _) = lit ''user.image''"
| "user_content_kind (InputAudio _) = lit ''user.audio''"

definition response_item_from_user_input :: "ContentItem list \<Rightarrow> ResponseItem" where
  "response_item_from_user_input content =
     Message None (lit ''user'') content None
       (Some (default_metadata\<lparr>content_item_kinds := Some (map user_content_kind content)\<rparr>))"

section \<open>Recorded text messages\<close>

text \<open>A text message keeps its role and content; only its metadata and id are filled in.\<close>

lemma stamp_message:
  "\<exists>m'. stamp_response_item_for_history turn now (Message i role content phase (Some m)) =
      Message i role content phase (Some m') \<and> content_item_kinds m' = content_item_kinds m"
  by (auto simp: stamp_response_item_for_history_def set_turn_id_if_missing_def set_create_time_if_missing_def
      metadata_set_turn_id_if_missing_def get_or_insert_default_def internal_metadata_def split: option.split)

lemma assign_id_message:
  "\<exists>i'. assign_missing_response_item_id new_id (Message i role content phase m) = Message i' role content phase m"
  by (simp add: assign_missing_response_item_id_def)

lemma prepare_text_items:
  assumes "list_all is_text_content content"
  shows "\<exists>i' m'. fst (prepare_conversation_items_for_history rec [Message i role content phase m]) =
      [Message i' role content phase (Some m')] \<and>
    content_item_kinds m' =
      Some (map snd (zip_kinds content (case Option.bind m content_item_kinds of None \<Rightarrow> [] | Some ks \<Rightarrow> ks)))"
proof -
  let ?kinds = "map snd (zip_kinds content (case Option.bind m content_item_kinds of None \<Rightarrow> [] | Some ks \<Rightarrow> ks))"
  let ?m = "(get_or_insert_default m)\<lparr>content_item_kinds := Some ?kinds\<rparr>"
  have "list_all (\<lambda>c. \<not> is_image c) content"
    using assms by (auto simp: list_all_iff elim!: is_image.elims)
  then have img: "fst (prepare_image_response_items (codec rec) (image_mode rec) (notices_enabled rec)
      [Message i role content phase m]) = [Message i role content phase (Some ?m)]"
    by (simp add: prepare_image_response_items_def prepare_text_message del: prepare_item_images.simps)
  have "prepare_content p c = c" if "is_text_content c" for p c
    using that by (induction c) simp_all
  then have "prepare_content p c = c" if "c \<in> set content" for p c
    using that assms by (simp add: list_all_iff)
  then have aud: "prepare_response_items d e [Message i role content phase (Some ?m)] =
      [Message i role content phase (Some ?m)]" for d e
    by (simp add: prepare_response_items_def map_idI)
  obtain m' where st: "stamp_response_item_for_history (current_turn rec) (create_time_of rec 0)
      (Message i role content phase (Some ?m)) = Message i role content phase (Some m')"
      "content_item_kinds m' = Some ?kinds"
    using stamp_message by fastforce
  obtain i' where "assign_missing_response_item_ids (new_item_id rec) [Message i role content phase (Some m')] =
      [Message i' role content phase (Some m')]"
    using assign_id_message [of "new_item_id rec 0" i role content phase "Some m'"]
    by (cases "has_item_id (Message i role content phase (Some m'))")
      (auto simp: assign_missing_response_item_ids_def enumerate_eq_zip)
  then show ?thesis
    using img aud st by (simp add: prepare_conversation_items_for_history_def split_beta Let_def)
qed

lemma record_text_message:
  assumes "list_all is_text_content content" "role \<noteq> lit ''system''" "review_ok self" "small_items host"
  shows "\<exists>self' i' m'. record_conversation_items host policy rec self [Message i role content phase m] = Some self' \<and>
    cm_items self' = cm_items self @ [envelope_new (Message i' role content phase (Some m'))] \<and>
    content_item_kinds m' =
      Some (map snd (zip_kinds content (case Option.bind m content_item_kinds of None \<Rightarrow> [] | Some ks \<Rightarrow> ks))) \<and>
    user_message_revision self' =
      (if is_user_authorization_message (Message i' role content phase (Some m'))
       then sat_add (user_message_revision self) 1 else user_message_revision self)"
proof -
  obtain i' m' where p: "fst (prepare_conversation_items_for_history rec [Message i role content phase m]) =
      [Message i' role content phase (Some m')]"
      "content_item_kinds m' =
        Some (map snd (zip_kinds content (case Option.bind m content_item_kinds of None \<Rightarrow> [] | Some ks \<Rightarrow> ks)))"
    using prepare_text_items [OF assms(1)] by blast
  let ?item = "Message i' role content phase (Some m')"
  obtain review where review: "record_review host (review_history self) ?item ?item = Some review"
    using record_review_total assms(3,4) unfolding review_ok_def by blast
  let ?rev = "if is_user_authorization_message ?item then sat_add (user_message_revision self) 1
    else user_message_revision self"
  let ?self' = "self\<lparr>cm_items := cm_items self @ [envelope_new ?item], review_history := review,
    user_message_revision := ?rev\<rparr>"
  have "record_conversation_items host policy rec self [Message i role content phase m] = Some ?self'"
    using assms(2) p(1) review
    by (simp add: record_conversation_items_def record_annotated_items_def record_item_def envelope_new_def)
  moreover have "cm_items ?self' = cm_items self @ [envelope_new ?item]" "user_message_revision ?self' = ?rev"
    by simp_all
  ultimately show ?thesis
    using p(2) by blast
qed

section \<open>Guidance of the Mixture of Agents in the history\<close>

lemma guidance_item_text:
  assumes "maybe_run_moa_guidance moa caller history prompt pass_end = Some g"
  obtains t where "g = user_text_item (91 # t)"
proof -
  have "\<exists>t. fst (fst (run_moa_turn env q ms slots agg rt at mt rmt)) = 91 # t"
    for env q ms slots agg rt at mt rmt
    by (simp add: run_moa_turn_def Let_def build_guidance_def guidance_header_def lit_def)
  moreover obtain env q ms slots agg rt at mt rmt where
    "g = user_text_item (fst (fst (run_moa_turn env q ms slots agg rt at mt rmt)))"
    using assms unfolding maybe_run_selected by (auto split: option.splits if_splits)
  ultimately show thesis
    using that by metis
qed

lemma bracket_text_boundary:
  assumes "xml_starts_with_tag (from_xml host)"
  shows "is_user_turn_boundary host (Message i (lit ''user'') [InputText (91 # t)] phase m)"
proof -
  have "trim_start (91 # t) = 91 # t"
    by (simp add: trim_start_def is_whitespace_def)
  then have "\<not> is_contextual_user_fragment (from_xml host) (InputText (91 # t))"
    using contextual_hd [OF _ assms, of "91 # t"] by auto
  then show ?thesis
    by (simp add: is_contextual_user_message_content_def)
qed

text \<open>Rolling back one turn of a history whose last two items are turn boundaries removes only the last.\<close>

lemma rollback_last_boundary:
  assumes "cm_items self = items @ [e]" "items \<noteq> []" "boundary host (last items)" "boundary host e" "small_items host"
  obtains self' where "drop_last_n_user_turns host self 1 = Some self'" "cm_items self' = items"
proof -
  have "0 < turn_count host items"
    using assms(2,3) by (metis append_butlast_last_id filter.simps(2) length_greater_0_conv list.distinct(1)
        turn_count_def turn_count_append add_gr_0)
  then have more: "1 < turn_count host (cm_items self)"
    using assms(1,4) by (simp add: turn_count_append) (simp add: turn_count_def)
  obtain self0 kept where k: "drop_last_n_user_turns host self 1 = replace_annotated host self0 kept"
      "rolled_back host 1 (cm_items self) kept"
    by (rule rollback_cases [OF zero_less_one, of host self]) (use more in blast)
  obtain ctx dropped where d: "items @ [e] = kept @ ctx @ dropped"
      "list_all (\<lambda>x. trims_context host (env_item x)) ctx" "dropped \<noteq> []" "boundary host (hd dropped)"
      "turn_count host dropped = 1"
    using k(2) assms(1) by (auto simp: rolled_back_def)
  obtain ds x where dx: "dropped = ds @ [x]"
    using d(3) by (cases dropped rule: rev_cases) auto
  then have "items @ [e] = (kept @ ctx @ ds) @ [x]"
    using d(1) by simp
  then have ds: "dropped = ds @ [e]"
    using dx by (simp only: append1_eq_conv)
  have "turn_count host ds = 0"
    using d(5) ds assms(4) by (simp add: turn_count_append) (simp add: turn_count_def)
  then have "ds = []"
    using d(4) ds by (cases ds) (auto simp: turn_count_def)
  then have items: "items = kept @ ctx"
    using d(1) ds by simp
  have "ctx = []"
  proof (rule ccontr)
    assume "ctx \<noteq> []"
    then have "trims_context host (env_item (last items))"
      using d(2) items by (simp add: list_all_iff)
    then show False
      using assms(3) trimmed_no_boundary by blast
  qed
  then show thesis
    using that items k(1) replace_annotated_total [OF assms(5), of self0 kept] by auto
qed

text \<open>C32: The guidance that the Mixture of Agents writes into the history is indistinguishable from input of
  the user: recording it counts as a change of the user's authorization, and it opens a turn of its own, so
  that rolling back one turn removes the guidance and keeps the user's prompt.\<close>

theorem guidance_counts_as_user_turn:
  assumes "maybe_run_moa_guidance moa caller history prompt pass_end = Some g"
    "xml_starts_with_tag (from_xml host)" "small_items host" "review_ok self"
    "cm_items self \<noteq> []" "boundary host (last (cm_items self))"
  shows "\<exists>self' self''. record_conversation_items host policy rec self [g] = Some self' \<and>
    user_message_revision self' = sat_add (user_message_revision self) 1 \<and>
    drop_last_n_user_turns host self' 1 = Some self'' \<and> cm_items self'' = cm_items self"
proof -
  obtain t where g: "g = user_text_item (91 # t)"
    using guidance_item_text [OF assms(1)] by blast
  have texts: "list_all is_text_content [InputText (91 # t)]"
    by simp
  have role: "lit ''user'' \<noteq> lit ''system''"
    by simp
  obtain self' i' m' where r: "record_conversation_items host policy rec self [g] = Some self'"
      "cm_items self' = cm_items self @ [envelope_new (Message i' (lit ''user'') [InputText (91 # t)] None (Some m'))]"
      "content_item_kinds m' = Some [lit ''unknown'']"
      "user_message_revision self' =
        (if is_user_authorization_message (Message i' (lit ''user'') [InputText (91 # t)] None (Some m'))
         then sat_add (user_message_revision self) 1 else user_message_revision self)"
    using record_text_message [OF texts role assms(4,3), of policy rec None None None]
    unfolding g user_text_item_def by auto
  have "is_user_authorization_message (Message i' (lit ''user'') [InputText (91 # t)] None (Some m'))"
    using r(3) by (simp add: user_kind_def)
  then have rev: "user_message_revision self' = sat_add (user_message_revision self) 1"
    using r(4) by simp
  have b: "boundary host (envelope_new (Message i' (lit ''user'') [InputText (91 # t)] None (Some m')))"
    using bracket_text_boundary [OF assms(2)] by (simp add: envelope_new_def)
  obtain self'' where "drop_last_n_user_turns host self' 1 = Some self''" "cm_items self'' = cm_items self"
    using rollback_last_boundary [OF r(2) assms(5,6) b assms(3)] by blast
  then show ?thesis
    using r(1) rev by blast
qed

definition sample_codec :: ImageCodec where
  "sample_codec =
     \<lparr>b64_decode = (\<lambda>_. None), b64_encode = (\<lambda>_. []), load_for_prompt = (\<lambda>_ _. Inl DecodeError)\<rparr>"

definition sample_recorder :: Recorder where
  "sample_recorder =
     \<lparr>codec = sample_codec, image_mode = DetailBased, notices_enabled = True, current_turn = lit ''turn-1'',
      create_time_of = (\<lambda>_. lit ''0''), new_item_id = (\<lambda>n pre. pre @ lit ''_'' @ show_nat n)\<rparr>"

definition offline_caller :: "unit Caller" where
  "offline_caller =
     \<lparr>providers = (\<lambda>_. None), open_stream = (\<lambda>_ _ _ _ _. Inl []), elapsed = (\<lambda>_. False),
      schedule = (\<lambda>_ jobs. jobs), items_to_json = (\<lambda>_. [])\<rparr>"

theorem guidance_counts_as_user_turn_witness:
  "\<exists>g self' self''. maybe_run_moa_guidance default_config offline_caller [] [] Completed = Some g \<and>
     record_conversation_items sample_host (Bytes 10) sample_recorder sample_turns [g] = Some self' \<and>
     user_message_revision self' = sat_add 0 1 \<and>
     drop_last_n_user_turns sample_host self' 1 = Some self'' \<and> cm_items self'' = cm_items sample_turns"
proof -
  obtain g where g: "maybe_run_moa_guidance default_config offline_caller [] [] Completed = Some g"
    by (auto simp: maybe_run_selected selected_preset_def default_config_def or_else_def resolve_preset_def
        normalized_def unwrap_or_def default_preset_def default_reference_models_def)
  have xml: "xml_starts_with_tag (from_xml sample_host)"
    by (auto simp: xml_starts_with_tag_def sample_host_def starts_with_iff lit_def prefix_def split: if_splits)
  have small: "small_items sample_host"
    by code_simp
  have review: "review_ok sample_turns"
    by code_simp
  have turns: "cm_items sample_turns \<noteq> []" "boundary sample_host (last (cm_items sample_turns))"
    by code_simp+
  have revision: "user_message_revision sample_turns = 0"
    by code_simp
  show ?thesis
    using guidance_counts_as_user_turn [OF g xml small review turns] g revision by metis
qed

end
