(* ===== verification/Unix_Paths.thy ===== *)
theory Unix_Paths
  imports Rust_Prelude
begin

text \<open>
  Paths on Unix: the parts of \<open>std::path\<close> that the execution policy uses, and the absolute paths of
  \<open>utils/absolute-path/src\<close>. A path is its text; two paths are equal when their components are. An
  absolute path is normalized when it is made, so the model keeps its names from the root. The
  current and the home directory are arguments.
\<close>

section \<open>Components\<close>

datatype Component = RootDir | CurDir | ParentDir | Normal ustring

definition is_absolute_path :: "ustring \<Rightarrow> bool" where
  "is_absolute_path path = starts_with path (lit ''/'')"

definition name_component :: "ustring \<Rightarrow> Component" where
  "name_component name = (if name = lit ''..'' then ParentDir else Normal name)"

text \<open>Repeated separators and inner dots are skipped; a leading dot is a component.\<close>

definition components :: "ustring \<Rightarrow> Component list" where
  "components path =
     (let names = split_on 47 path
      in (if is_absolute_path path then [RootDir]
          else if hd names = lit ''.'' then [CurDir] else []) @
         map name_component (filter (\<lambda>name. name \<noteq> [] \<and> name \<noteq> lit ''.'') names))"

definition path_eq :: "ustring \<Rightarrow> ustring \<Rightarrow> bool" where
  "path_eq a b \<longleftrightarrow> components a = components b"

definition file_name :: "ustring \<Rightarrow> ustring option" where
  "file_name path = (case last_opt (components path) of Some (Normal name) \<Rightarrow> Some name | _ \<Rightarrow> None)"

definition file_stem :: "ustring \<Rightarrow> ustring option" where
  "file_stem path =
     map_option (\<lambda>name. case rsplit_once 46 name of
         None \<Rightarrow> name
       | Some (before, _) \<Rightarrow> if before = [] then name else before)
       (file_name path)"

definition parent_components :: "ustring \<Rightarrow> Component list option" where
  "parent_components path =
     (case last_opt (components path) of
        None \<Rightarrow> None
      | Some RootDir \<Rightarrow> None
      | Some _ \<Rightarrow> Some (butlast (components path)))"

definition path_join :: "ustring \<Rightarrow> ustring \<Rightarrow> ustring" where
  "path_join base path =
     (if is_absolute_path path \<or> base = [] then path
      else if ends_with base (lit ''/'') then base @ path
      else base @ lit ''/'' @ path)"

section \<open>Absolute paths\<close>

type_synonym AbsolutePathBuf = "ustring list"

record PathEnv =
  current_dir :: "ustring option"
  home_dir :: "ustring option"

definition maybe_expand_home_directory :: "PathEnv \<Rightarrow> ustring \<Rightarrow> ustring" where
  "maybe_expand_home_directory penv path =
     (case strip_prefix (lit ''~'') path of
        None \<Rightarrow> path
      | Some tail \<Rightarrow>
          (case home_dir penv of
             None \<Rightarrow> path
           | Some home \<Rightarrow>
               if tail = [] then home
               else (case strip_prefix (lit ''/'') tail of
                       Some below \<Rightarrow> path_join home (dropWhile (\<lambda>c. c = 47) below)
                     | None \<Rightarrow> path)))"

text \<open>\<open>normalize_path\<close> on the components of an absolute path; popping the root has no effect.\<close>

fun normalize_step :: "AbsolutePathBuf \<Rightarrow> Component \<Rightarrow> AbsolutePathBuf" where
  "normalize_step normalized RootDir = []"
| "normalize_step normalized CurDir = normalized"
| "normalize_step normalized ParentDir = butlast normalized"
| "normalize_step normalized (Normal name) = normalized @ [name]"

definition normalize_path :: "ustring \<Rightarrow> AbsolutePathBuf" where
  "normalize_path path = foldl normalize_step [] (components path)"

definition absolutize_from :: "ustring \<Rightarrow> ustring \<Rightarrow> AbsolutePathBuf" where
  [simp]: "absolutize_from path base_path = normalize_path (path_join base_path path)"

definition absolutize :: "PathEnv \<Rightarrow> ustring \<Rightarrow> AbsolutePathBuf option" where
  "absolutize penv path =
     (if is_absolute_path path then Some (normalize_path path)
      else map_option (absolutize_from path) (current_dir penv))"

text \<open>\<open>TryFrom<String>\<close>; \<open>None\<close> is the error of an unknown current directory.\<close>

definition from_absolute_path :: "PathEnv \<Rightarrow> ustring \<Rightarrow> AbsolutePathBuf option" where
  "from_absolute_path penv path = absolutize penv (maybe_expand_home_directory penv path)"

definition from_absolute_path_checked :: "PathEnv \<Rightarrow> ustring \<Rightarrow> AbsolutePathBuf option" where
  "from_absolute_path_checked penv path =
     (let expanded = maybe_expand_home_directory penv path
      in if is_absolute_path expanded then Some (absolutize_from expanded (lit ''/'')) else None)"

text \<open>The text of an absolute path, and \<open>join\<close>.\<close>

definition absolute_text :: "AbsolutePathBuf \<Rightarrow> ustring" where
  "absolute_text path = lit ''/'' @ join (lit ''/'') path"

definition resolve_path_against_base :: "PathEnv \<Rightarrow> ustring \<Rightarrow> ustring \<Rightarrow> AbsolutePathBuf" where
  "resolve_path_against_base penv path base_path =
     absolutize_from (maybe_expand_home_directory penv path) base_path"

definition absolute_join :: "PathEnv \<Rightarrow> AbsolutePathBuf \<Rightarrow> ustring \<Rightarrow> AbsolutePathBuf" where
  "absolute_join penv self path = resolve_path_against_base penv path (absolute_text self)"

definition absolute_file_name :: "AbsolutePathBuf \<Rightarrow> ustring option" where
  "absolute_file_name path = last_opt path"

section \<open>Lemmas\<close>

lemma components_name:
  assumes "47 \<notin> set name" "name \<noteq> []" "name \<noteq> lit ''.''" "name \<noteq> lit ''..''"
  shows "components name = [Normal name]"
proof -
  have "\<not> is_absolute_path name"
    using assms(1,2) by (cases name) (auto simp: is_absolute_path_def starts_with_def lit_def)
  then show ?thesis
    using assms by (simp add: components_def split_on_no_sep name_component_def)
qed

lemma component_names:
  "Normal name \<in> set (components path) \<Longrightarrow> name \<noteq> [] \<and> 47 \<notin> set name \<and> name \<noteq> lit ''.'' \<and> name \<noteq> lit ''..''"
  using split_on_sep_free [of name 47 path]
  by (auto simp: components_def Let_def name_component_def split: if_splits)

lemma file_name_name: "file_name path = Some name \<Longrightarrow> components name = [Normal name]"
proof -
  assume "file_name path = Some name"
  then have "last_opt (components path) = Some (Normal name)"
    by (auto simp: file_name_def split: option.splits Component.splits)
  then have "Normal name \<in> set (components path)"
    by (auto simp: last_opt_Some_iff)
  from component_names [OF this] show ?thesis
    by (intro components_name) auto
qed

lemma normalize_names:
  "list_all (\<lambda>c. case c of Normal name \<Rightarrow> P name | _ \<Rightarrow> True) cs \<Longrightarrow> list_all P acc \<Longrightarrow>
   list_all P (foldl normalize_step acc cs)"
proof (induction cs arbitrary: acc)
  case (Cons c cs)
  then have "list_all P (normalize_step acc c)"
    by (cases c) (auto simp: list_all_iff dest: in_set_butlastD)
  then show ?case
    using Cons by simp
qed simp

text \<open>The last name of an absolute path is a plain file name.\<close>

lemma absolute_file_name_plain:
  assumes "from_absolute_path penv path = Some p" "absolute_file_name p = Some name"
  shows "components name = [Normal name]"
proof -
  obtain q where p: "p = normalize_path q"
    using assms(1) by (auto simp: from_absolute_path_def absolutize_def split: if_splits)
  let ?P = "\<lambda>name. components name = [Normal name]"
  have "list_all (\<lambda>c. case c of Normal name \<Rightarrow> ?P name | _ \<Rightarrow> True) (components q)"
    by (auto simp: list_all_iff split: Component.split intro: components_name dest!: component_names)
  then have "list_all ?P p"
    unfolding p normalize_path_def by (intro normalize_names) simp_all
  moreover have "name \<in> set p"
    using assms(2) by (auto simp: absolute_file_name_def last_opt_Some_iff)
  ultimately show ?thesis
    by (simp add: list_all_iff)
qed

text \<open>Taking the stem of a path ends in a path that is its own stem.\<close>

lemma rsplit_once_append: "rsplit_once c s = Some (a, b) \<Longrightarrow> s = a @ c # b"
proof -
  assume split: "rsplit_once c s = Some (a, b)"
  let ?before = "takeWhile (\<lambda>x. x \<noteq> c) (rev s)" and ?after = "dropWhile (\<lambda>x. x \<noteq> c) (rev s)"
  have mem: "c \<in> set s" and ab: "a = rev (tl ?after)" "b = rev ?before"
    using split by (auto simp: rsplit_once_def split: if_splits)
  have ne: "?after \<noteq> []"
    using mem by auto
  then have "hd ?after = c"
    using hd_dropWhile [OF ne] by simp
  then have "?after = c # tl ?after"
    using ne by (cases ?after) auto
  then have "rev s = ?before @ c # tl ?after"
    using takeWhile_dropWhile_id [of "\<lambda>x. x \<noteq> c" "rev s"] by simp
  then have "rev (rev s) = rev (?before @ c # tl ?after)"
    by (rule arg_cong)
  then show ?thesis
    by (simp add: ab)
qed

lemma split_on_length: "x \<in> set (split_on c s) \<Longrightarrow> length x \<le> length s"
  by (induction s arbitrary: x) (auto split: if_splits list.splits intro: le_SucI)

lemma split_on_eq_length: "x \<in> set (split_on c s) \<Longrightarrow> length x = length s \<Longrightarrow> x = s"
proof (induction s arbitrary: x)
  case (Cons y s)
  have tail: "z \<in> set (split_on c s) \<Longrightarrow> length z \<noteq> Suc (length s)" for z
    using split_on_length [of z c s] by auto
  obtain l ls where "split_on c s = l # ls"
    by (cases "split_on c s") auto
  then show ?case
    using Cons tail by (auto split: if_splits)
qed simp

lemma file_stem_shorter:
  assumes "file_stem path = Some stem" "stem \<noteq> path"
  shows "length stem < length path"
proof -
  obtain name where name: "file_name path = Some name"
    using assms(1) by (auto simp: file_stem_def)
  then have "Normal name \<in> set (components path)"
    by (auto simp: file_name_def last_opt_Some_iff split: option.splits Component.splits)
  then have "name \<in> set (split_on 47 path)"
    by (auto simp: components_def Let_def name_component_def split: if_splits)
  then have "length name < length path \<or> name = path"
    using split_on_length split_on_eq_length by (metis le_neq_implies_less)
  moreover have "length stem < length name \<or> stem = name"
    using assms(1) name by (auto simp: file_stem_def split: option.splits if_splits dest: rsplit_once_append)
  ultimately show ?thesis
    using assms(2) by auto
qed

text \<open>Absolutizing a path keeps the file name at its end.\<close>

lemma split_on_append: "split_on c (a @ c # b) = split_on c a @ split_on c b"
proof (induction a)
  case (Cons x a)
  obtain l ls where "split_on c a = l # ls"
    by (cases "split_on c a") auto
  then show ?case
    using Cons by simp
qed simp

lemma last_split_on_append: "last (split_on c (a @ c # b)) = last (split_on c b)"
  by (simp add: split_on_append)

definition plain_name :: "ustring \<Rightarrow> bool" where
  "plain_name name \<longleftrightarrow> name \<noteq> [] \<and> name \<noteq> lit ''.'' \<and> name \<noteq> lit ''..'' \<and> 47 \<notin> set name"

lemma plain_name_components: "components name = [Normal name] \<Longrightarrow> plain_name name"
  using component_names [of name name] by (simp add: plain_name_def)

lemma normalize_path_last:
  assumes "last (split_on 47 path) = name" "plain_name name"
  shows "absolute_file_name (normalize_path path) = Some name"
proof -
  obtain names where "split_on 47 path = names @ [name]"
    using assms(1) by (metis append_butlast_last_id split_on_neq_Nil)
  then have "\<exists>front. components path = front @ [Normal name]"
    using assms(2) by (auto simp: components_def Let_def plain_name_def name_component_def)
  then show ?thesis
    by (auto simp: normalize_path_def absolute_file_name_def)
qed

lemma absolutize_last:
  assumes "absolutize penv path = Some p" "last (split_on 47 path) = name" "plain_name name"
  shows "absolute_file_name p = Some name"
proof -
  have join: "last (split_on 47 (path_join base path)) = name" for base
  proof (cases "is_absolute_path path \<or> base = []")
    case False
    then have "\<exists>front. path_join base path = front @ 47 # path"
      by (cases base rule: rev_cases) (auto simp: path_join_def ends_with_def lit_def)
    then show ?thesis
      using assms(2) by (auto simp: last_split_on_append)
  qed (use assms(2) in \<open>simp add: path_join_def\<close>)
  then show ?thesis
    using assms by (auto simp: absolutize_def intro: normalize_path_last split: if_splits)
qed

text \<open>An absolute path consists of plain names.\<close>

lemma normalize_path_plain: "list_all plain_name (normalize_path path)"
  unfolding normalize_path_def
  by (rule normalize_names) (auto simp: list_all_iff plain_name_def split: Component.split dest!: component_names)

lemma from_absolute_path_plain:
  "from_absolute_path penv path = Some p \<Longrightarrow> list_all plain_name p"
  "from_absolute_path_checked penv path = Some p \<Longrightarrow> list_all plain_name p"
  by (auto simp: from_absolute_path_def absolutize_def from_absolute_path_checked_def Let_def normalize_path_plain split: if_splits)

lemma from_absolute_path_slash:
  "is_absolute_path path \<Longrightarrow> from_absolute_path penv path = Some (normalize_path path)"
  by (cases path) (auto simp: from_absolute_path_def absolutize_def maybe_expand_home_directory_def is_absolute_path_def
      starts_with_def strip_prefix_def lit_def)

end
