(* ===== verification/Exec_Policy.thy ===== *)
theory Exec_Policy
  imports Unix_Paths "HOL-Library.List_Lexorder"
begin

text \<open>
  The execution policy (\<open>execpolicy/src/decision.rs\<close>, \<open>rule.rs\<close>, \<open>policy.rs\<close>, \<open>executable_name.rs\<close>):
  prefix rules indexed by program, network rules, and the known paths of host executables. The
  multimap of the rules is a list of entries in the order of insertion: the entries of one program
  keep their order in the crate too, and no result depends on the order of the programs.
\<close>

section \<open>Decisions\<close>

datatype Decision = Allow | Prompt | Forbidden

fun severity :: "Decision \<Rightarrow> nat" where
  "severity Allow = 0"
| "severity Prompt = 1"
| "severity Forbidden = 2"

instantiation Decision :: linorder
begin

definition less_eq_Decision :: "Decision \<Rightarrow> Decision \<Rightarrow> bool" where
  "less_eq_Decision a b \<longleftrightarrow> severity a \<le> severity b"

definition less_Decision :: "Decision \<Rightarrow> Decision \<Rightarrow> bool" where
  "less_Decision a b \<longleftrightarrow> severity a < severity b"

instance
proof
  fix a b :: Decision
  show "a \<le> b \<Longrightarrow> b \<le> a \<Longrightarrow> a = b"
    by (cases a; cases b) (auto simp: less_eq_Decision_def)
qed (auto simp: less_eq_Decision_def less_Decision_def)

end

record TextPosition =
  pos_line :: nat
  pos_column :: nat

record TextRange =
  range_start :: TextPosition
  range_end :: TextPosition

record ErrorLocation =
  location_path :: ustring
  location_range :: TextRange

section \<open>Rules\<close>

datatype PatternToken = Single ustring | Alts "ustring list"

fun token_matches :: "PatternToken \<Rightarrow> ustring \<Rightarrow> bool" where
  "token_matches (Single expected) token = (expected = token)"
| "token_matches (Alts alts) token = list_ex (\<lambda>alt. alt = token) alts"

fun alternatives :: "PatternToken \<Rightarrow> ustring list" where
  "alternatives (Single expected) = [expected]"
| "alternatives (Alts alts) = alts"

record PrefixPattern =
  pattern_first :: ustring
  pattern_rest :: "PatternToken list"

definition matches_prefix :: "PrefixPattern \<Rightarrow> ustring list \<Rightarrow> ustring list option" where
  "matches_prefix pattern cmd =
     (let pattern_length = length (pattern_rest pattern) + 1
      in if length cmd < pattern_length \<or> cmd ! 0 \<noteq> pattern_first pattern then None
         else if list_all (\<lambda>(pattern_token, cmd_token). token_matches pattern_token cmd_token)
                   (zip (pattern_rest pattern) (drop 1 (take pattern_length cmd)))
         then Some (take pattern_length cmd)
         else None)"

record PrefixRule =
  rule_pattern :: PrefixPattern
  rule_decision :: Decision
  rule_justification :: "ustring option"

datatype RuleMatch =
  PrefixRuleMatch "ustring list" Decision "AbsolutePathBuf option" "ustring option"
| HeuristicsRuleMatch "ustring list" Decision

fun match_decision :: "RuleMatch \<Rightarrow> Decision" where
  "match_decision (PrefixRuleMatch _ d _ _) = d"
| "match_decision (HeuristicsRuleMatch _ d) = d"

fun with_resolved_program :: "RuleMatch \<Rightarrow> AbsolutePathBuf \<Rightarrow> RuleMatch" where
  "with_resolved_program (PrefixRuleMatch matched_prefix d _ j) resolved_program =
     PrefixRuleMatch matched_prefix d (Some resolved_program) j"
| "with_resolved_program other resolved_program = other"

definition program :: "PrefixRule \<Rightarrow> ustring" where
  "program rule = pattern_first (rule_pattern rule)"

definition rule_matches :: "PrefixRule \<Rightarrow> ustring list \<Rightarrow> RuleMatch option" where
  "rule_matches rule cmd =
     map_option (\<lambda>matched_prefix. PrefixRuleMatch matched_prefix (rule_decision rule) None (rule_justification rule))
       (matches_prefix (rule_pattern rule) cmd)"

datatype PolicyError =
  InvalidDecision ustring
| InvalidPattern ustring
| InvalidExample ustring
| InvalidRule ustring
| ExampleDidNotMatch "PrefixRule list" "ustring list" "ErrorLocation option"
| ExampleDidMatch RuleMatch ustring "ErrorLocation option"
| StarlarkError ustring
| StarlarkBuiltin PolicyError

definition parse_decision :: "ustring \<Rightarrow> (PolicyError, Decision) result" where
  "parse_decision raw =
     (if raw = lit ''allow'' then Inr Allow
      else if raw = lit ''prompt'' then Inr Prompt
      else if raw = lit ''forbidden'' then Inr Forbidden
      else Inl (InvalidDecision raw))"

subsection \<open>Network rules\<close>

datatype NetworkRuleProtocol = Http | Https | Socks5Tcp | Socks5Udp

definition parse_protocol :: "ustring \<Rightarrow> (PolicyError, NetworkRuleProtocol) result" where
  "parse_protocol raw =
     (if raw = lit ''http'' then Inr Http
      else if raw = lit ''https'' \<or> raw = lit ''https_connect'' \<or> raw = lit ''http-connect'' then Inr Https
      else if raw = lit ''socks5_tcp'' then Inr Socks5Tcp
      else if raw = lit ''socks5_udp'' then Inr Socks5Udp
      else Inl (InvalidRule
        (lit ''network_rule protocol must be one of http, https, socks5_tcp, socks5_udp (got '' @ raw @ lit '')'')))"

fun as_policy_string :: "NetworkRuleProtocol \<Rightarrow> ustring" where
  "as_policy_string Http = lit ''http''"
| "as_policy_string Https = lit ''https''"
| "as_policy_string Socks5Tcp = lit ''socks5_tcp''"
| "as_policy_string Socks5Udp = lit ''socks5_udp''"

record NetworkRule =
  nr_host :: ustring
  nr_protocol :: NetworkRuleProtocol
  nr_decision :: Decision
  nr_justification :: "ustring option"

definition is_port :: "ustring \<Rightarrow> bool" where
  "is_port port \<longleftrightarrow> port \<noteq> [] \<and> list_all is_ascii_digit port"

text \<open>The host without the brackets of an IPv6 literal or without a port.\<close>

definition host_part :: "ustring \<Rightarrow> ustring \<Rightarrow> (PolicyError, ustring) result" where
  "host_part raw host =
     (case strip_prefix (lit ''['') host of
        Some stripped \<Rightarrow>
          (case split_once stripped (lit '']'') of
             None \<Rightarrow> Inl (InvalidRule (lit ''network_rule host has an invalid bracketed IPv6 literal''))
           | Some (inside, after) \<Rightarrow>
               if after \<noteq> [] \<and> \<not> is_some_and (strip_prefix (lit '':'') after) is_port
               then Inl (InvalidRule (lit ''network_rule host contains an unsupported suffix: '' @ raw))
               else Inr inside)
      | None \<Rightarrow>
          Inr (case rsplit_once 58 host of
                 Some (candidate, port) \<Rightarrow>
                   if count_list host 58 = 1 \<and> candidate \<noteq> [] \<and> is_port port then candidate else host
               | None \<Rightarrow> host))"

definition check_normalized_host :: "ustring \<Rightarrow> (PolicyError, ustring) result" where
  "check_normalized_host normalized =
     (if normalized = [] then Inl (InvalidRule (lit ''network_rule host cannot be empty''))
      else if List.member normalized 42
      then Inl (InvalidRule (lit ''network_rule host must be a specific host; wildcards are not allowed''))
      else if list_ex is_whitespace normalized
      then Inl (InvalidRule (lit ''network_rule host cannot contain whitespace''))
      else Inr normalized)"

definition normalize_network_rule_host :: "ustring \<Rightarrow> (PolicyError, ustring) result" where
  "normalize_network_rule_host raw =
     (let host = trim raw
      in if host = [] then Inl (InvalidRule (lit ''network_rule host cannot be empty''))
         else if str_find host (lit ''://'') \<noteq> None \<or> List.member host 47 \<or> List.member host 63 \<or> List.member host 35
         then Inl (InvalidRule
           (lit ''network_rule host must be a hostname or IP literal (without scheme or path)''))
         else and_then (host_part raw host) (\<lambda>host.
           check_normalized_host (to_ascii_lowercase (trim (trim_end_char 46 host)))))"

section \<open>Policies\<close>

record Policy =
  rules_by_program :: "(ustring \<times> PrefixRule) list"
  network_rules :: "NetworkRule list"
  host_executables_by_name :: "ustring \<rightharpoonup> AbsolutePathBuf list"

definition policy_empty :: Policy where
  "policy_empty = \<lparr>rules_by_program = [], network_rules = [], host_executables_by_name = Map.empty\<rparr>"

definition get_vec :: "(ustring \<times> PrefixRule) list \<Rightarrow> ustring \<Rightarrow> PrefixRule list option" where
  "get_vec rules key =
     (let found = map snd (filter (\<lambda>(k, _). k = key) rules)
      in if found = [] then None else Some found)"

fun render_pattern_token :: "PatternToken \<Rightarrow> ustring" where
  "render_pattern_token (Single v) = v"
| "render_pattern_token (Alts alts) = lit ''['' @ join (lit ''|'') alts @ lit '']''"

text \<open>Sorting with \<open>dedup\<close> gives each prefix once, in order.\<close>

definition get_allowed_prefixes :: "Policy \<Rightarrow> ustring list list" where
  "get_allowed_prefixes policy =
     remdups_adj (sort (map (\<lambda>(_, rule).
         pattern_first (rule_pattern rule) # map render_pattern_token (pattern_rest (rule_pattern rule)))
       (filter (\<lambda>(_, rule). rule_decision rule = Allow) (rules_by_program policy))))"

definition add_prefix_rule :: "Policy \<Rightarrow> ustring list \<Rightarrow> Decision \<Rightarrow> (PolicyError, Policy) result" where
  "add_prefix_rule policy tokens d =
     (case tokens of
        [] \<Rightarrow> Inl (InvalidPattern (lit ''prefix cannot be empty''))
      | first_token # others \<Rightarrow>
          Inr (policy\<lparr>rules_by_program := rules_by_program policy @
            [(first_token, \<lparr>rule_pattern = \<lparr>pattern_first = first_token, pattern_rest = map Single others\<rparr>,
               rule_decision = d, rule_justification = None\<rparr>)]\<rparr>))"

definition add_network_rule ::
  "Policy \<Rightarrow> ustring \<Rightarrow> NetworkRuleProtocol \<Rightarrow> Decision \<Rightarrow> ustring option \<Rightarrow> (PolicyError, Policy) result" where
  "add_network_rule policy host protocol d j =
     and_then (normalize_network_rule_host host) (\<lambda>host.
       if is_some_and j (\<lambda>raw. trim raw = []) then Inl (InvalidRule (lit ''justification cannot be empty''))
       else Inr (policy\<lparr>network_rules := network_rules policy @
         [\<lparr>nr_host = host, nr_protocol = protocol, nr_decision = d, nr_justification = j\<rparr>]\<rparr>))"

definition set_host_executable_paths :: "Policy \<Rightarrow> ustring \<Rightarrow> AbsolutePathBuf list \<Rightarrow> Policy" where
  "set_host_executable_paths policy name paths =
     policy\<lparr>host_executables_by_name := (host_executables_by_name policy)(name \<mapsto> paths)\<rparr>"

definition merge_overlay :: "Policy \<Rightarrow> Policy \<Rightarrow> Policy" where
  "merge_overlay policy overlay =
     \<lparr>rules_by_program = rules_by_program policy @ rules_by_program overlay,
      network_rules = network_rules policy @ network_rules overlay,
      host_executables_by_name = host_executables_by_name policy ++ host_executables_by_name overlay\<rparr>"

definition upsert_domain :: "ustring list \<Rightarrow> ustring \<Rightarrow> ustring list" where
  "upsert_domain domains host = filter (\<lambda>d. d \<noteq> host) domains @ [host]"

definition compile_rule :: "NetworkRule \<Rightarrow> ustring list \<times> ustring list \<Rightarrow> ustring list \<times> ustring list" where
  "compile_rule rule = (\<lambda>(allowed, denied). case nr_decision rule of
       Allow \<Rightarrow> (upsert_domain allowed (nr_host rule), filter (\<lambda>d. d \<noteq> nr_host rule) denied)
     | Forbidden \<Rightarrow> (filter (\<lambda>d. d \<noteq> nr_host rule) allowed, upsert_domain denied (nr_host rule))
     | Prompt \<Rightarrow> (allowed, denied))"

definition compiled_network_domains :: "Policy \<Rightarrow> ustring list \<times> ustring list" where
  "compiled_network_domains policy = fold compile_rule (network_rules policy) ([], [])"

section \<open>Evaluation\<close>

record Evaluation =
  evaluation_decision :: Decision
  matched_rules :: "RuleMatch list"

fun is_policy_match :: "RuleMatch \<Rightarrow> bool" where
  "is_policy_match (PrefixRuleMatch _ _ _ _) = True"
| "is_policy_match (HeuristicsRuleMatch _ _) = False"

definition is_match :: "Evaluation \<Rightarrow> bool" where
  "is_match evaluation = list_ex is_policy_match (matched_rules evaluation)"

text \<open>\<open>None\<close> is the panic of \<open>expect\<close>.\<close>

definition from_matches :: "RuleMatch list \<Rightarrow> Evaluation option" where
  "from_matches matches =
     (if matches = [] then None
      else Some \<lparr>evaluation_decision = Max (set (map match_decision matches)), matched_rules = matches\<rparr>)"

definition match_exact_rules :: "Policy \<Rightarrow> ustring list \<Rightarrow> RuleMatch list option" where
  "match_exact_rules policy cmd =
     (case cmd of
        [] \<Rightarrow> None
      | first_token # _ \<Rightarrow>
          Some (case get_vec (rules_by_program policy) first_token of
                  Some rules \<Rightarrow> List.map_filter (\<lambda>rule. rule_matches rule cmd) rules
                | None \<Rightarrow> []))"

definition executable_lookup_key :: "ustring \<Rightarrow> ustring" where
  "executable_lookup_key raw = raw"

definition executable_path_lookup_key :: "AbsolutePathBuf \<Rightarrow> ustring option" where
  "executable_path_lookup_key path = map_option executable_lookup_key (absolute_file_name path)"

definition match_host_executable_rules :: "PathEnv \<Rightarrow> Policy \<Rightarrow> ustring list \<Rightarrow> RuleMatch list" where
  "match_host_executable_rules penv policy cmd =
     (case cmd of
        [] \<Rightarrow> []
      | first_token # arguments \<Rightarrow>
          (case from_absolute_path penv first_token of
             None \<Rightarrow> []
           | Some prog \<Rightarrow>
               (case executable_path_lookup_key prog of
                  None \<Rightarrow> []
                | Some basename \<Rightarrow>
                    (case get_vec (rules_by_program policy) basename of
                       None \<Rightarrow> []
                     | Some rules \<Rightarrow>
                         if is_some_and (host_executables_by_name policy basename)
                              (\<lambda>paths. \<not> list_ex (\<lambda>path. path = prog) paths)
                         then []
                         else map (\<lambda>rule_match. with_resolved_program rule_match prog)
                                (List.map_filter (\<lambda>rule. rule_matches rule (basename # arguments)) rules)))))"

record MatchOptions =
  resolve_host_executables :: bool

type_synonym heuristics = "ustring list \<Rightarrow> Decision"

definition matches_for_command_with_options ::
  "PathEnv \<Rightarrow> Policy \<Rightarrow> ustring list \<Rightarrow> heuristics option \<Rightarrow> MatchOptions \<Rightarrow> RuleMatch list" where
  "matches_for_command_with_options penv policy cmd heuristics_fallback options =
     (let found =
        (case match_exact_rules policy cmd of
           Some (m # ms) \<Rightarrow> m # ms
         | _ \<Rightarrow> if resolve_host_executables options then match_host_executable_rules penv policy cmd else [])
      in if found = []
         then (case heuristics_fallback of
                 Some fallback \<Rightarrow> [HeuristicsRuleMatch cmd (fallback cmd)]
               | None \<Rightarrow> [])
         else found)"

definition check_with_options ::
  "PathEnv \<Rightarrow> Policy \<Rightarrow> ustring list \<Rightarrow> heuristics \<Rightarrow> MatchOptions \<Rightarrow> Evaluation option" where
  "check_with_options penv policy cmd fallback options =
     from_matches (matches_for_command_with_options penv policy cmd (Some fallback) options)"

definition check_multiple_with_options ::
  "PathEnv \<Rightarrow> Policy \<Rightarrow> ustring list list \<Rightarrow> heuristics \<Rightarrow> MatchOptions \<Rightarrow> Evaluation option" where
  "check_multiple_with_options penv policy commands fallback options =
     from_matches (concat (map (\<lambda>cmd.
       matches_for_command_with_options penv policy cmd (Some fallback) options) commands))"

definition check ::
  "PathEnv \<Rightarrow> Policy \<Rightarrow> ustring list \<Rightarrow> heuristics \<Rightarrow> Evaluation option" where
  "check penv policy cmd fallback =
     check_with_options penv policy cmd fallback \<lparr>resolve_host_executables = False\<rparr>"

definition check_multiple ::
  "PathEnv \<Rightarrow> Policy \<Rightarrow> ustring list list \<Rightarrow> heuristics \<Rightarrow> Evaluation option" where
  "check_multiple penv policy commands fallback =
     check_multiple_with_options penv policy commands fallback \<lparr>resolve_host_executables = False\<rparr>"

section \<open>Decision engines\<close>

text \<open>What the callers of a policy rely on: a list of commands is decided by the strictest verdict on any of
  them, and every command has a verdict.\<close>

locale decision_engine =
  fixes decide :: "'cmd list \<Rightarrow> Decision option"
    and verdicts :: "'cmd \<Rightarrow> Decision list"
  assumes verdicts_not_Nil: "verdicts cmd \<noteq> []"
    and decide_Max: "decide cmds = (if cmds = [] then None else Some (Max (\<Union>cmd\<in>set cmds. set (verdicts cmd))))"
begin

lemma decide_None_iff: "decide cmds = None \<longleftrightarrow> cmds = []"
  by (simp add: decide_Max)

lemma decide_le_iff:
  assumes "decide cmds = Some d"
  shows "d \<le> bound \<longleftrightarrow> (\<forall>cmd\<in>set cmds. \<forall>v\<in>set (verdicts cmd). v \<le> bound)"
proof -
  have cmds: "cmds \<noteq> []" and d: "d = Max (\<Union>cmd\<in>set cmds. set (verdicts cmd))"
    using assms by (auto simp: decide_Max split: if_splits)
  have "(\<Union>cmd\<in>set cmds. set (verdicts cmd)) \<noteq> {}"
    using cmds verdicts_not_Nil by (cases cmds) auto
  then show ?thesis
    unfolding d by (subst Max_le_iff) auto
qed

lemma decide_ge: "decide cmds = Some d \<Longrightarrow> cmd \<in> set cmds \<Longrightarrow> v \<in> set (verdicts cmd) \<Longrightarrow> v \<le> d"
  using decide_le_iff by blast

lemma decide_mono: "decide cmds = Some d \<Longrightarrow> decide cmds' = Some d' \<Longrightarrow> set cmds \<subseteq> set cmds' \<Longrightarrow> d \<le> d'"
  using decide_le_iff [of cmds d d'] decide_ge [of cmds' d'] by blast

end

lemma fallback_decides: "matches_for_command_with_options penv policy cmd (Some fallback) options \<noteq> []"
  by (simp add: matches_for_command_with_options_def Let_def)

interpretation engine: decision_engine
  "\<lambda>cmds. map_option evaluation_decision (check_multiple_with_options penv policy cmds fallback options)"
  "\<lambda>cmd. map match_decision (matches_for_command_with_options penv policy cmd (Some fallback) options)"
  for penv policy fallback options
proof unfold_locales
  fix cmd and cmds :: "ustring list list"
  let ?matches = "\<lambda>cmd. matches_for_command_with_options penv policy cmd (Some fallback) options"
  show "map match_decision (?matches cmd) \<noteq> []"
    by (simp add: fallback_decides)
  have "set (map match_decision (concat (map ?matches cmds))) = (\<Union>cmd\<in>set cmds. set (map match_decision (?matches cmd)))"
    by auto
  moreover have "concat (map ?matches cmds) = [] \<longleftrightarrow> cmds = []"
    using fallback_decides by (cases cmds) auto
  ultimately show "map_option evaluation_decision (check_multiple_with_options penv policy cmds fallback options) =
      (if cmds = [] then None else Some (Max (\<Union>cmd\<in>set cmds. set (map match_decision (?matches cmd)))))"
    unfolding check_multiple_with_options_def from_matches_def by simp
qed

section \<open>The reference: linear search\<close>

text \<open>A rule covers a command when the command starts with the program of the rule and with one
  alternative of every token of its pattern.\<close>

definition covers :: "PrefixRule \<Rightarrow> ustring list \<Rightarrow> bool" where
  "covers rule cmd \<longleftrightarrow>
     (case cmd of
        [] \<Rightarrow> False
      | first_token # arguments \<Rightarrow>
          first_token = program rule \<and>
          length (pattern_rest (rule_pattern rule)) \<le> length arguments \<and>
          list_all2 (\<lambda>token argument. argument \<in> set (alternatives token))
            (pattern_rest (rule_pattern rule)) (take (length (pattern_rest (rule_pattern rule))) arguments))"

definition policy_rules :: "Policy \<Rightarrow> PrefixRule list" where
  "policy_rules policy = map snd (rules_by_program policy)"

definition policy_wf :: "Policy \<Rightarrow> bool" where
  "policy_wf policy = list_all (\<lambda>(key, rule). key = program rule) (rules_by_program policy)"

text \<open>The command by which a program given as a path is looked up when no rule covers it as it is.\<close>

definition by_basename :: "PathEnv \<Rightarrow> Policy \<Rightarrow> ustring list \<Rightarrow> ustring list option" where
  "by_basename penv policy cmd =
     (case cmd of
        [] \<Rightarrow> None
      | first_token # arguments \<Rightarrow>
          Option.bind (from_absolute_path penv first_token) (\<lambda>prog.
            Option.bind (absolute_file_name prog) (\<lambda>basename.
              case host_executables_by_name policy basename of
                None \<Rightarrow> Some (basename # arguments)
              | Some paths \<Rightarrow> if prog \<in> set paths then Some (basename # arguments) else None)))"

definition covering :: "PathEnv \<Rightarrow> Policy \<Rightarrow> ustring list \<Rightarrow> PrefixRule list" where
  "covering penv policy cmd =
     (let direct = filter (\<lambda>rule. covers rule cmd) (policy_rules policy)
      in if direct \<noteq> [] then direct
         else (case by_basename penv policy cmd of
                 None \<Rightarrow> []
               | Some cmd' \<Rightarrow> filter (\<lambda>rule. covers rule cmd') (policy_rules policy)))"

definition decisions_for :: "PathEnv \<Rightarrow> Policy \<Rightarrow> heuristics \<Rightarrow> ustring list \<Rightarrow> Decision list" where
  "decisions_for penv policy fallback cmd =
     (case covering penv policy cmd of
        [] \<Rightarrow> [fallback cmd]
      | rules \<Rightarrow> map rule_decision rules)"

lemma token_matches_member: "token_matches token c \<longleftrightarrow> c \<in> set (alternatives token)"
  by (cases token) (auto simp: list_ex_iff)

lemma matches_prefix_covers:
  "matches_prefix (rule_pattern rule) cmd =
     (if covers rule cmd then Some (take (length (pattern_rest (rule_pattern rule)) + 1) cmd) else None)"
  by (cases cmd)
    (auto simp: matches_prefix_def covers_def program_def Let_def list_all2_conv_all_nth list_all_length
      token_matches_member)

lemma rule_matches_covers:
  "rule_matches rule cmd =
     (if covers rule cmd
      then Some (PrefixRuleMatch (take (length (pattern_rest (rule_pattern rule)) + 1) cmd)
             (rule_decision rule) None (rule_justification rule))
      else None)"
  by (simp add: rule_matches_def matches_prefix_covers)

lemma map_filter_covers:
  "List.map_filter (\<lambda>rule. rule_matches rule cmd) rules =
     map (\<lambda>rule. the (rule_matches rule cmd)) (filter (\<lambda>rule. covers rule cmd) rules)"
  by (induction rules) (auto simp: rule_matches_covers List.map_filter_simps)

lemma covers_program: "covers rule cmd \<Longrightarrow> cmd \<noteq> [] \<and> hd cmd = program rule"
  by (cases cmd) (auto simp: covers_def)

text \<open>Looking a program up in the index finds every rule that covers the command, in order.\<close>

lemma index_complete:
  assumes "policy_wf policy" "cmd \<noteq> []"
  shows "filter (\<lambda>rule. covers rule cmd) (case get_vec (rules_by_program policy) (hd cmd) of Some rules \<Rightarrow> rules | None \<Rightarrow> [])
    = filter (\<lambda>rule. covers rule cmd) (policy_rules policy)"
proof -
  have "(case get_vec rules key of Some found \<Rightarrow> found | None \<Rightarrow> []) = map snd (filter (\<lambda>(k, _). k = key) rules)" for rules key
    by (simp add: get_vec_def Let_def)
  moreover have "list_all (\<lambda>(key, rule). key = program rule) rules \<Longrightarrow>
      filter (\<lambda>rule. covers rule cmd) (map snd (filter (\<lambda>(k, _). k = hd cmd) rules)) = filter (\<lambda>rule. covers rule cmd) (map snd rules)" for rules
    by (induction rules) (auto dest: covers_program)
  ultimately show ?thesis
    using assms(1) by (simp add: policy_wf_def policy_rules_def)
qed

lemma match_exact_covering:
  assumes "policy_wf policy" "cmd \<noteq> []"
  shows "match_exact_rules policy cmd =
    Some (map (\<lambda>rule. the (rule_matches rule cmd)) (filter (\<lambda>rule. covers rule cmd) (policy_rules policy)))"
proof -
  obtain c cs where cmd: "cmd = c # cs"
    using assms(2) by (cases cmd) auto
  have "match_exact_rules policy cmd =
      Some (List.map_filter (\<lambda>rule. rule_matches rule cmd)
        (case get_vec (rules_by_program policy) (hd cmd) of Some rules \<Rightarrow> rules | None \<Rightarrow> []))"
    by (simp add: match_exact_rules_def cmd List.map_filter_simps split: option.split)
  then show ?thesis
    by (simp only: map_filter_covers index_complete [OF assms])
qed

lemma match_host_covering:
  assumes "policy_wf policy" "cmd \<noteq> []"
  shows "map match_decision (match_host_executable_rules penv policy cmd) =
    (case by_basename penv policy cmd of
       None \<Rightarrow> []
     | Some cmd' \<Rightarrow> map rule_decision (filter (\<lambda>rule. covers rule cmd') (policy_rules policy)))"
proof -
  obtain c cs where cmd: "cmd = c # cs"
    using assms(2) by (cases cmd) auto
  have the_match: "covers rule cmd' \<Longrightarrow> match_decision (with_resolved_program (the (rule_matches rule cmd')) p) = rule_decision rule" for rule cmd' p
    by (simp add: rule_matches_covers)
  have matches: "map (match_decision \<circ> (\<lambda>m. with_resolved_program m p)) (List.map_filter (\<lambda>rule. rule_matches rule cmd') rules) =
      map rule_decision (filter (\<lambda>rule. covers rule cmd') rules)" for rules cmd' p
    by (simp add: map_filter_covers the_match)
  have listed: "is_some_and (host_executables_by_name policy n) (\<lambda>paths. \<not> list_ex (\<lambda>path. path = p) paths) \<longleftrightarrow>
      (case host_executables_by_name policy n of None \<Rightarrow> False | Some paths \<Rightarrow> p \<notin> set paths)" for n p
    by (auto simp: list_ex_iff split: option.split)
  have index: "filter (\<lambda>rule. covers rule (n # cs)) (policy_rules policy) =
      (case get_vec (rules_by_program policy) n of None \<Rightarrow> [] | Some rules \<Rightarrow> filter (\<lambda>rule. covers rule (n # cs)) rules)" for n
    using index_complete [OF assms(1), of "n # cs"] by (simp split: option.splits)
  show ?thesis
    unfolding match_host_executable_rules_def by_basename_def cmd
    by (simp add: executable_path_lookup_key_def executable_lookup_key_def listed index matches
        split: option.split bind_split)
qed

section \<open>Decisions of a policy\<close>

abbreviation resolving :: MatchOptions where
  "resolving \<equiv> \<lparr>resolve_host_executables = True\<rparr>"

lemma policy_match_resolved: "is_policy_match (with_resolved_program m p) = is_policy_match m"
  by (cases m) simp_all

lemma exact_policy_matches: "m \<in> set (List.map_filter (\<lambda>rule. rule_matches rule cmd) rules) \<Longrightarrow> is_policy_match m"
  unfolding map_filter_covers by (auto simp: rule_matches_covers)

lemma hits_are_policy_matches:
  "m \<in> set (matches_for_command_with_options penv policy cmd None options) \<Longrightarrow> is_policy_match m"
  by (auto simp: matches_for_command_with_options_def match_exact_rules_def match_host_executable_rules_def
      policy_match_resolved split: list.splits option.splits if_splits
      dest: exact_policy_matches intro: exact_policy_matches)
    (metis exact_policy_matches list.set_intros)+

lemma hits_decisions:
  assumes "policy_wf policy"
  shows "map match_decision (matches_for_command_with_options penv policy cmd None resolving) =
    map rule_decision (covering penv policy cmd)"
proof (cases "cmd = []")
  case True
  then show ?thesis
    by (simp add: matches_for_command_with_options_def match_exact_rules_def match_host_executable_rules_def
        covering_def covers_def by_basename_def)
next
  case False
  let ?direct = "filter (\<lambda>rule. covers rule cmd) (policy_rules policy)"
  have exact: "match_exact_rules policy cmd = Some (map (\<lambda>rule. the (rule_matches rule cmd)) ?direct)"
    by (rule match_exact_covering [OF assms False])
  have found: "map match_decision (map (\<lambda>rule. the (rule_matches rule cmd)) ?direct) = map rule_decision ?direct"
    by (simp add: rule_matches_covers)
  show ?thesis
  proof (cases "?direct = []")
    case True
    then show ?thesis
      using match_host_covering [OF assms False, of penv]
      by (cases "by_basename penv policy cmd") (auto simp: matches_for_command_with_options_def exact covering_def Let_def)
  next
    case False
    then obtain m ms where "map (\<lambda>rule. the (rule_matches rule cmd)) ?direct = m # ms"
      by (cases ?direct) auto
    then show ?thesis
      using found False by (simp add: matches_for_command_with_options_def exact covering_def)
  qed
qed

lemma hits_Nil_iff:
  "policy_wf policy \<Longrightarrow>
   matches_for_command_with_options penv policy cmd None resolving = [] \<longleftrightarrow> covering penv policy cmd = []"
  using hits_decisions [of policy penv cmd] by (metis Nil_is_map_conv)

lemma matches_with_fallback:
  "policy_wf policy \<Longrightarrow>
   matches_for_command_with_options penv policy cmd (Some fallback) resolving =
     (if covering penv policy cmd = [] then [HeuristicsRuleMatch cmd (fallback cmd)]
      else matches_for_command_with_options penv policy cmd None resolving)"
  using hits_Nil_iff [of policy penv cmd]
  by (auto simp: matches_for_command_with_options_def Let_def split: if_splits)

lemma matches_decisions:
  "policy_wf policy \<Longrightarrow>
   map match_decision (matches_for_command_with_options penv policy cmd (Some fallback) resolving) =
     decisions_for penv policy fallback cmd"
  by (simp add: matches_with_fallback hits_decisions decisions_for_def split: list.split)

lemma decisions_for_not_Nil [simp]: "decisions_for penv policy fallback cmd \<noteq> []"
  by (simp add: decisions_for_def split: list.split)

lemma check_multiple_matches:
  "check_multiple_with_options penv policy commands fallback options = Some evaluation \<Longrightarrow>
   matched_rules evaluation = concat (map (\<lambda>cmd. matches_for_command_with_options penv policy cmd (Some fallback) options) commands)"
  by (auto simp: check_multiple_with_options_def from_matches_def split: if_splits)

text \<open>The laws of the engine over the reference.\<close>

lemma decided_strictest:
  assumes "policy_wf policy" "commands \<noteq> []"
  shows "map_option evaluation_decision (check_multiple_with_options penv policy commands fallback resolving) =
    Some (Max (\<Union>cmd\<in>set commands. set (decisions_for penv policy fallback cmd)))"
  using engine.decide_Max [of penv policy commands fallback resolving] assms(2)
  by (simp only: matches_decisions [OF assms(1)] if_False)

lemma decided_le_iff:
  assumes "policy_wf policy"
    "map_option evaluation_decision (check_multiple_with_options penv policy commands fallback resolving) = Some d"
  shows "d \<le> bound \<longleftrightarrow> (\<forall>cmd\<in>set commands. \<forall>v\<in>set (decisions_for penv policy fallback cmd). v \<le> bound)"
  using engine.decide_le_iff [OF assms(2)] by (simp only: matches_decisions [OF assms(1)])

lemma decided_ge:
  assumes "policy_wf policy"
    "map_option evaluation_decision (check_multiple_with_options penv policy commands fallback resolving) = Some d"
    "cmd \<in> set commands" "v \<in> set (decisions_for penv policy fallback cmd)"
  shows "v \<le> d"
  using decided_le_iff [OF assms(1,2), of d] assms(3,4) by blast

lemma policy_wf_preserved:
  "policy_wf policy_empty"
  "policy_wf policy \<Longrightarrow> add_prefix_rule policy tokens d = Inr policy' \<Longrightarrow> policy_wf policy'"
  "policy_wf policy \<Longrightarrow> add_network_rule policy host protocol d j = Inr policy' \<Longrightarrow> policy_wf policy'"
  "policy_wf policy \<Longrightarrow> policy_wf (set_host_executable_paths policy name paths)"
  "policy_wf policy \<Longrightarrow> policy_wf overlay \<Longrightarrow> policy_wf (merge_overlay policy overlay)"
  by (auto simp: policy_wf_def policy_empty_def add_prefix_rule_def add_network_rule_def program_def
      set_host_executable_paths_def merge_overlay_def split: list.splits if_splits)

text \<open>C9: A policy checks a list of commands as the strictest rule that covers any of them says, and as the
  heuristics say for a command that no rule covers. Looking programs up in the index misses no rule. An
  empty list of commands is the only input on which the check panics.\<close>

theorem strictest_rule_wins:
  assumes "policy_wf policy"
  shows "map_option evaluation_decision (check_multiple_with_options penv policy commands fallback resolving) =
    (if commands = [] then None
     else Some (Max (\<Union>cmd\<in>set commands. set (decisions_for penv policy fallback cmd))))"
  using decided_strictest [OF assms] engine.decide_None_iff [of penv policy commands fallback resolving] by auto

definition sample_rule :: "ustring list \<Rightarrow> Decision \<Rightarrow> PrefixRule" where
  "sample_rule tokens d =
     \<lparr>rule_pattern = \<lparr>pattern_first = hd tokens, pattern_rest = map Single (tl tokens)\<rparr>,
      rule_decision = d, rule_justification = None\<rparr>"

definition sample_policy :: Policy where
  "sample_policy =
     \<lparr>rules_by_program =
        [(lit ''git'', sample_rule [lit ''git''] Allow),
         (lit ''git'', sample_rule [lit ''git'', lit ''push''] Prompt)],
      network_rules = [], host_executables_by_name = Map.empty\<rparr>"

definition sample_paths :: PathEnv where
  "sample_paths = \<lparr>current_dir = Some (lit ''/work''), home_dir = None\<rparr>"

theorem strictest_rule_wins_witness:
  "map_option evaluation_decision
     (check_multiple_with_options sample_paths sample_policy
        [[lit ''ls''], [lit ''/usr/bin/git'', lit ''push'', lit ''origin'']] (\<lambda>_. Allow) resolving) = Some Prompt"
proof -
  have wf: "policy_wf sample_policy"
    by code_simp
  have "decisions_for sample_paths sample_policy (\<lambda>_. Allow) [lit ''ls''] = [Allow]"
    "decisions_for sample_paths sample_policy (\<lambda>_. Allow) [lit ''/usr/bin/git'', lit ''push'', lit ''origin''] = [Allow, Prompt]"
    by code_simp+
  then show ?thesis
    using strictest_rule_wins [OF wf, of sample_paths
        "[[lit ''ls''], [lit ''/usr/bin/git'', lit ''push'', lit ''origin'']]" "\<lambda>_. Allow"]
    by (simp add: max_def less_eq_Decision_def)
qed

section \<open>Network domains\<close>

text \<open>The verdict on a host: the decision of its last rule that does not prompt.\<close>

fun verdict :: "ustring \<Rightarrow> NetworkRule list \<Rightarrow> Decision option" where
  "verdict host [] = None"
| "verdict host (rule # rules) =
     (case verdict host rules of
        Some d \<Rightarrow> Some d
      | None \<Rightarrow> if nr_host rule = host \<and> nr_decision rule \<noteq> Prompt then Some (nr_decision rule) else None)"

lemma verdict_snoc:
  "verdict host (rules @ [rule]) =
     (if nr_host rule = host \<and> nr_decision rule \<noteq> Prompt then Some (nr_decision rule) else verdict host rules)"
  by (induction rules) (auto split: option.splits)

text \<open>C28: Compiling the network rules gives every host the verdict of its last rule that is not a prompt,
  whatever the other rules say. No host is listed twice, and none is both allowed and denied.\<close>

theorem last_network_rule_decides:
  "case compiled_network_domains policy of (allowed, denied) \<Rightarrow>
     distinct (allowed @ denied) \<and>
     set allowed = {host. verdict host (network_rules policy) = Some Allow} \<and>
     set denied = {host. verdict host (network_rules policy) = Some Forbidden}"
proof -
  have "case fold compile_rule rules ([], []) of (allowed, denied) \<Rightarrow>
     distinct (allowed @ denied) \<and> set allowed = {host. verdict host rules = Some Allow} \<and>
     set denied = {host. verdict host rules = Some Forbidden}" for rules
  proof (induction rules rule: rev_induct)
    case (snoc rule rules)
    then show ?case
      by (cases "nr_decision rule")
        (auto simp: compile_rule_def upsert_domain_def verdict_snoc split: prod.splits)
  qed simp
  then show ?thesis
    by (simp add: compiled_network_domains_def)
qed

end
