(* ===== verification/Exec_Rules.thy ===== *)
theory Exec_Rules
  imports Exec_Policy
begin

text \<open>
  Policy files (\<open>execpolicy/src/parser.rs\<close>, \<open>amend.rs\<close>, \<open>rule.rs\<close>, and the loader of
  \<open>core/src/exec_policy.rs\<close>). The Starlark interpreter is third-party code. The three functions it offers
  to a policy file return nothing the file could observe, so a file is the sequence of its calls: the
  interpreter is an argument that gives the calls of a file and the error, if any, that ends it.
\<close>

section \<open>Values\<close>

datatype StarlarkValue = StarlarkString ustring | StarlarkList "StarlarkValue list" | StarlarkOther ustring

fun get_type :: "StarlarkValue \<Rightarrow> ustring" where
  "get_type (StarlarkString _) = lit ''string''"
| "get_type (StarlarkList _) = lit ''list''"
| "get_type (StarlarkOther t) = t"

fun unpack_str :: "StarlarkValue \<Rightarrow> ustring option" where
  "unpack_str (StarlarkString s) = Some s"
| "unpack_str _ = None"

text \<open>\<open>collect\<close> of results: the first error, or all values.\<close>

fun collect_results :: "('e, 'a) result list \<Rightarrow> ('e, 'a list) result" where
  "collect_results [] = Inr []"
| "collect_results (r # rs) = and_then r (\<lambda>x. and_then (collect_results rs) (\<lambda>xs. Inr (x # xs)))"

definition unpack_strings ::
  "(ustring \<Rightarrow> PolicyError) \<Rightarrow> StarlarkValue list \<Rightarrow> (PolicyError, ustring list) result" where
  "unpack_strings err values =
     collect_results (map (\<lambda>v. case unpack_str v of Some s \<Rightarrow> Inr s | None \<Rightarrow> Inl (err (get_type v))) values)"

fun parse_pattern_token :: "StarlarkValue \<Rightarrow> (PolicyError, PatternToken) result" where
  "parse_pattern_token (StarlarkString s) = Inr (Single s)"
| "parse_pattern_token (StarlarkList content) =
     and_then (unpack_strings
         (\<lambda>t. InvalidPattern (lit ''pattern alternative must be a string (got '' @ t @ lit '')'')) content)
       (\<lambda>tokens. case tokens of
          [] \<Rightarrow> Inl (InvalidPattern (lit ''pattern alternatives cannot be empty''))
        | [single] \<Rightarrow> Inr (Single single)
        | _ \<Rightarrow> Inr (Alts tokens))"
| "parse_pattern_token (StarlarkOther t) =
     Inl (InvalidPattern (lit ''pattern element must be a string or list of strings (got '' @ t @ lit '')''))"

definition parse_pattern :: "StarlarkValue list \<Rightarrow> (PolicyError, PatternToken list) result" where
  "parse_pattern items =
     and_then (collect_results (map parse_pattern_token items)) (\<lambda>tokens.
       if tokens = [] then Inl (InvalidPattern (lit ''pattern cannot be empty'')) else Inr tokens)"

definition parse_string_example ::
  "(ustring \<Rightarrow> ustring list option) \<Rightarrow> ustring \<Rightarrow> (PolicyError, ustring list) result" where
  "parse_string_example shlex_split raw =
     (case shlex_split raw of
        None \<Rightarrow> Inl (InvalidExample (lit ''example string has invalid shell syntax''))
      | Some tokens \<Rightarrow>
          if tokens = [] then Inl (InvalidExample (lit ''example cannot be an empty string'')) else Inr tokens)"

definition parse_list_example :: "StarlarkValue list \<Rightarrow> (PolicyError, ustring list) result" where
  "parse_list_example content =
     and_then (unpack_strings
         (\<lambda>t. InvalidExample (lit ''example tokens must be strings (got '' @ t @ lit '')'')) content)
       (\<lambda>tokens. if tokens = [] then Inl (InvalidExample (lit ''example cannot be an empty list'')) else Inr tokens)"

fun parse_example ::
  "(ustring \<Rightarrow> ustring list option) \<Rightarrow> StarlarkValue \<Rightarrow> (PolicyError, ustring list) result" where
  "parse_example shlex_split (StarlarkString raw) = parse_string_example shlex_split raw"
| "parse_example shlex_split (StarlarkList content) = parse_list_example content"
| "parse_example shlex_split (StarlarkOther t) =
     Inl (InvalidExample (lit ''example must be a string or list of strings (got '' @ t @ lit '')''))"

definition parse_examples ::
  "(ustring \<Rightarrow> ustring list option) \<Rightarrow> StarlarkValue list option \<Rightarrow> (PolicyError, ustring list list) result" where
  "parse_examples shlex_split examples =
     (case examples of
        None \<Rightarrow> Inr []
      | Some items \<Rightarrow> collect_results (map (parse_example shlex_split) items))"

section \<open>The builder\<close>

record PendingExampleValidation =
  pending_rules :: "PrefixRule list"
  pending_matches :: "ustring list list"
  pending_not_matches :: "ustring list list"
  pending_location :: "ErrorLocation option"

record PolicyBuilder =
  builder_rules :: "(ustring \<times> PrefixRule) list"
  builder_network_rules :: "NetworkRule list"
  builder_host_executables :: "ustring \<rightharpoonup> AbsolutePathBuf list"
  pending_example_validations :: "PendingExampleValidation list"

definition builder_new :: PolicyBuilder where
  "builder_new = \<lparr>builder_rules = [], builder_network_rules = [], builder_host_executables = Map.empty,
     pending_example_validations = []\<rparr>"

definition add_rule :: "PolicyBuilder \<Rightarrow> PrefixRule \<Rightarrow> PolicyBuilder" where
  "add_rule builder rule = builder\<lparr>builder_rules := builder_rules builder @ [(program rule, rule)]\<rparr>"

definition builder_build :: "PolicyBuilder \<Rightarrow> Policy" where
  "builder_build builder =
     \<lparr>rules_by_program = builder_rules builder, network_rules = builder_network_rules builder,
      host_executables_by_name = builder_host_executables builder\<rparr>"

record Shlex =
  shlex_split :: "ustring \<Rightarrow> ustring list option"
  try_join :: "ustring list \<Rightarrow> ustring option"

definition render_example :: "Shlex \<Rightarrow> ustring list \<Rightarrow> ustring" where
  "render_example shlex example =
     (case try_join shlex example of Some t \<Rightarrow> t | None \<Rightarrow> lit ''unable to render example'')"

definition validate_match_examples ::
  "PathEnv \<Rightarrow> Shlex \<Rightarrow> Policy \<Rightarrow> PrefixRule list \<Rightarrow> ustring list list \<Rightarrow> (PolicyError, unit) result" where
  "validate_match_examples penv shlex policy rules examples =
     (let unmatched = filter (\<lambda>example.
            matches_for_command_with_options penv policy example None resolving = []) examples
      in if unmatched = [] then Inr ()
         else Inl (ExampleDidNotMatch rules (map (render_example shlex) unmatched) None))"

fun validate_not_match_examples ::
  "PathEnv \<Rightarrow> Shlex \<Rightarrow> Policy \<Rightarrow> ustring list list \<Rightarrow> (PolicyError, unit) result" where
  "validate_not_match_examples penv shlex policy [] = Inr ()"
| "validate_not_match_examples penv shlex policy (example # examples) =
     (case matches_for_command_with_options penv policy example None resolving of
        rule # _ \<Rightarrow> Inl (ExampleDidMatch rule (render_example shlex example) None)
      | [] \<Rightarrow> validate_not_match_examples penv shlex policy examples)"

fun with_location :: "PolicyError \<Rightarrow> ErrorLocation \<Rightarrow> PolicyError" where
  "with_location (ExampleDidNotMatch rules examples None) location = ExampleDidNotMatch rules examples (Some location)"
| "with_location (ExampleDidMatch rule example None) location = ExampleDidMatch rule example (Some location)"
| "with_location other location = other"

definition attach_validation_location :: "PolicyError \<Rightarrow> ErrorLocation option \<Rightarrow> PolicyError" where
  "attach_validation_location error location =
     (case location of Some l \<Rightarrow> with_location error l | None \<Rightarrow> error)"

definition map_err :: "('e \<Rightarrow> 'f) \<Rightarrow> ('e, 'a) result \<Rightarrow> ('f, 'a) result" where
  "map_err f r = (case r of Inl e \<Rightarrow> Inl (f e) | Inr x \<Rightarrow> Inr x)"

definition validation_policy :: "PolicyBuilder \<Rightarrow> PendingExampleValidation \<Rightarrow> Policy" where
  "validation_policy builder v =
     \<lparr>rules_by_program = map (\<lambda>rule. (program rule, rule)) (pending_rules v), network_rules = [],
      host_executables_by_name = builder_host_executables builder\<rparr>"

definition validate_pending ::
  "PathEnv \<Rightarrow> Shlex \<Rightarrow> PolicyBuilder \<Rightarrow> PendingExampleValidation \<Rightarrow> (PolicyError, unit) result" where
  "validate_pending penv shlex builder v =
     (let policy = validation_policy builder v;
          located = map_err (\<lambda>error. attach_validation_location error (pending_location v))
      in and_then (located (validate_not_match_examples penv shlex policy (pending_not_matches v))) (\<lambda>_.
           located (validate_match_examples penv shlex policy (pending_rules v) (pending_matches v))))"

fun validate_all ::
  "PathEnv \<Rightarrow> Shlex \<Rightarrow> PolicyBuilder \<Rightarrow> PendingExampleValidation list \<Rightarrow> (PolicyError, unit) result" where
  "validate_all penv shlex builder [] = Inr ()"
| "validate_all penv shlex builder (v # vs) =
     and_then (validate_pending penv shlex builder v) (\<lambda>_. validate_all penv shlex builder vs)"

definition validate_pending_examples_from ::
  "PathEnv \<Rightarrow> Shlex \<Rightarrow> PolicyBuilder \<Rightarrow> nat \<Rightarrow> (PolicyError, unit) result" where
  "validate_pending_examples_from penv shlex builder start =
     validate_all penv shlex builder (drop start (pending_example_validations builder))"

section \<open>The functions of a policy file\<close>

definition check_justification :: "ustring option \<Rightarrow> (PolicyError, ustring option) result" where
  "check_justification j =
     (if is_some_and j (\<lambda>raw. trim raw = []) then Inl (InvalidRule (lit ''justification cannot be empty''))
      else Inr j)"

definition rules_of_pattern :: "PatternToken list \<Rightarrow> Decision \<Rightarrow> ustring option \<Rightarrow> PrefixRule list" where
  "rules_of_pattern tokens d j =
     map (\<lambda>first_token. \<lparr>rule_pattern = \<lparr>pattern_first = first_token, pattern_rest = tl tokens\<rparr>,
         rule_decision = d, rule_justification = j\<rparr>)
       (alternatives (hd tokens))"

definition prefix_rule ::
  "Shlex \<Rightarrow> StarlarkValue list \<Rightarrow> ustring option \<Rightarrow> StarlarkValue list option \<Rightarrow> StarlarkValue list option \<Rightarrow>
   ustring option \<Rightarrow> ErrorLocation option \<Rightarrow> PolicyBuilder \<Rightarrow> (PolicyError, PolicyBuilder) result" where
  "prefix_rule shlex pattern raw_decision match_examples not_match_examples raw_justification location builder =
     and_then (case raw_decision of Some raw \<Rightarrow> parse_decision raw | None \<Rightarrow> Inr Allow) (\<lambda>d.
     and_then (check_justification raw_justification) (\<lambda>j.
     and_then (parse_pattern pattern) (\<lambda>tokens.
     and_then (parse_examples (shlex_split shlex) match_examples) (\<lambda>matches.
     and_then (parse_examples (shlex_split shlex) not_match_examples) (\<lambda>not_matches.
       let rules = rules_of_pattern tokens d j;
           pending = \<lparr>pending_rules = rules, pending_matches = matches, pending_not_matches = not_matches,
             pending_location = location\<rparr>
       in Inr (fold (\<lambda>rule b. add_rule b rule) rules
            (builder\<lparr>pending_example_validations := pending_example_validations builder @ [pending]\<rparr>)))))))"

definition parse_network_rule_decision :: "ustring \<Rightarrow> (PolicyError, Decision) result" where
  "parse_network_rule_decision raw = (if raw = lit ''deny'' then Inr Forbidden else parse_decision raw)"

definition network_rule ::
  "ustring \<Rightarrow> ustring \<Rightarrow> ustring \<Rightarrow> ustring option \<Rightarrow> PolicyBuilder \<Rightarrow> (PolicyError, PolicyBuilder) result" where
  "network_rule host raw_protocol raw_decision raw_justification builder =
     and_then (parse_protocol raw_protocol) (\<lambda>protocol.
     and_then (parse_network_rule_decision raw_decision) (\<lambda>d.
     and_then (check_justification raw_justification) (\<lambda>j.
     and_then (normalize_network_rule_host host) (\<lambda>host.
       Inr (builder\<lparr>builder_network_rules := builder_network_rules builder @
         [\<lparr>nr_host = host, nr_protocol = protocol, nr_decision = d, nr_justification = j\<rparr>]\<rparr>)))))"

definition validate_host_executable_name :: "ustring \<Rightarrow> (PolicyError, unit) result" where
  "validate_host_executable_name name =
     (if name = [] then Inl (InvalidRule (lit ''host_executable name cannot be empty''))
      else if length (components name) \<noteq> 1 \<or> file_name name \<noteq> Some name
      then Inl (InvalidRule (lit ''host_executable name must be a bare executable name (got '' @ name @ lit '')''))
      else Inr ())"

text \<open>An absolute path needs no current directory, so the conversion of one succeeds.\<close>

definition parse_literal_absolute_path :: "PathEnv \<Rightarrow> ustring \<Rightarrow> (PolicyError, AbsolutePathBuf) result" where
  "parse_literal_absolute_path penv raw =
     (if \<not> is_absolute_path raw
      then Inl (InvalidRule (lit ''host_executable paths must be absolute (got '' @ raw @ lit '')''))
      else (case from_absolute_path penv raw of
              Some path \<Rightarrow> Inr path
            | None \<Rightarrow> Inl (InvalidRule (lit ''invalid absolute path `'' @ raw @ lit ''`''))))"

fun host_paths ::
  "PathEnv \<Rightarrow> ustring \<Rightarrow> StarlarkValue list \<Rightarrow> AbsolutePathBuf list \<Rightarrow> (PolicyError, AbsolutePathBuf list) result" where
  "host_paths penv name [] parsed_paths = Inr parsed_paths"
| "host_paths penv name (v # values) parsed_paths =
     (case unpack_str v of
        None \<Rightarrow> Inl (InvalidRule (lit ''host_executable paths must be strings (got '' @ get_type v @ lit '')''))
      | Some raw \<Rightarrow>
          and_then (parse_literal_absolute_path penv raw) (\<lambda>path.
            if executable_path_lookup_key path \<noteq> Some (executable_lookup_key name)
            then Inl (InvalidRule (lit ''host_executable path `'' @ raw @ lit ''` must have basename `'' @ name @ lit ''`''))
            else host_paths penv name values
              (if list_ex (\<lambda>existing. existing = path) parsed_paths then parsed_paths else parsed_paths @ [path])))"

definition host_executable ::
  "PathEnv \<Rightarrow> ustring \<Rightarrow> StarlarkValue list \<Rightarrow> PolicyBuilder \<Rightarrow> (PolicyError, PolicyBuilder) result" where
  "host_executable penv name paths builder =
     and_then (validate_host_executable_name name) (\<lambda>_.
     and_then (host_paths penv name paths []) (\<lambda>parsed_paths.
       Inr (builder\<lparr>builder_host_executables := (builder_host_executables builder)(executable_lookup_key name \<mapsto> parsed_paths)\<rparr>)))"

datatype BuiltinCall =
  PrefixRuleCall "StarlarkValue list" "ustring option" "StarlarkValue list option" "StarlarkValue list option"
    "ustring option" "ErrorLocation option"
| NetworkRuleCall ustring ustring ustring "ustring option"
| HostExecutableCall ustring "StarlarkValue list"

fun run_call :: "PathEnv \<Rightarrow> Shlex \<Rightarrow> BuiltinCall \<Rightarrow> PolicyBuilder \<Rightarrow> (PolicyError, PolicyBuilder) result" where
  "run_call penv shlex (PrefixRuleCall p d m n j l) builder = prefix_rule shlex p d m n j l builder"
| "run_call penv shlex (NetworkRuleCall h p d j) builder = network_rule h p d j builder"
| "run_call penv shlex (HostExecutableCall n ps) builder = host_executable penv n ps builder"

fun run_calls :: "PathEnv \<Rightarrow> Shlex \<Rightarrow> BuiltinCall list \<Rightarrow> PolicyBuilder \<Rightarrow> (PolicyError, PolicyBuilder) result" where
  "run_calls penv shlex [] builder = Inr builder"
| "run_calls penv shlex (call # calls) builder =
     and_then (map_err StarlarkBuiltin (run_call penv shlex call builder)) (run_calls penv shlex calls)"

type_synonym starlark = "ustring \<Rightarrow> ustring \<Rightarrow> BuiltinCall list \<times> ustring option"

definition policy_parse ::
  "starlark \<Rightarrow> PathEnv \<Rightarrow> Shlex \<Rightarrow> ustring \<Rightarrow> ustring \<Rightarrow> PolicyBuilder \<Rightarrow> (PolicyError, PolicyBuilder) result" where
  "policy_parse starlark penv shlex identifier contents builder =
     (let pending_validation_count = length (pending_example_validations builder);
          (calls, failure) = starlark identifier contents
      in and_then (run_calls penv shlex calls builder) (\<lambda>builder'.
           case failure of
             Some e \<Rightarrow> Inl (StarlarkError e)
           | None \<Rightarrow> and_then (validate_pending_examples_from penv shlex builder' pending_validation_count)
               (\<lambda>_. Inr builder')))"

section \<open>Loading\<close>

text \<open>A listing of a directory: an entry is its name and whether it is a file, or the error met there.\<close>

datatype DirListing =
  DirNotFound
| DirError ustring
| DirEntries "(ustring, ustring \<times> (ustring, bool) result) result list"

record RulesFs =
  read_dir :: "ustring \<Rightarrow> DirListing"
  read_to_string :: "ustring \<Rightarrow> (ustring, ustring) result"

datatype ExecPolicyError =
  ReadDir ustring ustring
| ReadFile ustring ustring
| ParsePolicy ustring PolicyError

definition extension :: "ustring \<Rightarrow> ustring option" where
  "extension name =
     (case rsplit_once 46 name of
        Some (before, after) \<Rightarrow> if before = [] then None else Some after
      | None \<Rightarrow> None)"

fun rule_names ::
  "ustring \<Rightarrow> (ustring, ustring \<times> (ustring, bool) result) result list \<Rightarrow> (ExecPolicyError, ustring list) result" where
  "rule_names dir [] = Inr []"
| "rule_names dir (Inl e # entries) = Inl (ReadDir dir e)"
| "rule_names dir (Inr (name, Inl e) # entries) = Inl (ReadDir dir e)"
| "rule_names dir (Inr (name, Inr is_file) # entries) =
     and_then (rule_names dir entries) (\<lambda>names.
       Inr (if extension name = Some (lit ''rules'') \<and> is_file then name # names else names))"

definition collect_policy_files :: "RulesFs \<Rightarrow> ustring \<Rightarrow> (ExecPolicyError, ustring list) result" where
  "collect_policy_files fs dir =
     (case read_dir fs dir of
        DirNotFound \<Rightarrow> Inr []
      | DirError e \<Rightarrow> Inl (ReadDir dir e)
      | DirEntries entries \<Rightarrow>
          and_then (rule_names dir entries) (\<lambda>names. Inr (map (path_join dir) (sort names))))"

record ConfigLayer =
  layer_is_user_or_project :: bool
  config_folder :: "ustring option"

record ConfigLayerStack =
  layers_low_to_high :: "ConfigLayer list"
  ignore_user_and_project_exec_policy_rules :: bool
  requirements_exec_policy :: "Policy option"

definition layer_policy_files :: "RulesFs \<Rightarrow> ConfigLayerStack \<Rightarrow> ConfigLayer \<Rightarrow> (ExecPolicyError, ustring list) result" where
  "layer_policy_files fs stack layer =
     (if ignore_user_and_project_exec_policy_rules stack \<and> layer_is_user_or_project layer then Inr []
      else (case config_folder layer of
              None \<Rightarrow> Inr []
            | Some folder \<Rightarrow> collect_policy_files fs (path_join folder (lit ''rules''))))"

definition policy_files :: "RulesFs \<Rightarrow> ConfigLayerStack \<Rightarrow> (ExecPolicyError, ustring list) result" where
  "policy_files fs stack =
     and_then (collect_results (map (layer_policy_files fs stack) (layers_low_to_high stack))) (\<lambda>files.
       Inr (concat files))"

fun parse_files ::
  "starlark \<Rightarrow> PathEnv \<Rightarrow> Shlex \<Rightarrow> RulesFs \<Rightarrow> ustring list \<Rightarrow> PolicyBuilder \<Rightarrow> (ExecPolicyError, PolicyBuilder) result" where
  "parse_files starlark penv shlex fs [] builder = Inr builder"
| "parse_files starlark penv shlex fs (path # paths) builder =
     (case read_to_string fs path of
        Inl e \<Rightarrow> Inl (ReadFile path e)
      | Inr contents \<Rightarrow>
          and_then (map_err (ParsePolicy path) (policy_parse starlark penv shlex path contents builder))
            (parse_files starlark penv shlex fs paths))"

definition load_exec_policy ::
  "starlark \<Rightarrow> PathEnv \<Rightarrow> Shlex \<Rightarrow> RulesFs \<Rightarrow> ConfigLayerStack \<Rightarrow> (ExecPolicyError, Policy) result" where
  "load_exec_policy starlark penv shlex fs stack =
     and_then (policy_files fs stack) (\<lambda>paths.
     and_then (parse_files starlark penv shlex fs paths builder_new) (\<lambda>builder.
       Inr (case requirements_exec_policy stack of
              None \<Rightarrow> builder_build builder
            | Some requirements \<Rightarrow> merge_overlay (builder_build builder) requirements)))"

definition load_exec_policy_with_warning ::
  "starlark \<Rightarrow> PathEnv \<Rightarrow> Shlex \<Rightarrow> RulesFs \<Rightarrow> ConfigLayerStack \<Rightarrow>
   (ExecPolicyError, Policy \<times> ExecPolicyError option) result" where
  "load_exec_policy_with_warning starlark penv shlex fs stack =
     (case load_exec_policy starlark penv shlex fs stack of
        Inr policy \<Rightarrow> Inr (policy, None)
      | Inl (ParsePolicy path e) \<Rightarrow>
          Inr (case requirements_exec_policy stack of None \<Rightarrow> policy_empty | Some policy \<Rightarrow> policy,
               Some (ParsePolicy path e))
      | Inl e \<Rightarrow> Inl e)"

section \<open>Amending the policy file\<close>

datatype AmendError =
  EmptyPrefix
| InvalidNetworkRule PolicyError
| EmptyJustification
| MissingParent
| CreatePolicyDir ustring
| OpenPolicyFile ustring
| LockPolicyFile ustring
| SeekPolicyFile ustring
| ReadPolicyFile ustring
| WritePolicyFile ustring

datatype CreateDir = DirCreated | DirAlreadyExists | DirFailed ustring

text \<open>What the operating system answers during one update of the policy file; \<open>None\<close> is success. The
  text of the file is given with the answers, and the result of an update is its new text.\<close>

record PolicyFileIo =
  has_parent :: bool
  create_dir :: CreateDir
  open_error :: "ustring option"
  lock_error :: "ustring option"
  seek_error :: "ustring option"
  read_error :: "ustring option"
  newline_error :: "ustring option"
  line_error :: "ustring option"
  file_contents :: ustring

definition guard_io :: "(ustring \<Rightarrow> AmendError) \<Rightarrow> ustring option \<Rightarrow> (AmendError, unit) result" where
  "guard_io err outcome = (case outcome of Some e \<Rightarrow> Inl (err e) | None \<Rightarrow> Inr ())"

definition append_locked_line :: "PolicyFileIo \<Rightarrow> ustring \<Rightarrow> (AmendError, ustring) result" where
  "append_locked_line io line =
     and_then (guard_io OpenPolicyFile (open_error io)) (\<lambda>_.
     and_then (guard_io LockPolicyFile (lock_error io)) (\<lambda>_.
     and_then (guard_io SeekPolicyFile (seek_error io)) (\<lambda>_.
     and_then (guard_io ReadPolicyFile (read_error io)) (\<lambda>_.
       let contents = file_contents io
       in if list_ex (\<lambda>existing. existing = line) (str_lines contents) then Inr contents
          else and_then (if contents \<noteq> [] \<and> \<not> ends_with contents [nl]
                         then and_then (guard_io WritePolicyFile (newline_error io)) (\<lambda>_. Inr (contents @ [nl]))
                         else Inr contents) (\<lambda>contents'.
               and_then (guard_io WritePolicyFile (line_error io)) (\<lambda>_. Inr (contents' @ line @ [nl])))))))"

definition append_rule_line :: "PolicyFileIo \<Rightarrow> ustring \<Rightarrow> (AmendError, ustring) result" where
  "append_rule_line io rule =
     (if \<not> has_parent io then Inl MissingParent
      else (case create_dir io of
              DirFailed e \<Rightarrow> Inl (CreatePolicyDir e)
            | _ \<Rightarrow> append_locked_line io rule))"

definition allow_rule_line :: "(ustring \<Rightarrow> ustring) \<Rightarrow> ustring list \<Rightarrow> ustring" where
  "allow_rule_line to_json tokens =
     lit ''prefix_rule(pattern=['' @ join (lit '', '') (map to_json tokens) @ lit ''], decision='' @
     [34] @ lit ''allow'' @ [34] @ lit '')''"

definition blocking_append_allow_prefix_rule ::
  "(ustring \<Rightarrow> ustring) \<Rightarrow> PolicyFileIo \<Rightarrow> ustring list \<Rightarrow> (AmendError, ustring) result" where
  "blocking_append_allow_prefix_rule to_json io tokens =
     (if tokens = [] then Inl EmptyPrefix else append_rule_line io (allow_rule_line to_json tokens))"

fun network_decision_text :: "Decision \<Rightarrow> ustring" where
  "network_decision_text Allow = lit ''allow''"
| "network_decision_text Prompt = lit ''prompt''"
| "network_decision_text Forbidden = lit ''deny''"

definition blocking_append_network_rule ::
  "(ustring \<Rightarrow> ustring) \<Rightarrow> PolicyFileIo \<Rightarrow> ustring \<Rightarrow> NetworkRuleProtocol \<Rightarrow> Decision \<Rightarrow> ustring option \<Rightarrow>
   (AmendError, ustring) result" where
  "blocking_append_network_rule to_json io host protocol d j =
     and_then (map_err InvalidNetworkRule (normalize_network_rule_host host)) (\<lambda>host.
       if is_some_and j (\<lambda>raw. trim raw = []) then Inl EmptyJustification
       else
         let args =
           [lit ''host='' @ to_json host, lit ''protocol='' @ to_json (as_policy_string protocol),
            lit ''decision='' @ to_json (network_decision_text d)] @
           (case j of Some text \<Rightarrow> [lit ''justification='' @ to_json text] | None \<Rightarrow> [])
         in append_rule_line io (lit ''network_rule('' @ join (lit '', '') args @ lit '')''))"

section \<open>Patterns and examples\<close>

lemma fold_add_rule:
  "fold (\<lambda>rule b. add_rule b rule) rules builder =
     builder\<lparr>builder_rules := builder_rules builder @ map (\<lambda>rule. (program rule, rule)) rules\<rparr>"
  by (induction rules arbitrary: builder) (simp_all add: add_rule_def)

lemma map_err_Inr_iff [simp]: "map_err f r = Inr x \<longleftrightarrow> r = Inr x"
  by (cases r) (simp_all add: map_err_def)

lemma map_err_simps [simp]: "map_err f (Inl e) = Inl (f e)" "map_err f (Inr x) = Inr x"
  by (simp_all add: map_err_def)

lemma prefix_rule_builder:
  assumes "prefix_rule shlex pattern d m n j l builder = Inr builder'"
  shows "\<exists>tokens rules. parse_pattern pattern = Inr tokens \<and> tokens \<noteq> [] \<and>
    rules = map (\<lambda>rule. (program rule, rule)) (rules_of_pattern tokens (case d of None \<Rightarrow> Allow | Some raw \<Rightarrow> projr (parse_decision raw)) j) \<and>
    builder_rules builder' = builder_rules builder @ rules"
  using assms
  by (auto simp: prefix_rule_def fold_add_rule Let_def check_justification_def parse_pattern_def
      split: if_splits option.splits)

text \<open>The rules of a pattern cover exactly the commands that start with one alternative of each token.\<close>

lemma rules_of_pattern_cover:
  assumes "tokens \<noteq> []"
  shows "list_ex (\<lambda>rule. covers rule cmd) (rules_of_pattern tokens d j) \<longleftrightarrow>
    length tokens \<le> length cmd \<and>
    list_all2 (\<lambda>token c. c \<in> set (alternatives token)) tokens (take (length tokens) cmd)"
proof -
  obtain t ts where tokens: "tokens = t # ts"
    using assms by (cases tokens) auto
  show ?thesis
    by (cases cmd) (auto simp: tokens rules_of_pattern_def list_ex_iff covers_def program_def)
qed

lemma validate_not_match_ok:
  "validate_not_match_examples penv shlex policy examples = Inr () \<longleftrightarrow>
     list_all (\<lambda>example. matches_for_command_with_options penv policy example None resolving = []) examples"
  by (induction examples) (auto split: list.splits)

lemma validate_match_ok:
  "validate_match_examples penv shlex policy rules examples = Inr () \<longleftrightarrow>
     list_all (\<lambda>example. matches_for_command_with_options penv policy example None resolving \<noteq> []) examples"
  by (auto simp: validate_match_examples_def Let_def filter_empty_conv list_all_iff)

lemma validation_policy_wf: "policy_wf (validation_policy builder v)"
  by (simp add: policy_wf_def validation_policy_def list_all_iff)

text \<open>A validated entry holds its promises: its rules cover every positive example and no negative one.\<close>

lemma validated_examples:
  assumes "validate_pending penv shlex builder v = Inr ()"
  shows "list_all (\<lambda>example. covering penv (validation_policy builder v) example \<noteq> []) (pending_matches v)"
    "list_all (\<lambda>example. covering penv (validation_policy builder v) example = []) (pending_not_matches v)"
  using assms
  by (simp_all add: validate_pending_def Let_def validate_match_ok validate_not_match_ok
      hits_Nil_iff [OF validation_policy_wf])

section \<open>Lines of the policy file\<close>

lemma appended_line_listed:
  assumes "nl \<notin> set line" "line \<noteq> []" "last line \<noteq> cr" "contents = [] \<or> last contents = nl"
  shows "line \<in> set (str_lines (contents @ line @ [nl]))"
proof -
  have line: "split_on nl (line @ [nl]) = [line, []]"
    using split_on_append_sep [OF assms(1), of "[]"] by simp
  have "\<exists>front. split_on nl (contents @ line @ [nl]) = front @ [line, []]"
  proof (cases "contents = []")
    case False
    then have "contents = butlast contents @ [nl]"
      using assms(4) by (metis append_butlast_last_id)
    then have "split_on nl (contents @ line @ [nl]) = split_on nl (butlast contents @ nl # line @ [nl])"
      by (metis append.assoc append_Cons append_Nil)
    then show ?thesis
      by (auto simp: split_on_append split_on_no_sep [OF assms(1)])
  qed (simp add: line)
  moreover have "strip_cr line = line"
    using assms(3) by (simp add: strip_cr_def strip_suffix_char_def)
  ultimately show ?thesis
    by (auto simp: str_lines_def butlast_append intro: rev_image_eqI)
qed

text \<open>Appending a rule keeps the file as it is up to its end, and appending it again changes nothing.\<close>

lemma append_locked_line_idempotent:
  assumes "append_locked_line io line = Inr contents" "nl \<notin> set line" "line \<noteq> []" "last line \<noteq> cr"
  shows "line \<in> set (str_lines contents)" "prefix (file_contents io) contents"
    "append_locked_line (io\<lparr>file_contents := contents\<rparr>) line = Inr contents"
proof -
  let ?old = "file_contents io"
  have ends: "ends_with ?old [nl] \<longleftrightarrow> ?old \<noteq> [] \<and> last ?old = nl"
    by (cases ?old rule: rev_cases) (auto simp: ends_with_def)
  have cases: "(line \<in> set (str_lines ?old) \<and> contents = ?old) \<or>
      (\<exists>c. contents = c @ line @ [nl] \<and> prefix ?old c \<and> (c = [] \<or> last c = nl))"
    using assms(1) ends
    by (auto simp: append_locked_line_def guard_io_def Let_def list_ex_iff split: if_splits option.splits)
  then show listed: "line \<in> set (str_lines contents)"
    using appended_line_listed [OF assms(2-4)] by auto
  show "prefix ?old contents"
    using cases by (auto simp: prefix_def)
  show "append_locked_line (io\<lparr>file_contents := contents\<rparr>) line = Inr contents"
    using assms(1) listed
    by (auto simp: append_locked_line_def guard_io_def Let_def list_ex_iff split: option.splits)
qed

section \<open>Layers\<close>

definition builder_wf :: "PolicyBuilder \<Rightarrow> bool" where
  "builder_wf builder = list_all (\<lambda>(key, rule). key = program rule) (builder_rules builder)"

text \<open>A file only adds rules.\<close>

definition extends_builder :: "PolicyBuilder \<Rightarrow> PolicyBuilder \<Rightarrow> bool" where
  "extends_builder builder builder' \<longleftrightarrow>
     (\<exists>added. builder_rules builder' = builder_rules builder @ added \<and>
        list_all (\<lambda>(key, rule). key = program rule) added)"

lemma extends_refl: "extends_builder builder builder"
  by (simp add: extends_builder_def)

lemma extends_trans: "extends_builder a b \<Longrightarrow> extends_builder b c \<Longrightarrow> extends_builder a c"
  by (auto simp: extends_builder_def)

lemma extends_wf: "extends_builder a b \<Longrightarrow> builder_wf a \<Longrightarrow> builder_wf b"
  by (auto simp: extends_builder_def builder_wf_def)

lemma run_call_extends:
  "run_call penv shlex call builder = Inr builder' \<Longrightarrow> extends_builder builder builder'"
proof (induction penv shlex call builder rule: run_call.induct)
  case (1 penv shlex p d m n j l builder)
  then show ?case
    using prefix_rule_builder [of shlex p d m n j l builder builder']
    by (fastforce simp: extends_builder_def list_all_iff)
qed (auto simp: extends_builder_def network_rule_def host_executable_def)

lemma run_calls_extends:
  "run_calls penv shlex calls builder = Inr builder' \<Longrightarrow> extends_builder builder builder'"
  by (induction calls arbitrary: builder) (auto intro: extends_refl extends_trans dest: run_call_extends)

lemma policy_parse_extends:
  "policy_parse starlark penv shlex path contents builder = Inr builder' \<Longrightarrow> extends_builder builder builder'"
  by (auto simp: policy_parse_def Let_def dest: run_calls_extends split: prod.splits option.splits)

lemma parse_files_extends:
  "parse_files starlark penv shlex fs paths builder = Inr builder' \<Longrightarrow> extends_builder builder builder'"
  by (induction paths arbitrary: builder)
    (auto intro: extends_refl extends_trans dest: policy_parse_extends split: sum.splits)

lemma parse_files_append:
  "parse_files starlark penv shlex fs (paths @ paths') builder =
     and_then (parse_files starlark penv shlex fs paths builder) (parse_files starlark penv shlex fs paths')"
proof (induction paths arbitrary: builder)
  case (Cons path paths)
  show ?case
  proof (cases "read_to_string fs path")
    case (Inr contents)
    then show ?thesis
      using Cons by (cases "map_err (ParsePolicy path) (policy_parse starlark penv shlex path contents builder)") simp_all
  qed simp
qed simp

lemma builder_new_wf: "builder_wf builder_new"
  by (simp add: builder_wf_def builder_new_def)

lemma build_wf: "builder_wf builder \<Longrightarrow> policy_wf (builder_build builder)"
  by (simp add: builder_wf_def policy_wf_def builder_build_def)

lemma load_exec_policy_wf:
  assumes "load_exec_policy starlark penv shlex fs stack = Inr policy"
    "\<forall>p. requirements_exec_policy stack = Some p \<longrightarrow> policy_wf p"
  shows "policy_wf policy"
proof -
  obtain paths builder where "parse_files starlark penv shlex fs paths builder_new = Inr builder"
      "policy = (case requirements_exec_policy stack of None \<Rightarrow> builder_build builder
        | Some requirements \<Rightarrow> merge_overlay (builder_build builder) requirements)"
    using assms(1) by (auto simp: load_exec_policy_def)
  then show ?thesis
    using build_wf [OF extends_wf [OF parse_files_extends builder_new_wf]] assms(2)
    by (auto intro: policy_wf_preserved split: option.split)
qed

lemma decision_bound:
  assumes "policy_wf policy" "rule \<in> set (covering penv policy cmd)" "cmd \<in> set commands"
  shows "\<exists>d. map_option evaluation_decision (check_multiple_with_options penv policy commands fallback resolving) = Some d \<and>
    rule_decision rule \<le> d"
proof -
  have commands: "commands \<noteq> []"
    using assms(3) by auto
  have "rule_decision rule \<in> set (decisions_for penv policy fallback cmd)"
    using assms(2) by (auto simp: decisions_for_def split: list.split)
  then show ?thesis
    using decided_strictest [OF assms(1) commands] decided_ge [OF assms(1) _ assms(3)] by blast
qed

text \<open>A rule that applies below keeps applying when rules are added, except to a program path that now has a
  rule of its own or is left out of the known paths of its program.\<close>

lemma covering_extended:
  assumes "rule \<in> set (covering penv policy cmd)" "set (policy_rules policy) \<subseteq> set (policy_rules policy')"
  shows "rule \<in> set (covering penv policy' cmd) \<or>
    \<not> covers rule cmd \<and> (list_ex (\<lambda>rule'. covers rule' cmd) (policy_rules policy') \<or> by_basename penv policy' cmd = None)"
proof (cases "covers rule cmd")
  case True
  moreover have "rule \<in> set (policy_rules policy')"
    using assms by (auto simp: covering_def Let_def split: if_splits option.splits)
  ultimately show ?thesis
    by (auto simp: covering_def Let_def filter_empty_conv)
next
  case False
  then obtain cmd' where named: "by_basename penv policy cmd = Some cmd'" "covers rule cmd'" "rule \<in> set (policy_rules policy')"
    using assms by (cases "by_basename penv policy cmd") (auto simp: covering_def Let_def split: if_splits)
  have "by_basename penv policy' cmd = Some cmd'" if "by_basename penv policy' cmd \<noteq> None"
    using that named(1) by (auto simp: by_basename_def bind_eq_Some_conv split: list.splits option.splits if_splits)
  then show ?thesis
    using False named by (auto simp: covering_def Let_def filter_empty_conv list_ex_iff)
qed

text \<open>C21: What a layer can relax in the layers below it. Whatever policy files are loaded after those with a
  rule, a command that the rule applied to is decided at least as strictly as the rule says, except when the
  rule applied to a program path by the name of the program only, and some rule now names the path itself or
  the files now list the known paths of the program without it.\<close>

theorem higher_layer_relaxes_only_paths:
  assumes "parse_files starlark penv shlex fs lower builder_new = Inr below"
    "parse_files starlark penv shlex fs (lower @ higher) builder_new = Inr builder"
    "rule \<in> set (covering penv (builder_build below) cmd)" "cmd \<in> set commands"
  shows "(\<exists>d. map_option evaluation_decision
        (check_multiple_with_options penv (builder_build builder) commands fallback resolving) = Some d \<and>
      rule_decision rule \<le> d) \<or>
    \<not> covers rule cmd \<and>
      (list_ex (\<lambda>rule'. covers rule' cmd) (policy_rules (builder_build builder)) \<or>
       by_basename penv (builder_build builder) cmd = None)"
proof -
  have "extends_builder below builder"
    using assms(1,2) by (auto simp: parse_files_append dest: parse_files_extends)
  then have added: "set (policy_rules (builder_build below)) \<subseteq> set (policy_rules (builder_build builder))"
    by (auto simp: extends_builder_def policy_rules_def builder_build_def)
  have wf: "policy_wf (builder_build builder)"
    using assms(2) by (intro build_wf extends_wf [OF parse_files_extends builder_new_wf])
  show ?thesis
    by (rule disj_forward [OF covering_extended [OF assms(3) added]]) (rule decision_bound [OF wf _ assms(4)])
qed

definition sample_shlex :: Shlex where
  "sample_shlex = \<lparr>shlex_split = (\<lambda>_. None), try_join = (\<lambda>_. None)\<rparr>"

text \<open>A file with a rule for \<open>rm\<close>, which forbids it, and one with a rule for \<open>/bin/rm\<close>, which allows it. The
  second does not relax the first for \<open>rm\<close>, but it does for \<open>/bin/rm\<close>.\<close>

definition layers_starlark :: starlark where
  "layers_starlark identifier contents =
     ([PrefixRuleCall [StarlarkString contents] (Some (lit (if contents = lit ''rm'' then ''forbidden'' else ''allow''))) None None None None], None)"

definition layers_fs :: RulesFs where
  "layers_fs = \<lparr>read_dir = (\<lambda>_. DirNotFound), read_to_string = Inr\<rparr>"

definition layers_policy :: "ustring list \<Rightarrow> PolicyBuilder" where
  "layers_policy files = projr (parse_files layers_starlark sample_paths sample_shlex layers_fs files builder_new)"

theorem higher_layer_relaxes_only_paths_witness:
  "(\<exists>d. map_option evaluation_decision
      (check_multiple_with_options sample_paths (builder_build (layers_policy ([lit ''rm''] @ [lit ''/bin/rm''])))
        [[lit ''rm'', lit ''x'']] (\<lambda>_. Allow) resolving) = Some d \<and> Forbidden \<le> d) \<and>
   map_option evaluation_decision
     (check_multiple_with_options sample_paths (builder_build (layers_policy ([lit ''rm''] @ [lit ''/bin/rm''])))
       [[lit ''/bin/rm'', lit ''x'']] (\<lambda>_. Allow) resolving) = Some Allow"
proof
  let ?parse = "\<lambda>files. parse_files layers_starlark sample_paths sample_shlex layers_fs files builder_new"
  let ?rule = "\<lparr>rule_pattern = \<lparr>pattern_first = lit ''rm'', pattern_rest = []\<rparr>, rule_decision = Forbidden, rule_justification = None\<rparr>"
  have ok: "is_ok (?parse [lit ''rm''])" "is_ok (?parse ([lit ''rm''] @ [lit ''/bin/rm'']))"
    by code_simp+
  have parsed: "?parse [lit ''rm''] = Inr (layers_policy [lit ''rm''])"
    "?parse ([lit ''rm''] @ [lit ''/bin/rm'']) = Inr (layers_policy ([lit ''rm''] @ [lit ''/bin/rm'']))"
    using ok by (auto simp: is_ok_def layers_policy_def split: sum.splits)
  have rule: "?rule \<in> set (covering sample_paths (builder_build (layers_policy [lit ''rm''])) [lit ''rm'', lit ''x''])"
    "covers ?rule [lit ''rm'', lit ''x'']"
    by code_simp+
  show "\<exists>d. map_option evaluation_decision
      (check_multiple_with_options sample_paths (builder_build (layers_policy ([lit ''rm''] @ [lit ''/bin/rm''])))
        [[lit ''rm'', lit ''x'']] (\<lambda>_. Allow) resolving) = Some d \<and> Forbidden \<le> d"
    using higher_layer_relaxes_only_paths [OF parsed rule(1), of "[[lit ''rm'', lit ''x'']]" "\<lambda>_. Allow"] rule(2) by simp
  show "map_option evaluation_decision
      (check_multiple_with_options sample_paths (builder_build (layers_policy ([lit ''rm''] @ [lit ''/bin/rm''])))
       [[lit ''/bin/rm'', lit ''x'']] (\<lambda>_. Allow) resolving) = Some Allow"
    by code_simp
qed

end
