(* ===== verification/Shell_Commands.thy ===== *)
theory Shell_Commands
  imports Unix_Paths "HOL-Library.Multiset"
begin

text \<open>
  Shell commands (\<open>shell-command/src/bash.rs\<close>, \<open>shell_detect.rs\<close> and
  \<open>command_safety/is_dangerous_command.rs\<close>) on Unix: splitting a script into plain commands, collecting
  its literal commands, and recognizing dangerous ones through wrappers. The tree-sitter grammar is
  third-party code; the parser is an argument that gives the syntax tree of a script, with the text of
  every node.
\<close>

section \<open>Shells\<close>

datatype ShellType = Zsh | Bash | PowerShell | Sh | Cmd

definition shell_of_name :: "ustring \<Rightarrow> ShellType option" where
  "shell_of_name name =
     (if name = lit ''zsh'' then Some Zsh
      else if name = lit ''sh'' then Some Sh
      else if name = lit ''cmd'' then Some Cmd
      else if name = lit ''bash'' then Some Bash
      else if name = lit ''pwsh'' then Some PowerShell
      else if name = lit ''powershell'' then Some PowerShell
      else None)"

function detect_shell_type :: "ustring \<Rightarrow> ShellType option" where
  "detect_shell_type shell_path =
     (case shell_of_name shell_path of
        Some shell_type \<Rightarrow> Some shell_type
      | None \<Rightarrow>
          (case file_stem shell_path of
             None \<Rightarrow> None
           | Some shell_name \<Rightarrow>
               if path_eq shell_name shell_path then None else detect_shell_type shell_name))"
  by pat_completeness auto

termination
  by (relation "measure length") (auto simp: path_eq_def intro: file_stem_shorter)

declare detect_shell_type.simps [simp del]

section \<open>Syntax trees\<close>

datatype Node =
  Node (node_kind: ustring) (is_named: bool) (start_byte: nat) (node_text: ustring) (children: "Node list")

record ShellTree =
  tree_root :: Node
  tree_has_error :: bool

type_synonym bash_parser = "ustring \<Rightarrow> ShellTree option"

definition named_children :: "Node \<Rightarrow> Node list" where
  "named_children node = filter is_named (children node)"

definition is_kind :: "Node \<Rightarrow> string \<Rightarrow> bool" where
  "is_kind node kind \<longleftrightarrow> node_kind node = lit kind"

definition first_named_child :: "Node \<Rightarrow> Node option" where
  "first_named_child node = (case named_children node of [] \<Rightarrow> None | child # _ \<Rightarrow> Some child)"

definition is_literal_word_or_number :: "Node \<Rightarrow> bool" where
  "is_literal_word_or_number node \<longleftrightarrow>
     (is_kind node ''word'' \<or> is_kind node ''number'') \<and> named_children node = [] \<and>
     \<not> starts_with (node_text node) (lit ''='') \<and>
     list_all (\<lambda>c. c \<notin> set (lit ''{}*?[]~^#$`'') \<and> c \<noteq> 92) (node_text node)"

definition escapes :: "ustring \<Rightarrow> bool" where
  "escapes s = list_ex (\<lambda>(a, b). a = 92 \<and> (b = 36 \<or> b = 96 \<or> b = 34 \<or> b = 92 \<or> b = 10)) (zip s (tl s))"

definition unquote :: "uchar \<Rightarrow> ustring \<Rightarrow> ustring option" where
  "unquote q s = Option.bind (strip_prefix [q] s) (strip_suffix_char q)"

definition parse_double_quoted_string :: "Node \<Rightarrow> ustring option" where
  "parse_double_quoted_string node =
     (if \<not> is_kind node ''string'' then None
      else if list_ex (\<lambda>part. \<not> is_kind part ''string_content'') (named_children node) then None
      else (case unquote 34 (node_text node) of
              None \<Rightarrow> None
            | Some stripped \<Rightarrow> if escapes stripped then None else Some stripped))"

definition parse_raw_string :: "Node \<Rightarrow> ustring option" where
  "parse_raw_string node = (if \<not> is_kind node ''raw_string'' then None else unquote 39 (node_text node))"

text \<open>The parts of a word; the first part without a value ends the loop.\<close>

fun concat_parts :: "('a \<Rightarrow> ustring option) \<Rightarrow> 'a list \<Rightarrow> ustring option" where
  "concat_parts f [] = Some []"
| "concat_parts f (x # xs) =
     (case f x of
        None \<Rightarrow> None
      | Some a \<Rightarrow> (case concat_parts f xs of None \<Rightarrow> None | Some b \<Rightarrow> Some (a @ b)))"

lemma concat_parts_cong [fundef_cong]:
  "xs = ys \<Longrightarrow> (\<And>x. x \<in> set ys \<Longrightarrow> f x = g x) \<Longrightarrow> concat_parts f xs = concat_parts g ys"
  by (induction ys arbitrary: xs) (auto split: option.splits)

definition plain_part :: "Node \<Rightarrow> ustring option" where
  "plain_part part =
     (if is_kind part ''word'' \<or> is_kind part ''number'' then Some (node_text part)
      else if is_kind part ''string'' then parse_double_quoted_string part
      else if is_kind part ''raw_string'' then parse_raw_string part
      else None)"

definition plain_word :: "Node \<Rightarrow> ustring option" where
  "plain_word child =
     (if is_kind child ''command_name''
      then Option.bind (first_named_child child) (\<lambda>word_node.
             if is_kind word_node ''word'' then Some (node_text word_node) else None)
      else if is_kind child ''concatenation''
      then Option.bind (concat_parts plain_part (named_children child)) (\<lambda>concatenated.
             if concatenated = [] then None else Some concatenated)
      else plain_part child)"

fun collect_options :: "'a option list \<Rightarrow> 'a list option" where
  "collect_options [] = Some []"
| "collect_options (None # xs) = None"
| "collect_options (Some x # xs) = map_option ((#) x) (collect_options xs)"

definition parse_plain_command_from_node :: "Node \<Rightarrow> ustring list option" where
  "parse_plain_command_from_node cmd =
     (if \<not> is_kind cmd ''command'' then None
      else collect_options (map plain_word (named_children cmd)))"

definition ALLOWED_KINDS :: "ustring list" where
  "ALLOWED_KINDS = map lit [''program'', ''list'', ''pipeline'', ''command'', ''command_name'', ''word'', ''string'',
     ''string_content'', ''raw_string'', ''number'', ''concatenation'']"

definition ALLOWED_PUNCT_TOKENS :: "ustring list" where
  "ALLOWED_PUNCT_TOKENS = [lit ''&&'', lit ''||'', lit '';'', lit ''|'', [34], [39]]"

definition node_allowed :: "Node \<Rightarrow> bool" where
  "node_allowed node \<longleftrightarrow>
     (if is_named node
      then node_kind node \<in> set ALLOWED_KINDS \<and>
        ((is_kind node ''word'' \<or> is_kind node ''number'') \<longrightarrow> is_literal_word_or_number node)
      else node_kind node \<in> set ALLOWED_PUNCT_TOKENS \<or>
        (\<not> list_ex (\<lambda>c. c \<in> set (lit ''&;|'')) (node_kind node) \<and> trim (node_kind node) = []))"

lemma size_list_rev [simp]: "size_list f (rev xs) = size_list f xs"
  by (induction xs) simp_all

text \<open>The walk with its stack, whose top is the head of the list.\<close>

function walk_plain :: "Node list \<Rightarrow> Node list \<Rightarrow> Node list option" where
  "walk_plain [] command_nodes = Some command_nodes"
| "walk_plain (node # stack) command_nodes =
     (if \<not> node_allowed node then None
      else walk_plain (rev (children node) @ stack)
        (if is_named node \<and> is_kind node ''command'' then command_nodes @ [node] else command_nodes))"
  by pat_completeness auto

termination
proof (relation "measure (\<lambda>(stack, _). size_list size stack)")
  fix node :: Node and stack command_nodes
  show "((rev (children node) @ stack, if is_named node \<and> is_kind node ''command'' then command_nodes @ [node] else command_nodes),
      (node # stack, command_nodes)) \<in> measure (\<lambda>(stack, _). size_list size stack)"
    by (cases node) simp
qed simp

definition try_parse_word_only_commands_sequence :: "ShellTree \<Rightarrow> ustring list list option" where
  "try_parse_word_only_commands_sequence tree =
     (if tree_has_error tree then None
      else (case walk_plain [tree_root tree] [] of
              None \<Rightarrow> None
            | Some command_nodes \<Rightarrow>
                collect_options (map parse_plain_command_from_node (sort_key start_byte command_nodes))))"

definition parse_shell_script_into_commands :: "bash_parser \<Rightarrow> ustring \<Rightarrow> ustring list list option" where
  "parse_shell_script_into_commands parser script =
     Option.bind (parser script) try_parse_word_only_commands_sequence"

definition extract_bash_command :: "ustring list \<Rightarrow> (ustring \<times> ustring) option" where
  "extract_bash_command cmd =
     (case cmd of
        [shell, flag, script] \<Rightarrow>
          if (flag = lit ''-lc'' \<or> flag = lit ''-c'') \<and>
             (detect_shell_type shell = Some Zsh \<or> detect_shell_type shell = Some Bash \<or> detect_shell_type shell = Some Sh)
          then Some (shell, script) else None
      | _ \<Rightarrow> None)"

definition parse_shell_lc_plain_commands :: "bash_parser \<Rightarrow> ustring list \<Rightarrow> ustring list list option" where
  "parse_shell_lc_plain_commands parser cmd =
     Option.bind (extract_bash_command cmd) (\<lambda>(_, script). parse_shell_script_into_commands parser script)"

section \<open>Literal commands\<close>

lemma named_child_smaller: "child \<in> set (named_children node) \<Longrightarrow> size child < size node"
  by (cases node) (auto simp: named_children_def less_Suc_eq_le dest: size_list_estimation' [where f = size, OF _ le_refl])

function parse_literal_shell_word :: "Node \<Rightarrow> ustring option" where
  "parse_literal_shell_word node =
     (if is_kind node ''word'' \<or> is_kind node ''number''
      then (if is_literal_word_or_number node then Some (node_text node) else None)
      else if is_kind node ''string'' then parse_double_quoted_string node
      else if is_kind node ''raw_string'' then parse_raw_string node
      else if is_kind node ''concatenation''
      then Option.bind (concat_parts parse_literal_shell_word (named_children node)) (\<lambda>concatenated.
             if concatenated \<noteq> [] then Some concatenated else None)
      else None)"
  by pat_completeness auto

termination
  by (relation "measure size") (auto intro: named_child_smaller)

declare parse_literal_shell_word.simps [simp del]

fun literal_words :: "Node list \<Rightarrow> bool \<Rightarrow> ustring list \<Rightarrow> ustring list option" where
  "literal_words [] found_command_name words = (if found_command_name then Some words else None)"
| "literal_words (child # siblings) found_command_name words =
     (if is_kind child ''command_name''
      then (case Option.bind (first_named_child child) parse_literal_shell_word of
              None \<Rightarrow> None
            | Some command_name \<Rightarrow> literal_words siblings True (words @ [command_name]))
      else literal_words siblings found_command_name
        (if found_command_name
         then (case parse_literal_shell_word child of Some word \<Rightarrow> words @ [word] | None \<Rightarrow> words)
         else words))"

definition parse_literal_command_from_node :: "Node \<Rightarrow> ustring list option" where
  "parse_literal_command_from_node cmd =
     (if \<not> is_kind cmd ''command'' then None else literal_words (named_children cmd) False [])"

lemma size_list_filter: "size_list f (filter P xs) \<le> size_list f xs"
  by (induction xs) auto

function walk_literal :: "Node list \<Rightarrow> ustring list list \<Rightarrow> ustring list list" where
  "walk_literal [] commands = commands"
| "walk_literal (node # stack) commands =
     walk_literal (rev (named_children node) @ stack)
       (commands @ (case parse_literal_command_from_node node of Some cmd \<Rightarrow> [cmd] | None \<Rightarrow> []))"
  by pat_completeness auto

termination
proof (relation "measure (\<lambda>(stack, _). size_list size stack)")
  fix node :: Node and stack commands
  show "((rev (named_children node) @ stack, commands @ (case parse_literal_command_from_node node of Some cmd \<Rightarrow> [cmd] | None \<Rightarrow> [])),
      (node # stack, commands)) \<in> measure (\<lambda>(stack, _). size_list size stack)"
    using size_list_filter [of size is_named "children node"] by (cases node) (simp add: named_children_def)
qed simp

definition parse_shell_lc_literal_commands :: "bash_parser \<Rightarrow> ustring list \<Rightarrow> ustring list list option" where
  "parse_shell_lc_literal_commands parser cmd =
     Option.bind (extract_bash_command cmd) (\<lambda>(_, script).
     Option.bind (parser script) (\<lambda>tree.
       if tree_has_error tree then None else Some (walk_literal [tree_root tree] [])))"

section \<open>Dangerous commands\<close>

datatype DangerousCommandMatch = ForcedRm | OtherDangerous

definition MAX_DANGEROUS_COMMAND_WRAPPER_DEPTH :: nat where
  "MAX_DANGEROUS_COMMAND_WRAPPER_DEPTH = 8"

definition executable_name_lookup_key :: "ustring \<Rightarrow> ustring option" where
  "executable_name_lookup_key raw = file_name raw"

definition rm_args_include_force_option :: "ustring list \<Rightarrow> bool" where
  "rm_args_include_force_option args =
     list_ex (\<lambda>arg. arg = lit ''--force'' \<or>
         is_some_and (strip_prefix (lit ''-'') arg) (\<lambda>flags. \<not> starts_with flags (lit ''-'') \<and> 102 \<in> set flags))
       (takeWhile (\<lambda>arg. arg \<noteq> lit ''--'') args)"

text \<open>The arguments of \<open>env\<close> from the command it runs.\<close>

definition is_env_option :: "ustring \<Rightarrow> bool" where
  "is_env_option argument \<longleftrightarrow>
     argument = lit ''-i'' \<or> argument = lit ''--ignore-environment'' \<or>
     is_some_and (split_once argument (lit ''='')) (\<lambda>(name, _). name \<noteq> [] \<and> \<not> starts_with name (lit ''-''))"

fun skip_env_options :: "ustring list \<Rightarrow> ustring list" where
  "skip_env_options [] = []"
| "skip_env_options (argument # arguments) =
     (if argument = lit ''--'' then arguments
      else if is_env_option argument then skip_env_options arguments
      else argument # arguments)"

text \<open>The matches of the commands inside a wrapper are computed by an argument, the check at the next
  depth.\<close>

type_synonym danger_check = "ustring list \<Rightarrow> DangerousCommandMatch option"

definition dangerous_command_match_for_env :: "danger_check \<Rightarrow> ustring list \<Rightarrow> DangerousCommandMatch option" where
  "dangerous_command_match_for_env inner cmd = inner (skip_env_options (tl cmd))"

definition dangerous_command_match_for_trap :: "danger_check \<Rightarrow> ustring list \<Rightarrow> DangerousCommandMatch option" where
  "dangerous_command_match_for_trap inner cmd =
     (let arguments = (case tl cmd of
          argument # others \<Rightarrow> if argument = lit ''--'' then others else argument # others
        | [] \<Rightarrow> [])
      in case arguments of
           [] \<Rightarrow> None
         | action # _ \<Rightarrow>
             if starts_with action (lit ''-'') then None
             else inner [lit ''sh'', lit ''-c'', action])"

definition dangerous_command_match_for_exec :: "danger_check \<Rightarrow> ustring list \<Rightarrow> DangerousCommandMatch option" where
  "dangerous_command_match_for_exec inner cmd =
     (case cmd of
        [] \<Rightarrow> None
      | cmd0 # arguments \<Rightarrow>
          (case executable_name_lookup_key cmd0 of
             None \<Rightarrow> None
           | Some name \<Rightarrow>
               if name = lit ''rm'' \<and> rm_args_include_force_option arguments then Some ForcedRm
               else if name = lit ''sudo'' then inner arguments
               else if name = lit ''env'' then dangerous_command_match_for_env inner cmd
               else if name = lit ''trap'' then dangerous_command_match_for_trap inner cmd
               else None))"

function dangerous_command_match_with_depth ::
  "bash_parser \<Rightarrow> ustring list \<Rightarrow> nat \<Rightarrow> DangerousCommandMatch option" where
  "dangerous_command_match_with_depth parser cmd wrapper_depth =
     (if wrapper_depth > MAX_DANGEROUS_COMMAND_WRAPPER_DEPTH then Some OtherDangerous
      else
        (case dangerous_command_match_for_exec
                (\<lambda>inner. dangerous_command_match_with_depth parser inner (wrapper_depth + 1)) cmd of
           Some dangerous_match \<Rightarrow> Some dangerous_match
         | None \<Rightarrow>
             (case parse_shell_lc_literal_commands parser cmd of
                None \<Rightarrow> None
              | Some commands \<Rightarrow>
                  find_map (\<lambda>inner. dangerous_command_match_with_depth parser inner (wrapper_depth + 1)) commands)))"
  by pat_completeness auto

termination
  by (relation "measure (\<lambda>(_, _, wrapper_depth). MAX_DANGEROUS_COMMAND_WRAPPER_DEPTH + 1 - wrapper_depth)") auto

declare dangerous_command_match_with_depth.simps [simp del]

definition dangerous_command_match :: "bash_parser \<Rightarrow> ustring list \<Rightarrow> DangerousCommandMatch option" where
  "dangerous_command_match parser cmd = dangerous_command_match_with_depth parser cmd 0"

section \<open>Forced removals\<close>

text \<open>What the check is for, from the usage of the programs: \<open>rm\<close> is forced by an option among the
  arguments before \<open>--\<close>, and \<open>env\<close> runs the command that follows its settings.\<close>

definition force_option :: "ustring \<Rightarrow> bool" where
  "force_option option \<longleftrightarrow>
     option = lit ''--force'' \<or> (\<exists>flag flags. option = 45 # flag # flags \<and> flag \<noteq> 45 \<and> 102 \<in> set (flag # flags))"

definition env_setting :: "ustring \<Rightarrow> bool" where
  "env_setting argument \<longleftrightarrow>
     argument = lit ''-i'' \<or> argument = lit ''--ignore-environment'' \<or>
     (\<exists>letter name value. argument = (letter # name) @ 61 # value \<and> letter \<noteq> 45 \<and> 61 \<notin> set (letter # name))"

text \<open>The commands that run a forced removal: \<open>rm\<close> itself, \<open>sudo\<close> directly before such a command, \<open>env\<close> with
  settings, a \<open>trap\<close> action, or a shell given a script with such a literal command, to any depth. Options of
  \<open>sudo\<close> and other options of \<open>env\<close> are not part of it.\<close>

inductive runs_forced_rm :: "bash_parser \<Rightarrow> ustring list \<Rightarrow> bool" for parser where
  direct: "file_name cmd0 = Some (lit ''rm'') \<Longrightarrow> lit ''--'' \<notin> set before \<Longrightarrow> force_option option \<Longrightarrow>
    runs_forced_rm parser (cmd0 # before @ option # others)"
| sudo: "file_name cmd0 = Some (lit ''sudo'') \<Longrightarrow> runs_forced_rm parser inner \<Longrightarrow>
    runs_forced_rm parser (cmd0 # inner)"
| env: "file_name cmd0 = Some (lit ''env'') \<Longrightarrow> list_all env_setting settings \<Longrightarrow>
    \<not> env_setting program \<Longrightarrow> program \<noteq> lit ''--'' \<Longrightarrow> runs_forced_rm parser (program # arguments) \<Longrightarrow>
    runs_forced_rm parser (cmd0 # settings @ program # arguments)"
| env_end: "file_name cmd0 = Some (lit ''env'') \<Longrightarrow> list_all env_setting settings \<Longrightarrow> runs_forced_rm parser inner \<Longrightarrow>
    runs_forced_rm parser (cmd0 # settings @ lit ''--'' # inner)"
| trap: "file_name cmd0 = Some (lit ''trap'') \<Longrightarrow> arguments = action # signals \<or> arguments = lit ''--'' # action # signals \<Longrightarrow>
    \<not> starts_with action (lit ''-'') \<Longrightarrow> runs_forced_rm parser [lit ''sh'', lit ''-c'', action] \<Longrightarrow>
    runs_forced_rm parser (cmd0 # arguments)"
| script: "parse_shell_lc_literal_commands parser cmd = Some commands \<Longrightarrow> inner \<in> set commands \<Longrightarrow>
    runs_forced_rm parser inner \<Longrightarrow> runs_forced_rm parser cmd"

lemma force_option_flags:
  "option = lit ''--force'' \<or> is_some_and (strip_prefix (lit ''-'') option) (\<lambda>flags. \<not> starts_with flags (lit ''-'') \<and> 102 \<in> set flags)
   \<longleftrightarrow> force_option option"
proof (cases option)
  case (Cons c flags)
  then show ?thesis
    by (cases flags) (auto simp: force_option_def is_some_and_def strip_prefix_def starts_with_def lit_def)
qed (simp add: force_option_def is_some_and_def strip_prefix_def lit_def)

lemma not_force_option: "\<not> force_option (lit ''--'')"
  by (simp add: force_option_def lit_def)

lemma rm_forced_iff:
  "rm_args_include_force_option args \<longleftrightarrow>
   (\<exists>before option others. args = before @ option # others \<and> lit ''--'' \<notin> set before \<and> force_option option)"
proof -
  let ?taken = "takeWhile (\<lambda>arg. arg \<noteq> lit ''--'') args"
  have "(\<exists>option\<in>set ?taken. force_option option) \<longleftrightarrow>
    (\<exists>before option others. args = before @ option # others \<and> lit ''--'' \<notin> set before \<and> force_option option)"
    (is "?found \<longleftrightarrow> ?split")
  proof
    assume ?found
    then obtain before option others where taken: "?taken = before @ option # others" and "force_option option"
      by (meson split_list)
    moreover have "lit ''--'' \<notin> set before"
      using taken set_takeWhileD [of "lit ''--''" "\<lambda>arg. arg \<noteq> lit ''--''" args] by auto
    moreover have "args = before @ option # others @ dropWhile (\<lambda>arg. arg \<noteq> lit ''--'') args"
      using taken takeWhile_dropWhile_id [of "\<lambda>arg. arg \<noteq> lit ''--''" args] by simp
    ultimately show ?split by blast
  next
    assume ?split
    then obtain before option others where args: "args = before @ option # others" "lit ''--'' \<notin> set before" "force_option option"
      by blast
    have "takeWhile (\<lambda>arg. arg \<noteq> lit ''--'') (before @ option # others) =
        before @ takeWhile (\<lambda>arg. arg \<noteq> lit ''--'') (option # others)"
      using args(2) by (intro takeWhile_append2) auto
    moreover have "option \<noteq> lit ''--''"
      using args(3) not_force_option by auto
    ultimately show ?found
      using args(1,3) by auto
  qed
  then show ?thesis
    unfolding rm_args_include_force_option_def force_option_flags list_ex_iff .
qed

lemma is_env_option_iff: "is_env_option argument \<longleftrightarrow> env_setting argument"
proof -
  have "(\<exists>name value. split_once argument (lit ''='') = Some (name, value) \<and> name \<noteq> [] \<and> \<not> starts_with name (lit ''-'')) \<longleftrightarrow>
      (\<exists>letter name value. argument = (letter # name) @ 61 # value \<and> letter \<noteq> 45 \<and> 61 \<notin> set (letter # name))"
    (is "?split \<longleftrightarrow> ?name")
  proof
    assume ?split
    then obtain letter name content where split: "split_once argument [61] = Some (letter # name, content)" and "letter \<noteq> 45"
      by (auto simp: lit_def starts_with_def neq_Nil_conv)
    moreover have "61 \<notin> set (letter # name)"
    proof
      assume "61 \<in> set (letter # name)"
      then obtain a b where "letter # name = a @ 61 # b" "61 \<notin> set a"
        using split_list_first by metis
      then show False
        using split_once_Some [OF split] split_once_char [of 61 a "b @ 61 # content"] split by auto
    qed
    ultimately show ?name
      using split_once_Some [OF split] by auto
  next
    assume ?name
    then obtain letter name content where "argument = (letter # name) @ 61 # content" "letter \<noteq> 45" "61 \<notin> set (letter # name)"
      by blast
    then show ?split
      using split_once_char [of 61 "letter # name" content] by (auto simp: lit_def starts_with_def)
  qed
  then show ?thesis
    by (auto simp: is_env_option_def env_setting_def is_some_and_def split: option.splits)
qed

lemma dashes_no_setting: "\<not> env_setting (lit ''--'')"
  by (auto simp: env_setting_def lit_def Cons_eq_append_conv)

lemma skip_settings: "list_all env_setting settings \<Longrightarrow> skip_env_options (settings @ rest) = skip_env_options rest"
  by (induction settings) (auto simp: is_env_option_iff dashes_no_setting)

lemma skipped_settings:
  "\<exists>settings. list_all env_setting settings \<and>
     (args = settings @ lit ''--'' # skip_env_options args \<or>
      args = settings @ skip_env_options args \<and>
      (\<forall>program arguments. skip_env_options args = program # arguments \<longrightarrow> \<not> env_setting program \<and> program \<noteq> lit ''--''))"
proof (induction args)
  case (Cons arg args)
  consider "arg = lit ''--''" | "arg \<noteq> lit ''--''" "env_setting arg" | "arg \<noteq> lit ''--''" "\<not> env_setting arg"
    by blast
  then show ?case
  proof cases
    case 1
    then show ?thesis by (intro exI [of _ "[]"]) simp
  next
    case 2
    obtain settings where "list_all env_setting settings \<and>
       (args = settings @ lit ''--'' # skip_env_options args \<or>
        args = settings @ skip_env_options args \<and>
        (\<forall>program arguments. skip_env_options args = program # arguments \<longrightarrow> \<not> env_setting program \<and> program \<noteq> lit ''--''))"
      using Cons.IH by blast
    then show ?thesis
      using 2 by (intro exI [of _ "arg # settings"]) (auto simp: is_env_option_iff)
  next
    case 3
    then show ?thesis by (intro exI [of _ "[]"]) (simp add: is_env_option_iff)
  qed
qed simp

lemma no_script_Nil: "parse_shell_lc_literal_commands parser [] = None"
  by (simp add: parse_shell_lc_literal_commands_def extract_bash_command_def)

lemma runs_nothing: "\<not> runs_forced_rm parser []"
  by (auto simp: no_script_Nil elim: runs_forced_rm.cases)

lemma env_runs:
  assumes "file_name cmd0 = Some (lit ''env'')" "runs_forced_rm parser (skip_env_options args)"
  shows "runs_forced_rm parser (cmd0 # args)"
proof -
  obtain settings where settings: "list_all env_setting settings"
      "args = settings @ lit ''--'' # skip_env_options args \<or>
       args = settings @ skip_env_options args \<and>
       (\<forall>program arguments. skip_env_options args = program # arguments \<longrightarrow> \<not> env_setting program \<and> program \<noteq> lit ''--'')"
    using skipped_settings [of args] by blast
  obtain program arguments where skipped: "skip_env_options args = program # arguments"
    using assms(2) runs_nothing [of parser] by (cases "skip_env_options args") auto
  show ?thesis
    using settings(2)
  proof
    assume "args = settings @ lit ''--'' # skip_env_options args"
    then show ?thesis
      using runs_forced_rm.env_end [OF assms(1) settings(1) assms(2)] by simp
  next
    assume other: "args = settings @ skip_env_options args \<and>
       (\<forall>program arguments. skip_env_options args = program # arguments \<longrightarrow> \<not> env_setting program \<and> program \<noteq> lit ''--'')"
    then have "\<not> env_setting program" "program \<noteq> lit ''--''"
      using skipped by blast+
    then show ?thesis
      using runs_forced_rm.env [OF assms(1) settings(1), of program parser arguments] assms(2) other skipped by simp
  qed
qed

lemma trap_action:
  "arguments = action # signals \<or> arguments = lit ''--'' # action # signals \<Longrightarrow> \<not> starts_with action (lit ''-'') \<Longrightarrow>
   dangerous_command_match_for_trap inner (cmd0 # arguments) = inner [lit ''sh'', lit ''-c'', action]"
  by (auto simp: dangerous_command_match_for_trap_def starts_with_def lit_def)

lemma trap_action_cases:
  assumes "dangerous_command_match_for_trap inner (cmd0 # arguments) = Some m"
  obtains action signals where "arguments = action # signals \<or> arguments = lit ''--'' # action # signals"
    "\<not> starts_with action (lit ''-'')" "inner [lit ''sh'', lit ''-c'', action] = Some m"
  using assms by (auto simp: dangerous_command_match_for_trap_def Let_def split: list.splits if_splits)

text \<open>Whatever the depth, a wrapped removal is found; deeper nesting than the check follows counts as
  dangerous.\<close>

lemma exec_found:
  "dangerous_command_match_for_exec (\<lambda>inner. dangerous_command_match_with_depth parser inner (d + 1)) cmd \<noteq> None \<Longrightarrow>
   dangerous_command_match_with_depth parser cmd d \<noteq> None"
  by (subst dangerous_command_match_with_depth.simps) (auto split: option.split)

lemma forced_rm_found: "runs_forced_rm parser cmd \<Longrightarrow> dangerous_command_match_with_depth parser cmd d \<noteq> None"
proof (induction arbitrary: d rule: runs_forced_rm.induct)
  case (trap cmd0 arguments action signals)
  show ?case
    using trap.IH [of "d + 1"] trap(1) trap_action [OF trap(2,3)]
    by (intro exec_found) (simp add: dangerous_command_match_for_exec_def executable_name_lookup_key_def)
next
  case (script cmd commands inner)
  then have "find_map (\<lambda>inner. dangerous_command_match_with_depth parser inner (d + 1)) commands \<noteq> None"
    unfolding find_map_None_iff by blast
  then show ?case
    using script(1) by (subst dangerous_command_match_with_depth.simps) (auto split: option.split)
next
  case (sudo cmd0 inner)
  show ?case
    using sudo.IH [of "d + 1"] sudo(1)
    by (intro exec_found) (simp add: dangerous_command_match_for_exec_def executable_name_lookup_key_def)
next
  case (env cmd0 settings program arguments)
  then have "skip_env_options (settings @ program # arguments) = program # arguments"
    by (simp add: skip_settings is_env_option_iff)
  then show ?case
    using env.IH [of "d + 1"] env(1)
    by (intro exec_found) (simp add: dangerous_command_match_for_exec_def executable_name_lookup_key_def
        dangerous_command_match_for_env_def)
next
  case (env_end cmd0 settings inner)
  then show ?case
    using env_end.IH [of "d + 1"] env_end(1)
    by (intro exec_found) (simp add: dangerous_command_match_for_exec_def executable_name_lookup_key_def
        dangerous_command_match_for_env_def skip_settings)
next
  case (direct cmd0 before option others)
  then have "rm_args_include_force_option (before @ option # others)"
    unfolding rm_forced_iff by blast
  then show ?case
    using direct(1) by (intro exec_found) (simp add: dangerous_command_match_for_exec_def executable_name_lookup_key_def)
qed

lemma forced_rm_genuine:
  "dangerous_command_match_with_depth parser cmd d = Some ForcedRm \<Longrightarrow> runs_forced_rm parser cmd"
proof (induction parser cmd d rule: dangerous_command_match_with_depth.induct)
  case (1 parser cmd d)
  let ?inner = "\<lambda>inner. dangerous_command_match_with_depth parser inner (d + 1)"
  have shallow: "\<not> d > MAX_DANGEROUS_COMMAND_WRAPPER_DEPTH"
    using 1(3) by (subst (asm) dangerous_command_match_with_depth.simps) (auto split: if_splits)
  have inner: "?inner c = Some ForcedRm \<Longrightarrow> runs_forced_rm parser c" for c
    using 1(1) shallow by blast
  have "dangerous_command_match_for_exec ?inner cmd = Some ForcedRm \<or>
      (\<exists>commands. parse_shell_lc_literal_commands parser cmd = Some commands \<and> find_map ?inner commands = Some ForcedRm)"
    using 1(3) shallow by (subst (asm) dangerous_command_match_with_depth.simps) (auto split: option.splits)
  then show ?case
  proof
    assume exec: "dangerous_command_match_for_exec ?inner cmd = Some ForcedRm"
    then obtain cmd0 arguments name where cmd: "cmd = cmd0 # arguments" and name: "file_name cmd0 = Some name"
      by (auto simp: dangerous_command_match_for_exec_def executable_name_lookup_key_def split: list.splits option.splits)
    then consider
        "name = lit ''rm''" "rm_args_include_force_option arguments"
      | "name = lit ''sudo''" "?inner arguments = Some ForcedRm"
      | "name = lit ''env''" "?inner (skip_env_options arguments) = Some ForcedRm"
      | "name = lit ''trap''" "dangerous_command_match_for_trap ?inner (cmd0 # arguments) = Some ForcedRm"
      using exec by (auto simp: dangerous_command_match_for_exec_def executable_name_lookup_key_def
          dangerous_command_match_for_env_def split: if_splits)
    then show ?thesis
    proof cases
      case 1
      then show ?thesis
        using name unfolding cmd rm_forced_iff by (auto intro: runs_forced_rm.direct)
    next
      case 3
      then show ?thesis
        using name inner env_runs unfolding cmd by blast
    next
      case 4
      then show ?thesis
        using trap_action_cases inner name unfolding cmd by (metis runs_forced_rm.trap)
    qed (use name inner in \<open>auto simp: cmd intro: runs_forced_rm.intros\<close>)
  next
    assume "\<exists>commands. parse_shell_lc_literal_commands parser cmd = Some commands \<and> find_map ?inner commands = Some ForcedRm"
    then show ?thesis
      using inner by (auto dest!: find_map_Some intro: runs_forced_rm.script)
  qed
qed

text \<open>An option of \<open>sudo\<close> is taken for the program that \<open>sudo\<close> runs, and ends the search.\<close>

lemma dash_components: "47 \<notin> set flags \<Longrightarrow> components (45 # flags) = [Normal (45 # flags)]"
  by (rule components_name) (auto simp: lit_def)

lemma dash_no_shell: "47 \<notin> set flags \<Longrightarrow> detect_shell_type (45 # flags) = None"
proof (induction "length flags" arbitrary: flags rule: less_induct)
  case less
  have unnamed: "shell_of_name (45 # flags) = None"
    by (simp add: shell_of_name_def lit_def)
  have name: "file_name (45 # flags) = Some (45 # flags)"
    using dash_components [OF less.prems] by (simp add: file_name_def last_opt_def)
  show ?case
  proof (cases "file_stem (45 # flags) = Some (45 # flags)")
    case True
    then show ?thesis
      using unnamed by (subst detect_shell_type.simps) (simp add: path_eq_def)
  next
    case False
    then obtain stem ending where split: "rsplit_once 46 (45 # flags) = Some (stem, ending)" "stem \<noteq> []" "file_stem (45 # flags) = Some stem"
      using name by (auto simp: file_stem_def split: option.splits if_splits)
    then obtain flags' where stem: "stem = 45 # flags'" "flags = flags' @ 46 # ending"
      using rsplit_once_append [OF split(1)] by (cases stem) auto
    then show ?thesis
      using unnamed split(3) less.hyps [of flags'] less.prems by (subst detect_shell_type.simps) simp
  qed
qed

lemma sudo_no_shell:
  assumes "file_name cmd0 = Some (lit ''sudo'')"
  shows "detect_shell_type cmd0 = None"
proof -
  have "file_name (lit ''zsh'') \<noteq> Some (lit ''sudo'')" "file_name (lit ''sh'') \<noteq> Some (lit ''sudo'')"
    "file_name (lit ''cmd'') \<noteq> Some (lit ''sudo'')" "file_name (lit ''bash'') \<noteq> Some (lit ''sudo'')"
    "file_name (lit ''pwsh'') \<noteq> Some (lit ''sudo'')" "file_name (lit ''powershell'') \<noteq> Some (lit ''sudo'')"
    by code_simp+
  then have "shell_of_name cmd0 = None"
    using assms by (auto simp: shell_of_name_def)
  moreover have "file_stem cmd0 = Some (lit ''sudo'')"
    using assms by (simp add: file_stem_def rsplit_once_def lit_def)
  moreover have "detect_shell_type (lit ''sudo'') = None"
    by code_simp
  ultimately show ?thesis
    by (subst detect_shell_type.simps) simp
qed

lemma no_shell_no_script:
  assumes "detect_shell_type program = None"
  shows "parse_shell_lc_literal_commands parser (program # arguments) = None"
    and "parse_shell_lc_plain_commands parser (program # arguments) = None"
  using assms by (auto simp: parse_shell_lc_literal_commands_def parse_shell_lc_plain_commands_def
      extract_bash_command_def split: list.split)

lemma dash_harmless:
  assumes "47 \<notin> set flags" "d \<le> MAX_DANGEROUS_COMMAND_WRAPPER_DEPTH"
  shows "dangerous_command_match_with_depth parser ((45 # flags) # arguments) d = None"
proof -
  have "file_name (45 # flags) = Some (45 # flags)"
    using dash_components [OF assms(1)] by (simp add: file_name_def last_opt_def)
  then have "dangerous_command_match_for_exec inner ((45 # flags) # arguments) = None" for inner
    by (simp add: dangerous_command_match_for_exec_def executable_name_lookup_key_def lit_def)
  then show ?thesis
    using assms(2) no_shell_no_script(1) [OF dash_no_shell [OF assms(1)]]
    by (subst dangerous_command_match_with_depth.simps) simp
qed

lemma sudo_option_hides:
  assumes "file_name cmd0 = Some (lit ''sudo'')" "47 \<notin> set flags"
  shows "dangerous_command_match parser (cmd0 # (45 # flags) # arguments) = None"
  using assms(1) dash_harmless [OF assms(2), of 1] no_shell_no_script(1) [OF sudo_no_shell [OF assms(1)]]
  unfolding dangerous_command_match_def
  by (subst dangerous_command_match_with_depth.simps)
    (simp add: dangerous_command_match_for_exec_def executable_name_lookup_key_def MAX_DANGEROUS_COMMAND_WRAPPER_DEPTH_def lit_def)

section \<open>No command is missed\<close>

fun subnodes :: "Node \<Rightarrow> Node list" where
  "subnodes (Node kind named start text cs) = Node kind named start text cs # concat (map subnodes cs)"

definition is_command_node :: "Node \<Rightarrow> bool" where
  "is_command_node node \<longleftrightarrow> is_named node \<and> is_kind node ''command''"

lemma subnodes_children: "subnodes node = node # concat (map subnodes (children node))"
  by (cases node) simp

lemma walk_plain_nodes:
  "walk_plain stack command_nodes = Some found \<Longrightarrow>
   list_all node_allowed (concat (map subnodes stack)) \<and>
   mset found = mset command_nodes + filter_mset is_command_node (mset (concat (map subnodes stack)))"
proof (induction stack command_nodes arbitrary: found rule: walk_plain.induct)
  case (2 node stack command_nodes)
  have rev: "mset (concat (map subnodes (rev cs))) = mset (concat (map subnodes cs))" for cs
    by (induction cs) (simp_all add: add.commute)
  from 2(2) have allowed: "node_allowed node"
    by (auto split: if_splits)
  let ?next = "if is_named node \<and> is_kind node ''command'' then command_nodes @ [node] else command_nodes"
  have "walk_plain (rev (children node) @ stack) ?next = Some found"
    using 2(2) allowed by simp
  then have "list_all node_allowed (concat (map subnodes (rev (children node) @ stack))) \<and>
      mset found = mset ?next + filter_mset is_command_node (mset (concat (map subnodes (rev (children node) @ stack))))"
    using 2(1) allowed by blast
  then show ?case
    using allowed rev [of "children node"]
    by (auto simp: subnodes_children [of node] is_command_node_def [symmetric] list_all_iff)
qed simp

lemma collect_options_Some: "collect_options xs = Some ys \<Longrightarrow> xs = map Some ys"
  by (induction xs arbitrary: ys rule: collect_options.induct) auto

text \<open>C17: Splitting a script into plain commands misses nothing. When it succeeds, every node of the syntax
  tree is of an allowed kind, every word is literal, and the result holds the words of every command node
  of the tree, each exactly once.\<close>

theorem plain_commands_complete:
  assumes "try_parse_word_only_commands_sequence tree = Some commands"
  shows "\<not> tree_has_error tree \<and> list_all node_allowed (subnodes (tree_root tree)) \<and>
    mset (map Some commands) =
      image_mset parse_plain_command_from_node (filter_mset is_command_node (mset (subnodes (tree_root tree))))"
proof -
  obtain nodes where nodes: "\<not> tree_has_error tree" "walk_plain [tree_root tree] [] = Some nodes"
      "collect_options (map parse_plain_command_from_node (sort_key start_byte nodes)) = Some commands"
    using assms by (auto simp: try_parse_word_only_commands_sequence_def split: if_splits option.splits)
  have "map Some commands = map parse_plain_command_from_node (sort_key start_byte nodes)"
    using collect_options_Some [OF nodes(3)] by simp
  then have "mset (map Some commands) = image_mset parse_plain_command_from_node (mset nodes)"
    by (metis mset_map mset_sort)
  then show ?thesis
    using walk_plain_nodes [OF nodes(2)] nodes(1) by simp
qed

definition word_node :: "string \<Rightarrow> Node" where
  "word_node w = Node (lit ''word'') True 0 (lit w) []"

definition command_node :: "nat \<Rightarrow> string \<Rightarrow> string \<Rightarrow> Node" where
  "command_node start name argument =
     Node (lit ''command'') True start (lit name)
       [Node (lit ''command_name'') True start (lit name) [word_node name], word_node argument]"

definition sample_tree :: ShellTree where
  "sample_tree =
     \<lparr>tree_root = Node (lit ''program'') True 0 []
        [Node (lit ''list'') True 0 []
          [command_node 0 ''ls'' ''a'', Node (lit ''&&'') False 5 (lit ''&&'') [], command_node 8 ''cat'' ''b'']],
      tree_has_error = False\<rparr>"

theorem plain_commands_complete_witness:
  "mset (map Some [[lit ''ls'', lit ''a''], [lit ''cat'', lit ''b'']]) =
     image_mset parse_plain_command_from_node (filter_mset is_command_node (mset (subnodes (tree_root sample_tree))))"
proof -
  have "try_parse_word_only_commands_sequence sample_tree = Some [[lit ''ls'', lit ''a''], [lit ''cat'', lit ''b'']]"
    by code_simp
  from plain_commands_complete [OF this] show ?thesis
    by blast
qed

end
