(* ===== verification/Path_Uri.thy ===== *)
theory Path_Uri
  imports Unix_Paths Path_Convention Utf8
begin

text \<open>
  File URIs, after \<open>utils/path-uri/src\<close>: a path of any host is a \<open>file:\<close> URL, and all operations on it are
  lexical. A path that has no ordinary URL is kept as an opaque URL that carries its bytes.

  A URL is a record of its parts; its path is the list of its encoded segments, edited as
  \<open>PathSegmentsMut\<close> documents. Parsing, percent coding, base64 and the conversion to native paths belong
  to other crates: they are the record \<open>UrlLib\<close>, with the laws \<open>url_laws\<close>. The host is a Unix system, so a
  native path is an absolute path of \<open>Unix_Paths\<close>.
\<close>

section \<open>URLs\<close>

record Url =
  url_scheme :: ustring
  url_username :: ustring
  url_password :: "ustring option"
  url_port :: "nat option"
  url_host_str :: "ustring option"
  url_path_segments :: "ustring list"
  url_query :: "ustring option"
  url_fragment :: "ustring option"

record UrlLib =
  url_parse :: "ustring \<Rightarrow> (ustring, Url) result"
  url_from_file_path :: "ustring \<Rightarrow> Url option"
  url_to_file_path :: "Url \<Rightarrow> ustring option"
  url_set_host :: "ustring \<Rightarrow> ustring option"
  encode_segment :: "ustring \<Rightarrow> ustring"
  decode_binary :: "ustring \<Rightarrow> byte list"
  base64_encode :: "byte list \<Rightarrow> ustring"
  base64_decode :: "ustring \<Rightarrow> byte list option"

definition FILE_SCHEME :: ustring where
  "FILE_SCHEME = lit ''file''"

definition BAD_PATH_URI_PREFIX :: ustring where
  "BAD_PATH_URI_PREFIX = lit ''file:///%00/bad/path/''"

definition file_url :: "ustring option \<Rightarrow> ustring list \<Rightarrow> Url" where
  "file_url host segments =
     \<lparr>url_scheme = FILE_SCHEME, url_username = [], url_password = None, url_port = None, url_host_str = host,
      url_path_segments = segments, url_query = None, url_fragment = None\<rparr>"

definition encoded_path :: "Url \<Rightarrow> ustring" where
  "encoded_path url = lit ''/'' @ join (lit ''/'') (url_path_segments url)"

text \<open>The text of a URL without credentials, port, query and fragment.\<close>

definition url_as_str :: "Url \<Rightarrow> ustring" where
  "url_as_str url =
     url_scheme url @ lit ''://'' @ (case url_host_str url of None \<Rightarrow> [] | Some host \<Rightarrow> host) @ encoded_path url"

definition pop_if_empty :: "ustring list \<Rightarrow> ustring list" where
  "pop_if_empty segments = (if 1 < length segments \<and> last segments = [] then butlast segments else segments)"

definition pop_segment :: "ustring list \<Rightarrow> ustring list" where
  "pop_segment segments = (if 1 < length segments then butlast segments else [[]])"

definition url_push_segment :: "UrlLib \<Rightarrow> ustring list \<Rightarrow> ustring \<Rightarrow> ustring list" where
  "url_push_segment lib segments segment =
     (if segments = [[]] then [encode_segment lib segment] else segments @ [encode_segment lib segment])"

section \<open>Path URIs\<close>

type_synonym PathUri = Url

datatype PathUriParseError =
    InvalidUri ustring
  | UnsupportedScheme ustring
  | InvalidFileUriPath ustring
  | CredentialsNotAllowed
  | PortNotAllowed
  | QueryNotAllowed
  | FragmentNotAllowed
  | JoinPathMustBeDescendant ustring

definition decode_uri_path :: "UrlLib \<Rightarrow> ustring \<Rightarrow> ustring" where
  "decode_uri_path lib path = (case from_utf8 (decode_binary lib path) of Inr text \<Rightarrow> text | Inl _ \<Rightarrow> path)"

definition decode_bad_path_uri :: "UrlLib \<Rightarrow> Url \<Rightarrow> byte list option" where
  "decode_bad_path_uri lib url =
     (case strip_prefix BAD_PATH_URI_PREFIX (url_as_str url) of
        None \<Rightarrow> None
      | Some encoded \<Rightarrow>
          if encoded = [] \<or> 47 \<in> set encoded then None
          else (case base64_decode lib encoded of
                  None \<Rightarrow> None
                | Some path_bytes \<Rightarrow> if base64_encode lib path_bytes = encoded then Some path_bytes else None))"

definition is_ascii_alphabetic :: "uchar \<Rightarrow> bool" where
  "is_ascii_alphabetic c \<longleftrightarrow> 65 \<le> c \<and> c \<le> 90 \<or> 97 \<le> c \<and> c \<le> 122"

definition is_windows_drive_uri_segment :: "ustring \<Rightarrow> bool" where
  "is_windows_drive_uri_segment segment =
     (case segment of
        [drive, c] \<Rightarrow> is_ascii_alphabetic drive \<and> c = 58
      | [drive, c, d, e] \<Rightarrow> is_ascii_alphabetic drive \<and> c = 37 \<and> d = 51 \<and> (e = 65 \<or> e = 97)
      | _ \<Rightarrow> False)"

definition validate_common_known_uri :: "Url \<Rightarrow> (PathUriParseError, unit) result" where
  "validate_common_known_uri url =
     (if url_username url \<noteq> [] \<or> url_password url \<noteq> None then Inl CredentialsNotAllowed
      else if url_port url \<noteq> None then Inl PortNotAllowed
      else if url_query url \<noteq> None then Inl QueryNotAllowed
      else if url_fragment url \<noteq> None then Inl FragmentNotAllowed
      else Inr ())"

definition validate_file_url :: "UrlLib \<Rightarrow> Url \<Rightarrow> (PathUriParseError, unit) result" where
  "validate_file_url lib url =
     and_then (validate_common_known_uri url) (\<lambda>_.
       if 0 \<in> set (decode_binary lib (encoded_path url)) \<and> decode_bad_path_uri lib url = None
       then Inl (InvalidFileUriPath (url_as_str url)) else Inr ())"

definition without_localhost_authority :: "Url \<Rightarrow> Url" where
  "without_localhost_authority url =
     (if url_host_str url = Some (lit ''localhost'') then url\<lparr>url_host_str := None\<rparr> else url)"

fun uppercase_drive :: "ustring list \<Rightarrow> ustring list" where
  "uppercase_drive [] = []"
| "uppercase_drive ([] # segments) = [] # uppercase_drive segments"
| "uppercase_drive ((c # cs) # segments) =
     (if is_windows_drive_uri_segment (c # cs) \<and> is_ascii_lowercase c then ((c - 32) # cs) # segments
      else (c # cs) # segments)"

definition with_normalized_windows_drive_letter :: "Url \<Rightarrow> Url" where
  "with_normalized_windows_drive_letter url =
     (if url_host_str url \<noteq> None then url
      else url\<lparr>url_path_segments := uppercase_drive (url_path_segments url)\<rparr>)"

definition path_uri_try_from :: "UrlLib \<Rightarrow> Url \<Rightarrow> (PathUriParseError, PathUri) result" where
  "path_uri_try_from lib url =
     (if url_scheme url \<noteq> FILE_SCHEME then Inl (UnsupportedScheme (url_scheme url))
      else and_then (validate_file_url lib url) (\<lambda>_.
             Inr (with_normalized_windows_drive_letter (without_localhost_authority url))))"

definition path_uri_parse :: "UrlLib \<Rightarrow> ustring \<Rightarrow> (PathUriParseError, PathUri) result" where
  "path_uri_parse lib uri =
     (case url_parse lib uri of Inl e \<Rightarrow> Inl (InvalidUri e) | Inr url \<Rightarrow> path_uri_try_from lib url)"

text \<open>The URL with the encoded bytes behind the reserved prefix; the source marks a failure to parse it as
  unreachable.\<close>

definition from_opaque_path_bytes :: "UrlLib \<Rightarrow> byte list \<Rightarrow> PathUri" where
  "from_opaque_path_bytes lib path_bytes =
     file_url None [lit ''%00'', lit ''bad'', lit ''path'', base64_encode lib path_bytes]"

section \<open>Conventions\<close>

text \<open>Pairs of bytes as 16-bit numbers, least significant byte first.\<close>

fun wide_chars :: "byte list \<Rightarrow> nat list" where
  "wide_chars (b # c # bs) = (unat b + 256 * unat c) # wide_chars bs"
| "wide_chars _ = []"

definition infer_opaque_path_convention :: "byte list \<Rightarrow> PathConvention option" where
  "infer_opaque_path_convention path_bytes =
     (if starts_with path_bytes [47] then Some Posix
      else if length path_bytes mod 2 \<noteq> 0 then None
      else (case wide_chars path_bytes of
              c # d # _ \<Rightarrow>
                if is_ascii_alphabetic c \<and> d = 58 \<or> c = 92 \<and> d = 92 then Some Windows else None
            | _ \<Rightarrow> None))"

definition nonempty_segments :: "Url \<Rightarrow> ustring list" where
  "nonempty_segments url = filter (\<lambda>segment. segment \<noteq> []) (url_path_segments url)"

definition starts_with_drive :: "Url \<Rightarrow> bool" where
  "starts_with_drive url =
     (case nonempty_segments url of [] \<Rightarrow> False | segment # _ \<Rightarrow> is_windows_drive_uri_segment segment)"

definition infer_path_convention :: "UrlLib \<Rightarrow> PathUri \<Rightarrow> PathConvention option" where
  "infer_path_convention lib uri =
     (case decode_bad_path_uri lib uri of
        Some path_bytes \<Rightarrow> infer_opaque_path_convention path_bytes
      | None \<Rightarrow>
          if url_host_str uri \<noteq> None then Some Windows
          else if starts_with_drive uri then Some Windows else Some Posix)"

definition is_opaque :: "UrlLib \<Rightarrow> PathUri \<Rightarrow> bool" where
  "is_opaque lib uri \<longleftrightarrow> decode_bad_path_uri lib uri \<noteq> None"

definition lower_bytes :: "byte list \<Rightarrow> nat list" where
  "lower_bytes bytes = map (ascii_lower \<circ> unat) bytes"

definition windows_identity_path_bytes :: "UrlLib \<Rightarrow> PathUri \<Rightarrow> byte list option" where
  "windows_identity_path_bytes lib uri =
     (if infer_path_convention lib uri \<noteq> Some Windows \<or> is_opaque lib uri \<or>
         list_ex (\<lambda>segment. list_ex (\<lambda>b. b = 47 \<or> b = 92) (decode_binary lib segment)) (url_path_segments uri)
      then None else Some (decode_binary lib (encoded_path uri)))"

definition uri_eq :: "UrlLib \<Rightarrow> PathUri \<Rightarrow> PathUri \<Rightarrow> bool" where
  "uri_eq lib self other \<longleftrightarrow>
     self = other \<or>
     (case (windows_identity_path_bytes lib self, windows_identity_path_bytes lib other) of
        (Some path, Some other_path) \<Rightarrow>
          url_host_str self = url_host_str other \<and> lower_bytes path = lower_bytes other_path
      | _ \<Rightarrow> False)"

section \<open>Containment\<close>

definition containment_path_segments :: "UrlLib \<Rightarrow> PathUri \<Rightarrow> PathConvention \<Rightarrow> ustring list option" where
  "containment_path_segments lib url convention =
     (let segments = nonempty_segments url
      in if list_ex (\<lambda>segment.
              list_ex (\<lambda>b. b = 47 \<or> convention = Windows \<and> b = 92) (decode_binary lib segment)) segments
         then None else Some segments)"

definition segment_eq :: "UrlLib \<Rightarrow> PathConvention \<Rightarrow> ustring \<Rightarrow> ustring \<Rightarrow> bool" where
  "segment_eq lib convention path base =
     (case convention of
        Posix \<Rightarrow> decode_binary lib path = decode_binary lib base
      | Windows \<Rightarrow>
          eq_ignore_ascii_case path base \<or>
          eq_ignore_ascii_case (decode_uri_path lib path) (decode_uri_path lib base))"

definition native_path_segments_start_with ::
  "UrlLib \<Rightarrow> PathConvention \<Rightarrow> ustring list \<Rightarrow> ustring list \<Rightarrow> bool" where
  "native_path_segments_start_with lib convention own_segments base_segments \<longleftrightarrow>
     length base_segments \<le> length own_segments \<and>
     list_all (\<lambda>(path, base). segment_eq lib convention path base) (zip own_segments base_segments)"

definition uri_starts_with :: "UrlLib \<Rightarrow> PathUri \<Rightarrow> PathUri \<Rightarrow> bool" where
  "uri_starts_with lib self base \<longleftrightarrow>
     uri_eq lib self base \<or>
     \<not> is_opaque lib self \<and> \<not> is_opaque lib base \<and> url_host_str self = url_host_str base \<and>
     infer_path_convention lib self = infer_path_convention lib base \<and>
     (let convention = (case infer_path_convention lib self of Some c \<Rightarrow> c | None \<Rightarrow> Posix)
      in case (containment_path_segments lib self convention, containment_path_segments lib base convention) of
           (Some own_segments, Some base_segments) \<Rightarrow>
             native_path_segments_start_with lib convention own_segments base_segments
         | _ \<Rightarrow> False)"

definition lexical_depth :: "UrlLib \<Rightarrow> PathUri \<Rightarrow> nat option" where
  "lexical_depth lib uri =
     (if is_opaque lib uri then None
      else (case infer_path_convention lib uri of
              None \<Rightarrow> None
            | Some convention \<Rightarrow> map_option length (containment_path_segments lib uri convention)))"

definition overlaps :: "UrlLib \<Rightarrow> PathUri \<Rightarrow> PathUri \<Rightarrow> bool option" where
  "overlaps lib self other =
     (if uri_eq lib self other then Some True
      else if lexical_depth lib self = None \<or> lexical_depth lib other = None then None
      else Some (uri_starts_with lib self other \<or> uri_starts_with lib other self))"

definition relative_path_from :: "UrlLib \<Rightarrow> PathUri \<Rightarrow> PathUri \<Rightarrow> ustring option" where
  "relative_path_from lib self base =
     (if uri_eq lib self base then Some []
      else if is_opaque lib self \<or> is_opaque lib base \<or> url_host_str self \<noteq> url_host_str base \<or>
              infer_path_convention lib self \<noteq> infer_path_convention lib base then None
      else Option.bind (infer_path_convention lib self) (\<lambda>convention.
           Option.bind (containment_path_segments lib self convention) (\<lambda>own_segments.
           Option.bind (containment_path_segments lib base convention) (\<lambda>base_segments.
             if \<not> native_path_segments_start_with lib convention own_segments base_segments then None
             else Some (join (case convention of Posix \<Rightarrow> [47] | Windows \<Rightarrow> [92])
                    (map (decode_uri_path lib) (drop (length base_segments) own_segments)))))))"

definition basename :: "UrlLib \<Rightarrow> PathUri \<Rightarrow> ustring option" where
  "basename lib uri =
     (if is_opaque lib uri then None else map_option (decode_uri_path lib) (last_opt (nonempty_segments uri)))"

section \<open>Native paths\<close>

fun normalize_segment :: "nat \<Rightarrow> nat \<times> ustring list \<times> bool \<Rightarrow> ustring \<Rightarrow> nat \<times> ustring list \<times> bool" where
  "normalize_segment anchor_depth (depth, normalized, has_trailing_separator) segment =
     (if segment = [] then (depth, normalized, True)
      else if segment = lit ''.'' then (depth, normalized, False)
      else if segment = lit ''..'' then
        (if anchor_depth < depth then (depth - 1, butlast normalized, False) else (depth, normalized, False))
      else (depth + 1, normalized @ [segment], False))"

definition anchor_depth_of :: "PathConvention \<Rightarrow> nat" where
  "anchor_depth_of convention = (case convention of Windows \<Rightarrow> 1 | Posix \<Rightarrow> 0)"

definition path_uri_from_segments ::
  "UrlLib \<Rightarrow> PathConvention \<Rightarrow> ustring option \<Rightarrow> ustring list \<Rightarrow> PathUri option" where
  "path_uri_from_segments lib convention host segments =
     (case (case host of None \<Rightarrow> Some None | Some h \<Rightarrow> map_option Some (url_set_host lib h)) of
        None \<Rightarrow> None
      | Some url_host \<Rightarrow>
          (case foldl (normalize_segment (anchor_depth_of convention)) (0, [], False) segments of
             (depth, normalized, has_trailing_separator) \<Rightarrow>
               let normalized =
                     (if has_trailing_separator \<or>
                         convention = Windows \<and> host = None \<and> depth = anchor_depth_of convention
                      then normalized @ [[]] else normalized)
               in case path_uri_try_from lib (file_url url_host (foldl (url_push_segment lib) [[]] normalized)) of
                    Inr uri \<Rightarrow> Some uri
                  | Inl _ \<Rightarrow> None))"

definition parse_posix_path :: "UrlLib \<Rightarrow> ustring \<Rightarrow> PathUri option" where
  "parse_posix_path lib path =
     (case strip_prefix (lit ''/'') path of
        None \<Rightarrow> None
      | Some names \<Rightarrow>
          if 0 \<in> set names then Some (from_opaque_path_bytes lib (utf8_bytes (lit ''/'' @ names)))
          else path_uri_from_segments lib Posix None (split_on 47 names))"

definition encode_utf16 :: "ustring \<Rightarrow> nat list" where
  "encode_utf16 text =
     concat (map (\<lambda>c. if c < 65536 then [c] else [55296 + (c - 65536) div 1024, 56320 + (c - 65536) mod 1024]) text)"

definition windows_opaque_path_uri :: "UrlLib \<Rightarrow> ustring \<Rightarrow> PathUri" where
  "windows_opaque_path_uri lib path =
     from_opaque_path_bytes lib (concat (map (\<lambda>w. [of_nat (w mod 256), of_nat (w div 256)]) (encode_utf16 path)))"

definition is_windows_separator_char :: "uchar \<Rightarrow> bool" where
  "is_windows_separator_char c \<longleftrightarrow> c = 92 \<or> c = 47"

definition is_windows_drive_absolute_path :: "ustring \<Rightarrow> bool" where
  "is_windows_drive_absolute_path path =
     (case path of
        drive # colon # separator # _ \<Rightarrow>
          is_ascii_alphabetic drive \<and> colon = 58 \<and> is_windows_separator_char separator
      | _ \<Rightarrow> False)"

definition normalize_windows_device_path :: "ustring \<Rightarrow> ustring option" where
  "normalize_windows_device_path path =
     (let verbatim = [92, 92, 63, 92]; device = [92, 92, 46, 92]; unc = lit ''UNC'' @ [92]
      in case strip_prefix (verbatim @ unc) path of
           Some share \<Rightarrow> Some ([92, 92] @ share)
         | None \<Rightarrow>
         (case strip_prefix (device @ unc) path of
           Some share \<Rightarrow> Some ([92, 92] @ share)
         | None \<Rightarrow>
             if is_some_and (strip_prefix verbatim path) is_windows_drive_absolute_path
             then strip_prefix verbatim path
             else if is_some_and (strip_prefix device path) is_windows_drive_absolute_path
             then strip_prefix device path
             else None))"

definition uses_namespace :: "ustring \<Rightarrow> bool" where
  "uses_namespace path =
     (case path of
        a # b # namespace # c # _ \<Rightarrow>
          is_windows_separator_char a \<and> is_windows_separator_char b \<and> is_windows_separator_char c \<and>
          (namespace = 46 \<or> namespace = 63)
      | _ \<Rightarrow> False)"

definition parse_unnormalized_windows_path :: "UrlLib \<Rightarrow> ustring \<Rightarrow> PathUri option" where
  "parse_unnormalized_windows_path lib path =
     (if uses_namespace path \<or> 0 \<in> set path then Some (windows_opaque_path_uri lib path)
      else if is_windows_drive_absolute_path path
      then path_uri_from_segments lib Windows None
             (take 2 path # split_by is_windows_separator_char (drop 3 path))
      else (case path of
              a # b # share_path \<Rightarrow>
                if is_windows_separator_char a \<and> is_windows_separator_char b then
                  (case split_by is_windows_separator_char share_path of
                     host # share # names \<Rightarrow>
                       if host = [] \<or> share = [] then None
                       else (case path_uri_from_segments lib Windows (Some host) (share # names) of
                               Some uri \<Rightarrow> Some uri
                             | None \<Rightarrow> Some (windows_opaque_path_uri lib path))
                   | _ \<Rightarrow> None)
                else None
            | _ \<Rightarrow> None))"

definition not_a_name :: "ustring option \<Rightarrow> bool" where
  "not_a_name component \<longleftrightarrow>
     component = None \<or> component = Some [] \<or> component = Some (lit ''.'') \<or> component = Some (lit ''..'')"

definition nth_opt :: "'a list \<Rightarrow> nat \<Rightarrow> 'a option" where
  "nth_opt xs n = (if n < length xs then Some (xs ! n) else None)"

definition parse_windows_path :: "UrlLib \<Rightarrow> ustring \<Rightarrow> PathUri option" where
  "parse_windows_path lib path =
     (case normalize_windows_device_path path of
        None \<Rightarrow> parse_unnormalized_windows_path lib path
      | Some normalized_path \<Rightarrow>
          let unc_path = strip_prefix [92, 92] normalized_path
          in if is_some_and unc_path (\<lambda>p.
                  let names = split_by is_windows_separator_char p
                  in not_a_name (nth_opt names 0) \<or> not_a_name (nth_opt names 1))
             then Some (windows_opaque_path_uri lib path)
             else (case parse_unnormalized_windows_path lib normalized_path of
                     None \<Rightarrow> Some (windows_opaque_path_uri lib path)
                   | Some uri \<Rightarrow>
                       if infer_path_convention lib uri = Some Windows \<and> \<not> is_opaque lib uri \<and>
                          (unc_path = None \<or> is_some_and (url_host_str uri) (\<lambda>host. host \<noteq> []))
                       then Some uri else Some (windows_opaque_path_uri lib path)))"

definition from_absolute_native_path :: "UrlLib \<Rightarrow> ustring \<Rightarrow> PathConvention \<Rightarrow> PathUri option" where
  "from_absolute_native_path lib path convention =
     map_option (\<lambda>uri.
         if url_host_str uri \<noteq> Some [] \<and> infer_path_convention lib uri = Some convention then uri
         else (case convention of
                 Posix \<Rightarrow> from_opaque_path_bytes lib (utf8_bytes path)
               | Windows \<Rightarrow> windows_opaque_path_uri lib path))
       (case convention of Posix \<Rightarrow> parse_posix_path lib path | Windows \<Rightarrow> parse_windows_path lib path)"

text \<open>Conversion from and to the paths of the host, which follow the POSIX convention. A path is text in
  this model, so bytes that are not text have no path.\<close>

definition native_url :: "UrlLib \<Rightarrow> ustring \<Rightarrow> PathUri option" where
  "native_url lib path =
     (case url_from_file_path lib path of
        None \<Rightarrow> None
      | Some url \<Rightarrow>
          (case path_uri_try_from lib url of
             Inl _ \<Rightarrow> None
           | Inr uri \<Rightarrow>
               if url_host_str uri \<noteq> Some [] \<and> infer_path_convention lib uri = Some Posix then Some uri else None))"

definition from_abs_path :: "UrlLib \<Rightarrow> AbsolutePathBuf \<Rightarrow> PathUri" where
  "from_abs_path lib path =
     (case native_url lib (absolute_text path) of
        Some uri \<Rightarrow> uri
      | None \<Rightarrow> from_opaque_path_bytes lib (utf8_bytes (absolute_text path)))"

definition from_host_native_path :: "UrlLib \<Rightarrow> PathEnv \<Rightarrow> ustring \<Rightarrow> PathUri option" where
  "from_host_native_path lib penv path = map_option (from_abs_path lib) (from_absolute_path_checked penv path)"

definition to_abs_path :: "UrlLib \<Rightarrow> PathEnv \<Rightarrow> PathUri \<Rightarrow> AbsolutePathBuf option" where
  "to_abs_path lib penv self =
     (if infer_path_convention lib self \<noteq> Some Posix then None
      else (case decode_bad_path_uri lib self of
              Some path_bytes \<Rightarrow>
                (case from_utf8 path_bytes of
                   Inl _ \<Rightarrow> None
                 | Inr decoded_path \<Rightarrow>
                     (case from_absolute_path_checked penv decoded_path of
                        None \<Rightarrow> None
                      | Some path \<Rightarrow> if uri_eq lib (from_abs_path lib path) self then Some path else None))
            | None \<Rightarrow> Option.bind (url_to_file_path lib self) (from_absolute_path_checked penv)))"

section \<open>Lexical operations\<close>

definition uri_parent :: "UrlLib \<Rightarrow> PathUri \<Rightarrow> PathUri option" where
  "uri_parent lib self =
     (if is_opaque lib self then None
      else (case infer_path_convention lib self of
              None \<Rightarrow> None
            | Some convention \<Rightarrow>
                if length (nonempty_segments self) \<le> anchor_depth_of convention then None
                else Some (self\<lparr>url_path_segments := pop_segment (pop_if_empty (url_path_segments self))\<rparr>)))"

function uri_ancestors :: "UrlLib \<Rightarrow> PathUri \<Rightarrow> PathUri list" where
  "uri_ancestors lib self =
     self # (case uri_parent lib self of None \<Rightarrow> [] | Some parent \<Rightarrow> uri_ancestors lib parent)"
  by pat_completeness auto

termination uri_ancestors
proof (relation "measure (\<lambda>(_, uri). length (url_path_segments uri) + length (nonempty_segments uri))")
  fix lib self parent
  assume parent: "uri_parent lib self = Some parent"
  let ?segments = "url_path_segments self"
  have segments: "url_path_segments parent = pop_segment (pop_if_empty ?segments)" "nonempty_segments self \<noteq> []"
    using parent by (auto simp: uri_parent_def split: if_splits option.splits)
  show "((lib, parent), (lib, self)) \<in> measure (\<lambda>(_, uri). length (url_path_segments uri) + length (nonempty_segments uri))"
  proof (cases "1 < length ?segments")
    case True
    then have "length (url_path_segments parent) < length ?segments"
      by (auto simp: segments(1) pop_segment_def pop_if_empty_def)
    moreover have "length (nonempty_segments parent) \<le> length (nonempty_segments self)"
      unfolding nonempty_segments_def segments(1) pop_segment_def pop_if_empty_def
      by (cases ?segments rule: rev_cases; cases "butlast ?segments" rule: rev_cases) (auto simp: butlast_append)
    ultimately show ?thesis by simp
  next
    case False
    then obtain segment where "?segments = [segment]"
      using segments(2) by (cases ?segments) (auto simp: nonempty_segments_def)
    then show ?thesis
      using segments by (auto simp: nonempty_segments_def pop_segment_def pop_if_empty_def split: if_splits)
  qed
qed simp

declare uri_ancestors.simps [simp del]

definition join_step :: "UrlLib \<Rightarrow> nat \<Rightarrow> ustring list \<times> nat \<Rightarrow> ustring \<Rightarrow> ustring list \<times> nat" where
  "join_step lib anchor_depth state component =
     (case state of (segments, depth) \<Rightarrow>
        if component = [] \<or> component = lit ''.'' then (segments, depth)
        else if component = lit ''..'' then
          (if anchor_depth < depth then (pop_segment segments, depth - 1) else (segments, depth))
        else (url_push_segment lib segments component, depth + 1))"

text \<open>A Windows path that names a drive is relative to the same drive only.\<close>

definition relative_to_drive :: "PathUri \<Rightarrow> ustring \<Rightarrow> ustring option" where
  "relative_to_drive self path =
     (case path of
        drive # c # names \<Rightarrow>
          if is_ascii_alphabetic drive \<and> c = 58 then
            (case nonempty_segments self of
               (d # ds) # _ \<Rightarrow>
                 if is_windows_drive_uri_segment (d # ds) \<and> ascii_lower d = ascii_lower drive
                 then Some names else None
             | _ \<Rightarrow> None)
          else Some path
      | _ \<Rightarrow> Some path)"

definition windows_root_relative :: "ustring \<Rightarrow> bool" where
  "windows_root_relative path =
     (case path of
        [] \<Rightarrow> False
      | c # names \<Rightarrow> is_windows_separator_char c \<and> \<not> (names \<noteq> [] \<and> is_windows_separator_char (hd names)))"

definition join_segments :: "UrlLib \<Rightarrow> PathConvention \<Rightarrow> PathUri \<Rightarrow> ustring \<Rightarrow> ustring list" where
  "join_segments lib convention self path =
     (let anchor_depth = anchor_depth_of convention;
          depth = length (nonempty_segments self);
          segments = pop_if_empty (url_path_segments self);
          start = (if convention = Windows \<and> windows_root_relative path
                   then ((pop_segment ^^ (depth - anchor_depth)) segments, min depth anchor_depth)
                   else (segments, depth))
      in fst (foldl (join_step lib anchor_depth) start (split_by (\<lambda>c. c = 47 \<or> convention = Windows \<and> c = 92) path)))"

definition uri_join :: "UrlLib \<Rightarrow> PathUri \<Rightarrow> ustring \<Rightarrow> (PathUriParseError, PathUri) result" where
  "uri_join lib self path =
     (if 0 \<in> set path then Inl (InvalidFileUriPath path)
      else if path = [] then Inr self
      else (case infer_path_convention lib self of
              None \<Rightarrow> Inl (InvalidFileUriPath (url_as_str self))
            | Some convention \<Rightarrow>
                (case from_absolute_native_path lib path convention of
                   Some absolute \<Rightarrow> Inr absolute
                 | None \<Rightarrow>
                     (case (if convention = Windows then relative_to_drive self path else Some path) of
                        None \<Rightarrow> Inl (InvalidFileUriPath path)
                      | Some relative \<Rightarrow>
                          if is_opaque lib self then Inl (InvalidFileUriPath (url_as_str self))
                          else path_uri_try_from lib
                                 (self\<lparr>url_path_segments := join_segments lib convention self relative\<rparr>)))))"

definition join_descendant :: "UrlLib \<Rightarrow> PathUri \<Rightarrow> ustring \<Rightarrow> (PathUriParseError, PathUri) result" where
  "join_descendant lib self path =
     and_then (uri_join lib self path) (\<lambda>descendant.
       let windows = (infer_path_convention lib self = Some Windows)
       in if starts_with path (lit ''/'') \<or>
             windows \<and> (starts_with path [92] \<or> list_ex (\<lambda>segment. 58 \<in> set segment) (path_segments Windows path)) \<or>
             \<not> uri_starts_with lib descendant self
          then Inl (JoinPathMustBeDescendant path) else Inr descendant)"

end
