(* ===== verification/File_Permissions.thy ===== *)
theory File_Permissions
  imports Path_Uri "HOL-Library.Product_Lexorder"
begin

text \<open>
  File system permissions (\<open>protocol/src/permissions.rs\<close>, and the profiles of \<open>protocol/src/models.rs\<close>): a
  policy is a list of entries that grant or deny access below a path, the most specific entry that
  contains a path decides, and the metadata directories of a workspace stay protected unless an entry
  grants them explicitly.

  The environment of the host and its files are arguments. Access is resolved lexically; the matching of
  glob patterns and the expansion of symbolic links are not modelled.
\<close>

section \<open>Policies\<close>

datatype FileSystemAccessMode = Read | Write | Deny

fun precedence :: "FileSystemAccessMode \<Rightarrow> nat" where
  "precedence Read = 0"
| "precedence Write = 1"
| "precedence Deny = 2"

instantiation FileSystemAccessMode :: linorder
begin

definition less_eq_FileSystemAccessMode :: "FileSystemAccessMode \<Rightarrow> FileSystemAccessMode \<Rightarrow> bool" where
  "less_eq_FileSystemAccessMode a b \<longleftrightarrow> precedence a \<le> precedence b"

definition less_FileSystemAccessMode :: "FileSystemAccessMode \<Rightarrow> FileSystemAccessMode \<Rightarrow> bool" where
  "less_FileSystemAccessMode a b \<longleftrightarrow> precedence a < precedence b"

instance
proof
  fix a b :: FileSystemAccessMode
  show "a \<le> b \<Longrightarrow> b \<le> a \<Longrightarrow> a = b"
    by (cases a; cases b) (simp_all add: less_eq_FileSystemAccessMode_def)
qed (auto simp: less_eq_FileSystemAccessMode_def less_FileSystemAccessMode_def)

end

definition can_read :: "FileSystemAccessMode \<Rightarrow> bool" where
  "can_read access \<longleftrightarrow> access \<noteq> Deny"

definition can_write :: "FileSystemAccessMode \<Rightarrow> bool" where
  "can_write access \<longleftrightarrow> access = Write"

datatype FileSystemSpecialPath =
    Root
  | Minimal
  | ProjectRoots "ustring option"
  | Tmpdir
  | SlashTmp
  | UnknownSpecial ustring "ustring option"

datatype FileSystemPath = PathEntry PathUri | GlobPattern ustring | Special FileSystemSpecialPath

datatype FileSystemSandboxEntryMissingPathBehavior = SkipMissing

record FileSystemSandboxEntry =
  entry_path :: FileSystemPath
  entry_access :: FileSystemAccessMode
  missing_path_behavior :: "FileSystemSandboxEntryMissingPathBehavior option"

definition new_entry :: "FileSystemPath \<Rightarrow> FileSystemAccessMode \<Rightarrow> FileSystemSandboxEntry" where
  "new_entry path access = \<lparr>entry_path = path, entry_access = access, missing_path_behavior = None\<rparr>"

definition skip_missing_path :: "FileSystemPath \<Rightarrow> FileSystemAccessMode \<Rightarrow> FileSystemSandboxEntry" where
  "skip_missing_path path access =
     \<lparr>entry_path = path, entry_access = access, missing_path_behavior = Some SkipMissing\<rparr>"

definition skips_missing_path :: "FileSystemSandboxEntry \<Rightarrow> bool" where
  "skips_missing_path entry \<longleftrightarrow> missing_path_behavior entry = Some SkipMissing"

datatype FileSystemSandboxKind = Restricted | Unrestricted | ExternalSandbox

record FileSystemSandboxPolicy =
  policy_kind :: FileSystemSandboxKind
  glob_scan_max_depth :: "nat option"
  policy_entries :: "FileSystemSandboxEntry list"

record FileSystemSandboxPolicyContext =
  context_cwd :: PathUri
  context_workspace_roots :: "PathUri list"
  context_user_home_dir :: "PathUri option"
  context_temporary_directories :: "PathUri list option"

definition unrestricted :: FileSystemSandboxPolicy where
  "unrestricted = \<lparr>policy_kind = Unrestricted, glob_scan_max_depth = None, policy_entries = []\<rparr>"

definition external_sandbox :: FileSystemSandboxPolicy where
  "external_sandbox = \<lparr>policy_kind = ExternalSandbox, glob_scan_max_depth = None, policy_entries = []\<rparr>"

definition restricted :: "FileSystemSandboxEntry list \<Rightarrow> FileSystemSandboxPolicy" where
  "restricted entries = \<lparr>policy_kind = Restricted, glob_scan_max_depth = None, policy_entries = entries\<rparr>"

datatype ManagedFileSystemPermissions =
  RestrictedEntries "FileSystemSandboxEntry list" "nat option"
| UnrestrictedEntries

datatype NetworkSandboxPolicy = NetworkRestricted | NetworkEnabled

datatype PermissionProfile =
  Managed ManagedFileSystemPermissions NetworkSandboxPolicy
| Disabled
| External NetworkSandboxPolicy

fun to_sandbox_policy :: "ManagedFileSystemPermissions \<Rightarrow> FileSystemSandboxPolicy" where
  "to_sandbox_policy (RestrictedEntries entries depth) =
     \<lparr>policy_kind = Restricted, glob_scan_max_depth = depth, policy_entries = entries\<rparr>"
| "to_sandbox_policy UnrestrictedEntries = unrestricted"

fun file_system_sandbox_policy :: "PermissionProfile \<Rightarrow> FileSystemSandboxPolicy" where
  "file_system_sandbox_policy (Managed file_system _) = to_sandbox_policy file_system"
| "file_system_sandbox_policy Disabled = unrestricted"
| "file_system_sandbox_policy (External _) = external_sandbox"

definition read_only_file_system_entries :: "FileSystemSandboxEntry list" where
  "read_only_file_system_entries = [new_entry (Special Root) Read]"

definition read_only :: FileSystemSandboxPolicy where
  "read_only = restricted read_only_file_system_entries"

definition remove_skip_missing_path_entries :: "FileSystemSandboxPolicy \<Rightarrow> FileSystemSandboxPolicy" where
  "remove_skip_missing_path_entries policy =
     policy\<lparr>policy_entries := filter (\<lambda>entry. \<not> skips_missing_path entry) (policy_entries policy)\<rparr>"

definition has_root_access :: "FileSystemSandboxPolicy \<Rightarrow> (FileSystemAccessMode \<Rightarrow> bool) \<Rightarrow> bool" where
  "has_root_access policy p \<longleftrightarrow>
     policy_kind policy = Restricted \<and>
     list_ex (\<lambda>entry. entry_path entry = Special Root \<and> p (entry_access entry)) (policy_entries policy)"

definition has_denied_read_restrictions :: "FileSystemSandboxPolicy \<Rightarrow> bool" where
  "has_denied_read_restrictions policy \<longleftrightarrow>
     policy_kind policy = Restricted \<and> list_ex (\<lambda>entry. entry_access entry = Deny) (policy_entries policy)"

section \<open>Entries with the same target\<close>

record PolicyEnv =
  env_url :: UrlLib
  env_path :: PathEnv
  env_tmpdir :: "ustring option"
  is_dir :: "AbsolutePathBuf \<Rightarrow> bool"
  is_file :: "AbsolutePathBuf \<Rightarrow> bool"
  path_exists :: "AbsolutePathBuf \<Rightarrow> bool"
  read_to_string :: "AbsolutePathBuf \<Rightarrow> ustring option"

text \<open>Equality of URIs ignores case on Windows, so equality of paths and entries does.\<close>

fun file_system_path_eq :: "UrlLib \<Rightarrow> FileSystemPath \<Rightarrow> FileSystemPath \<Rightarrow> bool" where
  "file_system_path_eq lib (PathEntry left) (PathEntry right) = uri_eq lib left right"
| "file_system_path_eq lib left right = (left = right)"

definition entry_eq :: "UrlLib \<Rightarrow> FileSystemSandboxEntry \<Rightarrow> FileSystemSandboxEntry \<Rightarrow> bool" where
  "entry_eq lib left right \<longleftrightarrow>
     file_system_path_eq lib (entry_path left) (entry_path right) \<and> entry_access left = entry_access right \<and>
     missing_path_behavior left = missing_path_behavior right"

fun special_path_matches_absolute_path :: "FileSystemSpecialPath \<Rightarrow> AbsolutePathBuf \<Rightarrow> bool" where
  "special_path_matches_absolute_path Root path \<longleftrightarrow> path = []"
| "special_path_matches_absolute_path SlashTmp path \<longleftrightarrow> path = [lit ''tmp'']"
| "special_path_matches_absolute_path _ path \<longleftrightarrow> False"

text \<open>\<open>special_paths_share_target\<close> compares two special paths by their tags and arguments.\<close>

fun special_paths_share_target :: "FileSystemSpecialPath \<Rightarrow> FileSystemSpecialPath \<Rightarrow> bool" where
  "special_paths_share_target Root Root = True"
| "special_paths_share_target Minimal Minimal = True"
| "special_paths_share_target Tmpdir Tmpdir = True"
| "special_paths_share_target SlashTmp SlashTmp = True"
| "special_paths_share_target (ProjectRoots left) (ProjectRoots right) = (left = right)"
| "special_paths_share_target (UnknownSpecial left left_subpath) (UnknownSpecial right right_subpath) =
     (left = right \<and> left_subpath = right_subpath)"
| "special_paths_share_target _ _ = False"

fun file_system_paths_share_target :: "PolicyEnv \<Rightarrow> FileSystemPath \<Rightarrow> FileSystemPath \<Rightarrow> bool" where
  "file_system_paths_share_target env (PathEntry left) (PathEntry right) = uri_eq (env_url env) left right"
| "file_system_paths_share_target env (Special left) (Special right) = special_paths_share_target left right"
| "file_system_paths_share_target env (PathEntry path) (Special special) =
     is_some_and (to_abs_path (env_url env) (env_path env) path) (special_path_matches_absolute_path special)"
| "file_system_paths_share_target env (Special special) (PathEntry path) =
     is_some_and (to_abs_path (env_url env) (env_path env) path) (special_path_matches_absolute_path special)"
| "file_system_paths_share_target env (GlobPattern left) (GlobPattern right) = (left = right)"
| "file_system_paths_share_target env _ _ = False"

definition has_same_target_write_override ::
  "PolicyEnv \<Rightarrow> FileSystemSandboxPolicy \<Rightarrow> FileSystemSandboxEntry \<Rightarrow> bool" where
  "has_same_target_write_override env policy entry =
     list_ex (\<lambda>candidate.
         can_write (entry_access candidate) \<and> entry_access entry < entry_access candidate \<and>
         file_system_paths_share_target env (entry_path candidate) (entry_path entry))
       (policy_entries policy)"

definition narrows_write :: "PolicyEnv \<Rightarrow> FileSystemSandboxPolicy \<Rightarrow> FileSystemSandboxEntry \<Rightarrow> bool" where
  "narrows_write env policy entry \<longleftrightarrow>
     \<not> can_write (entry_access entry) \<and>
     (case entry_path entry of
        PathEntry _ \<Rightarrow> \<not> has_same_target_write_override env policy entry
      | GlobPattern _ \<Rightarrow> True
      | Special special \<Rightarrow>
          (case special of
             Root \<Rightarrow> entry_access entry = Deny
           | Minimal \<Rightarrow> False
           | UnknownSpecial _ _ \<Rightarrow> False
           | _ \<Rightarrow> \<not> has_same_target_write_override env policy entry))"

definition has_write_narrowing_entries :: "PolicyEnv \<Rightarrow> FileSystemSandboxPolicy \<Rightarrow> bool" where
  "has_write_narrowing_entries env policy \<longleftrightarrow>
     policy_kind policy = Restricted \<and> list_ex (narrows_write env policy) (policy_entries policy)"

definition has_full_disk_read_access :: "FileSystemSandboxPolicy \<Rightarrow> bool" where
  "has_full_disk_read_access policy =
     (case policy_kind policy of
        Restricted \<Rightarrow> has_root_access policy can_read \<and> \<not> has_denied_read_restrictions policy
      | _ \<Rightarrow> True)"

definition has_full_disk_write_access :: "PolicyEnv \<Rightarrow> FileSystemSandboxPolicy \<Rightarrow> bool" where
  "has_full_disk_write_access env policy =
     (case policy_kind policy of
        Restricted \<Rightarrow> has_root_access policy can_write \<and> \<not> has_write_narrowing_entries env policy
      | _ \<Rightarrow> True)"

definition include_platform_defaults :: "FileSystemSandboxPolicy \<Rightarrow> bool" where
  "include_platform_defaults policy \<longleftrightarrow>
     \<not> has_full_disk_read_access policy \<and> policy_kind policy = Restricted \<and>
     list_ex (\<lambda>entry. entry_path entry = Special Minimal \<and> can_read (entry_access entry)) (policy_entries policy)"

section \<open>Resolution of paths\<close>

definition file_system_root :: "UrlLib \<Rightarrow> FileSystemSandboxPolicyContext \<Rightarrow> PathUri option" where
  "file_system_root lib ctx =
     (if lexical_depth lib (context_cwd ctx) = None then None
      else last_opt (uri_ancestors lib (context_cwd ctx)))"

definition result_list :: "('e, 'a) result \<Rightarrow> 'a list" where
  "result_list r = (case r of Inl _ \<Rightarrow> [] | Inr x \<Rightarrow> [x])"

definition entry_paths :: "UrlLib \<Rightarrow> FileSystemSandboxPolicyContext \<Rightarrow> FileSystemPath \<Rightarrow> PathUri list" where
  "entry_paths lib ctx path =
     (case path of
        PathEntry p \<Rightarrow> [p]
      | GlobPattern _ \<Rightarrow> []
      | Special special \<Rightarrow>
          (case special of
             Root \<Rightarrow> (case file_system_root lib ctx of None \<Rightarrow> [] | Some root \<Rightarrow> [root])
           | ProjectRoots subpath \<Rightarrow>
               concat (map (\<lambda>root. case subpath of
                   Some s \<Rightarrow> result_list (uri_join lib root s)
                 | None \<Rightarrow> [root]) (context_workspace_roots ctx))
           | Tmpdir \<Rightarrow> (case context_temporary_directories ctx of None \<Rightarrow> [] | Some dirs \<Rightarrow> dirs)
           | SlashTmp \<Rightarrow>
               if infer_path_convention lib (context_cwd ctx) = Some Posix
               then result_list (uri_join lib (context_cwd ctx) (lit ''/tmp'')) else []
           | Minimal \<Rightarrow> []
           | UnknownSpecial _ _ \<Rightarrow> []))"

definition resolved_entries ::
  "UrlLib \<Rightarrow> FileSystemSandboxPolicy \<Rightarrow> FileSystemSandboxPolicyContext \<Rightarrow> (PathUri \<times> FileSystemAccessMode) list" where
  "resolved_entries lib policy ctx =
     concat (map (\<lambda>entry.
         map (\<lambda>path. (path, entry_access entry))
           (filter (\<lambda>path. infer_path_convention lib path = infer_path_convention lib (context_cwd ctx))
             (entry_paths lib ctx (entry_path entry))))
       (policy_entries policy))"

text \<open>The depth of each root. Opaque roots are skipped; any other root without a depth fails the whole
  resolution.\<close>

fun entries_with_depth ::
  "UrlLib \<Rightarrow> (PathUri \<times> FileSystemAccessMode) list \<Rightarrow> (PathUri \<times> FileSystemAccessMode \<times> nat) list option" where
  "entries_with_depth lib [] = Some []"
| "entries_with_depth lib ((root, access) # entries) =
     (case lexical_depth lib root of
        Some depth \<Rightarrow> map_option ((#) (root, access, depth)) (entries_with_depth lib entries)
      | None \<Rightarrow> if is_opaque lib root then entries_with_depth lib entries else None)"

definition resolve_access ::
  "UrlLib \<Rightarrow> FileSystemSandboxPolicy \<Rightarrow> PathUri \<Rightarrow> FileSystemSandboxPolicyContext \<Rightarrow> FileSystemAccessMode" where
  "resolve_access lib policy path ctx =
     (if policy_kind policy \<noteq> Restricted then Write
      else (case infer_path_convention lib (context_cwd ctx) of
              None \<Rightarrow> Deny
            | Some convention \<Rightarrow>
                if infer_path_convention lib path \<noteq> Some convention \<or> lexical_depth lib path = None \<or>
                   lexical_depth lib (context_cwd ctx) = None then Deny
                else (case entries_with_depth lib (resolved_entries lib policy ctx) of
                        None \<Rightarrow> Deny
                      | Some entries \<Rightarrow>
                          (case max_by_key (\<lambda>(_, access, depth). (depth, access))
                                  (filter (\<lambda>(root, _, _). uri_starts_with lib path root) entries) of
                             None \<Rightarrow> Deny
                           | Some (_, access, _) \<Rightarrow> access))))"

definition PROTECTED_METADATA_PATH_NAMES :: "ustring list" where
  "PROTECTED_METADATA_PATH_NAMES = [lit ''.git'', lit ''.agents'', lit ''.codex'']"

definition is_protected_metadata_name :: "ustring \<Rightarrow> bool" where
  "is_protected_metadata_name name = list_ex (\<lambda>metadata_name. name = metadata_name) PROTECTED_METADATA_PATH_NAMES"

definition protected_below :: "UrlLib \<Rightarrow> PathUri \<Rightarrow> PathUri \<Rightarrow> (PathUri \<times> ustring) option" where
  "protected_below lib path root =
     find_map (\<lambda>metadata_name.
         case join_descendant lib root metadata_name of
           Inl _ \<Rightarrow> None
         | Inr protected \<Rightarrow> if uri_starts_with lib path protected then Some (protected, metadata_name) else None)
       PROTECTED_METADATA_PATH_NAMES"

definition metadata_write_denial ::
  "UrlLib \<Rightarrow> FileSystemSandboxPolicy \<Rightarrow> PathUri \<Rightarrow> FileSystemSandboxPolicyContext \<Rightarrow> ustring option" where
  "metadata_write_denial lib policy path ctx =
     (if policy_kind policy \<noteq> Restricted then None
      else
        (let entries = resolved_entries lib policy ctx
         in case find_map (\<lambda>(root, _). protected_below lib path root)
                   (filter (\<lambda>(_, access). can_write access) entries) of
              None \<Rightarrow> None
            | Some (protected, metadata_name) \<Rightarrow>
                if list_ex (\<lambda>(root, access).
                     can_write access \<and> uri_starts_with lib path root \<and> uri_starts_with lib root protected) entries
                then None else Some metadata_name))"

definition can_write_path ::
  "PolicyEnv \<Rightarrow> FileSystemSandboxPolicy \<Rightarrow> PathUri \<Rightarrow> FileSystemSandboxPolicyContext \<Rightarrow> bool" where
  "can_write_path env policy path ctx \<longleftrightarrow>
     can_write (resolve_access (env_url env) policy path ctx) \<and>
     (has_full_disk_write_access env policy \<or> metadata_write_denial (env_url env) policy path ctx = None)"

section \<open>Paths of the host\<close>

definition resolve_candidate_path :: "PathEnv \<Rightarrow> ustring \<Rightarrow> ustring \<Rightarrow> AbsolutePathBuf option" where
  "resolve_candidate_path penv path cwd =
     (if is_absolute_path path then from_absolute_path penv path
      else map_option (\<lambda>base. absolute_join penv base path) (from_absolute_path penv cwd))"

definition local_temporary_directories :: "PolicyEnv \<Rightarrow> PathUri list" where
  "local_temporary_directories env =
     (case env_tmpdir env of
        None \<Rightarrow> []
      | Some tmpdir \<Rightarrow>
          if tmpdir = [] then []
          else (case from_absolute_path (env_path env) tmpdir of
                  None \<Rightarrow> []
                | Some path \<Rightarrow> [from_abs_path (env_url env) path]))"

definition local_context :: "PolicyEnv \<Rightarrow> AbsolutePathBuf \<Rightarrow> FileSystemSandboxPolicyContext" where
  "local_context env cwd =
     \<lparr>context_cwd = from_abs_path (env_url env) cwd,
      context_workspace_roots = [from_abs_path (env_url env) cwd],
      context_user_home_dir = from_host_native_path (env_url env) (env_path env) (lit ''~''),
      context_temporary_directories = Some (local_temporary_directories env)\<rparr>"

definition with_local_policy_context ::
  "PolicyEnv \<Rightarrow> ustring \<Rightarrow> ustring \<Rightarrow> (PathUri \<Rightarrow> FileSystemSandboxPolicyContext \<Rightarrow> 'a) \<Rightarrow> 'a option" where
  "with_local_policy_context env path cwd evaluate =
     Option.bind (from_absolute_path (env_path env) cwd) (\<lambda>cwd.
     Option.bind (resolve_candidate_path (env_path env) path (absolute_text cwd)) (\<lambda>path.
       Some (evaluate (from_abs_path (env_url env) path) (local_context env cwd))))"

definition resolve_access_with_cwd :: "PolicyEnv \<Rightarrow> FileSystemSandboxPolicy \<Rightarrow> ustring \<Rightarrow> ustring \<Rightarrow> FileSystemAccessMode" where
  "resolve_access_with_cwd env policy path cwd =
     (case with_local_policy_context env path cwd (resolve_access (env_url env) policy) of
        None \<Rightarrow> Deny | Some access \<Rightarrow> access)"

definition can_read_path_with_cwd :: "PolicyEnv \<Rightarrow> FileSystemSandboxPolicy \<Rightarrow> ustring \<Rightarrow> ustring \<Rightarrow> bool" where
  "can_read_path_with_cwd env policy path cwd = can_read (resolve_access_with_cwd env policy path cwd)"

definition can_write_path_with_cwd :: "PolicyEnv \<Rightarrow> FileSystemSandboxPolicy \<Rightarrow> ustring \<Rightarrow> ustring \<Rightarrow> bool" where
  "can_write_path_with_cwd env policy path cwd =
     (case with_local_policy_context env path cwd (can_write_path env policy) of None \<Rightarrow> False | Some b \<Rightarrow> b)"

definition forbidden_agent_metadata_write :: "PolicyEnv \<Rightarrow> ustring \<Rightarrow> ustring \<Rightarrow> FileSystemSandboxPolicy \<Rightarrow> ustring option" where
  "forbidden_agent_metadata_write env path cwd policy =
     (if policy_kind policy \<noteq> Restricted then None
      else Option.bind (with_local_policy_context env path cwd (\<lambda>path ctx.
             if can_write_path env policy path ctx then None
             else metadata_write_denial (env_url env) policy path ctx)) id)"

end
