(* ===== verification/Exec_Approval.thy ===== *)
theory Exec_Approval
  imports Exec_Rules Shell_Commands File_Permissions
begin

text \<open>
  Approval of commands (\<open>core/src/exec_policy.rs\<close> with \<open>model_policy.rs\<close> and \<open>executable_identity.rs\<close>), on
  Unix: the segments of a command are checked against the execution policy, with heuristics for
  segments that no rule covers, and the strictest decision becomes a requirement on the approval of
  the user. Accepted amendments are written to the policy file and added to the policy in memory.
\<close>

section \<open>Requests\<close>

record GranularApprovalConfig =
  sandbox_approval :: bool
  rules_approval :: bool
  skill_approval :: bool
  request_permissions :: bool
  mcp_elicitations :: bool

datatype AskForApproval = UnlessTrusted | OnRequest | Granular GranularApprovalConfig | Never

datatype SandboxPermissions = UseDefault | RequireEscalated | WithAdditionalPermissions

definition requests_sandbox_override :: "SandboxPermissions \<Rightarrow> bool" where
  "requests_sandbox_override p \<longleftrightarrow> p \<noteq> UseDefault"

datatype AllowPrefixRules = Honor | IgnoreForCyberModel

record ExecApprovalRequest =
  request_command :: "ustring list"
  approval_policy :: AskForApproval
  permission_profile :: PermissionProfile
  environment_policy :: "Policy option"
  sandbox_permissions :: SandboxPermissions
  requested_prefix_rule :: "ustring list option"
  allow_prefix_rules :: AllowPrefixRules

datatype ExecApprovalRequirement =
  Skip bool "ustring list option"
| NeedsApproval "ustring option" "ustring list option"
| ForbiddenRequirement ustring

record ApprovalEnv =
  env_paths :: PathEnv
  env_parser :: bash_parser
  env_shlex :: Shlex

record ExecPolicyManager =
  manager_policy :: Policy

section \<open>Heuristics\<close>

definition PROMPT_CONFLICT_REASON :: ustring where
  "PROMPT_CONFLICT_REASON = lit ''approval required by policy, but AskForApproval is set to Never''"

definition REJECT_SANDBOX_APPROVAL_REASON :: ustring where
  "REJECT_SANDBOX_APPROVAL_REASON =
     lit ''approval required by policy, but AskForApproval::Granular.sandbox_approval is false''"

definition REJECT_RULES_APPROVAL_REASON :: ustring where
  "REJECT_RULES_APPROVAL_REASON =
     lit ''approval required by policy rule, but AskForApproval::Granular.rules is false''"

fun prompt_is_rejected_by_policy :: "AskForApproval \<Rightarrow> bool \<Rightarrow> ustring option" where
  "prompt_is_rejected_by_policy Never prompt_is_rule = Some PROMPT_CONFLICT_REASON"
| "prompt_is_rejected_by_policy OnRequest prompt_is_rule = None"
| "prompt_is_rejected_by_policy UnlessTrusted prompt_is_rule = None"
| "prompt_is_rejected_by_policy (Granular config) prompt_is_rule =
     (if prompt_is_rule
      then (if \<not> rules_approval config then Some REJECT_RULES_APPROVAL_REASON else None)
      else if \<not> sandbox_approval config then Some REJECT_SANDBOX_APPROVAL_REASON
      else None)"

definition render_decision_for_unmatched_command ::
  "bash_parser \<Rightarrow> AskForApproval \<Rightarrow> PermissionProfile \<Rightarrow> SandboxPermissions \<Rightarrow> heuristics" where
  "render_decision_for_unmatched_command parser approval profile sandbox cmd =
     (if dangerous_command_match parser cmd \<noteq> None
      then (case approval of Never \<Rightarrow> Forbidden | _ \<Rightarrow> Prompt)
      else
        (case approval of
           Never \<Rightarrow> Allow
         | UnlessTrusted \<Rightarrow> Prompt
         | _ \<Rightarrow>
             (case policy_kind (file_system_sandbox_policy profile) of
                Unrestricted \<Rightarrow> Allow
              | ExternalSandbox \<Rightarrow> Allow
              | Restricted \<Rightarrow> if requests_sandbox_override sandbox then Prompt else Allow)))"

definition commands_for_exec_policy :: "bash_parser \<Rightarrow> ustring list \<Rightarrow> ustring list list" where
  "commands_for_exec_policy parser cmd =
     (case parse_shell_lc_plain_commands parser cmd of
        Some (c # cs) \<Rightarrow> c # cs
      | _ \<Rightarrow> [cmd])"

section \<open>Amendments\<close>

definition BANNED_PREFIX_SUGGESTIONS :: "ustring list list" where
  "BANNED_PREFIX_SUGGESTIONS = map (map lit)
    [
     [''/bin/bash''], [''/bin/bash'', ''-c''], [''/bin/bash'', ''-lc''], [''/bin/sh''],
     [''/bin/sh'', ''-c''], [''/bin/sh'', ''-lc''], [''/bin/zsh''], [''/bin/zsh'', ''-c''],
     [''/bin/zsh'', ''-lc''], [''Rscript''], [''bash''], [''bash'', ''-c''], [''bash'', ''-lc''],
     [''bun''], [''bun'', ''-e''], [''bun'', ''run''], [''cmd''], [''cmd'', ''/c''], [''cmd'', ''/k''],
     [''cmd.exe''], [''cmd.exe'', ''/c''], [''cmd.exe'', ''/k''], [''dash''], [''dash'', ''-c''],
     [''deno''], [''deno'', ''eval''], [''env''], [''fish''], [''fish'', ''-c''], [''git''], [''julia''],
     [''julia'', ''-e''], [''ksh''], [''ksh'', ''-c''], [''lua''], [''lua'', ''-e''], [''node''],
     [''node'', ''-e''], [''nodejs''], [''nodejs'', ''-e''], [''npm'', ''run''], [''osascript''],
     [''perl''], [''perl'', ''-e''], [''php''], [''php'', ''-r''], [''pnpm'', ''run''], [''powershell''],
     [''powershell'', ''-Command''], [''powershell'', ''-EncodedCommand''], [''powershell'', ''-File''],
     [''powershell'', ''-c''], [''powershell.exe''], [''powershell.exe'', ''-Command''],
     [''powershell.exe'', ''-EncodedCommand''], [''powershell.exe'', ''-File''],
     [''powershell.exe'', ''-c''], [''pwsh''], [''pwsh'', ''-Command''], [''pwsh'', ''-EncodedCommand''],
     [''pwsh'', ''-File''], [''pwsh'', ''-c''], [''pwsh'', ''-e''], [''pwsh'', ''-ec''],
     [''pwsh'', ''-f''], [''py''], [''py'', ''-3''], [''pypy''], [''pypy3''], [''python''],
     [''python'', ''-''], [''python'', ''-c''], [''python3''], [''python3'', ''-''],
     [''python3'', ''-c''], [''pythonw''], [''pyw''], [''rm''], [''ruby''], [''ruby'', ''-e''], [''sh''],
     [''sh'', ''-c''], [''sh'', ''-lc''], [''sudo''], [''yarn'', ''run''], [''zsh''], [''zsh'', ''-c''],
     [''zsh'', ''-lc'']
    ]"

definition try_derive_execpolicy_amendment_for_prompt_rules :: "RuleMatch list \<Rightarrow> ustring list option" where
  "try_derive_execpolicy_amendment_for_prompt_rules matches =
     (if list_ex (\<lambda>m. is_policy_match m \<and> match_decision m = Prompt) matches then None
      else find_map (\<lambda>m. case m of
          HeuristicsRuleMatch cmd d \<Rightarrow> if d = Prompt then Some cmd else None
        | _ \<Rightarrow> None) matches)"

definition try_derive_execpolicy_amendment_for_allow_rules :: "RuleMatch list \<Rightarrow> ustring list option" where
  "try_derive_execpolicy_amendment_for_allow_rules matches =
     (if list_ex is_policy_match matches then None
      else find_map (\<lambda>m. case m of
          HeuristicsRuleMatch cmd d \<Rightarrow> if d = Allow then Some cmd else None
        | _ \<Rightarrow> None) matches)"

text \<open>A check of one command never panics, since the heuristics always decide.\<close>

definition prefix_rule_would_approve_all_commands ::
  "PathEnv \<Rightarrow> Policy \<Rightarrow> ustring list \<Rightarrow> ustring list list \<Rightarrow> heuristics \<Rightarrow> MatchOptions \<Rightarrow> bool" where
  "prefix_rule_would_approve_all_commands penv policy tokens commands fallback options =
     (case add_prefix_rule policy tokens Allow of
        Inl _ \<Rightarrow> False
      | Inr policy_with_prefix_rule \<Rightarrow>
          list_all (\<lambda>cmd. map_option evaluation_decision
              (check_with_options penv policy_with_prefix_rule cmd fallback options) = Some Allow) commands)"

definition derive_requested_execpolicy_amendment_from_prefix_rule ::
  "PathEnv \<Rightarrow> ustring list option \<Rightarrow> RuleMatch list \<Rightarrow> Policy \<Rightarrow> ustring list list \<Rightarrow> heuristics \<Rightarrow> MatchOptions \<Rightarrow>
   ustring list option" where
  "derive_requested_execpolicy_amendment_from_prefix_rule penv prefix_opt matches policy commands fallback options =
     (case prefix_opt of
        None \<Rightarrow> None
      | Some tokens \<Rightarrow>
          if tokens = [] then None
          else if tokens \<in> set BANNED_PREFIX_SUGGESTIONS then None
          else if list_ex is_policy_match matches then None
          else if prefix_rule_would_approve_all_commands penv policy tokens commands fallback options then Some tokens
          else None)"

section \<open>Reasons\<close>

definition render_shlex_command :: "Shlex \<Rightarrow> ustring list \<Rightarrow> ustring" where
  "render_shlex_command shlex args =
     (case try_join shlex args of Some t \<Rightarrow> t | None \<Rightarrow> join (lit '' '') args)"

fun prefix_match_of :: "Decision \<Rightarrow> RuleMatch \<Rightarrow> (ustring list \<times> ustring option) option" where
  "prefix_match_of wanted (PrefixRuleMatch matched_prefix d _ j) = (if d = wanted then Some (matched_prefix, j) else None)"
| "prefix_match_of wanted (HeuristicsRuleMatch _ _) = None"

definition most_specific :: "Decision \<Rightarrow> Evaluation \<Rightarrow> (ustring list \<times> ustring option) option" where
  "most_specific wanted evaluation =
     max_by_key (\<lambda>(matched_prefix, _). length matched_prefix)
       (List.map_filter (prefix_match_of wanted) (matched_rules evaluation))"

definition derive_prompt_reason :: "Shlex \<Rightarrow> ustring list \<Rightarrow> Evaluation \<Rightarrow> ustring option" where
  "derive_prompt_reason shlex args evaluation =
     (let cmd = render_shlex_command shlex args
      in case most_specific Prompt evaluation of
           Some (_, Some j) \<Rightarrow> Some (lit ''`'' @ cmd @ lit ''` requires approval: '' @ j)
         | Some (_, None) \<Rightarrow> Some (lit ''`'' @ cmd @ lit ''` requires approval by policy'')
         | None \<Rightarrow> None)"

fun dangerous_command_rejection_reason :: "DangerousCommandMatch \<Rightarrow> ustring" where
  "dangerous_command_rejection_reason ForcedRm =
     lit ''rm -f style commands are not permitted. Use a safer approach''"
| "dangerous_command_rejection_reason OtherDangerous = lit ''blocked by policy''"

definition derive_forbidden_reason ::
  "Shlex \<Rightarrow> ustring list \<Rightarrow> Evaluation \<Rightarrow> DangerousCommandMatch option \<Rightarrow> ustring" where
  "derive_forbidden_reason shlex args evaluation dangerous =
     (let cmd = render_shlex_command shlex args
      in case most_specific Forbidden evaluation of
           Some (_, Some j) \<Rightarrow> lit ''`'' @ cmd @ lit ''` rejected: '' @ j
         | Some (matched_prefix, None) \<Rightarrow>
             lit ''`'' @ cmd @ lit ''` rejected: policy forbids commands starting with `'' @
             render_shlex_command shlex matched_prefix @ lit ''`''
         | None \<Rightarrow>
             (case dangerous of
                Some m \<Rightarrow> lit ''`'' @ cmd @ lit ''` rejected: '' @ dangerous_command_rejection_reason m
              | None \<Rightarrow> lit ''`'' @ cmd @ lit ''` rejected: blocked by policy''))"

fun derive_rejected_prompt_reason :: "ustring \<Rightarrow> DangerousCommandMatch option \<Rightarrow> ustring" where
  "derive_rejected_prompt_reason fallback_reason (Some ForcedRm) = dangerous_command_rejection_reason ForcedRm"
| "derive_rejected_prompt_reason fallback_reason _ = fallback_reason"

definition dangerous_command_match_for_heuristics ::
  "bash_parser \<Rightarrow> Evaluation \<Rightarrow> Decision \<Rightarrow> DangerousCommandMatch option" where
  "dangerous_command_match_for_heuristics parser evaluation wanted =
     find_map (\<lambda>m. case m of
         HeuristicsRuleMatch cmd d \<Rightarrow> if d = wanted then dangerous_command_match parser cmd else None
       | _ \<Rightarrow> None) (matched_rules evaluation)"

section \<open>Requirements\<close>

definition current_for_prefix_rules :: "ExecPolicyManager \<Rightarrow> AllowPrefixRules \<Rightarrow> Policy" where
  "current_for_prefix_rules mgr allow_rules =
     (let policy = manager_policy mgr
      in if allow_rules = Honor then policy
         else policy\<lparr>rules_by_program := filter (\<lambda>(_, rule). rule_decision rule \<noteq> Allow) (rules_by_program policy)\<rparr>)"

definition current_for_environment :: "ExecPolicyManager \<Rightarrow> Policy option \<Rightarrow> AllowPrefixRules \<Rightarrow> Policy" where
  "current_for_environment mgr env_policy allow_rules =
     (let policy = current_for_prefix_rules mgr allow_rules
      in case env_policy of Some overlay \<Rightarrow> merge_overlay policy overlay | None \<Rightarrow> policy)"

definition explicitly_allowed :: "PathEnv \<Rightarrow> Policy \<Rightarrow> ustring list \<Rightarrow> bool" where
  "explicitly_allowed penv policy cmd =
     list_ex (\<lambda>m. is_policy_match m \<and> match_decision m = Allow)
       (matches_for_command_with_options penv policy cmd None resolving)"

definition request_fallback :: "ApprovalEnv \<Rightarrow> ExecApprovalRequest \<Rightarrow> heuristics" where
  "request_fallback env req =
     render_decision_for_unmatched_command (env_parser env) (approval_policy req) (permission_profile req)
       (sandbox_permissions req)"

definition requirement_for_prompt ::
  "ApprovalEnv \<Rightarrow> ExecApprovalRequest \<Rightarrow> Evaluation \<Rightarrow> ustring list option \<Rightarrow> ExecApprovalRequirement" where
  "requirement_for_prompt env req evaluation requested_amendment =
     (let prompt_is_rule = list_ex (\<lambda>m. is_policy_match m \<and> match_decision m = Prompt) (matched_rules evaluation)
      in case prompt_is_rejected_by_policy (approval_policy req) prompt_is_rule of
           Some reason \<Rightarrow>
             ForbiddenRequirement (if prompt_is_rule then reason
               else derive_rejected_prompt_reason reason
                 (dangerous_command_match_for_heuristics (env_parser env) evaluation Prompt))
         | None \<Rightarrow>
             NeedsApproval (derive_prompt_reason (env_shlex env) (request_command req) evaluation)
               (case requested_amendment of
                  Some amendment \<Rightarrow> Some amendment
                | None \<Rightarrow>
                    if allow_prefix_rules req = Honor
                    then try_derive_execpolicy_amendment_for_prompt_rules (matched_rules evaluation) else None))"

definition create_exec_approval_requirement_for_parsed_commands ::
  "ApprovalEnv \<Rightarrow> ExecPolicyManager \<Rightarrow> ExecApprovalRequest \<Rightarrow> ustring list list \<Rightarrow> ExecApprovalRequirement option" where
  "create_exec_approval_requirement_for_parsed_commands env mgr req commands =
     (let policy = current_for_environment mgr (environment_policy req) (allow_prefix_rules req);
          auto_amendment_allowed = (allow_prefix_rules req = Honor);
          fallback = request_fallback env req
      in map_option (\<lambda>evaluation.
           case evaluation_decision evaluation of
             Forbidden \<Rightarrow>
               ForbiddenRequirement (derive_forbidden_reason (env_shlex env) (request_command req) evaluation
                 (dangerous_command_match_for_heuristics (env_parser env) evaluation Forbidden))
           | Prompt \<Rightarrow>
               requirement_for_prompt env req evaluation
                 (if auto_amendment_allowed
                  then derive_requested_execpolicy_amendment_from_prefix_rule (env_paths env)
                    (requested_prefix_rule req) (matched_rules evaluation) policy commands fallback resolving
                  else None)
           | Allow \<Rightarrow>
               Skip (list_all (explicitly_allowed (env_paths env) policy) commands)
                 (if auto_amendment_allowed
                  then try_derive_execpolicy_amendment_for_allow_rules (matched_rules evaluation) else None))
         (check_multiple_with_options (env_paths env) policy commands fallback resolving))"

definition create_exec_approval_requirement_for_command ::
  "ApprovalEnv \<Rightarrow> ExecPolicyManager \<Rightarrow> ExecApprovalRequest \<Rightarrow> ExecApprovalRequirement option" where
  "create_exec_approval_requirement_for_command env mgr req =
     create_exec_approval_requirement_for_parsed_commands env mgr req
       (commands_for_exec_policy (env_parser env) (request_command req))"

datatype UnifiedExecShellMode = Direct | ZshFork

definition shell_approval_command :: "ustring list \<Rightarrow> ustring \<Rightarrow> UnifiedExecShellMode \<Rightarrow> ustring list" where
  "shell_approval_command cmd configured_shell shell_mode =
     (case cmd of
        [] \<Rightarrow> cmd
      | executable # _ \<Rightarrow>
          if path_eq executable configured_shell \<or>
             is_some_and (parent_components executable)
               (\<lambda>parent. parent = components (lit ''/bin'') \<or> parent = components (lit ''/usr/bin'')) \<or>
             shell_mode = ZshFork
          then cmd else [executable])"

definition create_exec_approval_requirement_for_shell ::
  "ApprovalEnv \<Rightarrow> ExecPolicyManager \<Rightarrow> ExecApprovalRequest \<Rightarrow> ustring \<Rightarrow> UnifiedExecShellMode \<Rightarrow>
   ExecApprovalRequirement option" where
  "create_exec_approval_requirement_for_shell env mgr req configured_shell shell_mode =
     (let cmd = request_command req;
          executable = shell_approval_command cmd configured_shell shell_mode
      in if length executable = length cmd then create_exec_approval_requirement_for_command env mgr req
         else create_exec_approval_requirement_for_parsed_commands env mgr (req\<lparr>request_command := executable\<rparr>)
                (executable # commands_for_exec_policy (env_parser env) cmd))"

section \<open>Updates\<close>

datatype ExecPolicyUpdateError = AppendRule AmendError | AddRule PolicyError

text \<open>The updated manager and the new text of the policy file; \<open>None\<close> is a panic.\<close>

definition append_amendment_and_update ::
  "(ustring \<Rightarrow> ustring) \<Rightarrow> PathEnv \<Rightarrow> PolicyFileIo \<Rightarrow> ExecPolicyManager \<Rightarrow> ustring list \<Rightarrow>
   (ExecPolicyUpdateError, ExecPolicyManager \<times> ustring) result option" where
  "append_amendment_and_update to_json penv io mgr amendment =
     (case blocking_append_allow_prefix_rule to_json io amendment of
        Inl e \<Rightarrow> Some (Inl (AppendRule e))
      | Inr contents \<Rightarrow>
          map_option (\<lambda>existing_evaluation.
            if evaluation_decision existing_evaluation = Allow \<and>
               list_ex (\<lambda>m. is_policy_match m \<and> match_decision m = Allow) (matched_rules existing_evaluation)
            then Inr (mgr, contents)
            else (case add_prefix_rule (manager_policy mgr) amendment Allow of
                    Inl e \<Rightarrow> Inl (AddRule e)
                  | Inr policy \<Rightarrow> Inr (mgr\<lparr>manager_policy := policy\<rparr>, contents)))
            (check_multiple_with_options penv (manager_policy mgr) [amendment] (\<lambda>_. Forbidden) resolving))"

definition append_network_rule_and_update ::
  "(ustring \<Rightarrow> ustring) \<Rightarrow> PolicyFileIo \<Rightarrow> ExecPolicyManager \<Rightarrow> ustring \<Rightarrow> NetworkRuleProtocol \<Rightarrow> Decision \<Rightarrow> ustring option \<Rightarrow>
   (ExecPolicyUpdateError, ExecPolicyManager \<times> ustring) result" where
  "append_network_rule_and_update to_json io mgr host protocol d j =
     (case blocking_append_network_rule to_json io host protocol d j of
        Inl e \<Rightarrow> Inl (AppendRule e)
      | Inr contents \<Rightarrow>
          (case add_network_rule (manager_policy mgr) host protocol d j of
             Inl e \<Rightarrow> Inl (AddRule e)
           | Inr policy \<Rightarrow> Inr (mgr\<lparr>manager_policy := policy\<rparr>, contents)))"

section \<open>The strictest segment decides\<close>

definition manager_wf :: "ExecPolicyManager \<Rightarrow> ExecApprovalRequest \<Rightarrow> bool" where
  "manager_wf mgr req \<longleftrightarrow>
     policy_wf (manager_policy mgr) \<and>
     (case environment_policy req of None \<Rightarrow> True | Some overlay \<Rightarrow> policy_wf overlay)"

definition request_policy :: "ExecPolicyManager \<Rightarrow> ExecApprovalRequest \<Rightarrow> Policy" where
  "request_policy mgr req = current_for_environment mgr (environment_policy req) (allow_prefix_rules req)"

definition segments :: "ApprovalEnv \<Rightarrow> ExecApprovalRequest \<Rightarrow> ustring list list" where
  "segments env req = commands_for_exec_policy (env_parser env) (request_command req)"

definition strictest :: "ApprovalEnv \<Rightarrow> ExecPolicyManager \<Rightarrow> ExecApprovalRequest \<Rightarrow> ustring list list \<Rightarrow> Decision" where
  "strictest env mgr req commands =
     Max (\<Union>cmd\<in>set commands. set (decisions_for (env_paths env) (request_policy mgr req) (request_fallback env req) cmd))"

lemma current_for_prefix_rules_wf: "policy_wf (manager_policy mgr) \<Longrightarrow> policy_wf (current_for_prefix_rules mgr mode)"
  by (auto simp: current_for_prefix_rules_def Let_def policy_wf_def list_all_iff)

lemma request_policy_wf: "manager_wf mgr req \<Longrightarrow> policy_wf (request_policy mgr req)"
  by (cases "environment_policy req")
    (simp_all add: manager_wf_def request_policy_def current_for_environment_def current_for_prefix_rules_wf
      policy_wf_preserved(5))

lemma segments_not_Nil [simp]: "segments env req \<noteq> []"
  by (auto simp: segments_def commands_for_exec_policy_def split: option.splits list.splits)

lemma explicitly_allowed_covering:
  assumes "policy_wf policy"
  shows "explicitly_allowed penv policy cmd \<longleftrightarrow> Allow \<in> rule_decision ` set (covering penv policy cmd)"
proof -
  let ?hits = "matches_for_command_with_options penv policy cmd None resolving"
  have "explicitly_allowed penv policy cmd \<longleftrightarrow> Allow \<in> set (map match_decision ?hits)"
    using hits_are_policy_matches [of _ penv policy cmd resolving]
    unfolding explicitly_allowed_def list_ex_iff set_map image_iff by metis
  then show ?thesis
    unfolding hits_decisions [OF assms] by simp
qed

lemma strictest_decided:
  "manager_wf mgr req \<Longrightarrow> commands \<noteq> [] \<Longrightarrow>
   map_option evaluation_decision (check_multiple_with_options (env_paths env) (request_policy mgr req) commands
     (request_fallback env req) resolving) = Some (strictest env mgr req commands)"
  unfolding strictest_def by (rule decided_strictest [OF request_policy_wf])

lemma strictest_le_iff:
  "manager_wf mgr req \<Longrightarrow> commands \<noteq> [] \<Longrightarrow>
   strictest env mgr req commands \<le> bound \<longleftrightarrow>
    (\<forall>cmd\<in>set commands. \<forall>d\<in>set (decisions_for (env_paths env) (request_policy mgr req) (request_fallback env req) cmd). d \<le> bound)"
  by (rule decided_le_iff [OF request_policy_wf strictest_decided])

lemma Allow_least [simp]: "Allow \<le> d" "d \<le> Allow \<longleftrightarrow> d = Allow"
  by (cases d; simp add: less_eq_Decision_def)+

lemma Forbidden_greatest [simp]: "d \<le> Forbidden" "Forbidden \<le> d \<longleftrightarrow> d = Forbidden"
  by (cases d; simp add: less_eq_Decision_def)+

lemma strictest_Allow_covering:
  assumes "commands \<noteq> []" "strictest env mgr req commands = Allow" "manager_wf mgr req" "cmd \<in> set commands"
  shows "explicitly_allowed (env_paths env) (request_policy mgr req) cmd \<longleftrightarrow>
    covering (env_paths env) (request_policy mgr req) cmd \<noteq> []"
proof -
  have "strictest env mgr req commands \<le> Allow"
    using assms(2) by simp
  then have all: "\<forall>d\<in>set (decisions_for (env_paths env) (request_policy mgr req) (request_fallback env req) cmd). d = Allow"
    unfolding strictest_le_iff [OF assms(3,1)] using assms(4) by auto
  show ?thesis
    unfolding explicitly_allowed_covering [OF request_policy_wf [OF assms(3)]]
    using all by (cases "covering (env_paths env) (request_policy mgr req) cmd") (auto simp: decisions_for_def)
qed

text \<open>A prompt is one of a rule when some rule that covers a command prompts. The settings for approvals
  treat such a prompt and one of the heuristics differently.\<close>

definition prompted_by_rule :: "ApprovalEnv \<Rightarrow> ExecPolicyManager \<Rightarrow> ExecApprovalRequest \<Rightarrow> ustring list list \<Rightarrow> bool" where
  "prompted_by_rule env mgr req commands \<longleftrightarrow>
     list_ex (\<lambda>cmd. list_ex (\<lambda>rule. rule_decision rule = Prompt) (covering (env_paths env) (request_policy mgr req) cmd)) commands"

definition may_ask :: "AskForApproval \<Rightarrow> bool \<Rightarrow> bool" where
  "may_ask approval by_rule =
     (case approval of
        Never \<Rightarrow> False
      | Granular config \<Rightarrow> if by_rule then rules_approval config else sandbox_approval config
      | _ \<Rightarrow> True)"

lemma prompt_rule_match:
  assumes "policy_wf policy"
  shows "list_ex (\<lambda>m. is_policy_match m \<and> match_decision m = Prompt)
      (matches_for_command_with_options penv policy cmd (Some fallback) resolving) \<longleftrightarrow>
    list_ex (\<lambda>rule. rule_decision rule = Prompt) (covering penv policy cmd)"
proof (cases "covering penv policy cmd = []")
  case True
  then show ?thesis by (simp add: matches_with_fallback [OF assms])
next
  case False
  let ?hits = "matches_for_command_with_options penv policy cmd None resolving"
  have "list_ex (\<lambda>m. is_policy_match m \<and> match_decision m = Prompt) ?hits \<longleftrightarrow> Prompt \<in> set (map match_decision ?hits)"
    using hits_are_policy_matches [of _ penv policy cmd resolving]
    unfolding list_ex_iff set_map image_iff by metis
  also have "\<dots> \<longleftrightarrow> list_ex (\<lambda>rule. rule_decision rule = Prompt) (covering penv policy cmd)"
    unfolding hits_decisions [OF assms] list_ex_iff set_map image_iff by metis
  finally show ?thesis
    using False by (simp add: matches_with_fallback [OF assms])
qed

lemma prompted_by_rule_match:
  assumes "manager_wf mgr req"
    "check_multiple_with_options (env_paths env) (request_policy mgr req) commands fallback resolving = Some evaluation"
  shows "list_ex (\<lambda>m. is_policy_match m \<and> match_decision m = Prompt) (matched_rules evaluation) \<longleftrightarrow>
    prompted_by_rule env mgr req commands"
proof -
  have concat: "list_ex P (concat (map f commands)) \<longleftrightarrow> list_ex (\<lambda>cmd. list_ex P (f cmd)) commands" for P :: "RuleMatch \<Rightarrow> bool" and f
    by (auto simp: list_ex_iff)
  show ?thesis
    unfolding check_multiple_matches [OF assms(2)] concat prompt_rule_match [OF request_policy_wf [OF assms(1)]] prompted_by_rule_def ..
qed

text \<open>What a requirement says about the strictest decision on a list of commands.\<close>

fun requirement_agrees ::
  "ApprovalEnv \<Rightarrow> ExecPolicyManager \<Rightarrow> ExecApprovalRequest \<Rightarrow> ustring list list \<Rightarrow> ExecApprovalRequirement \<Rightarrow> bool" where
  "requirement_agrees env mgr req commands (Skip bypass_sandbox _) \<longleftrightarrow>
     strictest env mgr req commands = Allow \<and>
     (bypass_sandbox \<longleftrightarrow> list_all (\<lambda>cmd. covering (env_paths env) (request_policy mgr req) cmd \<noteq> []) commands)"
| "requirement_agrees env mgr req commands (NeedsApproval _ _) \<longleftrightarrow>
     strictest env mgr req commands = Prompt \<and> may_ask (approval_policy req) (prompted_by_rule env mgr req commands)"
| "requirement_agrees env mgr req commands (ForbiddenRequirement _) \<longleftrightarrow>
     strictest env mgr req commands = Forbidden \<or>
     strictest env mgr req commands = Prompt \<and> \<not> may_ask (approval_policy req) (prompted_by_rule env mgr req commands)"

lemma prompt_requirement_agrees:
  assumes "strictest env mgr req commands = Prompt"
    "list_ex (\<lambda>m. is_policy_match m \<and> match_decision m = Prompt) (matched_rules evaluation) \<longleftrightarrow> prompted_by_rule env mgr req commands"
  shows "requirement_agrees env mgr req commands (requirement_for_prompt env req evaluation requested)"
  using assms by (cases "approval_policy req")
    (auto simp: requirement_for_prompt_def may_ask_def Let_def split: if_splits)

lemma parsed_requirement_agrees:
  assumes "manager_wf mgr req" "commands \<noteq> []"
  shows "\<exists>r. create_exec_approval_requirement_for_parsed_commands env mgr req commands = Some r \<and>
    requirement_agrees env mgr req commands r"
proof -
  let ?policy = "request_policy mgr req" and ?fallback = "request_fallback env req"
  have wf: "policy_wf ?policy"
    by (rule request_policy_wf [OF assms(1)])
  obtain evaluation where checked:
      "check_multiple_with_options (env_paths env) ?policy commands ?fallback resolving = Some evaluation"
      "evaluation_decision evaluation = strictest env mgr req commands"
    using strictest_decided [OF assms, of env] by auto
  show ?thesis
  proof (cases "strictest env mgr req commands")
    case Allow
    then have "list_all (explicitly_allowed (env_paths env) ?policy) commands \<longleftrightarrow>
        list_all (\<lambda>cmd. covering (env_paths env) ?policy cmd \<noteq> []) commands"
      using strictest_Allow_covering [OF assms(2) Allow assms(1)] by (auto simp: list_all_iff)
    then show ?thesis
      using checked Allow
      by (simp add: create_exec_approval_requirement_for_parsed_commands_def Let_def request_policy_def [symmetric])
  next
    case Prompt
    then show ?thesis
      using checked prompt_requirement_agrees [OF Prompt prompted_by_rule_match [OF assms(1) checked(1)]]
      by (simp add: create_exec_approval_requirement_for_parsed_commands_def Let_def request_policy_def [symmetric])
  next
    case Forbidden
    then show ?thesis
      using checked
      by (simp add: create_exec_approval_requirement_for_parsed_commands_def Let_def request_policy_def [symmetric])
  qed
qed

lemma command_requirement_agrees:
  assumes "manager_wf mgr req"
  obtains r where "create_exec_approval_requirement_for_command env mgr req = Some r"
    "requirement_agrees env mgr req (segments env req) r"
  using parsed_requirement_agrees [OF assms segments_not_Nil, of env env req]
  by (auto simp: create_exec_approval_requirement_for_command_def segments_def)

text \<open>C2: Every command gets a requirement, and the requirement is the strictest decision on any segment of
  the command. It skips the approval only when every segment is allowed, and it skips the sandbox exactly
  when each of them is allowed by a rule; it asks the user exactly when some segment prompts, none is
  forbidden and the settings let a prompt of that origin through, a rule or the heuristics; otherwise the
  command is rejected.\<close>

theorem requirement_is_strictest:
  assumes "manager_wf mgr req"
  shows "\<exists>r. create_exec_approval_requirement_for_command env mgr req = Some r \<and>
    requirement_agrees env mgr req (segments env req) r"
  by (rule command_requirement_agrees [OF assms]) blast

definition sample_request :: "ustring list \<Rightarrow> AskForApproval \<Rightarrow> ExecApprovalRequest" where
  "sample_request cmd approval =
     \<lparr>request_command = cmd, approval_policy = approval,
      permission_profile = Managed (RestrictedEntries [] None) NetworkRestricted, environment_policy = None,
      sandbox_permissions = UseDefault, requested_prefix_rule = None, allow_prefix_rules = Honor\<rparr>"

definition sample_approval_env :: ApprovalEnv where
  "sample_approval_env =
     \<lparr>env_paths = sample_paths, env_parser = (\<lambda>_. Some sample_tree), env_shlex = sample_shlex\<rparr>"

definition sample_policy_manager :: ExecPolicyManager where
  "sample_policy_manager = \<lparr>manager_policy = sample_policy\<rparr>"

theorem requirement_is_strictest_witness:
  "\<exists>r. create_exec_approval_requirement_for_command sample_approval_env sample_policy_manager
       (sample_request [lit ''git'', lit ''push''] OnRequest) = Some r \<and>
     requirement_agrees sample_approval_env sample_policy_manager (sample_request [lit ''git'', lit ''push''] OnRequest)
       [[lit ''git'', lit ''push'']] r"
proof -
  have wf: "manager_wf sample_policy_manager (sample_request [lit ''git'', lit ''push''] OnRequest)"
    by code_simp
  have "segments sample_approval_env (sample_request [lit ''git'', lit ''push''] OnRequest) = [[lit ''git'', lit ''push'']]"
    by code_simp
  then show ?thesis
    using requirement_is_strictest [OF wf, of sample_approval_env] by simp
qed

section \<open>Dangerous segments\<close>

lemma dangerous_not_allowed:
  "dangerous_command_match (env_parser env) cmd \<noteq> None \<Longrightarrow> request_fallback env req cmd \<noteq> Allow"
  by (auto simp: request_fallback_def render_decision_for_unmatched_command_def split: AskForApproval.split)

text \<open>C7: A forced removal never runs without consent. When a segment of a command runs \<open>rm\<close> with a force
  option, directly or behind any nesting of \<open>sudo\<close> without options, \<open>env\<close> with settings, \<open>trap\<close> actions and
  literal commands of shell scripts, and no rule covers the segment, the command is not skipped past the
  approval, and with approvals switched off it is rejected.\<close>

theorem forced_rm_needs_consent:
  assumes "manager_wf mgr req" "cmd \<in> set (segments env req)" "runs_forced_rm (env_parser env) cmd"
    "covering (env_paths env) (request_policy mgr req) cmd = []"
  shows "case create_exec_approval_requirement_for_command env mgr req of
      None \<Rightarrow> False
    | Some (Skip _ _) \<Rightarrow> False
    | Some (NeedsApproval _ _) \<Rightarrow> approval_policy req \<noteq> Never
    | Some (ForbiddenRequirement _) \<Rightarrow> True"
proof -
  obtain r where r: "create_exec_approval_requirement_for_command env mgr req = Some r"
      "requirement_agrees env mgr req (segments env req) r"
    by (rule command_requirement_agrees [OF assms(1)])
  have "request_fallback env req cmd \<noteq> Allow"
    by (rule dangerous_not_allowed) (use forced_rm_found [OF assms(3)] in \<open>simp add: dangerous_command_match_def\<close>)
  moreover have "request_fallback env req cmd \<le> strictest env mgr req (segments env req)"
    by (rule decided_ge [OF request_policy_wf [OF assms(1)] strictest_decided [OF assms(1) segments_not_Nil] assms(2)])
      (simp add: decisions_for_def assms(4))
  ultimately have "strictest env mgr req (segments env req) \<noteq> Allow"
    by auto
  then show ?thesis
    using r by (cases r) (auto simp: may_ask_def)
qed

theorem forced_rm_needs_consent_witness:
  "case create_exec_approval_requirement_for_command sample_approval_env sample_policy_manager
      (sample_request [lit ''sudo'', lit ''env'', lit ''A=1'', lit ''/bin/rm'', lit ''-rf'', lit ''x''] Never) of
      None \<Rightarrow> False
    | Some (Skip _ _) \<Rightarrow> False
    | Some (NeedsApproval _ _) \<Rightarrow> False
    | Some (ForbiddenRequirement _) \<Rightarrow> True"
proof -
  let ?cmd = "[lit ''sudo'', lit ''env'', lit ''A=1'', lit ''/bin/rm'', lit ''-rf'', lit ''x'']"
  let ?req = "sample_request ?cmd Never"
  have wf: "manager_wf sample_policy_manager ?req"
    by code_simp
  have segment: "?cmd \<in> set (segments sample_approval_env ?req)"
    by code_simp
  have names: "file_name (lit ''sudo'') = Some (lit ''sudo'')" "file_name (lit ''env'') = Some (lit ''env'')"
    "file_name (lit ''/bin/rm'') = Some (lit ''rm'')"
    by code_simp+
  have "force_option (lit ''-rf'')" "env_setting (lit ''A=1'')" "\<not> env_setting (lit ''/bin/rm'')" "lit ''/bin/rm'' \<noteq> lit ''--''"
    unfolding force_option_flags [symmetric] is_env_option_iff [symmetric] by code_simp+
  note usage = this
  have "runs_forced_rm (env_parser sample_approval_env) (lit ''/bin/rm'' # [] @ lit ''-rf'' # [lit ''x''])"
    by (rule runs_forced_rm.direct [OF names(3) _ usage(1)]) simp
  then have "runs_forced_rm (env_parser sample_approval_env) (lit ''env'' # [lit ''A=1''] @ lit ''/bin/rm'' # [lit ''-rf'', lit ''x''])"
    using usage by (intro runs_forced_rm.env [OF names(2)]) simp_all
  then have runs: "runs_forced_rm (env_parser sample_approval_env) ?cmd"
    by (intro runs_forced_rm.sudo [OF names(1)]) simp
  have uncovered: "covering (env_paths sample_approval_env) (request_policy sample_policy_manager ?req) ?cmd = []"
    by code_simp
  have "approval_policy ?req = Never"
    by (simp add: sample_request_def)
  then show ?thesis
    using forced_rm_needs_consent [OF wf segment runs uncovered]
    by (simp split: option.splits ExecApprovalRequirement.splits)
qed

section \<open>What escapes the checks\<close>

lemma allowed_is_skipped:
  assumes "manager_wf mgr req"
    "\<forall>cmd\<in>set (segments env req). \<forall>d\<in>set (decisions_for (env_paths env) (request_policy mgr req) (request_fallback env req) cmd). d = Allow"
  shows "\<exists>a. create_exec_approval_requirement_for_command env mgr req =
    Some (Skip (list_all (\<lambda>cmd. covering (env_paths env) (request_policy mgr req) cmd \<noteq> []) (segments env req)) a)"
proof -
  obtain r where r: "create_exec_approval_requirement_for_command env mgr req = Some r"
      "requirement_agrees env mgr req (segments env req) r"
    by (rule command_requirement_agrees [OF assms(1)])
  have "strictest env mgr req (segments env req) \<le> Allow"
    unfolding strictest_le_iff [OF assms(1) segments_not_Nil] using assms(2) by simp
  then show ?thesis
    using r by (cases r) auto
qed



lemma dot_slash_basename:
  assumes "plain_name name" "current_dir penv = Some base" "host_executables_by_name policy name = None"
  shows "by_basename penv policy ((lit ''./'' @ name) # arguments) = Some (name # arguments)"
proof -
  have path: "lit ''./'' @ name = [46] @ 47 # name"
    by (simp add: lit_def)
  have "maybe_expand_home_directory penv (lit ''./'' @ name) = lit ''./'' @ name"
    by (simp add: maybe_expand_home_directory_def strip_prefix_def lit_def)
  moreover have "\<not> is_absolute_path (lit ''./'' @ name)"
    by (simp add: is_absolute_path_def starts_with_def lit_def)
  ultimately obtain p where p: "from_absolute_path penv (lit ''./'' @ name) = Some p" "absolutize penv (lit ''./'' @ name) = Some p"
    using assms(2) by (simp add: from_absolute_path_def absolutize_def)
  have "last (split_on 47 (lit ''./'' @ name)) = name"
    using assms(1) unfolding path last_split_on_append by (simp add: plain_name_def split_on_no_sep)
  from absolutize_last [OF p(2) this assms(1)] show ?thesis
    using p(1) assms(3) by (simp add: by_basename_def)
qed



section \<open>Unfamiliar shells\<close>

text \<open>The commands inside a script cannot make up for an executable that no rule knows.\<close>

lemma unfamiliar_shell_not_trusted:
  assumes "manager_wf mgr req" "shell_approval_command (request_command req) configured_shell shell_mode = [executable]"
    "length (request_command req) \<noteq> 1"
    "create_exec_approval_requirement_for_shell env mgr req configured_shell shell_mode = Some (Skip bypass a)"
  shows "bypass \<longrightarrow> covering (env_paths env) (request_policy mgr req) [executable] \<noteq> []"
    "\<forall>cmd\<in>set ([executable] # segments env req). \<forall>d\<in>set (decisions_for (env_paths env) (request_policy mgr req) (request_fallback env req) cmd). d = Allow"
proof -
  let ?req = "req\<lparr>request_command := [executable]\<rparr>" and ?commands = "[executable] # segments env req"
  have same: "request_policy mgr ?req = request_policy mgr req" "request_fallback env ?req = request_fallback env req"
    "manager_wf mgr ?req" "strictest env mgr ?req = strictest env mgr req"
    using assms(1) by (simp_all add: request_policy_def request_fallback_def manager_wf_def strictest_def fun_eq_iff)
  obtain r where "create_exec_approval_requirement_for_parsed_commands env mgr ?req ?commands = Some r"
      "requirement_agrees env mgr ?req ?commands r"
    using parsed_requirement_agrees [OF same(3), of ?commands env] by blast
  then have agrees: "requirement_agrees env mgr ?req ?commands (Skip bypass a)"
    using assms(2-4) by (simp add: create_exec_approval_requirement_for_shell_def Let_def segments_def)
  then show "bypass \<longrightarrow> covering (env_paths env) (request_policy mgr req) [executable] \<noteq> []"
    by (simp add: same)
  have "strictest env mgr req ?commands \<le> Allow"
    using agrees by (simp add: same)
  then show "\<forall>cmd\<in>set ?commands. \<forall>d\<in>set (decisions_for (env_paths env) (request_policy mgr req) (request_fallback env req) cmd). d = Allow"
    by (subst (asm) strictest_le_iff [OF assms(1)]) auto
qed

section \<open>Accepted amendments\<close>

definition single_rule :: "ustring list \<Rightarrow> PrefixRule" where
  "single_rule tokens =
     \<lparr>rule_pattern = \<lparr>pattern_first = hd tokens, pattern_rest = map Single (tl tokens)\<rparr>,
      rule_decision = Allow, rule_justification = None\<rparr>"

lemma add_allow_rule:
  "add_prefix_rule policy tokens Allow = Inr policy' \<Longrightarrow>
   tokens \<noteq> [] \<and> policy_rules policy' = policy_rules policy @ [single_rule tokens] \<and>
   host_executables_by_name policy' = host_executables_by_name policy"
  by (auto simp: add_prefix_rule_def policy_rules_def single_rule_def split: list.splits)

lemma covers_single: "tokens \<noteq> [] \<Longrightarrow> covers (single_rule tokens) cmd \<longleftrightarrow> (\<exists>others. cmd = tokens @ others)"
proof -
  assume "tokens \<noteq> []"
  then obtain t ts where tokens: "tokens = t # ts"
    by (cases tokens) auto
  have all2: "list_all2 (\<lambda>token argument. argument \<in> set (alternatives token)) (map Single ts) xs \<longleftrightarrow> xs = ts" for xs
    by (induction ts arbitrary: xs) (auto simp: list_all2_Cons1)
  show ?thesis
  proof (cases cmd)
    case (Cons c cs)
    have "take (length ts) cs = ts \<longleftrightarrow> (\<exists>others. cs = ts @ others)"
      using starts_with_iff [of cs ts] by (simp add: starts_with_def prefix_def)
    moreover have "take (length ts) cs = ts \<Longrightarrow> length ts \<le> length cs"
      by (metis length_take min.cobounded1)
    ultimately show ?thesis
      by (auto simp: tokens Cons single_rule_def covers_def program_def all2)
  qed (simp add: tokens covers_def)
qed

lemma covers_append: "covers rule cmd \<Longrightarrow> covers rule (cmd @ others)"
  by (cases cmd) (auto simp: covers_def)

lemma by_basename_append:
  "by_basename penv policy cmd = Some cmd' \<Longrightarrow> by_basename penv policy (cmd @ others) = Some (cmd' @ others)"
  by (cases cmd) (auto simp: by_basename_def split: bind_splits option.splits if_splits)

lemma by_basename_hosts:
  "host_executables_by_name policy = host_executables_by_name policy' \<Longrightarrow>
   by_basename penv policy cmd = by_basename penv policy' cmd"
  by (cases cmd) (simp_all add: by_basename_def)

lemma by_basename_head:
  assumes "by_basename penv policy cmd = Some cmd'"
  shows "\<exists>name. cmd' = name # tl cmd \<and> components name = [Normal name]"
  using assms absolute_file_name_plain
  by (cases cmd) (auto simp: by_basename_def bind_eq_Some_conv split: option.splits if_splits)

lemma by_basename_plain:
  assumes "by_basename penv policy (name # arguments) = Some cmd'" "components name = [Normal name]" "name \<noteq> lit ''~''"
  shows "cmd' = name # arguments"
proof -
  have plain: "plain_name name"
    by (rule plain_name_components [OF assms(2)])
  have "strip_prefix (lit ''/'') t = None" if "name = lit ''~'' @ t" for t
    using plain that by (cases t) (auto simp: plain_name_def strip_prefix_def lit_def)
  then have same: "maybe_expand_home_directory penv name = name"
    using assms(3) by (auto simp: maybe_expand_home_directory_def strip_prefix_Some_iff split: option.splits)
  obtain p where p: "absolutize penv name = Some p"
    using assms(1) by (auto simp: by_basename_def from_absolute_path_def same bind_eq_Some_conv)
  have "last (split_on 47 name) = name"
    using plain by (simp add: plain_name_def split_on_no_sep)
  from absolutize_last [OF p this plain] show ?thesis
    using assms(1) p by (auto simp: by_basename_def from_absolute_path_def same split: option.splits if_splits)
qed

lemma covering_not_Nil_iff:
  "covering penv policy cmd \<noteq> [] \<longleftrightarrow>
     (\<exists>rule\<in>set (policy_rules policy). covers rule cmd \<or>
        (\<exists>cmd'. by_basename penv policy cmd = Some cmd' \<and> covers rule cmd'))"
  by (auto simp: covering_def Let_def filter_empty_conv split: option.splits)

text \<open>A rule that already covers an amendment covers every command that the amendment would.\<close>

lemma amendment_subsumed:
  assumes "covering penv policy tokens \<noteq> []" "tokens \<noteq> []" "hd tokens \<noteq> lit ''~''"
    "covers (single_rule tokens) cmd \<or> (\<exists>cmd'. by_basename penv policy cmd = Some cmd' \<and> covers (single_rule tokens) cmd')"
  shows "covering penv policy cmd \<noteq> []"
proof -
  obtain rule where rule: "rule \<in> set (policy_rules policy)"
      "covers rule tokens \<or> (\<exists>tokens'. by_basename penv policy tokens = Some tokens' \<and> covers rule tokens')"
    using assms(1) unfolding covering_not_Nil_iff by blast
  consider others where "cmd = tokens @ others"
    | cmd' others where "by_basename penv policy cmd = Some cmd'" "cmd' = tokens @ others"
    using assms(2,4) covers_single by blast
  then show ?thesis
  proof cases
    case 1
    then show ?thesis
      unfolding covering_not_Nil_iff using rule covers_append by_basename_append by metis
  next
    case 2
    have "components (hd tokens) = [Normal (hd tokens)]"
      using by_basename_head [OF 2(1)] assms(2) 2(2) by (cases tokens) auto
    then have "by_basename penv policy tokens = Some tokens' \<Longrightarrow> tokens' = tokens" for tokens'
      using by_basename_plain [of penv policy "hd tokens" "tl tokens" tokens'] assms(2,3) by simp
    then have "covers rule tokens"
      using rule(2) by blast
    then show ?thesis
      unfolding covering_not_Nil_iff using rule(1) 2 covers_append by blast
  qed
qed

lemma still_uncovered:
  assumes "add_prefix_rule policy tokens Allow = Inr extended" "covering penv policy tokens \<noteq> []"
    "hd tokens \<noteq> lit ''~''" "covering penv policy cmd = []"
  shows "covering penv extended cmd = []"
proof (rule ccontr)
  assume "covering penv extended cmd \<noteq> []"
  then have "covering penv policy cmd \<noteq> [] \<or> covers (single_rule tokens) cmd \<or>
      (\<exists>cmd'. by_basename penv policy cmd = Some cmd' \<and> covers (single_rule tokens) cmd')"
    using add_allow_rule [OF assms(1)] by_basename_hosts [of extended policy penv cmd]
    unfolding covering_not_Nil_iff by auto
  moreover have "tokens \<noteq> []"
    using add_allow_rule [OF assms(1)] by blast
  ultimately show False
    using amendment_subsumed [OF assms(2) _ assms(3)] assms(4) by blast
qed

lemma check_one_Allow:
  assumes "policy_wf policy"
  shows "map_option evaluation_decision (check_with_options penv policy cmd fallback resolving) = Some Allow \<longleftrightarrow>
    (\<forall>d\<in>set (decisions_for penv policy fallback cmd). d = Allow)"
proof -
  have one: "check_with_options penv policy cmd fallback resolving = check_multiple_with_options penv policy [cmd] fallback resolving"
    by (simp add: check_with_options_def check_multiple_with_options_def)
  obtain d where d: "map_option evaluation_decision (check_with_options penv policy cmd fallback resolving) = Some d"
    using decided_strictest [OF assms, of "[cmd]"] unfolding one by blast
  have "d \<le> Allow \<longleftrightarrow> (\<forall>v\<in>set (decisions_for penv policy fallback cmd). v \<le> Allow)"
    using decided_le_iff [OF assms d [unfolded one], of Allow] by simp
  then show ?thesis
    using d by auto
qed

lemma no_policy_match_uncovered:
  assumes "policy_wf policy" "cmd \<in> set commands"
    "\<not> list_ex is_policy_match (concat (map (\<lambda>cmd. matches_for_command_with_options penv policy cmd (Some fallback) resolving) commands))"
  shows "covering penv policy cmd = []"
proof (rule ccontr)
  assume covered: "covering penv policy cmd \<noteq> []"
  let ?hits = "matches_for_command_with_options penv policy cmd None resolving"
  have "?hits \<noteq> []" "matches_for_command_with_options penv policy cmd (Some fallback) resolving = ?hits"
    using covered hits_Nil_iff [OF assms(1), of penv cmd] matches_with_fallback [OF assms(1), of penv cmd fallback] by simp_all
  moreover have "is_policy_match (hd ?hits)"
    using calculation(1) by (intro hits_are_policy_matches [of _ penv policy cmd resolving]) simp
  ultimately show False
    using assms(2,3) by (auto simp: list_ex_iff)
qed

lemma already_allowed_covering:
  assumes "policy_wf policy" "check_multiple_with_options penv policy [tokens] (\<lambda>_. Forbidden) resolving = Some evaluation"
    "list_ex (\<lambda>m. is_policy_match m \<and> match_decision m = Allow) (matched_rules evaluation)"
  shows "covering penv policy tokens \<noteq> []"
proof
  assume "covering penv policy tokens = []"
  then have "matched_rules evaluation = [HeuristicsRuleMatch tokens Forbidden]"
    using assms(2) matches_with_fallback [OF assms(1), of penv tokens "\<lambda>_. Forbidden"]
    by (auto simp: check_multiple_with_options_def from_matches_def)
  then show False
    using assms(3) by simp
qed

lemma update_cases:
  assumes "append_amendment_and_update to_json penv io mgr amendment = Some (Inr (mgr', contents))"
    "policy_wf (manager_policy mgr)"
  obtains "mgr' = mgr" "covering penv (manager_policy mgr) amendment \<noteq> []"
  | policy where "add_prefix_rule (manager_policy mgr) amendment Allow = Inr policy" "mgr' = mgr\<lparr>manager_policy := policy\<rparr>"
  using assms(1) already_allowed_covering [OF assms(2), of penv amendment]
  by (auto simp: append_amendment_and_update_def split: sum.splits if_splits)

text \<open>C19: A prefix rule that the model asks for does what the user is told. Once the proposed rule is
  accepted, the same command is approved without another question: either the rule is added to the policy,
  or the policy already allowed the prefix. The rule is none of the banned prefixes. The request honors
  prefix rules and has no policy of an environment, and the program is not a lone tilde, which stands for
  the home directory.\<close>

theorem accepted_prefix_rule_approves:
  assumes "manager_wf mgr req" "environment_policy req = None" "allow_prefix_rules req = Honor"
    "check_multiple_with_options (env_paths env) (manager_policy mgr) (segments env req) (request_fallback env req) resolving
       = Some evaluation"
    "derive_requested_execpolicy_amendment_from_prefix_rule (env_paths env) (requested_prefix_rule req)
       (matched_rules evaluation) (manager_policy mgr) (segments env req) (request_fallback env req) resolving = Some amendment"
    "hd amendment \<noteq> lit ''~''"
    "append_amendment_and_update to_json (env_paths env) io mgr amendment = Some (Inr (mgr', contents))"
  shows "(\<exists>b a. create_exec_approval_requirement_for_command env mgr' req = Some (Skip b a)) \<and>
    amendment \<notin> set BANNED_PREFIX_SUGGESTIONS"
proof -
  let ?penv = "env_paths env" and ?fallback = "request_fallback env req" and ?policy = "manager_policy mgr"
  have wf: "policy_wf ?policy"
    using assms(1) by (simp add: manager_wf_def)
  obtain extended where derived: "amendment \<noteq> []" "amendment \<notin> set BANNED_PREFIX_SUGGESTIONS"
      "\<not> list_ex is_policy_match (matched_rules evaluation)" "add_prefix_rule ?policy amendment Allow = Inr extended"
      "\<forall>cmd\<in>set (segments env req). map_option evaluation_decision
        (check_with_options ?penv extended cmd ?fallback resolving) = Some Allow"
    using assms(5) by (auto simp: derive_requested_execpolicy_amendment_from_prefix_rule_def
        prefix_rule_would_approve_all_commands_def list_all_iff split: option.splits if_splits sum.splits)
  have wf': "policy_wf extended"
    by (rule policy_wf_preserved(2) [OF wf derived(4)])
  have allow: "\<forall>d\<in>set (decisions_for ?penv extended ?fallback cmd). d = Allow" if "cmd \<in> set (segments env req)" for cmd
    using derived(5) that check_one_Allow [OF wf', of ?penv cmd ?fallback] by simp
  have "matched_rules evaluation =
      concat (map (\<lambda>cmd. matches_for_command_with_options ?penv ?policy cmd (Some ?fallback) resolving) (segments env req))"
    by (rule check_multiple_matches [OF assms(4)])
  then have uncovered: "covering ?penv ?policy cmd = []" if "cmd \<in> set (segments env req)" for cmd
    using no_policy_match_uncovered [OF wf that, of ?penv ?fallback] derived(3) by simp
  have skip: "\<exists>b a. create_exec_approval_requirement_for_command env mgr'' req = Some (Skip b a)"
    if "policy_wf (manager_policy mgr'')"
      "\<forall>cmd\<in>set (segments env req). \<forall>d\<in>set (decisions_for ?penv (manager_policy mgr'') ?fallback cmd). d = Allow" for mgr''
    using allowed_is_skipped [of mgr'' req env] that assms(2,3)
    by (fastforce simp: manager_wf_def request_policy_def current_for_environment_def current_for_prefix_rules_def)
  from assms(7) wf show ?thesis
  proof (cases rule: update_cases)
    case 1
    have "decisions_for ?penv ?policy ?fallback cmd = decisions_for ?penv extended ?fallback cmd"
      if "cmd \<in> set (segments env req)" for cmd
      using uncovered [OF that] still_uncovered [OF derived(4) 1(2) assms(6) uncovered [OF that]]
      by (simp add: decisions_for_def)
    then show ?thesis
      using skip [of mgr] wf allow 1(1) derived(2) by simp
  next
    case (2 policy)
    then show ?thesis
      using skip [of mgr'] wf' allow derived(2,4) by simp
  qed
qed

definition sample_io :: PolicyFileIo where
  "sample_io =
     \<lparr>has_parent = True, create_dir = DirAlreadyExists, open_error = None, lock_error = None, seek_error = None,
      read_error = None, newline_error = None, line_error = None, file_contents = lit ''x''\<rparr>"

theorem accepted_prefix_rule_approves_witness:
  "\<exists>mgr' contents b a.
     append_amendment_and_update id sample_paths sample_io sample_policy_manager [lit ''cargo''] = Some (Inr (mgr', contents)) \<and>
     create_exec_approval_requirement_for_command sample_approval_env mgr'
       ((sample_request [lit ''cargo'', lit ''test''] UnlessTrusted)\<lparr>requested_prefix_rule := Some [lit ''cargo'']\<rparr>) = Some (Skip b a)"
proof -
  let ?req = "(sample_request [lit ''cargo'', lit ''test''] UnlessTrusted)\<lparr>requested_prefix_rule := Some [lit ''cargo'']\<rparr>"
  let ?env = sample_approval_env
  let ?check = "check_multiple_with_options (env_paths ?env) (manager_policy sample_policy_manager) (segments ?env ?req)
    (request_fallback ?env ?req) resolving"
  let ?update = "append_amendment_and_update id (env_paths ?env) sample_io sample_policy_manager [lit ''cargo'']"
  have wf: "manager_wf sample_policy_manager ?req"
    by code_simp
  have none: "environment_policy ?req = None" and honor: "allow_prefix_rules ?req = Honor"
    by code_simp+
  have "?check \<noteq> None"
    by code_simp
  then have checked: "?check = Some (the ?check)"
    by simp
  have derived: "derive_requested_execpolicy_amendment_from_prefix_rule (env_paths ?env) (requested_prefix_rule ?req)
      (matched_rules (the ?check)) (manager_policy sample_policy_manager) (segments ?env ?req) (request_fallback ?env ?req) resolving
      = Some [lit ''cargo'']"
    by code_simp
  have home: "hd [lit ''cargo''] \<noteq> lit ''~''"
    by code_simp
  have "case ?update of Some (Inr _) \<Rightarrow> True | _ \<Rightarrow> False"
    by code_simp
  then obtain mgr' contents where updated: "?update = Some (Inr (mgr', contents))"
    by (auto split: option.splits sum.splits)
  have "env_paths ?env = sample_paths"
    by (simp add: sample_approval_env_def)
  then show ?thesis
    using accepted_prefix_rule_approves [OF wf none honor checked derived home updated] updated by auto
qed

end
