(* ===== verification/Policy_Edits.thy ===== *)
theory Policy_Edits
  imports File_Permissions
begin

text \<open>
  Construction, editing and conversion of file system policies (\<open>protocol/src/permissions.rs\<close>,
  \<open>protocol/src/protocol.rs\<close>): the policy of a workspace with its protected metadata, denials that survive a
  replacement, workspace roots made concrete, added roots, and the conversion from and to the older
  sandbox policies.
\<close>

section \<open>Older policies\<close>

datatype NetworkAccess = AccessRestricted | AccessEnabled

datatype SandboxPolicy =
    DangerFullAccess
  | ReadOnly bool
  | ExternalSandboxPolicy NetworkAccess
  | WorkspaceWrite "AbsolutePathBuf list" bool bool bool

fun has_full_network_access :: "SandboxPolicy \<Rightarrow> bool" where
  "has_full_network_access DangerFullAccess = True"
| "has_full_network_access (ExternalSandboxPolicy network_access) = (network_access = AccessEnabled)"
| "has_full_network_access (ReadOnly network_access) = network_access"
| "has_full_network_access (WorkspaceWrite _ network_access _ _) = network_access"

definition network_policy_of :: "SandboxPolicy \<Rightarrow> NetworkSandboxPolicy" where
  "network_policy_of policy = (if has_full_network_access policy then NetworkEnabled else NetworkRestricted)"

definition abs_path_entry :: "PolicyEnv \<Rightarrow> AbsolutePathBuf \<Rightarrow> FileSystemPath" where
  "abs_path_entry env path = PathEntry (from_abs_path (env_url env) path)"

section \<open>Protected paths of a writable root\<close>

fun dedup_from :: "AbsolutePathBuf list \<Rightarrow> AbsolutePathBuf list \<Rightarrow> AbsolutePathBuf list" where
  "dedup_from seen [] = []"
| "dedup_from seen (path # paths) =
     (if path \<in> set seen then dedup_from seen paths else path # dedup_from (path # seen) paths)"

text \<open>\<open>dedup_absolute_paths\<close> without the normalization of effective paths.\<close>

definition dedup_absolute_paths :: "AbsolutePathBuf list \<Rightarrow> AbsolutePathBuf list" where
  "dedup_absolute_paths paths = dedup_from [] paths"

definition is_git_pointer_file :: "PolicyEnv \<Rightarrow> AbsolutePathBuf \<Rightarrow> bool" where
  "is_git_pointer_file env path \<longleftrightarrow> is_file env path \<and> absolute_file_name path = Some (lit ''.git'')"

definition resolve_gitdir_from_file :: "PolicyEnv \<Rightarrow> AbsolutePathBuf \<Rightarrow> AbsolutePathBuf option" where
  "resolve_gitdir_from_file env dot_git =
     (case read_to_string env dot_git of
        None \<Rightarrow> None
      | Some contents \<Rightarrow>
          (case split_once (trim contents) (lit '':'') of
             None \<Rightarrow> None
           | Some (key, raw) \<Rightarrow>
               if trim key \<noteq> lit ''gitdir'' \<or> trim raw = [] \<or> dot_git = [] then None
               else let gitdir_path = resolve_path_against_base (env_path env) (trim raw) (absolute_text (butlast dot_git))
                    in if path_exists env gitdir_path then Some gitdir_path else None))"

definition default_read_only_subpaths_for_writable_root :: "PolicyEnv \<Rightarrow> AbsolutePathBuf \<Rightarrow> bool \<Rightarrow> AbsolutePathBuf list" where
  "default_read_only_subpaths_for_writable_root env writable_root protect_missing_dot_codex =
     (let top_level_git = absolute_join (env_path env) writable_root (lit ''.git'');
          top_level_agents = absolute_join (env_path env) writable_root (lit ''.agents'');
          top_level_codex = absolute_join (env_path env) writable_root (lit ''.codex'');
          gitdir = (if is_file env top_level_git \<and> is_git_pointer_file env top_level_git
                    then (case resolve_gitdir_from_file env top_level_git of None \<Rightarrow> [] | Some gitdir \<Rightarrow> [gitdir])
                    else [])
      in dedup_absolute_paths
           ((if is_dir env top_level_git \<or> is_file env top_level_git then gitdir @ [top_level_git] else []) @
            (if is_dir env top_level_agents then [top_level_agents] else []) @
            (if protect_missing_dot_codex \<or> is_dir env top_level_codex then [top_level_codex] else [])))"

definition append_default_read_only_entry_if_no_explicit_rule ::
  "PolicyEnv \<Rightarrow> FileSystemSandboxEntry list \<Rightarrow> FileSystemPath \<Rightarrow> FileSystemSandboxEntry list" where
  "append_default_read_only_entry_if_no_explicit_rule env entries path =
     (if list_ex (\<lambda>entry. file_system_paths_share_target env (entry_path entry) path) entries then entries
      else entries @ [skip_missing_path path Read])"

definition append_default_read_only_project_root_subpath_if_no_explicit_rule ::
  "PolicyEnv \<Rightarrow> FileSystemSandboxEntry list \<Rightarrow> ustring \<Rightarrow> FileSystemSandboxEntry list" where
  "append_default_read_only_project_root_subpath_if_no_explicit_rule env entries subpath =
     append_default_read_only_entry_if_no_explicit_rule env entries (Special (ProjectRoots (Some subpath)))"

definition append_default_read_only_path_if_no_explicit_rule ::
  "PolicyEnv \<Rightarrow> FileSystemSandboxEntry list \<Rightarrow> AbsolutePathBuf \<Rightarrow> FileSystemSandboxEntry list" where
  "append_default_read_only_path_if_no_explicit_rule env entries path =
     append_default_read_only_entry_if_no_explicit_rule env entries (abs_path_entry env path)"

text \<open>The loop over the protected paths of a list of writable roots.\<close>

definition protect_root :: "PolicyEnv \<Rightarrow> bool \<Rightarrow> FileSystemSandboxEntry list \<Rightarrow> AbsolutePathBuf \<Rightarrow> FileSystemSandboxEntry list" where
  "protect_root env protect_missing_dot_codex entries writable_root =
     foldl (append_default_read_only_path_if_no_explicit_rule env) entries
       (default_read_only_subpaths_for_writable_root env writable_root protect_missing_dot_codex)"

section \<open>Policies of a workspace\<close>

definition workspace_write :: "PolicyEnv \<Rightarrow> AbsolutePathBuf list \<Rightarrow> bool \<Rightarrow> bool \<Rightarrow> FileSystemSandboxPolicy" where
  "workspace_write env writable_roots exclude_tmpdir_env_var exclude_slash_tmp =
     (let entries =
            [new_entry (Special Root) Read, new_entry (Special (ProjectRoots None)) Write] @
            (if exclude_slash_tmp then [] else [new_entry (Special SlashTmp) Write]) @
            (if exclude_tmpdir_env_var then [] else [new_entry (Special Tmpdir) Write]) @
            map (\<lambda>path. new_entry (abs_path_entry env path) Write) writable_roots;
          entries = foldl (append_default_read_only_project_root_subpath_if_no_explicit_rule env) entries
            [lit ''.git'', lit ''.agents'', lit ''.codex'']
      in restricted (foldl (protect_root env False) entries writable_roots))"

fun from_sandbox_policy :: "PolicyEnv \<Rightarrow> SandboxPolicy \<Rightarrow> FileSystemSandboxPolicy" where
  "from_sandbox_policy env DangerFullAccess = unrestricted"
| "from_sandbox_policy env (ExternalSandboxPolicy _) = external_sandbox"
| "from_sandbox_policy env (ReadOnly _) = restricted [new_entry (Special Root) Read]"
| "from_sandbox_policy env (WorkspaceWrite writable_roots _ exclude_tmpdir_env_var exclude_slash_tmp) =
     workspace_write env writable_roots exclude_tmpdir_env_var exclude_slash_tmp"

definition from_legacy_sandbox_policy_for_cwd :: "PolicyEnv \<Rightarrow> SandboxPolicy \<Rightarrow> ustring \<Rightarrow> FileSystemSandboxPolicy" where
  "from_legacy_sandbox_policy_for_cwd env sandbox_policy cwd =
     (let policy = from_sandbox_policy env sandbox_policy
      in case sandbox_policy of
           WorkspaceWrite writable_roots _ _ _ \<Rightarrow>
             let entries = (case from_absolute_path (env_path env) cwd of
                              Some cwd_root \<Rightarrow> protect_root env True (policy_entries policy) cwd_root
                            | None \<Rightarrow> policy_entries policy)
             in policy\<lparr>policy_entries := foldl (protect_root env False) entries writable_roots\<rparr>
         | _ \<Rightarrow> policy)"

section \<open>Denials that survive a replacement\<close>

definition push_missing_entry :: "PolicyEnv \<Rightarrow> FileSystemSandboxEntry list \<Rightarrow> FileSystemSandboxEntry \<Rightarrow> FileSystemSandboxEntry list" where
  "push_missing_entry env entries deny_entry =
     (if list_ex (\<lambda>entry. entry_eq (env_url env) entry deny_entry) entries then entries else entries @ [deny_entry])"

definition deny_entries :: "FileSystemSandboxPolicy \<Rightarrow> FileSystemSandboxEntry list" where
  "deny_entries policy = filter (\<lambda>entry. entry_access entry = Deny) (policy_entries policy)"

definition from_legacy_sandbox_policy_preserving_deny_entries ::
  "PolicyEnv \<Rightarrow> SandboxPolicy \<Rightarrow> ustring \<Rightarrow> FileSystemSandboxPolicy \<Rightarrow> FileSystemSandboxPolicy" where
  "from_legacy_sandbox_policy_preserving_deny_entries env sandbox_policy cwd existing =
     (let rebuilt = from_legacy_sandbox_policy_for_cwd env sandbox_policy cwd
      in if policy_kind rebuilt \<noteq> Restricted then rebuilt
         else rebuilt\<lparr>glob_scan_max_depth := glob_scan_max_depth existing,
                policy_entries := foldl (push_missing_entry env) (policy_entries rebuilt) (deny_entries existing)\<rparr>)"

definition preserve_deny_read_restrictions_from ::
  "PolicyEnv \<Rightarrow> FileSystemSandboxPolicy \<Rightarrow> FileSystemSandboxPolicy \<Rightarrow> FileSystemSandboxPolicy" where
  "preserve_deny_read_restrictions_from env self existing =
     (let policy = (if policy_kind self = Unrestricted \<and> list_ex (\<lambda>entry. entry_access entry = Deny) (policy_entries existing)
                    then restricted [new_entry (Special Root) Write] else self)
      in if policy_kind policy \<noteq> Restricted then policy
         else policy\<lparr>glob_scan_max_depth :=
                  (if glob_scan_max_depth policy = None then glob_scan_max_depth existing else glob_scan_max_depth policy),
                policy_entries := foldl (push_missing_entry env) (policy_entries policy) (deny_entries existing)\<rparr>)"

section \<open>Paths of entries on the host\<close>

fun resolve_file_system_special_path :: "PolicyEnv \<Rightarrow> FileSystemSpecialPath \<Rightarrow> AbsolutePathBuf option \<Rightarrow> AbsolutePathBuf option" where
  "resolve_file_system_special_path env (ProjectRoots subpath) cwd =
     map_option (\<lambda>cwd. case subpath of
         Some s \<Rightarrow> resolve_path_against_base (env_path env) s (absolute_text cwd)
       | None \<Rightarrow> cwd) cwd"
| "resolve_file_system_special_path env Tmpdir cwd =
     Option.bind (env_tmpdir env) (\<lambda>tmpdir. if tmpdir = [] then None else from_absolute_path (env_path env) tmpdir)"
| "resolve_file_system_special_path env SlashTmp cwd = (if is_dir env [lit ''tmp''] then Some [lit ''tmp''] else None)"
| "resolve_file_system_special_path env _ cwd = None"

fun resolve_file_system_path :: "PolicyEnv \<Rightarrow> FileSystemPath \<Rightarrow> AbsolutePathBuf option \<Rightarrow> AbsolutePathBuf option" where
  "resolve_file_system_path env (PathEntry path) cwd = to_abs_path (env_url env) (env_path env) path"
| "resolve_file_system_path env (GlobPattern _) cwd = None"
| "resolve_file_system_path env (Special special) cwd = resolve_file_system_special_path env special cwd"

text \<open>The root of a Unix path is the path without names.\<close>

definition absolute_root_path_for_cwd :: "AbsolutePathBuf \<Rightarrow> AbsolutePathBuf" where
  "absolute_root_path_for_cwd cwd = []"

definition resolve_entry_path :: "PolicyEnv \<Rightarrow> FileSystemPath \<Rightarrow> AbsolutePathBuf option \<Rightarrow> AbsolutePathBuf option" where
  "resolve_entry_path env path cwd =
     (if path = Special Root then map_option absolute_root_path_for_cwd cwd else resolve_file_system_path env path cwd)"

definition resolved_entries_with_cwd ::
  "PolicyEnv \<Rightarrow> FileSystemSandboxPolicy \<Rightarrow> ustring \<Rightarrow> (AbsolutePathBuf \<times> FileSystemAccessMode) list" where
  "resolved_entries_with_cwd env policy cwd =
     List.map_filter (\<lambda>entry.
         map_option (\<lambda>path. (path, entry_access entry))
           (resolve_entry_path env (entry_path entry) (from_absolute_path (env_path env) cwd)))
       (policy_entries policy)"

definition has_explicit_non_write_entry_for_path_with_cwd :: "PolicyEnv \<Rightarrow> FileSystemSandboxPolicy \<Rightarrow> ustring \<Rightarrow> ustring \<Rightarrow> bool" where
  "has_explicit_non_write_entry_for_path_with_cwd env policy path cwd =
     (case resolve_candidate_path (env_path env) path cwd of
        None \<Rightarrow> False
      | Some path \<Rightarrow>
          list_ex (\<lambda>entry. \<not> skips_missing_path entry \<and> \<not> can_write (entry_access entry) \<and>
              resolve_entry_path env (entry_path entry) (from_absolute_path (env_path env) cwd) = Some path)
            (policy_entries policy))"

definition has_writable_roots_with_cwd :: "PolicyEnv \<Rightarrow> FileSystemSandboxPolicy \<Rightarrow> ustring \<Rightarrow> bool" where
  "has_writable_roots_with_cwd env policy cwd \<longleftrightarrow>
     \<not> has_full_disk_write_access env policy \<and>
     list_ex (\<lambda>(path, access). can_write access \<and> can_write_path_with_cwd env policy (absolute_text path) cwd)
       (resolved_entries_with_cwd env policy cwd)"

definition has_configured_writable_roots_with_cwd :: "PolicyEnv \<Rightarrow> FileSystemSandboxPolicy \<Rightarrow> ustring \<Rightarrow> bool" where
  "has_configured_writable_roots_with_cwd env policy cwd \<longleftrightarrow>
     \<not> has_full_disk_write_access env policy \<and>
     with_local_policy_context env cwd cwd (\<lambda>_ ctx.
         list_ex (\<lambda>(path, access). can_write access \<and> can_write_path env policy path ctx)
           (resolved_entries (env_url env) policy ctx)) = Some True"

section \<open>Workspace roots made concrete\<close>

definition PROJECT_ROOTS_GLOB_PATTERN_PREFIX :: ustring where
  "PROJECT_ROOTS_GLOB_PATTERN_PREFIX = lit ''codex-project-roots://''"

definition parse_project_roots_glob_pattern :: "ustring \<Rightarrow> ustring option" where
  "parse_project_roots_glob_pattern pattern = strip_prefix PROJECT_ROOTS_GLOB_PATTERN_PREFIX pattern"

definition resolve_project_roots_glob_pattern :: "PolicyEnv \<Rightarrow> ustring \<Rightarrow> AbsolutePathBuf \<Rightarrow> ustring" where
  "resolve_project_roots_glob_pattern env subpath root =
     absolute_text (resolve_path_against_base (env_path env) subpath (absolute_text root))"

definition materialize_entry_with_cwd ::
  "PolicyEnv \<Rightarrow> AbsolutePathBuf option \<Rightarrow> FileSystemSandboxEntry \<Rightarrow> FileSystemSandboxEntry" where
  "materialize_entry_with_cwd env cwd entry =
     (case entry_path entry of
        Special (ProjectRoots _) \<Rightarrow>
          (case resolve_file_system_path env (entry_path entry) cwd of
             Some path \<Rightarrow> entry\<lparr>entry_path := abs_path_entry env path\<rparr>
           | None \<Rightarrow> entry)
      | GlobPattern pattern \<Rightarrow>
          (case (cwd, parse_project_roots_glob_pattern pattern) of
             (Some cwd, Some subpath) \<Rightarrow> entry\<lparr>entry_path := GlobPattern (resolve_project_roots_glob_pattern env subpath cwd)\<rparr>
           | _ \<Rightarrow> entry)
      | _ \<Rightarrow> entry)"

definition materialize_project_roots_with_cwd :: "PolicyEnv \<Rightarrow> FileSystemSandboxPolicy \<Rightarrow> ustring \<Rightarrow> FileSystemSandboxPolicy" where
  "materialize_project_roots_with_cwd env policy cwd =
     policy\<lparr>policy_entries :=
       map (materialize_entry_with_cwd env (from_absolute_path (env_path env) cwd)) (policy_entries policy)\<rparr>"

definition materialize_entry :: "PolicyEnv \<Rightarrow> AbsolutePathBuf list \<Rightarrow> FileSystemSandboxEntry \<Rightarrow> FileSystemSandboxEntry list" where
  "materialize_entry env workspace_roots entry =
     (case entry_path entry of
        Special (ProjectRoots subpath) \<Rightarrow>
          map (\<lambda>root. entry\<lparr>entry_path := abs_path_entry env
              (case subpath of
                 Some s \<Rightarrow> resolve_path_against_base (env_path env) s (absolute_text root)
               | None \<Rightarrow> root)\<rparr>) workspace_roots
      | GlobPattern pattern \<Rightarrow>
          (case parse_project_roots_glob_pattern pattern of
             Some subpath \<Rightarrow>
               map (\<lambda>root. entry\<lparr>entry_path := GlobPattern (resolve_project_roots_glob_pattern env subpath root)\<rparr>) workspace_roots
           | None \<Rightarrow> [entry])
      | _ \<Rightarrow> [entry])"

definition materialize_project_roots_with_workspace_roots ::
  "PolicyEnv \<Rightarrow> FileSystemSandboxPolicy \<Rightarrow> AbsolutePathBuf list \<Rightarrow> FileSystemSandboxPolicy" where
  "materialize_project_roots_with_workspace_roots env policy workspace_roots =
     policy\<lparr>policy_entries := concat (map (materialize_entry env workspace_roots) (policy_entries policy))\<rparr>"

definition with_materialized_project_roots_for_workspace_roots ::
  "PolicyEnv \<Rightarrow> FileSystemSandboxPolicy \<Rightarrow> AbsolutePathBuf list \<Rightarrow> FileSystemSandboxPolicy" where
  "with_materialized_project_roots_for_workspace_roots env policy workspace_roots =
     policy\<lparr>policy_entries := foldl (push_missing_entry env) (policy_entries policy)
       (policy_entries (materialize_project_roots_with_workspace_roots env policy workspace_roots))\<rparr>"

section \<open>Added roots\<close>

definition push_entry :: "FileSystemSandboxPolicy \<Rightarrow> FileSystemSandboxEntry \<Rightarrow> FileSystemSandboxPolicy" where
  "push_entry policy entry = policy\<lparr>policy_entries := policy_entries policy @ [entry]\<rparr>"

definition with_additional_readable_roots ::
  "PolicyEnv \<Rightarrow> FileSystemSandboxPolicy \<Rightarrow> ustring \<Rightarrow> AbsolutePathBuf list \<Rightarrow> FileSystemSandboxPolicy" where
  "with_additional_readable_roots env policy cwd additional_readable_roots =
     (if has_full_disk_read_access policy then policy
      else foldl (\<lambda>policy path.
          if can_read_path_with_cwd env policy (absolute_text path) cwd then policy
          else push_entry policy (new_entry (abs_path_entry env path) Read)) policy additional_readable_roots)"

definition with_additional_writable_roots ::
  "PolicyEnv \<Rightarrow> FileSystemSandboxPolicy \<Rightarrow> ustring \<Rightarrow> AbsolutePathBuf list \<Rightarrow> FileSystemSandboxPolicy" where
  "with_additional_writable_roots env policy cwd additional_writable_roots =
     foldl (\<lambda>policy path.
         if can_write_path_with_cwd env policy (absolute_text path) cwd then policy
         else push_entry policy (new_entry (abs_path_entry env path) Write)) policy additional_writable_roots"

definition add_legacy_root :: "PolicyEnv \<Rightarrow> FileSystemSandboxPolicy \<Rightarrow> AbsolutePathBuf \<Rightarrow> FileSystemSandboxPolicy" where
  "add_legacy_root env policy path =
     (let listed = list_ex (\<lambda>entry. can_write (entry_access entry) \<and>
              (case entry_path entry of
                 PathEntry existing \<Rightarrow> uri_eq (env_url env) existing (from_abs_path (env_url env) path)
               | _ \<Rightarrow> False)) (policy_entries policy);
          policy = (if listed then policy else push_entry policy (new_entry (abs_path_entry env path) Write))
      in policy\<lparr>policy_entries := protect_root env False (policy_entries policy) path\<rparr>)"

definition with_additional_legacy_workspace_writable_roots ::
  "PolicyEnv \<Rightarrow> FileSystemSandboxPolicy \<Rightarrow> AbsolutePathBuf list \<Rightarrow> FileSystemSandboxPolicy" where
  "with_additional_legacy_workspace_writable_roots env policy additional_writable_roots =
     (if policy_kind policy \<noteq> Restricted then policy else foldl (add_legacy_root env) policy additional_writable_roots)"

section \<open>Conversion to an older policy\<close>

datatype LegacyPolicyError = PathNotOnHost | WritesOutsideWorkspace

record LegacyScan =
  workspace_root_writable :: bool
  legacy_writable_roots :: "AbsolutePathBuf list"
  tmpdir_writable :: bool
  slash_tmp_writable :: bool
  unbridgeable_root_write :: bool

definition scan_entry ::
  "PolicyEnv \<Rightarrow> AbsolutePathBuf option \<Rightarrow> LegacyScan \<Rightarrow> FileSystemSandboxEntry \<Rightarrow> (LegacyPolicyError, LegacyScan) result" where
  "scan_entry env cwd_absolute scan entry =
     (if \<not> can_write (entry_access entry) then Inr scan
      else (case entry_path entry of
              GlobPattern _ \<Rightarrow> Inr scan
            | PathEntry uri \<Rightarrow>
                (case to_abs_path (env_url env) (env_path env) uri of
                   None \<Rightarrow> Inl PathNotOnHost
                 | Some path \<Rightarrow>
                     if cwd_absolute = Some path then Inr (scan\<lparr>workspace_root_writable := True\<rparr>)
                     else Inr (scan\<lparr>legacy_writable_roots := legacy_writable_roots scan @ [path]\<rparr>))
            | Special special \<Rightarrow>
                Inr (case special of
                       Root \<Rightarrow> scan\<lparr>unbridgeable_root_write := True\<rparr>
                     | ProjectRoots None \<Rightarrow> scan\<lparr>workspace_root_writable := True\<rparr>
                     | ProjectRoots (Some _) \<Rightarrow>
                         (case resolve_file_system_special_path env special cwd_absolute of
                            Some path \<Rightarrow> scan\<lparr>legacy_writable_roots := legacy_writable_roots scan @ [path]\<rparr>
                          | None \<Rightarrow> scan)
                     | Tmpdir \<Rightarrow> scan\<lparr>tmpdir_writable := True\<rparr>
                     | SlashTmp \<Rightarrow> scan\<lparr>slash_tmp_writable := True\<rparr>
                     | _ \<Rightarrow> scan)))"

fun scan_entries ::
  "PolicyEnv \<Rightarrow> AbsolutePathBuf option \<Rightarrow> LegacyScan \<Rightarrow> FileSystemSandboxEntry list \<Rightarrow> (LegacyPolicyError, LegacyScan) result" where
  "scan_entries env cwd_absolute scan [] = Inr scan"
| "scan_entries env cwd_absolute scan (entry # entries) =
     and_then (scan_entry env cwd_absolute scan entry) (\<lambda>scan. scan_entries env cwd_absolute scan entries)"

definition empty_scan :: LegacyScan where
  "empty_scan =
     \<lparr>workspace_root_writable = False, legacy_writable_roots = [], tmpdir_writable = False,
      slash_tmp_writable = False, unbridgeable_root_write = False\<rparr>"

definition unrestricted_legacy_policy :: "NetworkSandboxPolicy \<Rightarrow> SandboxPolicy" where
  "unrestricted_legacy_policy network_policy =
     (if network_policy = NetworkEnabled then DangerFullAccess else ExternalSandboxPolicy AccessRestricted)"

definition to_legacy_sandbox_policy ::
  "PolicyEnv \<Rightarrow> FileSystemSandboxPolicy \<Rightarrow> NetworkSandboxPolicy \<Rightarrow> ustring \<Rightarrow> (LegacyPolicyError, SandboxPolicy) result" where
  "to_legacy_sandbox_policy env policy network_policy cwd =
     (case policy_kind policy of
        ExternalSandbox \<Rightarrow>
          Inr (ExternalSandboxPolicy (if network_policy = NetworkEnabled then AccessEnabled else AccessRestricted))
      | Unrestricted \<Rightarrow> Inr (unrestricted_legacy_policy network_policy)
      | Restricted \<Rightarrow>
          and_then (scan_entries env (from_absolute_path (env_path env) cwd) empty_scan (policy_entries policy)) (\<lambda>scan.
            if has_full_disk_write_access env policy then Inr (unrestricted_legacy_policy network_policy)
            else if workspace_root_writable scan
            then Inr (WorkspaceWrite (dedup_absolute_paths (legacy_writable_roots scan)) (network_policy = NetworkEnabled)
                        (\<not> tmpdir_writable scan) (\<not> slash_tmp_writable scan))
            else if unbridgeable_root_write scan \<or> legacy_writable_roots scan \<noteq> [] \<or> tmpdir_writable scan \<or>
                    slash_tmp_writable scan
            then Inl WritesOutsideWorkspace
            else Inr (ReadOnly (network_policy = NetworkEnabled))))"

end
