(* ===== verification/Url_Laws.thy ===== *)
theory Url_Laws
  imports Path_Uri
begin

text \<open>
  What the path URIs rely on from the crates for URLs, percent coding and base64, and an instance that
  satisfies it. Names with control characters or a vertical bar are left out of the law for pushed
  segments, because the URL parser may rewrite them. A path from a URL may end in a slash, which the crate
  adds to one that ends like a Windows drive. A URL with a path that is not UTF-8 gives no path, since the
  model has paths as text.
\<close>

section \<open>The laws\<close>

definition name_text :: "ustring \<Rightarrow> bool" where
  "name_text name \<longleftrightarrow>
     name \<noteq> [] \<and> name \<noteq> lit ''.'' \<and> name \<noteq> lit ''..'' \<and> 47 \<notin> set name \<and> list_all is_scalar name"

definition plain_text :: "ustring \<Rightarrow> bool" where
  "plain_text name \<longleftrightarrow> name_text name \<and> list_all (\<lambda>c. 32 \<le> c \<and> c \<noteq> 124 \<and> c \<noteq> 127) name"

definition encoded_as :: "UrlLib \<Rightarrow> ustring \<Rightarrow> ustring \<Rightarrow> bool" where
  "encoded_as lib name segment \<longleftrightarrow>
     segment \<noteq> [] \<and> 47 \<notin> set segment \<and> decode_binary lib segment = utf8_bytes name"

definition url_laws :: "UrlLib \<Rightarrow> bool" where
  "url_laws lib \<longleftrightarrow>
     encode_segment lib [] = [] \<and>
     (\<forall>name. plain_text name \<longrightarrow> encoded_as lib name (encode_segment lib name)) \<and>
     (\<forall>names. list_all name_text names \<longrightarrow>
       (\<exists>segments. url_from_file_path lib (absolute_text names) =
           Some (file_url None (if names = [] then [[]] else segments)) \<and>
         list_all2 (encoded_as lib) names segments)) \<and>
     (\<forall>segments. case from_utf8 (decode_binary lib (encoded_path (file_url None segments))) of
        Inr path \<Rightarrow> \<exists>slash. (slash = [] \<or> slash = [47]) \<and> url_to_file_path lib (file_url None segments) = Some (path @ slash)
      | Inl _ \<Rightarrow> url_to_file_path lib (file_url None segments) = None) \<and>
     (\<forall>cs. decode_binary lib cs = [] \<longleftrightarrow> cs = []) \<and>
     (\<forall>a b. decode_binary lib (a @ 47 # b) = decode_binary lib a @ 47 # decode_binary lib b) \<and>
     decode_binary lib (lit ''%00'') = [0] \<and>
     (\<forall>drive. is_ascii_alphabetic drive \<longrightarrow>
       decode_binary lib [drive, 58] = utf8_bytes [drive, 58] \<and>
       decode_binary lib [drive, 37, 51, 65] = utf8_bytes [drive, 58] \<and>
       decode_binary lib [drive, 37, 51, 97] = utf8_bytes [drive, 58]) \<and>
     (\<forall>bytes. base64_decode lib (base64_encode lib bytes) = Some bytes \<and> 47 \<notin> set (base64_encode lib bytes) \<and>
       (bytes \<noteq> [] \<longrightarrow> base64_encode lib bytes \<noteq> []))"

lemma url_lawsD:
  assumes "url_laws lib"
  shows "encode_segment lib [] = []"
    and "plain_text name \<Longrightarrow> encoded_as lib name (encode_segment lib name)"
    and "list_all name_text names \<Longrightarrow> \<exists>segments. url_from_file_path lib (absolute_text names) =
           Some (file_url None (if names = [] then [[]] else segments)) \<and> list_all2 (encoded_as lib) names segments"
    and "case from_utf8 (decode_binary lib (encoded_path (file_url None segments))) of
        Inr path \<Rightarrow> \<exists>slash. (slash = [] \<or> slash = [47]) \<and> url_to_file_path lib (file_url None segments) = Some (path @ slash)
      | Inl _ \<Rightarrow> url_to_file_path lib (file_url None segments) = None"
    and "decode_binary lib cs = [] \<longleftrightarrow> cs = []"
    and "decode_binary lib (a @ 47 # b) = decode_binary lib a @ 47 # decode_binary lib b"
    and "decode_binary lib (lit ''%00'') = [0]"
    and "is_windows_drive_uri_segment segment \<Longrightarrow>
       \<exists>drive. is_ascii_alphabetic drive \<and> decode_binary lib segment = utf8_bytes [drive, 58]"
    and "base64_decode lib (base64_encode lib bytes) = Some bytes" "47 \<notin> set (base64_encode lib bytes)"
    and "bytes \<noteq> [] \<Longrightarrow> base64_encode lib bytes \<noteq> []"
proof -
  show "\<exists>drive. is_ascii_alphabetic drive \<and> decode_binary lib segment = utf8_bytes [drive, 58]"
    if "is_windows_drive_uri_segment segment"
    using that assms unfolding is_windows_drive_uri_segment_def url_laws_def
    by (auto split: list.splits)
qed (use assms in \<open>unfold url_laws_def, (simp | blast)+\<close>)

section \<open>An instance\<close>

definition unreserved :: "byte \<Rightarrow> bool" where
  "unreserved b \<longleftrightarrow> is_ascii_alphabetic (unat b) \<or> is_ascii_digit (unat b)"

definition hex_digit :: "nat \<Rightarrow> uchar" where
  "hex_digit n = (if n < 10 then 48 + n else 55 + n)"

definition hex_value :: "uchar \<Rightarrow> nat option" where
  "hex_value c =
     (if 48 \<le> c \<and> c \<le> 57 then Some (c - 48) else if 65 \<le> c \<and> c \<le> 70 then Some (c - 55)
      else if 97 \<le> c \<and> c \<le> 102 then Some (c - 87) else None)"

definition percent_byte :: "byte \<Rightarrow> ustring" where
  "percent_byte b = (if unreserved b then [unat b] else [37, hex_digit (unat b div 16), hex_digit (unat b mod 16)])"

definition percent_encode :: "byte list \<Rightarrow> ustring" where
  "percent_encode bytes = concat (map percent_byte bytes)"

definition escape :: "uchar \<Rightarrow> uchar \<Rightarrow> byte option" where
  "escape c d =
     (case (hex_value c, hex_value d) of (Some hi, Some lo) \<Rightarrow> Some (of_nat (16 * hi + lo)) | _ \<Rightarrow> None)"

fun percent_decode :: "ustring \<Rightarrow> byte list" where
  "percent_decode [] = []"
| "percent_decode (x # cs) =
     (case cs of
        c # d # rest \<Rightarrow>
          (if x = 37 \<and> escape c d \<noteq> None then the (escape c d) # percent_decode rest
           else of_nat x # percent_decode cs)
      | _ \<Rightarrow> of_nat x # percent_decode cs)"

definition hex_encode :: "byte list \<Rightarrow> ustring" where
  "hex_encode bytes = concat (map (\<lambda>b. [hex_digit (unat b div 16), hex_digit (unat b mod 16)]) bytes)"

fun hex_decode :: "ustring \<Rightarrow> byte list option" where
  "hex_decode [] = Some []"
| "hex_decode [c] = None"
| "hex_decode (c # d # cs) =
     (case escape c d of None \<Rightarrow> None | Some b \<Rightarrow> map_option ((#) b) (hex_decode cs))"

definition sample_url_lib :: UrlLib where
  "sample_url_lib =
     \<lparr>url_parse = (\<lambda>_. Inl []),
      url_from_file_path = (\<lambda>path.
        let names = filter (\<lambda>name. name \<noteq> []) (split_on 47 path)
        in Some (file_url None (if names = [] then [[]] else map (percent_encode \<circ> utf8_bytes) names))),
      url_to_file_path = (\<lambda>url.
        case from_utf8 (percent_decode (encoded_path url)) of Inr path \<Rightarrow> Some path | Inl _ \<Rightarrow> None),
      url_set_host = Some,
      encode_segment = percent_encode \<circ> utf8_bytes,
      decode_binary = percent_decode,
      base64_encode = hex_encode,
      base64_decode = hex_decode\<rparr>"

lemma hex_value_digit: "n < 16 \<Longrightarrow> hex_value (hex_digit n) = Some n"
  by (auto simp: hex_value_def hex_digit_def)

lemma unat_byte [simp]: "unat (b :: byte) < 256"
  by (rule order_less_le_trans [OF unsigned_less]) simp

lemma escape_digits [simp]: "escape (hex_digit (unat b div 16)) (hex_digit (unat b mod 16)) = Some b"
proof -
  have "unat b div 16 < 16" "unat b mod 16 < 16"
    using unat_byte [of b] by linarith+
  then show ?thesis
    by (simp add: escape_def hex_value_digit)
qed

lemma percent_decode_other: "x \<noteq> 37 \<Longrightarrow> percent_decode (x # cs) = of_nat x # percent_decode cs"
  by (auto split: list.split)

lemma percent_decode_escape: "escape c d = Some b \<Longrightarrow> percent_decode (37 # c # d # cs) = b # percent_decode cs"
  by simp

lemma percent_decode_literal:
  "\<forall>c d rest. cs = c # d # rest \<longrightarrow> escape c d = None \<Longrightarrow> percent_decode (x # cs) = of_nat x # percent_decode cs"
  by (auto split: list.split)

declare percent_decode.simps(2) [simp del]

lemma percent_decode_byte: "percent_decode (percent_byte b @ cs) = b # percent_decode cs"
proof (cases "unreserved b")
  case True
  then have "unat b \<noteq> 37" by (auto simp: unreserved_def is_ascii_alphabetic_def is_ascii_digit_def)
  then show ?thesis
    using True by (simp add: percent_byte_def percent_decode_other)
qed (simp add: percent_byte_def percent_decode_escape)

lemma percent_decode_encode: "percent_decode (percent_encode bytes) = bytes"
  by (induction bytes) (simp_all add: percent_encode_def percent_decode_byte)

lemma percent_decode_eq_Nil: "percent_decode cs = [] \<longleftrightarrow> cs = []"
  by (cases cs) (auto simp: percent_decode.simps split: list.splits)

lemma escape_slash: "escape 47 d = None" "escape c 47 = None"
  by (auto simp: escape_def hex_value_def split: option.splits)

lemma percent_decode_slash: "percent_decode (a @ 47 # b) = percent_decode a @ 47 # percent_decode b"
proof (induction a rule: percent_decode.induct)
  case (2 x cs)
  show ?case
  proof (cases "x = 37 \<and> (\<exists>c d rest. cs = c # d # rest \<and> escape c d \<noteq> None)")
    case True
    then obtain c d rest e where "x = 37" "cs = c # d # rest" "escape c d = Some e" by auto
    then show ?thesis
      using "2.IH" by (simp add: percent_decode_escape)
  next
    case False
    then have "percent_decode (x # cs) = of_nat x # percent_decode cs"
      using percent_decode_literal [of cs x] percent_decode_other [of x cs] by (cases "x = 37") blast+
    moreover have "percent_decode (x # cs @ 47 # b) = of_nat x # percent_decode (cs @ 47 # b)"
    proof (cases "x = 37")
      case True
      then show ?thesis
        using False by (intro percent_decode_literal) (auto simp: append_eq_Cons_conv escape_slash)
    qed (rule percent_decode_other)
    moreover have "percent_decode (cs @ 47 # b) = percent_decode cs @ 47 # percent_decode b"
      using "2.IH" False by (cases cs rule: list.exhaust; cases "tl cs"; auto)
    ultimately show ?thesis by simp
  qed
qed (simp add: percent_decode_other)

lemma hex_decode_encode: "hex_decode (hex_encode bytes) = Some bytes"
  by (induction bytes) (simp_all add: hex_encode_def)

lemma no_slash_in_code: "47 \<notin> set (percent_encode bytes)" "47 \<notin> set (hex_encode bytes)"
  by (auto simp: percent_encode_def percent_byte_def hex_encode_def hex_digit_def unreserved_def
      is_ascii_alphabetic_def is_ascii_digit_def)

lemma percent_encode_eq_Nil: "percent_encode bytes = [] \<longleftrightarrow> bytes = []"
  by (metis percent_decode_encode percent_decode_eq_Nil)

lemma utf8_bytes_eq_Nil [simp]: "utf8_bytes s = [] \<longleftrightarrow> s = []"
  by (auto simp: utf8_bytes_def)

lemma absolute_text_names:
  assumes "list_all name_text names"
  shows "filter (\<lambda>name. name \<noteq> []) (split_on 47 (absolute_text names)) = names"
proof (cases "names = []")
  case False
  have "split_on 47 (join [47] names) = names"
    using assms False by (intro split_on_join) (auto simp: name_text_def list_all_iff)
  moreover have "filter (\<lambda>name. name \<noteq> []) names = names"
    using assms by (auto simp: filter_id_conv name_text_def list_all_iff)
  ultimately show ?thesis
    by (simp add: absolute_text_def lit_def)
qed (simp add: absolute_text_def lit_def)

lemma sample_url_lib_simps [simp]:
  "decode_binary sample_url_lib = percent_decode" "encode_segment sample_url_lib = percent_encode \<circ> utf8_bytes"
  "base64_encode sample_url_lib = hex_encode" "base64_decode sample_url_lib = hex_decode"
  by (simp_all add: sample_url_lib_def)

lemma sample_url_laws: "url_laws sample_url_lib"
proof -
  have encoded: "encoded_as sample_url_lib name (percent_encode (utf8_bytes name))" if "name \<noteq> []" for name
    using that by (simp add: encoded_as_def sample_url_lib_def percent_encode_eq_Nil no_slash_in_code percent_decode_encode)
  have files: "\<exists>segments. url_from_file_path sample_url_lib (absolute_text names) =
        Some (file_url None (if names = [] then [[]] else segments)) \<and> list_all2 (encoded_as sample_url_lib) names segments"
    if "list_all name_text names" for names
    using absolute_text_names [OF that] that encoded
    by (intro exI [of _ "map (percent_encode \<circ> utf8_bytes) names"])
      (auto simp: sample_url_lib_def list_all2_conv_all_nth list_all_length name_text_def)
  have drives: "percent_decode [d, 58] = utf8_bytes [d, 58] \<and> percent_decode [d, 37, 51, 65] = utf8_bytes [d, 58] \<and>
      percent_decode [d, 37, 51, 97] = utf8_bytes [d, 58]" if "is_ascii_alphabetic d" for d
    using that by (auto simp: is_ascii_alphabetic_def percent_decode.simps escape_def hex_value_def utf8_bytes_def encode_char_def)
  have hex: "hex_encode bytes = [] \<longleftrightarrow> bytes = []" for bytes
    by (auto simp: hex_encode_def)
  have zero: "percent_decode (lit ''%00'') = [0]"
    by (simp add: lit_def percent_decode.simps escape_def hex_value_def)
  have native: "case from_utf8 (percent_decode (encoded_path url)) of
      Inr path \<Rightarrow> \<exists>slash. (slash = [] \<or> slash = [47]) \<and> url_to_file_path sample_url_lib url = Some (path @ slash)
    | Inl _ \<Rightarrow> url_to_file_path sample_url_lib url = None" for url
    by (auto simp: sample_url_lib_def split: sum.split)
  show ?thesis
    unfolding url_laws_def sample_url_lib_simps
    by (intro conjI allI impI; ((rule files, assumption) | rule native | simp add: hex zero percent_decode_eq_Nil percent_decode_slash hex_decode_encode
          no_slash_in_code percent_encode_eq_Nil drives encoded plain_text_def name_text_def))
qed

end
