(* ===== verification/Path_Containment.thy ===== *)
theory Path_Containment
  imports Url_Laws "HOL-Library.Product_Lexorder"
begin

text \<open>
  Containment of paths. The locale \<open>containment\<close> says what a client may rely on when it asks whether a
  path lies below another one: containment is a preorder, it grows with the depth, and the paths above a
  path are ordered. POSIX URIs satisfy it, because containment compares their decoded names. The laws of
  the URL library then relate the URIs of native paths, and joins, to names.
\<close>

section \<open>The contract\<close>

lemma max_by_key_step:
  "foldl (\<lambda>best x. case best of None \<Rightarrow> Some x | Some b \<Rightarrow> if key b \<le> key x then Some x else Some b) (Some b) xs = Some y \<Longrightarrow>
   (y = b \<or> y \<in> set xs) \<and> (\<forall>x\<in>insert b (set xs). key x \<le> key y)"
  for key :: "'a \<Rightarrow> 'k :: linorder"
proof (induction xs arbitrary: b)
  case (Cons x xs)
  then show ?case
    by (cases "key b \<le> key x") fastforce+
qed simp

lemma max_by_key_Some:
  fixes key :: "'a \<Rightarrow> 'k :: linorder"
  assumes "max_by_key key xs = Some y"
  shows "y \<in> set xs \<and> (\<forall>x\<in>set xs. key x \<le> key y)"
  using assms max_by_key_step [of key _ _ y] by (cases xs) (fastforce simp: max_by_key_def)+

lemma max_by_key_None: "max_by_key key xs = None \<longleftrightarrow> xs = []" for key :: "'a \<Rightarrow> 'k :: linorder"
proof
  have "foldl (\<lambda>best x. case best of None \<Rightarrow> Some x | Some b \<Rightarrow> if key b \<le> key x then Some x else Some b) (Some b) ys \<noteq> None" for b ys
    by (induction ys arbitrary: b) auto
  then show "max_by_key key xs = None \<Longrightarrow> xs = []"
    by (cases xs) (auto simp: max_by_key_def)
qed (simp add: max_by_key_def)

locale containment =
  fixes ordinary :: "'u \<Rightarrow> bool"
    and below :: "'u \<Rightarrow> 'u \<Rightarrow> bool"
    and depth :: "'u \<Rightarrow> nat"
  assumes below_refl: "ordinary p \<Longrightarrow> below p p"
    and below_trans: "ordinary p \<Longrightarrow> ordinary a \<Longrightarrow> ordinary b \<Longrightarrow> below p a \<Longrightarrow> below a b \<Longrightarrow> below p b"
    and below_depth: "ordinary p \<Longrightarrow> ordinary a \<Longrightarrow> below p a \<Longrightarrow> depth a \<le> depth p"
    and above_ordered: "ordinary p \<Longrightarrow> ordinary a \<Longrightarrow> ordinary b \<Longrightarrow> below p a \<Longrightarrow> below p b \<Longrightarrow>
      depth a \<le> depth b \<Longrightarrow> below b a"
begin

text \<open>Among the roots that contain a path, the greatest by depth and then by access lies below all of
  them, and no root at the same place has a greater access.\<close>

lemma most_specific:
  fixes access :: "'k :: linorder"
  assumes chosen: "max_by_key (\<lambda>(_, a, d). (d, a)) (filter (\<lambda>(r, _, _). below p r) entries) = Some (root, access, dep)"
    and entries: "\<And>r a d. (r, a, d) \<in> set entries \<Longrightarrow> ordinary r \<and> d = depth r"
    and p: "ordinary p"
  shows "(root, access, dep) \<in> set entries" "below p root"
    and "\<And>r a d. (r, a, d) \<in> set entries \<Longrightarrow> below p r \<Longrightarrow> below root r \<and> (below r root \<longrightarrow> a \<le> access)"
proof -
  have mem: "(root, access, dep) \<in> set (filter (\<lambda>(r, _, _). below p r) entries)"
    and greatest: "\<And>r a d. (r, a, d) \<in> set entries \<Longrightarrow> below p r \<Longrightarrow> (d, a) \<le> (dep, access)"
    using max_by_key_Some [OF chosen] by auto
  show in_entries: "(root, access, dep) \<in> set entries" and below: "below p root"
    using mem by auto
  fix r a d
  assume r: "(r, a, d) \<in> set entries" "below p r"
  have ord: "ordinary r" "d = depth r" "ordinary root" "dep = depth root"
    using entries r(1) in_entries by auto
  have le: "d \<le> dep" "d = dep \<Longrightarrow> a \<le> access"
    using greatest [OF r] by (auto simp: less_eq_prod_def)
  have "below root r"
    using above_ordered [OF p ord(1,3) r(2) below] le(1) ord(2,4) by simp
  moreover have "a \<le> access" if "below r root"
    using below_depth [OF ord(1,3) that] le ord(2,4) by simp
  ultimately show "below root r \<and> (below r root \<longrightarrow> a \<le> access)"
    by blast
qed

end

section \<open>POSIX URIs\<close>

definition names :: "UrlLib \<Rightarrow> PathUri \<Rightarrow> byte list list" where
  "names lib uri = map (decode_binary lib) (nonempty_segments uri)"

definition proper_name :: "byte list \<Rightarrow> bool" where
  "proper_name name \<longleftrightarrow> 0 \<notin> set name \<and> 47 \<notin> set name \<and> name \<noteq> utf8_bytes (lit ''.'') \<and> name \<noteq> utf8_bytes (lit ''..'')"

text \<open>The URIs of POSIX paths: neither opaque nor on a host nor on a drive, with proper names.\<close>

definition ordinary :: "UrlLib \<Rightarrow> PathUri \<Rightarrow> bool" where
  "ordinary lib uri \<longleftrightarrow>
     uri = file_url None (url_path_segments uri) \<and> list_all (\<lambda>segment. 47 \<notin> set segment) (url_path_segments uri) \<and>
     \<not> is_opaque lib uri \<and> \<not> starts_with_drive uri \<and>
     list_all proper_name (names lib uri)"

lemma ordinary_url:
  assumes "ordinary lib uri"
  obtains segments where "uri = file_url None segments" "list_all (\<lambda>segment. 47 \<notin> set segment) segments"
  using assms unfolding ordinary_def by blast

lemma ordinary_simps:
  assumes "ordinary lib uri"
  shows "infer_path_convention lib uri = Some Posix" "\<not> is_opaque lib uri" "url_host_str uri = None"
    and "containment_path_segments lib uri Posix = Some (nonempty_segments uri)"
    and "lexical_depth lib uri = Some (length (names lib uri))"
    and "windows_identity_path_bytes lib uri = None"
proof -
  show host: "url_host_str uri = None"
    by (rule ordinary_url [OF assms]) (simp add: file_url_def)
  show conv: "infer_path_convention lib uri = Some Posix"
    using assms host by (auto simp: ordinary_def infer_path_convention_def is_opaque_def)
  show "\<not> is_opaque lib uri"
    using assms by (simp add: ordinary_def)
  have "\<not> list_ex (\<lambda>segment. list_ex (\<lambda>b. b = 47) (decode_binary lib segment)) (nonempty_segments uri)"
    using assms by (auto simp: ordinary_def names_def list_all_iff list_ex_iff proper_name_def)
  then show segs: "containment_path_segments lib uri Posix = Some (nonempty_segments uri)"
    by (simp add: containment_path_segments_def)
  show "lexical_depth lib uri = Some (length (names lib uri))"
    using assms segs conv by (simp add: lexical_depth_def names_def ordinary_def)
  show "windows_identity_path_bytes lib uri = None"
    by (simp add: windows_identity_path_bytes_def conv)
qed

lemma uri_eq_ordinary: "ordinary lib a \<or> ordinary lib b \<Longrightarrow> uri_eq lib a b \<longleftrightarrow> a = b"
  by (auto simp: uri_eq_def ordinary_simps(6) split: option.split)

lemma native_path_segments_start_with_prefix:
  "native_path_segments_start_with lib Posix own base \<longleftrightarrow>
     prefix (map (decode_binary lib) base) (map (decode_binary lib) own)"
proof (induction own arbitrary: base)
  case Nil
  then show ?case by (cases base) (auto simp: native_path_segments_start_with_def)
next
  case (Cons x own)
  then show ?case
    by (cases base) (auto simp: native_path_segments_start_with_def segment_eq_def)
qed

lemma starts_with_names:
  assumes "ordinary lib p" "ordinary lib a"
  shows "uri_starts_with lib p a \<longleftrightarrow> prefix (names lib a) (names lib p)"
  using ordinary_simps [OF assms(1)] ordinary_simps [OF assms(2)] uri_eq_ordinary [of lib p a] assms
  by (auto simp: uri_starts_with_def names_def native_path_segments_start_with_prefix)

lemma starts_with_opaque: "ordinary lib p \<Longrightarrow> is_opaque lib a \<Longrightarrow> \<not> uri_starts_with lib p a"
  by (auto simp: uri_starts_with_def uri_eq_ordinary ordinary_def)

interpretation posix: containment "ordinary lib" "uri_starts_with lib" "\<lambda>uri. length (names lib uri)" for lib
proof unfold_locales
  fix p a b
  show "ordinary lib p \<Longrightarrow> uri_starts_with lib p p"
    by (simp add: starts_with_names)
  show "ordinary lib p \<Longrightarrow> ordinary lib a \<Longrightarrow> ordinary lib b \<Longrightarrow> uri_starts_with lib p a \<Longrightarrow>
      uri_starts_with lib a b \<Longrightarrow> uri_starts_with lib p b"
    by (auto simp: starts_with_names intro: prefix_order.trans)
  show "ordinary lib p \<Longrightarrow> ordinary lib a \<Longrightarrow> uri_starts_with lib p a \<Longrightarrow>
      length (names lib a) \<le> length (names lib p)"
    by (auto simp: starts_with_names dest: prefix_length_le)
  show "ordinary lib p \<Longrightarrow> ordinary lib a \<Longrightarrow> ordinary lib b \<Longrightarrow> uri_starts_with lib p a \<Longrightarrow>
      uri_starts_with lib p b \<Longrightarrow> length (names lib a) \<le> length (names lib b) \<Longrightarrow> uri_starts_with lib b a"
    by (auto simp: starts_with_names intro: prefix_length_prefix)
qed

section \<open>Names as text\<close>

lemma from_utf8_bytes: "list_all is_scalar t \<Longrightarrow> from_utf8 (utf8_bytes t) = Inr t"
  using decode_from_encode [of t 0 "[]"] by (simp add: from_utf8_def unat_utf8_bytes)

lemma utf8_bytes_inj:
  "list_all is_scalar a \<Longrightarrow> list_all is_scalar b \<Longrightarrow> utf8_bytes a = utf8_bytes b \<longleftrightarrow> a = b"
  using from_utf8_bytes by (metis sum.inject(2))

lemma utf8_bytes_Nil [simp]: "utf8_bytes [] = []"
  by simp

lemma map_utf8_inj:
  "list_all (list_all is_scalar) xs \<Longrightarrow> list_all (list_all is_scalar) ys \<Longrightarrow>
   map utf8_bytes xs = map utf8_bytes ys \<longleftrightarrow> xs = ys"
proof (induction xs arbitrary: ys)
  case (Cons x xs)
  then show ?case
    by (cases ys) (auto simp: utf8_bytes_inj)
qed auto

lemma ascii_in_utf8:
  assumes "list_all is_scalar s" "b \<in> set (utf8_bytes s)" "unat b < 128"
  shows "unat b \<in> set s"
proof -
  have "unat b \<in> set (encode_text s)"
    using assms(2) unat_utf8_bytes [OF assms(1)] by (metis image_eqI list.set_map)
  then obtain c where "c \<in> set s" "unat b \<in> set (encode_char c)"
    by (auto simp: encode_text_def)
  then show ?thesis
    using assms(3) by (auto simp: encode_char_def split: if_splits)
qed

lemma utf8_bytes_ascii: "c < 128 \<Longrightarrow> utf8_bytes [c] = [of_nat c]"
  by (simp add: utf8_bytes_def encode_char_def)

lemma slash_in_utf8 [simp]: "list_all is_scalar s \<Longrightarrow> 47 \<in> set (utf8_bytes s) \<longleftrightarrow> 47 \<in> set s"
proof
  show "47 \<in> set (utf8_bytes s)" if "47 \<in> set s"
    using that by (auto simp: utf8_bytes_def encode_char_def intro!: bexI [of _ 47])
qed (use ascii_in_utf8 [of s 47] in simp)

lemma zero_in_utf8: "list_all is_scalar s \<Longrightarrow> 0 \<in> set (utf8_bytes s) \<Longrightarrow> 0 \<in> set s"
  using ascii_in_utf8 [of s 0] by simp

lemma scalar_lit [simp]: "list_all is_scalar (lit s)"
proof -
  have "of_char c < (55296 :: nat)" for c :: char
    by (rule less_trans [OF nat_of_char_less_256]) simp
  then show ?thesis
    by (simp add: lit_def list_all_iff is_scalar_def)
qed

lemma proper_text:
  assumes "name_text name" "0 \<notin> set name"
  shows "proper_name (utf8_bytes name)"
  using assms zero_in_utf8 [of name] by (auto simp: proper_name_def name_text_def utf8_bytes_inj)

section \<open>URLs and names\<close>

lemma decode_join:
  "url_laws lib \<Longrightarrow> decode_binary lib (join [47] segments) = join [47] (map (decode_binary lib) segments)"
proof (induction segments)
  case (Cons segment segments)
  then show ?case
    by (auto simp: join_Cons url_lawsD(6))
qed (simp add: url_lawsD(5))

lemma decode_encoded_path:
  assumes "url_laws lib"
  shows "decode_binary lib (encoded_path url) = 47 # join [47] (map (decode_binary lib) (url_path_segments url))"
  using url_lawsD(6) [OF assms, of "[]"] url_lawsD(5) [OF assms, of "[]"] decode_join [OF assms]
  by (simp add: encoded_path_def lit_def)

lemma set_join: "x \<in> set (join sep xs) \<Longrightarrow> x \<in> set sep \<or> (\<exists>y\<in>set xs. x \<in> set y)"
  by (induction xs) (auto simp: join_Cons split: if_splits)

lemma opaque_prefix:
  assumes "list_all (\<lambda>segment. 47 \<notin> set segment) segments" "is_opaque lib (file_url None segments)"
  shows "lit ''%00'' \<in> set segments"
proof -
  obtain encoded where "strip_prefix BAD_PATH_URI_PREFIX (url_as_str (file_url None segments)) = Some encoded"
    using assms(2) by (auto simp: is_opaque_def decode_bad_path_uri_def split: option.splits)
  then have "url_as_str (file_url None segments) = BAD_PATH_URI_PREFIX @ encoded"
    by (simp add: strip_prefix_Some_iff)
  then have eq: "join [47] segments = lit ''%00'' @ 47 # (lit ''bad/path/'' @ encoded)"
    by (simp add: url_as_str_def file_url_def FILE_SCHEME_def encoded_path_def BAD_PATH_URI_PREFIX_def lit_def)
  then have "segments \<noteq> []" by (auto simp: lit_def)
  then have "segments = split_on 47 (join [47] segments)"
    using assms(1) by (simp add: split_on_join list_all_iff)
  also have "\<dots> = lit ''%00'' # split_on 47 (lit ''bad/path/'' @ encoded)"
    unfolding eq by (rule split_on_append_sep) (simp add: lit_def)
  finally show ?thesis by (metis list.set_intros(1))
qed

lemma nonempty_segments_file_url [simp]:
  "nonempty_segments (file_url host segments) = filter (\<lambda>segment. segment \<noteq> []) segments"
  "url_path_segments (file_url host segments) = segments" "url_host_str (file_url host segments) = host"
  by (simp_all add: nonempty_segments_def file_url_def)

lemma ordinaryI:
  assumes laws: "url_laws lib" and slashes: "list_all (\<lambda>segment. 47 \<notin> set segment) segments"
    and proper: "list_all proper_name (names lib (file_url None segments))"
    and drive: "\<not> starts_with_drive (file_url None segments)"
  shows "ordinary lib (file_url None segments)"
proof -
  have "0 \<notin> set (decode_binary lib segment)" if "segment \<in> set segments" for segment
    using that proper url_lawsD(5) [OF laws, of segment]
    by (cases "segment = []") (auto simp: names_def list_all_iff proper_name_def)
  then have "lit ''%00'' \<notin> set segments"
    using url_lawsD(7) [OF laws] by (metis list.set_intros(1))
  then have "\<not> is_opaque lib (file_url None segments)"
    using opaque_prefix [OF slashes] by blast
  then show ?thesis
    using slashes proper drive by (auto simp: ordinary_def)
qed

text \<open>Which first names make a path look like a path on a drive.\<close>

definition drive_name :: "ustring \<Rightarrow> bool" where
  "drive_name name = (case name of [drive, c] \<Rightarrow> is_ascii_alphabetic drive \<and> c = 58 | _ \<Rightarrow> False)"

definition posix_names :: "ustring list \<Rightarrow> bool" where
  "posix_names ns \<longleftrightarrow> list_all (\<lambda>name. name_text name \<and> 0 \<notin> set name) ns \<and> (ns = [] \<or> \<not> drive_name (hd ns))"

lemma no_drive:
  assumes "url_laws lib" "names lib uri = map utf8_bytes ns" "list_all name_text ns" "ns = [] \<or> \<not> drive_name (hd ns)"
  shows "\<not> starts_with_drive uri"
proof
  assume "starts_with_drive uri"
  then obtain segment segments where first: "nonempty_segments uri = segment # segments" "is_windows_drive_uri_segment segment"
    by (auto simp: starts_with_drive_def split: list.splits)
  then obtain name ns' where ns: "ns = name # ns'" "decode_binary lib segment = utf8_bytes name"
    using assms(2) by (auto simp: names_def)
  obtain drive where drive: "is_ascii_alphabetic drive" "decode_binary lib segment = utf8_bytes [drive, 58]"
    using url_lawsD(8) [OF assms(1) first(2)] by blast
  have "list_all is_scalar [drive, 58]"
    using drive(1) by (auto simp: is_scalar_def is_ascii_alphabetic_def)
  then have "name = [drive, 58]"
    using ns drive(2) assms(3) utf8_bytes_inj [of name "[drive, 58]"] by (simp add: name_text_def)
  then show False
    using assms(4) ns drive(1) by (simp add: drive_name_def)
qed

lemma ordinary_of_names:
  assumes "url_laws lib" "list_all (\<lambda>segment. 47 \<notin> set segment) segments"
    "names lib (file_url None segments) = map utf8_bytes ns" "posix_names ns"
  shows "ordinary lib (file_url None segments)"
proof (rule ordinaryI [OF assms(1,2)])
  show "list_all proper_name (names lib (file_url None segments))"
    using assms(3,4) by (auto simp: list_all_iff posix_names_def intro: proper_text)
  show "\<not> starts_with_drive (file_url None segments)"
    using no_drive [OF assms(1,3)] assms(4) by (auto simp: posix_names_def list_all_iff)
qed

lemma uppercase_drive_id:
  "\<not> starts_with_drive (file_url None segments) \<Longrightarrow> uppercase_drive segments = segments"
  by (induction segments rule: uppercase_drive.induct) (auto simp: starts_with_drive_def)

lemma zero_free_path:
  assumes "url_laws lib" "list_all proper_name (names lib url)"
  shows "0 \<notin> set (decode_binary lib (encoded_path url))"
proof -
  have "0 \<notin> set (decode_binary lib segment)" if "segment \<in> set (url_path_segments url)" for segment
    using that assms(2) url_lawsD(5) [OF assms(1), of segment]
    by (cases "segment = []") (auto simp: names_def nonempty_segments_def list_all_iff proper_name_def)
  then show ?thesis
    by (auto simp: decode_encoded_path [OF assms(1)] dest!: set_join)
qed

lemma try_from_ordinary:
  assumes "url_laws lib" "ordinary lib uri"
  shows "path_uri_try_from lib uri = Inr uri"
proof -
  obtain segments where uri: "uri = file_url None segments"
    using ordinary_url [OF assms(2)] by blast
  have "list_all proper_name (names lib uri)" using assms(2) by (simp add: ordinary_def)
  then have "validate_file_url lib uri = Inr ()"
    using zero_free_path [OF assms(1), of uri]
    by (simp add: validate_file_url_def validate_common_known_uri_def) (simp add: uri file_url_def)
  moreover have "uppercase_drive segments = segments"
    using assms(2) uppercase_drive_id by (simp add: uri ordinary_def)
  ultimately show ?thesis
    by (simp add: path_uri_try_from_def without_localhost_authority_def with_normalized_windows_drive_letter_def uri file_url_def)
qed

section \<open>Native paths\<close>

lemma encoded_names:
  assumes "list_all2 (encoded_as lib) ns segments"
  shows "names lib (file_url None segments) = map utf8_bytes ns" "list_all (\<lambda>segment. 47 \<notin> set segment) segments"
proof -
  have "filter (\<lambda>segment. segment \<noteq> []) segments = segments"
    using assms by (auto simp: encoded_as_def filter_id_conv list_all2_conv_all_nth in_set_conv_nth)
  then show "names lib (file_url None segments) = map utf8_bytes ns"
    using assms by (auto simp: names_def encoded_as_def list_all2_conv_all_nth intro: nth_equalityI)
  show "list_all (\<lambda>segment. 47 \<notin> set segment) segments"
    using assms by (auto simp: encoded_as_def list_all2_conv_all_nth list_all_length)
qed

lemma file_path_url:
  assumes "url_laws lib" "list_all name_text ns"
  obtains segments where "url_from_file_path lib (absolute_text ns) = Some (file_url None segments)"
    "names lib (file_url None segments) = map utf8_bytes ns" "list_all (\<lambda>segment. 47 \<notin> set segment) segments"
proof -
  obtain segments where "url_from_file_path lib (absolute_text ns) = Some (file_url None (if ns = [] then [[]] else segments))"
      "list_all2 (encoded_as lib) ns segments"
    using url_lawsD(3) [OF assms] by blast
  then show ?thesis
    using that encoded_names [of lib ns segments] by (cases "ns = []") (auto simp: names_def)
qed

lemma from_abs_path_posix:
  assumes "url_laws lib" "posix_names ns"
  shows "ordinary lib (from_abs_path lib ns)" "names lib (from_abs_path lib ns) = map utf8_bytes ns"
proof -
  have "list_all name_text ns" using assms(2) by (auto simp: posix_names_def list_all_iff)
  then obtain segments where url: "url_from_file_path lib (absolute_text ns) = Some (file_url None segments)"
    and names: "names lib (file_url None segments) = map utf8_bytes ns" "list_all (\<lambda>segment. 47 \<notin> set segment) segments"
    using file_path_url [OF assms(1)] by blast
  have ord: "ordinary lib (file_url None segments)"
    by (rule ordinary_of_names [OF assms(1) names(2,1) assms(2)])
  then have "from_abs_path lib ns = file_url None segments"
    by (simp add: from_abs_path_def native_url_def url try_from_ordinary [OF assms(1)] ordinary_simps)
  then show "ordinary lib (from_abs_path lib ns)" "names lib (from_abs_path lib ns) = map utf8_bytes ns"
    using ord names by simp_all
qed

lemma opaque_bytes:
  assumes "url_laws lib" "bytes \<noteq> []"
  shows "decode_bad_path_uri lib (from_opaque_path_bytes lib bytes) = Some bytes"
proof -
  have "url_as_str (from_opaque_path_bytes lib bytes) = BAD_PATH_URI_PREFIX @ base64_encode lib bytes"
    by (simp add: from_opaque_path_bytes_def url_as_str_def file_url_def FILE_SCHEME_def encoded_path_def
        BAD_PATH_URI_PREFIX_def lit_def)
  then show ?thesis
    using url_lawsD(9-11) [OF assms(1)] assms(2) by (simp add: decode_bad_path_uri_def strip_prefix_append)
qed

lemma name_text_plain: "name_text name \<Longrightarrow> plain_name name"
  by (simp add: name_text_def plain_name_def)

lemma normalize_slash_join:
  assumes "list_all (\<lambda>t. 47 \<notin> set t) texts" "filter (\<lambda>t. t \<noteq> []) texts = ns" "list_all plain_name ns"
  shows "normalize_path (47 # join [47] texts) = ns"
proof -
  have "filter (\<lambda>t. t \<noteq> []) (split_on 47 (join [47] texts)) = ns"
  proof (cases "texts = []")
    case False
    then show ?thesis using assms(1,2) by (simp add: split_on_join list_all_iff)
  qed (use assms(2) in simp)
  then have "filter (\<lambda>t. t \<noteq> [] \<and> t \<noteq> lit ''.'') (split_on 47 (join [47] texts)) = filter (\<lambda>t. t \<noteq> lit ''.'') ns"
    by (metis filter_filter)
  also have "\<dots> = ns"
    using assms(3) by (auto simp: filter_id_conv list_all_iff plain_name_def)
  finally have "components (47 # join [47] texts) = RootDir # map Normal ns"
    using assms(3)
    by (auto simp: components_def is_absolute_path_def starts_with_def lit_def name_component_def plain_name_def list_all_iff Let_def)
  moreover have "foldl normalize_step acc (map Normal ns) = acc @ ns" for acc
    by (induction ns arbitrary: acc) auto
  ultimately show ?thesis
    by (simp add: normalize_path_def)
qed

lemma checked_absolute:
  "from_absolute_path_checked penv (47 # text) = Some (normalize_path (47 # text))"
  by (simp add: from_absolute_path_checked_def maybe_expand_home_directory_def strip_prefix_def is_absolute_path_def
      starts_with_def lit_def path_join_def)

lemma normalize_trailing_slash: "normalize_path (47 # text @ [47]) = normalize_path (47 # text)"
  using split_on_append [of 47 "47 # text" "[]"]
  by (simp add: normalize_path_def components_def Let_def is_absolute_path_def starts_with_def lit_def)

lemma absolute_text_slash: "absolute_text ns = 47 # join [47] ns"
  by (simp add: absolute_text_def lit_def)

lemma normalize_plain_text: "list_all plain_name ns \<Longrightarrow> normalize_path (absolute_text ns) = ns"
  unfolding absolute_text_slash
  by (rule normalize_slash_join) (auto simp: plain_name_def list_all_iff filter_id_conv)

lemma normalize_absolute_text: "list_all name_text ns \<Longrightarrow> normalize_path (absolute_text ns) = ns"
  using normalize_plain_text [of ns] list.pred_mono_strong [of name_text ns plain_name] name_text_plain by blast

lemma utf8_bytes_join: "utf8_bytes (join [47] texts) = join [47] (map utf8_bytes texts)"
  by (induction texts) (auto simp: join_Cons utf8_bytes_def encode_char_def)

lemma utf8_bytes_slash: "utf8_bytes (47 # s) = 47 # utf8_bytes s"
  by (simp add: utf8_bytes_def encode_char_def)

lemma scalar_join: "list_all (list_all is_scalar) texts \<Longrightarrow> list_all is_scalar (join [47] texts)"
  by (auto simp: list_all_iff is_scalar_def dest!: set_join)

lemma scalar_absolute_text: "list_all name_text ns \<Longrightarrow> list_all is_scalar (absolute_text ns)"
  using scalar_join [of ns] by (auto simp: absolute_text_slash name_text_def list_all_iff is_scalar_def)

lemma to_abs_path_ordinary:
  assumes laws: "url_laws lib" and ord: "ordinary lib uri"
    and names: "names lib uri = map utf8_bytes ns" "list_all name_text ns"
  shows "to_abs_path lib penv uri = Some ns"
proof -
  obtain segments where uri: "uri = file_url None segments" using ordinary_url [OF ord] by blast
  define text_of where "text_of segment = (case from_utf8 (decode_binary lib segment) of Inr t \<Rightarrow> t | Inl _ \<Rightarrow> [])" for segment
  have text_of: "decode_binary lib segment = utf8_bytes (text_of segment)" "list_all is_scalar (text_of segment)"
      "text_of segment = [] \<longleftrightarrow> segment = []" "47 \<notin> set (text_of segment)" if "segment \<in> set segments" for segment
  proof -
    obtain t where t: "decode_binary lib segment = utf8_bytes t" "list_all is_scalar t" "47 \<notin> set t"
    proof (cases "segment = []")
      case True
      then show ?thesis using that [of "[]"] url_lawsD(5) [OF laws, of "[]"] by simp
    next
      case False
      then have "decode_binary lib segment \<in> set (names lib uri)"
        using \<open>segment \<in> set segments\<close> by (simp add: names_def uri)
      then show ?thesis using that names by (auto simp: name_text_def list_all_iff)
    qed
    then have "text_of segment = t" by (simp add: text_of_def from_utf8_bytes)
    then show "decode_binary lib segment = utf8_bytes (text_of segment)" "list_all is_scalar (text_of segment)"
      "text_of segment = [] \<longleftrightarrow> segment = []" "47 \<notin> set (text_of segment)"
      using t url_lawsD(5) [OF laws, of segment] by auto
  qed
  let ?texts = "map text_of segments"
  have "map utf8_bytes ?texts = map (decode_binary lib) segments"
    using text_of(1) by simp
  then have "decode_binary lib (encoded_path uri) = utf8_bytes (47 # join [47] ?texts)"
    by (simp add: decode_encoded_path [OF laws] uri utf8_bytes_slash utf8_bytes_join del: map_map)
  moreover have "list_all is_scalar (47 # join [47] ?texts)"
    using text_of(2) scalar_join [of ?texts] by (simp add: is_scalar_def [of 47] list_all_iff [of "list_all is_scalar"])
  ultimately obtain slash where native: "slash = [] \<or> slash = [47]" "url_to_file_path lib uri = Some (47 # join [47] ?texts @ slash)"
    using url_lawsD(4) [OF laws, of segments] by (auto simp: uri from_utf8_bytes)
  have "map utf8_bytes (filter (\<lambda>t. t \<noteq> []) ?texts) = map (utf8_bytes \<circ> text_of) (filter (\<lambda>segment. segment \<noteq> []) segments)"
    using text_of(3) by (simp add: filter_map o_def cong: filter_cong)
  also have "\<dots> = map (decode_binary lib) (filter (\<lambda>segment. segment \<noteq> []) segments)"
    using text_of(1) by (intro map_cong) auto
  also have "\<dots> = map utf8_bytes ns"
    using names(1) by (simp add: names_def uri)
  finally have "filter (\<lambda>t. t \<noteq> []) ?texts = ns"
    using names(2) text_of(2) by (subst (asm) map_utf8_inj) (auto simp: list_all_iff name_text_def)
  then have "normalize_path (47 # join [47] ?texts) = ns"
    using text_of(4) names(2) list.pred_mono_strong [of name_text ns plain_name] name_text_plain
    by (intro normalize_slash_join) (auto simp: list_all_iff)
  then show ?thesis
    using native ordinary_simps [OF ord] normalize_trailing_slash [of "join [47] ?texts"]
    by (auto simp: to_abs_path_def is_opaque_def checked_absolute)
qed

lemma split_on_subset: "x \<in> set (split_on c s) \<Longrightarrow> y \<in> set x \<Longrightarrow> y \<in> set s"
proof (induction s arbitrary: x)
  case (Cons a s)
  then show ?case by (cases "split_on c s") (fastforce split: if_splits)+
qed simp

lemma utf8_split: "list_all is_scalar t \<Longrightarrow> split_on 47 (utf8_bytes t) = map utf8_bytes (split_on 47 t)"
proof -
  assume t: "list_all is_scalar t"
  have part: "list_all is_scalar part" if "part \<in> set (split_on 47 t)" for part
    using t that by (auto simp: list_all_iff dest: split_on_subset)
  have "utf8_bytes t = join [47] (map utf8_bytes (split_on 47 t))"
    using utf8_bytes_join [of "split_on 47 t"] by (simp add: join_split_on)
  also have "split_on 47 \<dots> = map utf8_bytes (split_on 47 t)"
    using part split_on_sep_free [of _ 47 t] by (intro split_on_join) auto
  finally show ?thesis .
qed

lemma to_abs_path_names:
  assumes laws: "url_laws lib" and ord: "ordinary lib uri" and path: "to_abs_path lib penv uri = Some ns"
  shows "names lib uri = map utf8_bytes ns" "list_all name_text ns"
proof -
  obtain segments where uri: "uri = file_url None segments" using ordinary_url [OF ord] by blast
  obtain t where "from_utf8 (decode_binary lib (encoded_path uri)) = Inr t"
    using path url_lawsD(4) [OF laws, of segments] ordinary_simps [OF ord]
    by (auto simp: to_abs_path_def is_opaque_def uri split: sum.splits)
  then have t: "list_all is_scalar t" "utf8_bytes t = 47 # join [47] (map (decode_binary lib) segments)"
    using from_utf8_sound decode_encoded_path [OF laws, of uri] by (auto simp: uri)
  have proper: "47 \<notin> set (decode_binary lib segment)" if "segment \<in> set segments" for segment
    using ord that url_lawsD(5) [OF laws, of segment]
    by (cases "segment = []") (auto simp: ordinary_def names_def uri list_all_iff proper_name_def)
  define parts where "parts = filter (\<lambda>part. part \<noteq> []) (split_on 47 t)"
  have "filter (\<lambda>x. x \<noteq> []) (split_on 47 (join [47] (map (decode_binary lib) segments))) = names lib uri"
    using proper url_lawsD(5) [OF laws] by (cases "segments = []") (auto simp: split_on_join filter_map o_def names_def uri)
  moreover have "filter (\<lambda>x. x \<noteq> []) (split_on 47 (utf8_bytes t)) = map utf8_bytes parts"
    by (simp add: utf8_split [OF t(1)] filter_map o_def parts_def)
  ultimately have names: "names lib uri = map utf8_bytes parts"
    by (simp add: t(2))
  have "list_all name_text parts"
    using ord split_on_sep_free [of _ 47 t] split_on_subset [of _ 47 t] t(1)
    unfolding ordinary_def names list_all_iff by (auto simp: parts_def name_text_def proper_name_def list_all_iff)
  moreover have "parts = ns"
    using to_abs_path_ordinary [OF laws ord names calculation] path by simp
  ultimately show "names lib uri = map utf8_bytes ns" "list_all name_text ns"
    using names by simp_all
qed

end
