(* ===== verification/Path_Lexical.thy ===== *)
theory Path_Lexical
  imports Path_Containment
begin

text \<open>
  Lexical operations on POSIX URIs in terms of names: joining appends a name, the ancestors end at the
  root, and native paths survive the way through a URI.
\<close>

section \<open>Joins\<close>

lemma plain_textD: "plain_text s \<Longrightarrow> name_text s" "plain_text s \<Longrightarrow> 0 \<notin> set s"
  by (auto simp: plain_text_def list_all_iff)

lemma split_by_none: "\<forall>c\<in>set s. \<not> P c \<Longrightarrow> split_by P s = [s]"
  by (induction s) auto

lemma filter_pop_if_empty: "filter (\<lambda>segment. segment \<noteq> []) (pop_if_empty segments) = filter (\<lambda>segment. segment \<noteq> []) segments"
  by (cases segments rule: rev_cases) (auto simp: pop_if_empty_def)

lemma set_pop_if_empty: "set (pop_if_empty segments) \<subseteq> set segments"
  by (auto simp: pop_if_empty_def dest: in_set_butlastD)

lemma filter_url_push:
  "encode_segment lib s \<noteq> [] \<Longrightarrow>
   filter (\<lambda>segment. segment \<noteq> []) (url_push_segment lib segments s) = filter (\<lambda>segment. segment \<noteq> []) segments @ [encode_segment lib s]"
  by (auto simp: url_push_segment_def)

lemma set_url_push: "set (url_push_segment lib segments s) \<subseteq> insert (encode_segment lib s) (set segments)"
  by (auto simp: url_push_segment_def)

lemma starts_with_drive_append:
  "nonempty_segments v = nonempty_segments u @ segments \<Longrightarrow> nonempty_segments u \<noteq> [] \<Longrightarrow>
   starts_with_drive v = starts_with_drive u"
  by (cases "nonempty_segments u") (auto simp: starts_with_drive_def)

lemma drive_segment_name:
  assumes "url_laws lib" "is_windows_drive_uri_segment segment" "decode_binary lib segment = utf8_bytes name" "list_all is_scalar name"
  shows "drive_name name"
proof -
  obtain drive where drive: "is_ascii_alphabetic drive" "decode_binary lib segment = utf8_bytes [drive, 58]"
    using url_lawsD(8) [OF assms(1,2)] by blast
  have "list_all is_scalar [drive, 58]"
    using drive(1) by (auto simp: is_scalar_def is_ascii_alphabetic_def)
  then have "name = [drive, 58]"
    using assms(3,4) drive(2) utf8_bytes_inj [of name "[drive, 58]"] by simp
  then show ?thesis using drive(1) by (simp add: drive_name_def)
qed

lemma join_name:
  assumes laws: "url_laws lib" and ord: "ordinary lib u" and s: "plain_text s" "names lib u = [] \<Longrightarrow> \<not> drive_name s"
  obtains v where "uri_join lib u s = Inr v" "ordinary lib v" "names lib v = names lib u @ [utf8_bytes s]"
proof -
  obtain segments where u: "u = file_url None segments" "list_all (\<lambda>segment. 47 \<notin> set segment) segments"
    using ordinary_url [OF ord] by blast
  have facts: "s \<noteq> []" "0 \<notin> set s" "47 \<notin> set s" "list_all is_scalar s" "s \<noteq> lit ''.''" "s \<noteq> lit ''..''" "name_text s"
    using s(1) by (auto simp: plain_text_def name_text_def list_all_iff)
  note enc = url_lawsD(2) [OF laws s(1), unfolded encoded_as_def]
  let ?v = "file_url None (url_push_segment lib (pop_if_empty segments) s)"
  have segs: "nonempty_segments ?v = nonempty_segments u @ [encode_segment lib s]"
    using enc by (simp add: u filter_url_push filter_pop_if_empty)
  have names: "names lib ?v = names lib u @ [utf8_bytes s]"
    using enc by (simp add: names_def segs del: nonempty_segments_file_url)
  have "ordinary lib ?v"
  proof (rule ordinaryI [OF laws])
    show "list_all (\<lambda>segment. 47 \<notin> set segment) (url_push_segment lib (pop_if_empty segments) s)"
      using u(2) enc set_url_push [of lib "pop_if_empty segments" s] set_pop_if_empty [of segments]
      by (auto simp: list_all_iff)
    show "list_all proper_name (names lib ?v)"
      using ord proper_text [OF facts(7,2)] by (simp add: names ordinary_def)
    show "\<not> starts_with_drive ?v"
    proof (cases "nonempty_segments u = []")
      case True
      then have "\<not> drive_name s" using s(2) by (simp add: names_def)
      then show ?thesis
        using drive_segment_name [OF laws _ _ facts(4), of "encode_segment lib s"] enc True
        by (auto simp: starts_with_drive_def segs simp del: nonempty_segments_file_url)
    next
      case False
      then show ?thesis
        using starts_with_drive_append [OF segs] ord by (simp add: ordinary_def)
    qed
  qed
  moreover have "uri_join lib u s = Inr ?v"
  proof -
    have "strip_prefix (lit ''/'') s = None"
      using facts(3) by (cases s) (auto simp: strip_prefix_def lit_def)
    then have "from_absolute_native_path lib s Posix = None"
      by (simp add: from_absolute_native_path_def parse_posix_path_def)
    moreover have "split_by (\<lambda>c. c = 47) s = [s]"
      using facts(3) by (intro split_by_none) auto
    then have "join_segments lib Posix u s = url_push_segment lib (pop_if_empty segments) s"
      using facts by (simp add: join_segments_def join_step_def u)
    ultimately show ?thesis
      using ordinary_simps [OF ord] facts try_from_ordinary [OF laws \<open>ordinary lib ?v\<close>]
      by (simp add: uri_join_def u file_url_def)
  qed
  ultimately show ?thesis using that names by blast
qed

lemma join_descendant_name:
  assumes "url_laws lib" "ordinary lib u" "plain_text s" "names lib u = [] \<Longrightarrow> \<not> drive_name s"
  obtains v where "join_descendant lib u s = Inr v" "ordinary lib v" "names lib v = names lib u @ [utf8_bytes s]"
proof -
  obtain v where v: "uri_join lib u s = Inr v" "ordinary lib v" "names lib v = names lib u @ [utf8_bytes s]"
    using join_name [OF assms] by blast
  have "\<not> starts_with s (lit ''/'')"
    using assms(3) by (cases s) (auto simp: starts_with_def lit_def plain_text_def name_text_def)
  then have "join_descendant lib u s = Inr v"
    using v assms(2) by (simp add: join_descendant_def ordinary_simps starts_with_names)
  then show ?thesis using that v by blast
qed

section \<open>Absolute paths\<close>

lemma normalize_names_id:
  "list_all name_text ns \<Longrightarrow> ns \<noteq> [] \<Longrightarrow> foldl (normalize_segment anchor) (d, acc, flag) ns = (d + length ns, acc @ ns, False)"
proof (induction ns arbitrary: d acc flag)
  case (Cons n ns)
  then show ?case by (cases "ns = []") (auto simp: name_text_def)
qed simp

lemma push_names:
  "list_all (\<lambda>n. encode_segment lib n \<noteq> []) ns \<Longrightarrow> segments \<noteq> [[]] \<Longrightarrow>
   foldl (url_push_segment lib) segments ns = segments @ map (encode_segment lib) ns"
proof (induction ns arbitrary: segments)
  case (Cons n ns)
  then have "url_push_segment lib segments n = segments @ [encode_segment lib n]" "segments @ [encode_segment lib n] \<noteq> [[]]"
    by (auto simp: url_push_segment_def append_eq_Cons_conv)
  then show ?case using Cons by simp
qed simp

lemma push_names_root:
  "list_all (\<lambda>n. encode_segment lib n \<noteq> []) ns \<Longrightarrow> ns \<noteq> [] \<Longrightarrow>
   foldl (url_push_segment lib) [[]] ns = map (encode_segment lib) ns"
  using push_names [of lib "tl ns" "[encode_segment lib (hd ns)]"] by (cases ns) (auto simp: url_push_segment_def)

lemma join_absolute:
  assumes laws: "url_laws lib" and ord: "ordinary lib u" and ns: "list_all plain_text ns" "ns \<noteq> []" "\<not> drive_name (hd ns)"
  obtains v where "uri_join lib u (absolute_text ns) = Inr v" "ordinary lib v" "names lib v = map utf8_bytes ns"
proof -
  have plain: "list_all2 (encoded_as lib) ns (map (encode_segment lib) ns)"
    using ns(1) url_lawsD(2) [OF laws] by (auto simp: list_all2_conv_all_nth list_all_length)
  have facts: "list_all name_text ns" "0 \<notin> set (join [47] ns)" "posix_names ns"
    using ns plain_textD by (auto simp: list_all_iff posix_names_def dest!: set_join)
  let ?v = "file_url None (map (encode_segment lib) ns)"
  have names: "names lib ?v = map utf8_bytes ns" "list_all (\<lambda>segment. 47 \<notin> set segment) (map (encode_segment lib) ns)"
    using encoded_names [OF plain] by auto
  have v: "ordinary lib ?v"
    by (rule ordinary_of_names [OF laws names(2,1) facts(3)])
  have "split_on 47 (join [47] ns) = ns"
    using ns(2) facts(1) by (intro split_on_join) (auto simp: list_all_iff name_text_def)
  moreover have "list_all (\<lambda>n. encode_segment lib n \<noteq> []) ns"
    using plain by (auto simp: encoded_as_def list_all2_conv_all_nth list_all_length)
  ultimately have "parse_posix_path lib (absolute_text ns) = Some ?v"
    using facts normalize_names_id [OF facts(1) ns(2), of _ 0 "[]" False] push_names_root [of lib ns] ns(2) try_from_ordinary [OF laws v]
    by (simp add: parse_posix_path_def absolute_text_slash strip_prefix_def lit_def path_uri_from_segments_def)
  then have "uri_join lib u (absolute_text ns) = Inr ?v"
    using facts(2) ordinary_simps [OF ord] ordinary_simps [OF v]
    by (simp add: uri_join_def from_absolute_native_path_def absolute_text_slash)
  then show ?thesis using that v names(1) by blast
qed

section \<open>Ancestors\<close>

lemma parent_ordinary:
  assumes laws: "url_laws lib" and ord: "ordinary lib u" and parent: "uri_parent lib u = Some v"
  shows "ordinary lib v"
proof -
  obtain segments where u: "u = file_url None segments" "list_all (\<lambda>segment. 47 \<notin> set segment) segments"
    using ordinary_url [OF ord] by blast
  let ?segments = "pop_segment (pop_if_empty segments)"
  have v: "v = file_url None ?segments"
    using parent by (auto simp: uri_parent_def u file_url_def split: if_splits option.splits)
  have sub: "set ?segments \<subseteq> insert [] (set segments)"
    using set_pop_if_empty [of segments] by (auto simp: pop_segment_def dest: in_set_butlastD)
  have prefix: "prefix (nonempty_segments v) (nonempty_segments u)"
    unfolding v u nonempty_segments_file_url filter_pop_if_empty [of segments, symmetric]
    by (cases "pop_if_empty segments" rule: rev_cases) (auto simp: pop_segment_def)
  then obtain segs where segs: "nonempty_segments u = nonempty_segments v @ segs" by (auto simp: prefix_def)
  show ?thesis
    unfolding v
  proof (rule ordinaryI [OF laws])
    show "list_all (\<lambda>segment. 47 \<notin> set segment) ?segments"
      using sub u(2) by (auto simp: list_all_iff)
    show "list_all proper_name (names lib (file_url None ?segments))"
      using ord segs by (simp add: ordinary_def names_def v)
    show "\<not> starts_with_drive (file_url None ?segments)"
    proof (cases "nonempty_segments v = []")
      case False
      then show ?thesis
        using starts_with_drive_append [OF segs] ord by (simp add: ordinary_def v)
    qed (simp add: starts_with_drive_def v)
  qed
qed

lemma last_ancestor:
  "url_laws lib \<Longrightarrow> ordinary lib u \<Longrightarrow>
   ordinary lib (last (uri_ancestors lib u)) \<and> names lib (last (uri_ancestors lib u)) = []"
proof (induction lib u rule: uri_ancestors.induct)
  case (1 lib u)
  show ?case
  proof (cases "uri_parent lib u")
    case None
    then have "nonempty_segments u = []"
      using ordinary_simps [OF "1.prems"(2)] by (simp add: uri_parent_def anchor_depth_of_def split: if_splits)
    then show ?thesis
      using None "1.prems"(2) by (simp add: uri_ancestors.simps [of lib u] names_def)
  next
    case (Some v)
    have "uri_ancestors lib v \<noteq> []"
      by (simp add: uri_ancestors.simps [of lib v])
    then show ?thesis
      using "1.IH" [OF Some "1.prems"(1) parent_ordinary [OF "1.prems" Some]] Some
      by (simp add: uri_ancestors.simps [of lib u])
  qed
qed

section \<open>The way through a URI\<close>

lemma uppercase_drive_nonempty:
  "filter (\<lambda>segment. segment \<noteq> []) (uppercase_drive segments) =
   (case filter (\<lambda>segment. segment \<noteq> []) segments of
      [] \<Rightarrow> []
    | segment # rest \<Rightarrow>
        (if is_windows_drive_uri_segment segment \<and> is_ascii_lowercase (hd segment)
         then ((hd segment - 32) # tl segment) # rest else segment # rest))"
  by (induction segments rule: uppercase_drive.induct) auto

lemma uppercase_drive_starts:
  assumes "starts_with_drive (file_url None segments)"
  shows "starts_with_drive (file_url None (uppercase_drive segments))"
proof -
  obtain segment rest where "filter (\<lambda>segment. segment \<noteq> []) segments = segment # rest" "is_windows_drive_uri_segment segment"
    using assms by (auto simp: starts_with_drive_def split: list.splits)
  then show ?thesis
    by (auto simp: starts_with_drive_def uppercase_drive_nonempty is_windows_drive_uri_segment_def is_ascii_alphabetic_def
        is_ascii_lowercase_def split: list.splits)
qed

lemma uppercase_drive_segments:
  "segment \<in> set (uppercase_drive segments) \<Longrightarrow>
   segment \<in> set segments \<or> is_windows_drive_uri_segment segment"
  by (induction segments rule: uppercase_drive.induct)
    (auto simp: is_windows_drive_uri_segment_def is_ascii_alphabetic_def is_ascii_lowercase_def split: if_splits list.splits)

lemma drive_not_opaque:
  assumes laws: "url_laws lib" and slashes: "list_all (\<lambda>segment. 47 \<notin> set segment) segments"
    and proper: "list_all proper_name (names lib (file_url None segments))"
  shows "\<not> is_opaque lib (file_url None (uppercase_drive segments))"
proof
  assume opaque: "is_opaque lib (file_url None (uppercase_drive segments))"
  have drive: "47 \<notin> set segment \<and> segment \<noteq> lit ''%00''" if "is_windows_drive_uri_segment segment" for segment
    using that by (auto simp: is_windows_drive_uri_segment_def is_ascii_alphabetic_def lit_def split: list.splits)
  have "list_all (\<lambda>segment. 47 \<notin> set segment) (uppercase_drive segments)"
    using slashes drive uppercase_drive_segments [of _ segments] by (auto simp: list_all_iff)
  then have "lit ''%00'' \<in> set (uppercase_drive segments)"
    using opaque_prefix opaque by blast
  then have "lit ''%00'' \<in> set segments"
    using drive uppercase_drive_segments by blast
  then have "decode_binary lib (lit ''%00'') \<in> set (names lib (file_url None segments))"
    by (simp add: names_def lit_def)
  then show False
    using proper url_lawsD(7) [OF laws] by (auto simp: list_all_iff proper_name_def)
qed

lemma from_abs_path_drive:
  assumes laws: "url_laws lib" and url: "url_from_file_path lib (absolute_text ns) = Some (file_url None segments)"
    and slashes: "list_all (\<lambda>segment. 47 \<notin> set segment) segments"
    and proper: "list_all proper_name (names lib (file_url None segments))"
    and drive: "starts_with_drive (file_url None segments)"
  shows "from_abs_path lib ns = from_opaque_path_bytes lib (utf8_bytes (absolute_text ns))"
proof -
  let ?uri = "file_url None (uppercase_drive segments)"
  have "path_uri_try_from lib (file_url None segments) = Inr ?uri"
    using zero_free_path [OF laws proper]
    by (simp add: path_uri_try_from_def validate_file_url_def validate_common_known_uri_def without_localhost_authority_def
        with_normalized_windows_drive_letter_def) (simp add: file_url_def)
  moreover have "infer_path_convention lib ?uri = Some Windows"
    using drive_not_opaque [OF laws slashes proper] uppercase_drive_starts [OF drive]
    by (simp add: infer_path_convention_def is_opaque_def)
  ultimately show ?thesis
    by (simp add: from_abs_path_def native_url_def url)
qed

lemma to_abs_path_opaque:
  assumes "url_laws lib" "list_all name_text ns" "from_abs_path lib ns = from_opaque_path_bytes lib (utf8_bytes (absolute_text ns))"
  shows "to_abs_path lib penv (from_abs_path lib ns) = Some ns"
proof -
  let ?bytes = "utf8_bytes (absolute_text ns)"
  have bytes: "?bytes = 47 # utf8_bytes (join [47] ns)"
    by (simp add: absolute_text_slash utf8_bytes_slash)
  have "from_absolute_path_checked penv (absolute_text ns) = Some ns"
    using checked_absolute [of penv "join [47] ns"] normalize_absolute_text [OF assms(2)] by (simp add: absolute_text_slash)
  then show ?thesis
    using opaque_bytes [OF assms(1), of ?bytes] from_utf8_bytes [OF scalar_absolute_text [OF assms(2)]]
    by (simp add: to_abs_path_def infer_path_convention_def infer_opaque_path_convention_def starts_with_def bytes
        assms(3) uri_eq_def)
qed

lemma to_abs_path_from_abs_path:
  assumes "url_laws lib" "list_all (\<lambda>name. name_text name \<and> 0 \<notin> set name) ns"
  shows "to_abs_path lib penv (from_abs_path lib ns) = Some ns"
proof -
  have named: "list_all name_text ns" using assms(2) by (auto simp: list_all_iff)
  then obtain segments where url: "url_from_file_path lib (absolute_text ns) = Some (file_url None segments)"
    and names: "names lib (file_url None segments) = map utf8_bytes ns" "list_all (\<lambda>segment. 47 \<notin> set segment) segments"
    using file_path_url [OF assms(1)] by blast
  have proper: "list_all proper_name (names lib (file_url None segments))"
    using assms(2) by (auto simp: names list_all_iff intro: proper_text)
  show ?thesis
  proof (cases "starts_with_drive (file_url None segments)")
    case True
    show ?thesis
      by (rule to_abs_path_opaque [OF assms(1) named from_abs_path_drive [OF assms(1) url names(2) proper True]])
  next
    case False
    have ord: "ordinary lib (file_url None segments)"
      by (rule ordinaryI [OF assms(1) names(2) proper False])
    then have "from_abs_path lib ns = file_url None segments"
      by (simp add: from_abs_path_def native_url_def url try_from_ordinary [OF assms(1)] ordinary_simps)
    then show ?thesis
      using to_abs_path_ordinary [OF assms(1) ord names(1) named] by simp
  qed
qed

text \<open>C16: A path of the host survives the way through a URI. Every absolute path without a null character,
  also one whose first name looks like a Windows drive, is recovered from the URI made of it.\<close>

theorem native_path_roundtrip:
  assumes "url_laws lib" "list_all (\<lambda>name. name_text name \<and> 0 \<notin> set name) ns"
  shows "to_abs_path lib penv (from_abs_path lib ns) = Some ns"
  by (rule to_abs_path_from_abs_path [OF assms])

theorem native_path_roundtrip_witness:
  "is_opaque sample_url_lib (from_abs_path sample_url_lib [lit ''C:'', lit ''a b'']) \<and>
   to_abs_path sample_url_lib \<lparr>current_dir = None, home_dir = None\<rparr>
     (from_abs_path sample_url_lib [lit ''C:'', lit ''a b'']) = Some [lit ''C:'', lit ''a b'']"
proof
  show "is_opaque sample_url_lib (from_abs_path sample_url_lib [lit ''C:'', lit ''a b''])"
    by code_simp
  have "list_all (\<lambda>name. name_text name \<and> 0 \<notin> set name) [lit ''C:'', lit ''a b'']"
    by code_simp
  from native_path_roundtrip [OF sample_url_laws this]
  show "to_abs_path sample_url_lib \<lparr>current_dir = None, home_dir = None\<rparr>
     (from_abs_path sample_url_lib [lit ''C:'', lit ''a b'']) = Some [lit ''C:'', lit ''a b'']" .
qed

text \<open>On paths of the host, containment is the prefix order of names.\<close>

lemma host_containment:
  assumes "url_laws lib" "posix_names p" "posix_names q"
  shows "uri_starts_with lib (from_abs_path lib p) (from_abs_path lib q) \<longleftrightarrow> prefix q p"
proof -
  have "list_all (list_all is_scalar) ns" if "posix_names ns" for ns
    using that by (auto simp: posix_names_def name_text_def list_all_iff)
  then have scalar: "list_all (list_all is_scalar) p" "list_all (list_all is_scalar) q"
    using assms by auto
  have "prefix (map utf8_bytes q) (map utf8_bytes p) \<longleftrightarrow> prefix q p"
  proof
    assume "prefix (map utf8_bytes q) (map utf8_bytes p)"
    then have len: "length q \<le> length p" and "map utf8_bytes q = map utf8_bytes (take (length q) p)"
      by (auto simp: prefix_def take_map dest: arg_cong [of _ _ "take (length q)"] arg_cong [of _ _ length])
    then have "q = take (length q) p"
      using scalar by (subst (asm) map_utf8_inj) (auto simp: list_all_iff dest: in_set_takeD)
    then show "prefix q p" by (metis take_is_prefix)
  qed (auto simp: prefix_def)
  then show ?thesis
    using from_abs_path_posix [OF assms(1,2)] from_abs_path_posix [OF assms(1,3)] by (simp add: starts_with_names)
qed

end
