(* ===== verification/File_Access.thy ===== *)
theory File_Access
  imports File_Permissions Path_Lexical
begin

text \<open>
  What a file system policy grants: the entry that governs a path, the coherence of the short cut for
  policies without restrictions, and the protection of workspace metadata.
\<close>

section \<open>The governing entry\<close>

text \<open>A root governs a path when it contains it, lies below every other root that does, and no entry at the
  same place takes precedence.\<close>

definition governs ::
  "UrlLib \<Rightarrow> (PathUri \<times> FileSystemAccessMode) list \<Rightarrow> PathUri \<Rightarrow> PathUri \<Rightarrow> FileSystemAccessMode \<Rightarrow> bool" where
  "governs lib entries path root access \<longleftrightarrow>
     (root, access) \<in> set entries \<and> uri_starts_with lib path root \<and>
     list_all (\<lambda>(r, a). uri_starts_with lib path r \<longrightarrow>
         uri_starts_with lib root r \<and> (uri_starts_with lib r root \<longrightarrow> a \<le> access)) entries"

definition resolvable :: "UrlLib \<Rightarrow> (PathUri \<times> FileSystemAccessMode) list \<Rightarrow> bool" where
  "resolvable lib entries = list_all (\<lambda>(root, _). ordinary lib root \<or> is_opaque lib root) entries"

lemma entries_with_depth_resolvable:
  assumes "resolvable lib entries"
  shows "entries_with_depth lib entries =
    Some (map (\<lambda>(root, access). (root, access, length (names lib root)))
      (filter (\<lambda>(root, _). \<not> is_opaque lib root) entries))"
  using assms
proof (induction lib entries rule: entries_with_depth.induct)
  case (2 lib root access entries)
  show ?case
  proof (cases "is_opaque lib root")
    case True
    then have "lexical_depth lib root = None" by (simp add: lexical_depth_def)
    then show ?thesis using 2 True by (simp add: resolvable_def)
  next
    case False
    then have "ordinary lib root" using "2.prems" by (simp add: resolvable_def)
    then show ?thesis using 2 False by (simp add: resolvable_def ordinary_simps(5))
  qed
qed simp

lemma resolve_access_restricted:
  assumes "policy_kind policy = Restricted" "ordinary lib path" "ordinary lib (context_cwd ctx)"
    "resolvable lib (resolved_entries lib policy ctx)"
  shows "resolve_access lib policy path ctx =
    (case max_by_key (\<lambda>(_, access, depth). (depth, access))
       (filter (\<lambda>(root, _, _). uri_starts_with lib path root)
         (map (\<lambda>(root, access). (root, access, length (names lib root)))
           (filter (\<lambda>(root, _). \<not> is_opaque lib root) (resolved_entries lib policy ctx)))) of
       None \<Rightarrow> Deny | Some (_, access, _) \<Rightarrow> access)"
  using assms by (simp add: resolve_access_def ordinary_simps entries_with_depth_resolvable)

lemma resolve_access_governs:
  assumes "policy_kind policy = Restricted" "ordinary lib path" "ordinary lib (context_cwd ctx)"
    "resolvable lib (resolved_entries lib policy ctx)"
  shows "(\<exists>root. governs lib (resolved_entries lib policy ctx) path root (resolve_access lib policy path ctx)) \<or>
    resolve_access lib policy path ctx = Deny \<and>
    list_all (\<lambda>(root, _). \<not> uri_starts_with lib path root) (resolved_entries lib policy ctx)"
proof -
  let ?entries = "resolved_entries lib policy ctx"
  let ?deep = "map (\<lambda>(root, access). (root, access, length (names lib root))) (filter (\<lambda>(root, _). \<not> is_opaque lib root) ?entries)"
  let ?max = "max_by_key (\<lambda>(_, access, depth). (depth, access)) (filter (\<lambda>(root, _, _). uri_starts_with lib path root) ?deep)"
  have deep: "(r, a, d) \<in> set ?deep \<Longrightarrow> ordinary lib r \<and> d = length (names lib r)" for r a d
    using assms(4) by (auto simp: resolvable_def list_all_iff)
  have contains: "uri_starts_with lib path r \<Longrightarrow> (r, a) \<in> set ?entries \<Longrightarrow> (r, a, length (names lib r)) \<in> set ?deep" for r a
    using starts_with_opaque [OF assms(2)] by force
  show ?thesis
  proof (cases ?max)
    case None
    then have none: "filter (\<lambda>(root, _, _). uri_starts_with lib path root) ?deep = []"
      by (simp add: max_by_key_None)
    have "list_all (\<lambda>(root, _). \<not> uri_starts_with lib path root) ?entries"
      using none contains unfolding list_all_iff filter_empty_conv by blast
    then show ?thesis
      using None resolve_access_restricted [OF assms] by simp
  next
    case (Some chosen)
    then obtain root access dep where max: "?max = Some (root, access, dep)" by (cases chosen) auto
    have access: "resolve_access lib policy path ctx = access"
      using max resolve_access_restricted [OF assms] by simp
    have specific: "(root, access, dep) \<in> set ?deep" "uri_starts_with lib path root"
      "\<And>r a d. (r, a, d) \<in> set ?deep \<Longrightarrow> uri_starts_with lib path r \<Longrightarrow>
        uri_starts_with lib root r \<and> (uri_starts_with lib r root \<longrightarrow> a \<le> access)"
      using posix.most_specific [OF max _ assms(2)] deep by blast+
    have "(root, access) \<in> set ?entries"
      using specific(1) by auto
    moreover have "list_all (\<lambda>(r, a). uri_starts_with lib path r \<longrightarrow>
         uri_starts_with lib root r \<and> (uri_starts_with lib r root \<longrightarrow> a \<le> access)) ?entries"
      unfolding list_all_iff using specific(3) [OF contains] by blast
    ultimately have "governs lib ?entries path root access"
      using specific(2) by (simp add: governs_def)
    then show ?thesis using access by blast
  qed
qed

text \<open>At most one access governs a path.\<close>

lemma governsD:
  assumes "governs lib entries path root access"
  shows "(root, access) \<in> set entries" "uri_starts_with lib path root"
    and "\<And>r a. (r, a) \<in> set entries \<Longrightarrow> uri_starts_with lib path r \<Longrightarrow>
      uri_starts_with lib root r \<and> (uri_starts_with lib r root \<longrightarrow> a \<le> access)"
  using assms unfolding governs_def list_all_iff by blast+

lemma governs_unique:
  assumes "governs lib entries path root access" "governs lib entries path root' access'"
  shows "access = access'"
  using governsD(3) [OF assms(1) governsD(1,2) [OF assms(2)]]
    governsD(3) [OF assms(2) governsD(1,2) [OF assms(1)]]
  by (simp add: order_antisym)


text \<open>A workspace with a directory that is closed to the agent.\<close>

definition sample_cwd :: PathUri where
  "sample_cwd = from_abs_path sample_url_lib [lit ''w'']"

definition sample_path_entry :: "ustring list \<Rightarrow> FileSystemAccessMode \<Rightarrow> FileSystemSandboxEntry" where
  "sample_path_entry path access = new_entry (PathEntry (from_abs_path sample_url_lib path)) access"

definition sample_context :: FileSystemSandboxPolicyContext where
  "sample_context =
     \<lparr>context_cwd = sample_cwd, context_workspace_roots = [sample_cwd], context_user_home_dir = None,
      context_temporary_directories = None\<rparr>"

definition sample_restricted :: FileSystemSandboxPolicy where
  "sample_restricted =
     restricted [new_entry (Special Root) Read, sample_path_entry [lit ''w'', lit ''x''] Deny,
       new_entry (Special (ProjectRoots None)) Write]"


section \<open>Policies without restrictions\<close>

lemma resolved_entryI:
  assumes "entry \<in> set (policy_entries policy)" "root \<in> set (entry_paths lib ctx (entry_path entry))"
    "ordinary lib root" "ordinary lib (context_cwd ctx)"
  shows "(root, entry_access entry) \<in> set (resolved_entries lib policy ctx)"
  using assms by (auto simp: resolved_entries_def ordinary_simps intro!: bexI [of _ entry])

lemma resolved_entryE:
  assumes "(root, access) \<in> set (resolved_entries lib policy ctx)"
  obtains entry where "entry \<in> set (policy_entries policy)" "access = entry_access entry"
    "root \<in> set (entry_paths lib ctx (entry_path entry))"
    "infer_path_convention lib root = infer_path_convention lib (context_cwd ctx)"
  using assms by (auto simp: resolved_entries_def)

lemma root_entry_paths:
  assumes "url_laws lib" "ordinary lib (context_cwd ctx)" "root \<in> set (entry_paths lib ctx (Special Root))"
  shows "ordinary lib root \<and> names lib root = []"
  using assms last_ancestor [OF assms(1,2)]
  by (auto simp: entry_paths_def file_system_root_def ordinary_simps last_opt_def split: if_splits option.splits)

lemma root_entry_exists:
  assumes "ordinary lib (context_cwd ctx)"
  shows "\<exists>root. root \<in> set (entry_paths lib ctx (Special Root))"
  using assms by (auto simp: entry_paths_def file_system_root_def ordinary_simps last_opt_def uri_ancestors.simps [of lib "context_cwd ctx"])

lemma slash_tmp_entry_paths:
  assumes "url_laws lib" "ordinary lib (context_cwd ctx)"
  obtains root where "set (entry_paths lib ctx (Special SlashTmp)) = {root}" "ordinary lib root"
    "names lib root = [utf8_bytes (lit ''tmp'')]"
proof -
  have "absolute_text [lit ''tmp''] = lit ''/tmp''" "list_all plain_text [lit ''tmp'']" "\<not> drive_name (hd [lit ''tmp''])"
    by code_simp+
  then obtain root where "uri_join lib (context_cwd ctx) (lit ''/tmp'') = Inr root" "ordinary lib root"
      "names lib root = [utf8_bytes (lit ''tmp'')]"
    using join_absolute [OF assms, of "[lit ''tmp'']"] by auto
  then show ?thesis
    using that assms(2) by (simp add: entry_paths_def result_list_def ordinary_simps)
qed

lemma special_paths_share_target_eq: "special_paths_share_target left right \<Longrightarrow> left = right"
  by (induction left right rule: special_paths_share_target.induct) auto

text \<open>A path entry at the place of the root or of the directory for temporary files.\<close>

lemma special_place:
  assumes laws: "url_laws lib" and "ordinary lib uri \<or> is_opaque lib uri"
    and "is_some_and (to_abs_path lib penv uri) (special_path_matches_absolute_path special)"
  shows "ordinary lib uri \<and>
    (special = Root \<and> names lib uri = [] \<or> special = SlashTmp \<and> names lib uri = [utf8_bytes (lit ''tmp'')])"
proof -
  obtain ns where ns: "to_abs_path lib penv uri = Some ns" "special = Root \<and> ns = [] \<or> special = SlashTmp \<and> ns = [lit ''tmp'']"
    using assms(3) by (cases special) (auto simp: is_some_and_def split: option.splits)
  have "posix_names []" "posix_names [lit ''tmp'']" by code_simp+
  then have posix: "ordinary lib (from_abs_path lib ns)"
    using ns(2) from_abs_path_posix(1) [OF laws] by blast
  have "\<not> is_opaque lib uri"
  proof
    assume opaque: "is_opaque lib uri"
    then have "uri_eq lib (from_abs_path lib ns) uri"
      using ns(1) by (auto simp: to_abs_path_def is_opaque_def split: if_splits option.splits sum.splits)
    then show False
      using uri_eq_ordinary [of lib "from_abs_path lib ns" uri] posix opaque by (auto simp: ordinary_def)
  qed
  then have "ordinary lib uri" using assms(2) by blast
  then show ?thesis
    using to_abs_path_names [OF laws _ ns(1)] ns(2) by auto
qed

lemma same_target:
  assumes laws: "url_laws (env_url env)" and cwd: "ordinary (env_url env) (context_cwd ctx)"
    and entries: "resolvable (env_url env) (resolved_entries (env_url env) policy ctx)"
    and candidate: "candidate \<in> set (policy_entries policy)"
    and share: "file_system_paths_share_target env (entry_path candidate) path"
    and root: "root \<in> set (entry_paths (env_url env) ctx path)" "ordinary (env_url env) root"
  obtains root' where "(root', entry_access candidate) \<in> set (resolved_entries (env_url env) policy ctx)"
    "ordinary (env_url env) root'" "names (env_url env) root' = names (env_url env) root"
proof -
  let ?lib = "env_url env"
  note found = that [OF resolved_entryI [OF candidate _ _ cwd]]
  have special_root: "\<exists>r \<in> set (entry_paths ?lib ctx (Special special)). ordinary ?lib r \<and> names ?lib r = names ?lib uri"
    if "ordinary ?lib uri \<and> (special = Root \<and> names ?lib uri = [] \<or> special = SlashTmp \<and> names ?lib uri = [utf8_bytes (lit ''tmp'')])"
    for special uri
    using that root_entry_exists [OF cwd] root_entry_paths [OF laws cwd] slash_tmp_entry_paths [OF laws cwd]
    by (metis insertI1)
  show ?thesis
  proof (cases "entry_path candidate")
    case c: (PathEntry q)
    show ?thesis
    proof (cases path)
      case (PathEntry p)
      then have "q = root"
        using c share root uri_eq_ordinary [of ?lib q root] by (simp add: entry_paths_def)
      then show ?thesis
        using found [of root] c root(2) by (simp add: entry_paths_def)
    next
      case (Special special)
      have place: "is_some_and (to_abs_path ?lib (env_path env) q) (special_path_matches_absolute_path special)"
        using share c Special by simp
      then have "infer_path_convention ?lib q = Some Posix"
        by (auto simp: is_some_and_def to_abs_path_def split: option.splits if_splits)
      then have "(q, entry_access candidate) \<in> set (resolved_entries ?lib policy ctx)"
        using candidate c by (auto simp: resolved_entries_def entry_paths_def ordinary_simps [OF cwd] intro!: bexI [of _ candidate])
      then have "ordinary ?lib q \<or> is_opaque ?lib q"
        using entries by (auto simp: resolvable_def list_all_iff)
      note q = special_place [OF laws this place]
      have "names ?lib root = names ?lib q"
        using q root_entry_paths [OF laws cwd, of root] slash_tmp_entry_paths [OF laws cwd] root Special
        by (metis singletonD)
      then show ?thesis
        using found [of q] c q by (simp add: entry_paths_def)
    qed (use share c in simp)
  next
    case c: (Special special)
    show ?thesis
    proof (cases path)
      case (PathEntry p)
      then have place: "is_some_and (to_abs_path ?lib (env_path env) root) (special_path_matches_absolute_path special)"
        using share c root by (simp add: entry_paths_def)
      show ?thesis
        using special_root [OF special_place [OF laws _ place]] root(2) found c by auto
    next
      case (Special other)
      then have "special = other"
        using share c special_paths_share_target_eq by simp
      then show ?thesis
        using found [of root] c root Special by simp
    qed (use share c in simp)
  next
    case (GlobPattern pattern)
    then show ?thesis
      using share root by (cases path) (auto simp: entry_paths_def)
  qed
qed

lemma governs_same_place:
  assumes "governs lib entries path root access" "(root', access') \<in> set entries"
    "ordinary lib path" "ordinary lib root" "ordinary lib root'" "names lib root' = names lib root"
  shows "access' \<le> access"
  using governsD(3) [OF assms(1,2)] governsD(2) [OF assms(1)] assms(3-6) by (simp add: starts_with_names)

lemma unshadowed_entry_writes:
  assumes laws: "url_laws (env_url env)" and ord: "ordinary (env_url env) path" "ordinary (env_url env) (context_cwd ctx)"
    and entries: "resolvable (env_url env) (resolved_entries (env_url env) policy ctx)"
    and entry: "entry \<in> set (policy_entries policy)" "root \<in> set (entry_paths (env_url env) ctx (entry_path entry))"
    and governs: "governs (env_url env) (resolved_entries (env_url env) policy ctx) path root (entry_access entry)"
    and root_write: "has_root_access policy can_write" and wide: "\<not> narrows_write env policy entry"
  shows "entry_access entry = Write"
proof (rule ccontr)
  let ?lib = "env_url env" and ?entries = "resolved_entries (env_url env) policy ctx"
  assume no_write: "entry_access entry \<noteq> Write"
  have root: "ordinary ?lib root"
    using governsD(1,2) [OF governs] entries starts_with_opaque [OF ord(1)] by (auto simp: resolvable_def list_all_iff)
  have override: False if shadowed: "has_same_target_write_override env policy entry"
  proof -
    obtain candidate where c: "candidate \<in> set (policy_entries policy)" "entry_access candidate = Write"
        "entry_access entry < entry_access candidate" "file_system_paths_share_target env (entry_path candidate) (entry_path entry)"
      using shadowed by (auto simp: has_same_target_write_override_def list_ex_iff can_write_def)
    obtain root' where "(root', Write) \<in> set ?entries" "ordinary ?lib root'" "names ?lib root' = names ?lib root"
      using same_target [OF laws ord(2) entries c(1,4) entry(2) root] c(2) by metis
    then have "Write \<le> entry_access entry"
      using governs_same_place [OF governs _ ord(1) root] by blast
    then show False using c(2,3) by simp
  qed
  have at_root: "entry_access entry = Deny" if "entry_path entry = Special Root"
  proof -
    obtain grant where "grant \<in> set (policy_entries policy)" "entry_path grant = Special Root" "entry_access grant = Write"
      using root_write by (auto simp: has_root_access_def list_ex_iff can_write_def)
    then have "(root, Write) \<in> set ?entries"
      using resolved_entryI [of grant policy root ?lib ctx] entry(2) root ord(2) that by simp
    then have "Write \<le> entry_access entry"
      using governs_same_place [OF governs _ ord(1) root root refl] by blast
    then show ?thesis
      using no_write by (cases "entry_access entry") (simp_all add: less_eq_FileSystemAccessMode_def)
  qed
  show False
    using wide no_write override at_root entry(2)
    by (auto simp: narrows_write_def can_write_def entry_paths_def split: FileSystemPath.splits FileSystemSpecialPath.splits)
qed

lemma root_contains:
  assumes "url_laws lib" "ordinary lib path" "ordinary lib (context_cwd ctx)" "has_root_access policy p"
  shows "\<exists>(root, access) \<in> set (resolved_entries lib policy ctx). uri_starts_with lib path root"
proof -
  obtain entry root where "entry \<in> set (policy_entries policy)" "entry_path entry = Special Root"
      "root \<in> set (entry_paths lib ctx (Special Root))"
    using assms(4) root_entry_exists [OF assms(3)] by (auto simp: has_root_access_def list_ex_iff)
  then have "(root, entry_access entry) \<in> set (resolved_entries lib policy ctx)" "uri_starts_with lib path root"
    using resolved_entryI [of entry policy root lib ctx] root_entry_paths [OF assms(1,3), of root] assms(2,3)
    by (auto simp: starts_with_names)
  then show ?thesis by blast
qed

lemma governing_entry:
  assumes "url_laws lib" "policy_kind policy = Restricted" "ordinary lib path" "ordinary lib (context_cwd ctx)"
    "resolvable lib (resolved_entries lib policy ctx)" "has_root_access policy p"
  obtains entry root where "entry \<in> set (policy_entries policy)" "root \<in> set (entry_paths lib ctx (entry_path entry))"
    "governs lib (resolved_entries lib policy ctx) path root (entry_access entry)"
    "resolve_access lib policy path ctx = entry_access entry"
proof -
  have "\<not> list_all (\<lambda>(root, _). \<not> uri_starts_with lib path root) (resolved_entries lib policy ctx)"
    using root_contains [OF assms(1,3,4,6)] by (auto simp: list_all_iff)
  then obtain root where governs: "governs lib (resolved_entries lib policy ctx) path root (resolve_access lib policy path ctx)"
    using resolve_access_governs [OF assms(2-5)] by blast
  then show ?thesis
    using that governsD(1) [OF governs] by (metis resolved_entryE)
qed


definition sample_policy_env :: PolicyEnv where
  "sample_policy_env =
     \<lparr>env_url = sample_url_lib, env_path = \<lparr>current_dir = None, home_dir = None\<rparr>, env_tmpdir = None,
      is_dir = (\<lambda>_. False), is_file = (\<lambda>_. False), path_exists = (\<lambda>_. False), read_to_string = (\<lambda>_. None)\<rparr>"

definition sample_wide :: FileSystemSandboxPolicy where
  "sample_wide =
     restricted [new_entry (Special Root) Write, sample_path_entry [lit ''tmp''] Read, new_entry (Special SlashTmp) Write]"


section \<open>Workspace metadata\<close>

text \<open>A write entry that contains the path and lies in a metadata directory of a writable root.\<close>

definition explicit_metadata_grant :: "UrlLib \<Rightarrow> (PathUri \<times> FileSystemAccessMode) list \<Rightarrow> PathUri \<Rightarrow> bool" where
  "explicit_metadata_grant lib entries path =
     list_ex (\<lambda>(root, access). can_write access \<and> uri_starts_with lib path root \<and>
         list_ex (\<lambda>(root', access'). can_write access' \<and>
             list_ex (\<lambda>name. starts_with (names lib root) (names lib root' @ [utf8_bytes name])) PROTECTED_METADATA_PATH_NAMES)
           entries)
       entries"

lemma protected_names:
  assumes "name \<in> set PROTECTED_METADATA_PATH_NAMES"
  shows "plain_text name" "\<not> drive_name name"
proof -
  have "list_all (\<lambda>name. plain_text name \<and> \<not> drive_name name) PROTECTED_METADATA_PATH_NAMES"
    by code_simp
  then show "plain_text name" "\<not> drive_name name"
    using assms by (auto simp: list_all_iff)
qed

lemma join_descendant_opaque:
  assumes "is_opaque lib root" "infer_path_convention lib root = Some Posix" "plain_text name"
  shows "join_descendant lib root name = Inl (InvalidFileUriPath (url_as_str root))"
proof -
  have name: "name \<noteq> []" "0 \<notin> set name" "strip_prefix (lit ''/'') name = None"
    using assms(3) plain_textD(2) [OF assms(3)]
    by (auto simp: plain_text_def name_text_def strip_prefix_def lit_def) (cases name; simp)+
  then have "from_absolute_native_path lib name Posix = None"
    by (simp add: from_absolute_native_path_def parse_posix_path_def)
  then show ?thesis
    using assms name by (simp add: join_descendant_def uri_join_def)
qed

lemma protected_below_names:
  assumes "url_laws lib" "ordinary lib path" "ordinary lib root \<or> is_opaque lib root" "infer_path_convention lib root = Some Posix"
  shows "protected_below lib path root = Some (protected, name) \<Longrightarrow>
      ordinary lib root \<and> ordinary lib protected \<and> name \<in> set PROTECTED_METADATA_PATH_NAMES \<and>
      names lib protected = names lib root @ [utf8_bytes name]"
    and "ordinary lib root \<Longrightarrow> name \<in> set PROTECTED_METADATA_PATH_NAMES \<Longrightarrow>
      prefix (names lib root @ [utf8_bytes name]) (names lib path) \<Longrightarrow> protected_below lib path root \<noteq> None"
proof -
  have joined: "\<exists>v. join_descendant lib root name = Inr v \<and> ordinary lib v \<and> names lib v = names lib root @ [utf8_bytes name]"
    if "ordinary lib root" "name \<in> set PROTECTED_METADATA_PATH_NAMES" for name
    using join_descendant_name [OF assms(1) that(1) protected_names(1) [OF that(2)]] protected_names(2) [OF that(2)] by metis
  show "ordinary lib root \<and> ordinary lib protected \<and> name \<in> set PROTECTED_METADATA_PATH_NAMES \<and>
      names lib protected = names lib root @ [utf8_bytes name]" if "protected_below lib path root = Some (protected, name)"
  proof -
    have name: "name \<in> set PROTECTED_METADATA_PATH_NAMES" "join_descendant lib root name = Inr protected"
      using that unfolding protected_below_def by (auto dest!: find_map_Some split: sum.splits if_splits)
    then have "ordinary lib root"
      using assms(3,4) join_descendant_opaque [of lib root name] protected_names(1) by auto
    then show ?thesis using joined [OF _ name(1)] name by auto
  qed
  show "protected_below lib path root \<noteq> None"
    if "ordinary lib root" "name \<in> set PROTECTED_METADATA_PATH_NAMES" "prefix (names lib root @ [utf8_bytes name]) (names lib path)"
    using joined [OF that(1,2)] that(2,3) assms(2)
    unfolding protected_below_def find_map_None_iff by (fastforce simp: starts_with_names)
qed

text \<open>C12: The metadata directories of a writable root are protected. Below \<open>.git\<close>, \<open>.agents\<close> or \<open>.codex\<close> of any
  root that the policy lets the agent write, nothing can be written, unless an entry grants a place inside
  such a directory or the policy has no restrictions at all.\<close>

theorem workspace_metadata_protected:
  assumes laws: "url_laws (env_url env)" and kind: "policy_kind policy = Restricted"
    and limited: "\<not> has_full_disk_write_access env policy"
    and ord: "ordinary (env_url env) path" "ordinary (env_url env) (context_cwd ctx)"
    and entries: "resolvable (env_url env) (resolved_entries (env_url env) policy ctx)"
    and root: "(root, Write) \<in> set (resolved_entries (env_url env) policy ctx)" "ordinary (env_url env) root"
    and name: "name \<in> set PROTECTED_METADATA_PATH_NAMES"
      "starts_with (names (env_url env) path) (names (env_url env) root @ [utf8_bytes name])"
    and no_grant: "\<not> explicit_metadata_grant (env_url env) (resolved_entries (env_url env) policy ctx) path"
  shows "\<not> can_write_path env policy path ctx"
proof -
  let ?lib = "env_url env" and ?entries = "resolved_entries (env_url env) policy ctx"
  have posix: "infer_path_convention ?lib r = Some Posix \<and> (ordinary ?lib r \<or> is_opaque ?lib r)" if "(r, a) \<in> set ?entries" for r a
    using that entries ordinary_simps(1) [OF ord(2)] by (auto simp: resolvable_def list_all_iff elim: resolved_entryE)
  let ?hit = "find_map (\<lambda>(r, _). protected_below ?lib path r) (filter (\<lambda>(_, access). can_write access) ?entries)"
  have "protected_below ?lib path root \<noteq> None"
    using protected_below_names(2) [OF laws ord(1) _ _ root(2) name(1) name(2) [unfolded starts_with_iff]] posix [OF root(1)] by blast
  then have "?hit \<noteq> None"
    unfolding find_map_None_iff using root(1) by (auto simp: can_write_def intro!: bexI [of _ "(root, Write)"])
  then obtain protected mname where hit: "?hit = Some (protected, mname)" by auto
  then obtain r where r: "(r, Write) \<in> set ?entries" "protected_below ?lib path r = Some (protected, mname)"
    by (auto simp: can_write_def dest!: find_map_Some)
  note protected = protected_below_names(1) [OF laws ord(1) _ _ r(2)]
  have "\<not> list_ex (\<lambda>(root, access). can_write access \<and> uri_starts_with ?lib path root \<and> uri_starts_with ?lib root protected) ?entries"
  proof
    assume "list_ex (\<lambda>(root, access). can_write access \<and> uri_starts_with ?lib path root \<and> uri_starts_with ?lib root protected) ?entries"
    then obtain r' where r': "(r', Write) \<in> set ?entries" "uri_starts_with ?lib path r'" "uri_starts_with ?lib r' protected"
      by (auto simp: list_ex_iff can_write_def)
    have "ordinary ?lib r'"
      using posix [OF r'(1)] starts_with_opaque [OF ord(1)] r'(2) by blast
    then have "prefix (names ?lib r @ [utf8_bytes mname]) (names ?lib r')"
      using protected posix [OF r(1)] r'(3) by (auto simp: starts_with_names)
    then show False
      using no_grant r'(1,2) r(1) protected posix [OF r(1)]
      unfolding explicit_metadata_grant_def list_ex_iff starts_with_iff by (force simp: can_write_def)
  qed
  then have "metadata_write_denial ?lib policy path ctx = Some mname"
    using kind hit by (simp add: metadata_write_denial_def)
  then show ?thesis
    using limited by (simp add: can_write_path_def)
qed

definition sample_workspace :: FileSystemSandboxPolicy where
  "sample_workspace = restricted [new_entry (Special Root) Read, new_entry (Special (ProjectRoots None)) Write]"

lemma no_explicit_grant:
  assumes "list_all (\<lambda>(root, access). can_write access \<longrightarrow> length (names lib root) \<le> n) entries"
    "list_all (\<lambda>(root, access). can_write access \<longrightarrow> n \<le> length (names lib root)) entries"
  shows "\<not> explicit_metadata_grant lib entries path"
  using assms unfolding explicit_metadata_grant_def list_ex_iff list_all_iff starts_with_iff
  by (fastforce dest: prefix_length_le)

theorem workspace_metadata_protected_witness:
  "\<not> can_write_path sample_policy_env sample_workspace
     (from_abs_path sample_url_lib [lit ''w'', lit ''.git'', lit ''config'']) sample_context"
proof -
  let ?path = "from_abs_path sample_url_lib [lit ''w'', lit ''.git'', lit ''config'']"
  let ?entries = "resolved_entries sample_url_lib sample_workspace sample_context"
  have url: "env_url sample_policy_env = sample_url_lib" by (simp add: sample_policy_env_def)
  have "posix_names [lit ''w'', lit ''.git'', lit ''config'']" "posix_names [lit ''w'']" by code_simp+
  note path = this [THEN from_abs_path_posix(1) [OF sample_url_laws]] this [THEN from_abs_path_posix(2) [OF sample_url_laws]]
  have policy: "policy_kind sample_workspace = Restricted" "\<not> has_full_disk_write_access sample_policy_env sample_workspace"
    "resolvable sample_url_lib ?entries" "(sample_cwd, Write) \<in> set ?entries"
    "lit ''.git'' \<in> set PROTECTED_METADATA_PATH_NAMES"
    "list_all (\<lambda>(root, access). can_write access \<longrightarrow> length (names sample_url_lib root) \<le> 1) ?entries"
    "list_all (\<lambda>(root, access). can_write access \<longrightarrow> 1 \<le> length (names sample_url_lib root)) ?entries"
    by code_simp+
  have cwd: "context_cwd sample_context = sample_cwd" by (simp add: sample_context_def)
  have "starts_with (names sample_url_lib ?path) (names sample_url_lib sample_cwd @ [utf8_bytes (lit ''.git'')])"
    by (simp add: path sample_cwd_def starts_with_iff)
  from workspace_metadata_protected [of sample_policy_env, unfolded url, OF sample_url_laws policy(1,2) path(1) _ policy(3,4) _ policy(5) this
      no_explicit_grant [OF policy(6,7)]]
  show ?thesis using path(2) by (simp add: cwd sample_cwd_def)
qed

section \<open>Nested writable roots\<close>

lemma protected_below_git:
  assumes "url_laws lib" "ordinary lib path" "ordinary lib root"
    "prefix (names lib root @ [utf8_bytes (lit ''.git'')]) (names lib path)"
  obtains protected where "protected_below lib path root = Some (protected, lit ''.git'')" "ordinary lib protected"
    "names lib protected = names lib root @ [utf8_bytes (lit ''.git'')]"
proof -
  have git: "lit ''.git'' \<in> set PROTECTED_METADATA_PATH_NAMES"
    by (simp add: PROTECTED_METADATA_PATH_NAMES_def)
  obtain v where "join_descendant lib root (lit ''.git'') = Inr v" "ordinary lib v"
      "names lib v = names lib root @ [utf8_bytes (lit ''.git'')]"
    using join_descendant_name [OF assms(1,3) protected_names(1) [OF git]] protected_names(2) [OF git] by metis
  then show ?thesis
    using that assms(2,4) by (simp add: protected_below_def PROTECTED_METADATA_PATH_NAMES_def starts_with_names)
qed

lemma two_write_entries:
  assumes "ordinary lib a" "ordinary lib b" "ordinary lib (context_cwd ctx)"
  shows "resolved_entries lib (restricted [new_entry (PathEntry a) Write, new_entry (PathEntry b) Write]) ctx =
    [(a, Write), (b, Write)]"
  using assms by (simp add: resolved_entries_def restricted_def new_entry_def entry_paths_def ordinary_simps)

lemma two_write_entries_write:
  assumes "ordinary lib a" "ordinary lib b" "ordinary lib (context_cwd ctx)" "ordinary lib path" "uri_starts_with lib path b"
  shows "resolve_access lib (restricted [new_entry (PathEntry a) Write, new_entry (PathEntry b) Write]) path ctx = Write"
  using resolve_access_governs [of "restricted [new_entry (PathEntry a) Write, new_entry (PathEntry b) Write]" lib path ctx]
    two_write_entries [OF assms(1-3)] assms by (auto simp: restricted_def resolvable_def dest: governsD(1))

text \<open>C35: The protection of metadata depends on the order of the entries. When one writable root lies in the
  \<open>.git\<close> directory of another, the \<open>.git\<close> directory of the inner root can be written if the outer root
  is listed first, and is protected if the inner root is listed first.\<close>

theorem metadata_protection_depends_on_order:
  assumes laws: "url_laws (env_url env)"
    and ord: "ordinary (env_url env) outer" "ordinary (env_url env) inner" "ordinary (env_url env) path"
      "ordinary (env_url env) (context_cwd ctx)"
    and nested: "names (env_url env) inner = names (env_url env) outer @ utf8_bytes (lit ''.git'') # below"
      "names (env_url env) path = names (env_url env) inner @ utf8_bytes (lit ''.git'') # rest"
  shows "can_write_path env (restricted [new_entry (PathEntry outer) Write, new_entry (PathEntry inner) Write]) path ctx \<and>
    \<not> can_write_path env (restricted [new_entry (PathEntry inner) Write, new_entry (PathEntry outer) Write]) path ctx"
proof
  let ?lib = "env_url env"
  let ?first = "restricted [new_entry (PathEntry outer) Write, new_entry (PathEntry inner) Write]"
  let ?second = "restricted [new_entry (PathEntry inner) Write, new_entry (PathEntry outer) Write]"
  have contains: "uri_starts_with ?lib path inner" "uri_starts_with ?lib path outer"
    using ord nested by (simp_all add: starts_with_names)
  obtain protected where protected: "protected_below ?lib path outer = Some (protected, lit ''.git'')"
      "ordinary ?lib protected" "names ?lib protected = names ?lib outer @ [utf8_bytes (lit ''.git'')]"
    using protected_below_git [OF laws ord(3,1)] nested by auto
  have "uri_starts_with ?lib inner protected"
    using ord(2) protected(2,3) nested(1) by (simp add: starts_with_names)
  then have "metadata_write_denial ?lib ?first path ctx = None"
    using protected(1) contains two_write_entries [OF ord(1,2,4)]
    by (simp add: metadata_write_denial_def can_write_def)
  then show "can_write_path env ?first path ctx"
    using two_write_entries_write [OF ord(1,2,4,3) contains(1)] by (simp add: can_write_path_def can_write_def)
  obtain kept where kept: "protected_below ?lib path inner = Some (kept, lit ''.git'')"
      "ordinary ?lib kept" "names ?lib kept = names ?lib inner @ [utf8_bytes (lit ''.git'')]"
    using protected_below_git [OF laws ord(3,2)] nested by auto
  have "\<not> uri_starts_with ?lib inner kept" "\<not> uri_starts_with ?lib outer kept"
    using ord kept(2,3) nested(1) by (auto simp: starts_with_names dest: prefix_length_le)
  then have "metadata_write_denial ?lib ?second path ctx = Some (lit ''.git'')"
    using kept(1) two_write_entries [OF ord(2,1,4)]
    by (simp add: metadata_write_denial_def can_write_def restricted_def)
  moreover have "\<not> has_full_disk_write_access env ?second"
    by (simp add: has_full_disk_write_access_def restricted_def has_root_access_def new_entry_def)
  ultimately show "\<not> can_write_path env ?second path ctx"
    by (simp add: can_write_path_def)
qed

theorem metadata_protection_depends_on_order_witness:
  "\<exists>outer inner path.
     can_write_path sample_policy_env (restricted [new_entry (PathEntry outer) Write, new_entry (PathEntry inner) Write])
       path sample_context \<and>
     \<not> can_write_path sample_policy_env (restricted [new_entry (PathEntry inner) Write, new_entry (PathEntry outer) Write])
       path sample_context"
proof -
  let ?uri = "from_abs_path sample_url_lib"
  let ?inner = "[lit ''w'', lit ''.git'', lit ''s'']"
  have url: "env_url sample_policy_env = sample_url_lib" by (simp add: sample_policy_env_def)
  have cwd: "context_cwd sample_context = ?uri [lit ''w'']" by (simp add: sample_context_def sample_cwd_def)
  have "posix_names [lit ''w'']" "posix_names ?inner" "posix_names (?inner @ [lit ''.git'', lit ''config''])"
    by code_simp+
  note uris = this [THEN from_abs_path_posix(1) [OF sample_url_laws]] this [THEN from_abs_path_posix(2) [OF sample_url_laws]]
  show ?thesis
    using metadata_protection_depends_on_order [of sample_policy_env "?uri [lit ''w'']" "?uri ?inner"
        "?uri (?inner @ [lit ''.git'', lit ''config''])" sample_context, unfolded url cwd, OF sample_url_laws uris(1,2,3,1)] uris(4-6)
    by fastforce
qed

end
