(* ===== verification/Patch_Safety.thy ===== *)
theory Patch_Safety
  imports Invocation Exec_Approval Policy_Edits File_Access
begin

text \<open>
  The decision whether a patch may be applied without asking (\<open>core/src/safety.rs\<close>), on Unix: a verified
  patch is approved when the file system policy lets every path it touches be written and a sandbox
  can be enforced. The decision is composed with the verification of the patch and with its application.
\<close>

section \<open>The decision\<close>

datatype TargetOs = MacOs | LinuxOs | OtherUnix

datatype SandboxType = MacosSeatbelt | LinuxSeccomp

fun get_platform_sandbox :: "TargetOs \<Rightarrow> SandboxType option" where
  "get_platform_sandbox MacOs = Some MacosSeatbelt"
| "get_platform_sandbox LinuxOs = Some LinuxSeccomp"
| "get_platform_sandbox OtherUnix = None"

datatype SafetyCheck = AutoApprove | AskUser | Reject ustring

definition PATCH_REJECTED_OUTSIDE_PROJECT_REASON :: ustring where
  "PATCH_REJECTED_OUTSIDE_PROJECT_REASON = lit ''writing outside of the project; rejected by user approval settings''"

definition PATCH_REJECTED_READ_ONLY_REASON :: ustring where
  "PATCH_REJECTED_READ_ONLY_REASON = lit ''writing is blocked by read-only sandbox; rejected by user approval settings''"

text \<open>The nested function \<open>normalize\<close> on an absolute path.\<close>

definition normalize_patch_path :: "ustring \<Rightarrow> AbsolutePathBuf option" where
  "normalize_patch_path path = Some (foldl normalize_step [] (components path))"

definition is_path_writable :: "PolicyEnv \<Rightarrow> FileSystemSandboxPolicy \<Rightarrow> AbsolutePathBuf \<Rightarrow> PathUri \<Rightarrow> bool" where
  "is_path_writable env policy native_cwd path =
     (case to_abs_path (env_url env) (env_path env) path of
        None \<Rightarrow> False
      | Some abs_path \<Rightarrow>
          (case normalize_patch_path (absolute_text abs_path) of
             None \<Rightarrow> False
           | Some normalized \<Rightarrow> can_write_path_with_cwd env policy (absolute_text normalized) (absolute_text native_cwd)))"

fun change_is_writable :: "('p \<Rightarrow> bool) \<Rightarrow> 'p \<times> 'p ApplyPatchFileChange \<Rightarrow> bool" where
  "change_is_writable writable (path, ChangeAdd _) = writable path"
| "change_is_writable writable (path, ChangeDelete _) = writable path"
| "change_is_writable writable (path, ChangeUpdate _ move_path _) =
     (writable path \<and> (case move_path of None \<Rightarrow> True | Some dest \<Rightarrow> writable dest))"

definition is_write_patch_constrained_to_writable_paths ::
  "PolicyEnv \<Rightarrow> PathUri ApplyPatchAction \<Rightarrow> FileSystemSandboxPolicy \<Rightarrow> PathUri \<Rightarrow> bool" where
  "is_write_patch_constrained_to_writable_paths env action policy cwd \<longleftrightarrow>
     has_full_disk_write_access env policy \<or>
     (case to_abs_path (env_url env) (env_path env) cwd of
        None \<Rightarrow> False
      | Some native_cwd \<Rightarrow> list_all (change_is_writable (is_path_writable env policy native_cwd)) (action_changes action))"

definition patch_rejection_reason ::
  "PolicyEnv \<Rightarrow> PermissionProfile \<Rightarrow> FileSystemSandboxPolicy \<Rightarrow> PathUri \<Rightarrow> ustring" where
  "patch_rejection_reason env profile policy cwd =
     (let has_no_writable_roots =
            is_some_and (to_abs_path (env_url env) (env_path env) cwd)
              (\<lambda>cwd. \<not> has_writable_roots_with_cwd env policy (absolute_text cwd))
      in case profile of
           Managed _ _ \<Rightarrow>
             if \<not> has_full_disk_write_access env policy \<and> has_no_writable_roots
             then PATCH_REJECTED_READ_ONLY_REASON else PATCH_REJECTED_OUTSIDE_PROJECT_REASON
         | _ \<Rightarrow> PATCH_REJECTED_OUTSIDE_PROJECT_REASON)"

definition rejects_sandbox_approval :: "AskForApproval \<Rightarrow> bool" where
  "rejects_sandbox_approval approval =
     (case approval of Never \<Rightarrow> True | Granular config \<Rightarrow> \<not> sandbox_approval config | _ \<Rightarrow> False)"

definition assess_patch_safety ::
  "PolicyEnv \<Rightarrow> TargetOs \<Rightarrow> PathUri ApplyPatchAction \<Rightarrow> AskForApproval \<Rightarrow> PermissionProfile \<Rightarrow>
   FileSystemSandboxPolicy \<Rightarrow> PathUri \<Rightarrow> SafetyCheck" where
  "assess_patch_safety env os action approval profile policy cwd =
     (if action_changes action = [] then Reject (lit ''empty patch'')
      else if approval = UnlessTrusted then AskUser
      else if is_write_patch_constrained_to_writable_paths env action policy cwd then
        (case profile of
           Managed _ _ \<Rightarrow>
             (case get_platform_sandbox os of
                Some _ \<Rightarrow> AutoApprove
              | None \<Rightarrow>
                  if rejects_sandbox_approval approval then Reject (patch_rejection_reason env profile policy cwd)
                  else AskUser)
         | _ \<Rightarrow> AutoApprove)
      else if rejects_sandbox_approval approval then Reject (patch_rejection_reason env profile policy cwd)
      else AskUser)"

section \<open>Paths a patch touches\<close>

text \<open>The files that an operation on a path may change, also when it fails: those the path may name, itself
  or through links, given as a relation. Directories hold no text.\<close>

definition fs_frame :: "('p, 'w) fs_env \<Rightarrow> ('p, 'w) file_view \<Rightarrow> ('p \<Rightarrow> 'p \<Rightarrow> bool) \<Rightarrow> bool" where
  "fs_frame env files reaches \<longleftrightarrow>
     (\<forall>fl p t w q. \<not> reaches p q \<longrightarrow> files (fst (write_file env fl p t w)) q = files w q) \<and>
     (\<forall>fl p w q. \<not> reaches p q \<longrightarrow> files (fst (remove_file env fl p w)) q = files w q) \<and>
     (\<forall>fl p w. files (fst (create_directory env fl p w)) = files w) \<and>
     fs_output_law env files"

definition hunk_touches :: "('p, 'w) fs_env \<Rightarrow> 'p \<Rightarrow> Hunk \<Rightarrow> 'p \<Rightarrow> bool" where
  "hunk_touches env cwd h q \<longleftrightarrow>
     resolve_path env cwd h = Inr q \<or>
     (case h of UpdateFile _ (Some dest) _ \<Rightarrow> join_uri env cwd dest = Inr q | _ \<Rightarrow> False)"

lemma fs_frameD:
  assumes "fs_frame env files reaches"
  shows "\<not> reaches p q \<Longrightarrow> write_file env fl p t w = (w', r) \<Longrightarrow> files w' q = files w q"
    and "\<not> reaches p q \<Longrightarrow> remove_file env fl p w = (w', r) \<Longrightarrow> files w' q = files w q"
    and "create_directory env fl p w = (w', r') \<Longrightarrow> files w' = files w"
  using assms unfolding fs_frame_def by (metis fst_conv)+

lemma retry_frame:
  assumes frame: "fs_frame env files reaches" and "\<not> reaches p q" and run: "write_file_with_missing_parent_retry env fl p t w = (w', r)"
  shows "files w' q = files w q"
proof -
  obtain w1 r1 where w1: "write_file env fl p t w = (w1, r1)" by fastforce
  note first = fs_frameD(1) [OF frame assms(2) w1]
  have again: "files w'' q = files w1 q"
    if "write_file env fl p t w2 = (w'', r'')" "files w2 = files w1" for w2 w'' r''
    using fs_frameD(1) [OF frame assms(2) that(1)] that(2) by simp
  show ?thesis
  proof (cases "parent_uri env p")
    case None
    then show ?thesis
      using run w1 first again
      by (cases "write_file env fl p t w1")
        (auto simp: write_file_with_missing_parent_retry_def Let_def split: sum.splits if_splits)
  next
    case (Some parent)
    obtain w2 r2 where w2: "create_directory env fl parent w1 = (w2, r2)" by fastforce
    note same = fs_frameD(3) [OF frame w2]
    show ?thesis
      using run w1 w2 first again same Some
      by (cases "write_file env fl p t w2"; cases r2)
        (auto simp: write_file_with_missing_parent_retry_def Let_def with_context_def split: sum.splits if_splits)
  qed
qed

lemma remove_moved_original_frame:
  assumes "fs_frame env files reaches" "\<not> reaches p q" "remove_moved_original env fl p dest original overwritten new w d = (w', d', r)"
  shows "files w' q = files w q"
  using assms(3) fs_frameD(2) [OF assms(1,2)]
  by (cases "remove_file env fl p w") (auto simp: remove_moved_original_def Let_def split: sum.splits)

lemma apply_hunk_frame:
  assumes frame: "fs_frame env files reaches" and run: "apply_hunk env opts cwd h w d = (w', d', r)" and other: "\<forall>p. hunk_touches env cwd h p \<longrightarrow> \<not> reaches p q"
  shows "files w' q = files w q"
proof (cases "resolve_path env cwd h")
  case (Inl e)
  then show ?thesis using run by (simp add: apply_hunk_def)
next
  case p: (Inr p)
  then have "\<not> reaches p q" using other by (auto simp: hunk_touches_def)
  note frames = retry_frame [OF frame] fs_frameD(1,2) [OF frame this] remove_moved_original_frame [OF frame this]
  show ?thesis
  proof (cases h)
    case (AddFile path contents)
    then show ?thesis
      using run p retry_frame [OF frame \<open>\<not> reaches p q\<close>]
      by (auto simp: apply_hunk_def apply_add_file_def Let_def split: prod.splits sum.splits)
  next
    case (DeleteFile path)
    then show ?thesis
      using run p frames(3) by (auto simp: apply_hunk_def apply_delete_file_def Let_def split: prod.splits sum.splits)
  next
    case (UpdateFile path move_path chunks)
    have dest: "\<not> reaches dest_uri q" if "move_path = Some dest" "join_uri env cwd dest = Inr dest_uri" for dest dest_uri
      using other UpdateFile that by (auto simp: hunk_touches_def)
    show ?thesis
    proof (cases move_path)
      case None
      then show ?thesis
        using run p UpdateFile frames(2)
        by (auto simp: apply_hunk_def apply_update_file_def Let_def split: prod.splits sum.splits)
    next
      case (Some dest)
      then show ?thesis
        using run p UpdateFile retry_frame [OF frame dest [OF Some]] frames(4)
        by (auto simp: apply_hunk_def apply_update_file_def Let_def split: prod.splits sum.splits)
    qed
  qed
qed

lemma hunk_loop_frame:
  assumes "fs_frame env files reaches" "hunk_loop env opts cwd hs a w d = (w', d', r)" "\<forall>h\<in>set hs. \<forall>p. hunk_touches env cwd h p \<longrightarrow> \<not> reaches p q"
  shows "files w' q = files w q"
  using assms(2,3)
proof (induction hs arbitrary: a w d)
  case (Cons h hs)
  obtain w1 d1 r1 where hunk: "apply_hunk env opts cwd h w d = (w1, d1, r1)" by (cases "apply_hunk env opts cwd h w d")
  then have "files w1 q = files w q"
    using apply_hunk_frame [OF assms(1) hunk] Cons.prems(2) by simp
  then show ?case
    using Cons hunk by (cases r1) auto
qed simp

lemma apply_hunks_frame:
  assumes frame: "fs_frame env files reaches" and run: "apply_hunks_with_options env opts cwd hs w = (w', r)"
    and other: "\<forall>h\<in>set hs. \<forall>p. hunk_touches env cwd h p \<longrightarrow> \<not> reaches p q"
  shows "files w' q = files w q"
proof -
  obtain w1 d1 r1 where loop: "apply_hunks_to_files env opts cwd hs w empty_delta = (w1, d1, r1)"
    by (cases "apply_hunks_to_files env opts cwd hs w empty_delta")
  have "files w1 q = files w q"
    using loop hunk_loop_frame [OF frame _ other] by (auto simp: apply_hunks_to_files_def split: if_splits)
  moreover have "files (fst (print_summary (write_stdout env) a w1)) = files w1"
    "files (fst (write_lines (write_stderr env) ls w1)) = files w1" for a ls
    using frame by (auto simp: fs_frame_def fs_output_law_def print_summary_def intro!: write_lines_files)
  then have "files w' = files w1"
    using run loop
    by (auto simp: apply_hunks_with_options_def simp del: write_lines.simps split: sum.splits prod.splits)
      (metis fst_conv)+
  ultimately show ?thesis by simp
qed

text \<open>Every path a hunk touches is a path of the verified changes.\<close>

lemma verify_hunk_targets:
  assumes "resolve_path env cwd h = Inr p" "verify_hunk env ienv update_mode cwd w p h = Inr c" "hunk_touches env cwd h q"
    "change_is_writable writable (p, c)"
  shows "writable q"
proof (cases h)
  case (UpdateFile path move_path chunks)
  obtain diff new dest where "c = ChangeUpdate diff dest new" "join_optional env cwd move_path = Inr dest"
    using assms(2) UpdateFile by (auto simp: verify_hunk_def)
  then show ?thesis
    using assms UpdateFile join_optional_ok [of env cwd move_path dest]
    by (cases move_path) (auto simp: hunk_touches_def)
qed (use assms in \<open>auto simp: hunk_touches_def verify_hunk_def split: sum.splits\<close>)

lemma verify_loop_targets:
  assumes "verify_loop env ienv update_mode cwd w hs changes = Inr changes'" "h \<in> set hs" "hunk_touches env cwd h q"
    "list_all (change_is_writable writable) changes'"
  shows "set changes \<subseteq> set changes' \<and> writable q"
  using assms(1,2)
proof (induction hs arbitrary: changes)
  case (Cons h' hs)
  obtain p c where p: "resolve_path env cwd h' = Inr p" "verify_hunk env ienv update_mode cwd w p h' = Inr c"
      and rest: "verify_loop env ienv update_mode cwd w hs (changes @ [(p, c)]) = Inr changes'"
    using Cons.prems(1) by (auto split: sum.splits if_splits)
  have grows: "set changes \<subseteq> set changes'" if "verify_loop env ienv update_mode cwd w hs changes = Inr changes'" for hs changes
    using that
  proof (induction hs arbitrary: changes)
    case (Cons h hs)
    then show ?case by (fastforce split: sum.splits if_splits)
  qed simp
  have "set (changes @ [(p, c)]) \<subseteq> set changes'"
    using grows [OF rest] .
  then show ?case
    using Cons.IH [OF rest] Cons.prems(2) verify_hunk_targets [OF p, of q writable] assms(3,4)
    by (cases "h = h'") (auto simp: list_all_iff)
qed simp

section \<open>Properties\<close>

lemma is_absolute_text: "is_absolute_path (absolute_text path)"
  by (simp add: is_absolute_path_def absolute_text_def starts_with_def lit_def)

lemma from_absolute_text:
  "list_all plain_name path \<Longrightarrow> from_absolute_path penv (absolute_text path) = Some path"
  by (simp add: from_absolute_path_slash is_absolute_text normalize_plain_text)

lemma to_abs_path_plain: "to_abs_path lib penv uri = Some path \<Longrightarrow> list_all plain_name path"
  by (auto simp: to_abs_path_def bind_eq_Some_conv dest: from_absolute_path_plain(2) split: if_splits option.splits sum.splits)

lemma is_path_writable_native:
  assumes "list_all plain_name native_cwd"
  shows "is_path_writable env policy native_cwd uri \<longleftrightarrow>
    (\<exists>path. to_abs_path (env_url env) (env_path env) uri = Some path \<and>
      can_write_path env policy (from_abs_path (env_url env) path) (local_context env native_cwd))"
proof -
  have "can_write_path_with_cwd env policy (absolute_text path) (absolute_text native_cwd) =
      can_write_path env policy (from_abs_path (env_url env) path) (local_context env native_cwd)"
    if "list_all plain_name path" for path
    by (simp add: can_write_path_with_cwd_def with_local_policy_context_def resolve_candidate_path_def is_absolute_text
        from_absolute_text that assms)
  then show ?thesis
    using normalize_plain_text [unfolded normalize_path_def] to_abs_path_plain
    by (auto simp: is_path_writable_def normalize_patch_path_def split: option.split)
qed

text \<open>C4: A patch that is approved without asking stays where the policy lets the agent write. When a verified
  patch is approved and its hunks are applied later, to files in any state and with any outcome, then
  either the policy grants the whole disk, or every file whose text changed is named, itself or through links,
  by a path that the policy allows to be written. Where a link leads is for the sandbox to confine; the
  decision looks at paths only.\<close>

theorem auto_approved_patch_contained:
  assumes "fs_frame fs files reaches"
    and "try_verify_apply_patch_args fs ienv args cwd update_mode w0 = Inr action"
    and "assess_patch_safety env os action approval profile policy sandbox_cwd = AutoApprove"
    and "apply_hunks_with_options fs opts (action_cwd action) (args_hunks args) w = (w', r)"
    and "files w' changed \<noteq> files w changed"
  shows "has_full_disk_write_access env policy \<or>
    (\<exists>native_cwd uri path. to_abs_path (env_url env) (env_path env) sandbox_cwd = Some native_cwd \<and>
      reaches uri changed \<and> to_abs_path (env_url env) (env_path env) uri = Some path \<and>
      can_write_path env policy (from_abs_path (env_url env) path) (local_context env native_cwd))"
proof (unfold disj_imp, rule impI)
  assume "\<not> has_full_disk_write_access env policy"
  moreover have "is_write_patch_constrained_to_writable_paths env action policy sandbox_cwd"
    using assms(3) by (auto simp: assess_patch_safety_def split: if_splits)
  ultimately obtain native_cwd where cwd: "to_abs_path (env_url env) (env_path env) sandbox_cwd = Some native_cwd"
    and writable: "list_all (change_is_writable (is_path_writable env policy native_cwd)) (action_changes action)"
    by (auto simp: is_write_patch_constrained_to_writable_paths_def split: option.splits)
  obtain h uri where "h \<in> set (args_hunks args)" "hunk_touches fs (action_cwd action) h uri" and reaches: "reaches uri changed"
    using apply_hunks_frame [OF assms(1,4), of changed] assms(5) by blast
  then have "is_path_writable env policy native_cwd uri"
    using verify_loop_targets [OF try_verify_loop [OF assms(2)] _ _ writable] by blast
  then show "\<exists>native_cwd uri path. to_abs_path (env_url env) (env_path env) sandbox_cwd = Some native_cwd \<and>
      reaches uri changed \<and> to_abs_path (env_url env) (env_path env) uri = Some path \<and>
      can_write_path env policy (from_abs_path (env_url env) path) (local_context env native_cwd)"
    using cwd reaches is_path_writable_native [OF to_abs_path_plain [OF cwd]] by blast
qed

text \<open>A file system over URIs in which \<open>/w/x\<close> is a link to \<open>/out\<close>, and a patch that adds the file \<open>x\<close> to
  the workspace \<open>/w\<close>.\<close>

definition link_target :: "PathUri \<Rightarrow> PathUri" where
  "link_target uri =
     (if names sample_url_lib uri = map utf8_bytes [lit ''w'', lit ''x''] then from_abs_path sample_url_lib [lit ''out''] else uri)"

definition uri_env :: "(PathUri, PathUri \<Rightarrow> ustring option) fs_env" where
  "uri_env = \<lparr>
     join_uri = (\<lambda>cwd s. case uri_join sample_url_lib cwd s of Inl _ \<Rightarrow> Inl (lit ''invalid path'') | Inr uri \<Rightarrow> Inr uri),
     parent_uri = uri_parent sample_url_lib,
     native_path = encoded_path,
     read_file_text = (\<lambda>fl p w. case w (link_target p) of None \<Rightarrow> Inl mem_not_found | Some t \<Rightarrow> Inr t),
     write_file = (\<lambda>fl p t w. (w(link_target p \<mapsto> t), Inr ())),
     create_directory = (\<lambda>fl p w. (w, Inr ())),
     get_metadata = (\<lambda>fl p w. case w (link_target p) of
         None \<Rightarrow> Inl mem_not_found
       | Some t \<Rightarrow> Inr \<lparr>md_is_directory = False, md_is_file = True, md_is_symlink = False\<rparr>),
     remove_file = (\<lambda>fl p w. (w(p := None), Inr ())),
     write_stdout = (\<lambda>t w. (w, Inr ())),
     write_stderr = (\<lambda>t w. (w, Inr ()))\<rparr>"

definition sample_uri_ienv :: "PathUri invocation_env" where
  "sample_uri_ienv = \<lparr>cwd_path_convention = (\<lambda>p. Some Posix), bash_query_matches = (\<lambda>s. Inr []), unified_diff_text = (\<lambda>a b. [])\<rparr>"

definition sample_add :: ApplyPatchArgs where
  "sample_add = \<lparr>args_patch = [], args_hunks = [AddFile (lit ''x'') (lit ''hi'')], args_workdir = None, args_environment_id = None\<rparr>"

definition sample_write_policy :: FileSystemSandboxPolicy where
  "sample_write_policy =
     restricted [new_entry (PathEntry (from_abs_path sample_url_lib [lit ''srv''])) Write, new_entry (PathEntry sample_cwd) Write]"

lemma uri_env_frame: "fs_frame uri_env (\<lambda>w. w) (\<lambda>p q. q = p \<or> q = link_target p)"
  by (simp add: fs_frame_def fs_output_law_def uri_env_def)

lemma protected_below_none:
  assumes "url_laws lib" "ordinary lib path" "ordinary lib root"
    "list_all (\<lambda>name. \<not> starts_with (names lib path) (names lib root @ [utf8_bytes name])) PROTECTED_METADATA_PATH_NAMES"
  shows "protected_below lib path root = None"
proof -
  have "\<exists>v. join_descendant lib root name = Inr v \<and> \<not> uri_starts_with lib path v" if "name \<in> set PROTECTED_METADATA_PATH_NAMES" for name
    using join_descendant_name [OF assms(1,3) protected_names(1) [OF that]] protected_names(2) [OF that] assms(2,4) that
    by (metis (mono_tags, lifting) list_all_iff starts_with_iff starts_with_names)
  then show ?thesis
    unfolding protected_below_def find_map_None_iff by (auto split: sum.split) (metis sum.inject(2))
qed

lemma sample_path_writable:
  "can_write_path sample_policy_env sample_write_policy (from_abs_path sample_url_lib [lit ''w'', lit ''x''])
     (local_context sample_policy_env [lit ''w''])"
proof -
  let ?uri = "from_abs_path sample_url_lib" and ?ctx = "local_context sample_policy_env [lit ''w'']"
  have url: "env_url sample_policy_env = sample_url_lib" by (simp add: sample_policy_env_def)
  have cwd: "context_cwd ?ctx = ?uri [lit ''w'']" by (simp add: local_context_def url)
  have "posix_names [lit ''w'']" "posix_names [lit ''srv'']" "posix_names [lit ''w'', lit ''x'']"
    by code_simp+
  note ord = this [THEN from_abs_path_posix(1) [OF sample_url_laws]] and named = this [THEN from_abs_path_posix(2) [OF sample_url_laws]]
  have "list_all (\<lambda>name. \<not> starts_with (map utf8_bytes [lit ''w'', lit ''x'']) (map utf8_bytes [lit ''w''] @ [utf8_bytes name])) PROTECTED_METADATA_PATH_NAMES"
    "list_all (\<lambda>name. \<not> starts_with (map utf8_bytes [lit ''w'', lit ''x'']) (map utf8_bytes [lit ''srv''] @ [utf8_bytes name])) PROTECTED_METADATA_PATH_NAMES"
    by code_simp+
  then have "protected_below sample_url_lib (?uri [lit ''w'', lit ''x'']) (?uri [lit ''w'']) = None"
    "protected_below sample_url_lib (?uri [lit ''w'', lit ''x'']) (?uri [lit ''srv'']) = None"
    using protected_below_none [OF sample_url_laws ord(3)] ord named by simp_all
  moreover have "uri_starts_with sample_url_lib (?uri [lit ''w'', lit ''x'']) (?uri [lit ''w''])"
    using ord named by (simp add: starts_with_names)
  ultimately show ?thesis
    using two_write_entries [of sample_url_lib, OF ord(2,1), of ?ctx] two_write_entries_write [of sample_url_lib, OF ord(2,1), of ?ctx] cwd ord
    by (simp add: can_write_path_def sample_write_policy_def sample_cwd_def url metadata_write_denial_def can_write_def)
qed

theorem auto_approved_patch_contained_witness:
  "\<not> has_full_disk_write_access sample_policy_env sample_write_policy \<and>
   (\<exists>native_cwd uri path.
     fst (apply_hunks_with_options uri_env default_options sample_cwd (args_hunks sample_add) Map.empty) (from_abs_path sample_url_lib [lit ''out'']) \<noteq> None \<and>
     to_abs_path sample_url_lib (env_path sample_policy_env) sample_cwd = Some native_cwd \<and>
     (from_abs_path sample_url_lib [lit ''out''] = uri \<or> from_abs_path sample_url_lib [lit ''out''] = link_target uri) \<and>
     to_abs_path sample_url_lib (env_path sample_policy_env) uri = Some path \<and>
     can_write_path sample_policy_env sample_write_policy (from_abs_path sample_url_lib path) (local_context sample_policy_env native_cwd))"
proof -
  let ?penv = "env_path sample_policy_env"
  have url: "env_url sample_policy_env = sample_url_lib" by (simp add: sample_policy_env_def)
  have "posix_names [lit ''w'']" "plain_text (lit ''x'')" "list_all name_text [lit ''w'', lit ''x'']"
    by code_simp+
  note texts = this
  note cwd = from_abs_path_posix [OF sample_url_laws texts(1), folded sample_cwd_def]
  obtain uri where uri: "uri_join sample_url_lib sample_cwd (lit ''x'') = Inr uri" "ordinary sample_url_lib uri"
      "names sample_url_lib uri = map utf8_bytes [lit ''w'', lit ''x'']"
    using join_name [OF sample_url_laws cwd(1) texts(2)] cwd(2) by auto
  have native: "to_abs_path sample_url_lib ?penv sample_cwd = Some [lit ''w'']" "to_abs_path sample_url_lib ?penv uri = Some [lit ''w'', lit ''x'']"
    using to_abs_path_ordinary [OF sample_url_laws cwd(1,2)] to_abs_path_ordinary [OF sample_url_laws uri(2,3)] texts(3) by simp_all
  let ?action = "\<lparr>action_changes = [(uri, ChangeAdd (lit ''hi''))], action_update_file_mode = NormalizeToLf, action_patch = [], action_cwd = sample_cwd\<rparr>"
  have verified: "try_verify_apply_patch_args uri_env sample_uri_ienv sample_add sample_cwd NormalizeToLf Map.empty = Inr ?action"
    using uri(1) by (simp add: try_verify_apply_patch_args_def sample_add_def join_optional_def resolve_path_def verify_hunk_def uri_env_def)
  have "is_path_writable sample_policy_env sample_write_policy [lit ''w''] uri"
    using is_path_writable_native [of "[lit ''w'']"] sample_path_writable native texts(3) by (auto simp: url name_text_plain)
  then have approved: "assess_patch_safety sample_policy_env LinuxOs ?action OnRequest (Managed (RestrictedEntries (policy_entries sample_write_policy) None) NetworkRestricted)
      sample_write_policy sample_cwd = AutoApprove"
    using native by (simp add: assess_patch_safety_def is_write_patch_constrained_to_writable_paths_def url)
  have limited: "\<not> has_full_disk_write_access sample_policy_env sample_write_policy"
    by (simp add: has_full_disk_write_access_def sample_write_policy_def restricted_def has_root_access_def new_entry_def)
  obtain w' r where run: "apply_hunks_with_options uri_env default_options sample_cwd (args_hunks sample_add) Map.empty = (w', r)"
    by fastforce
  then have "w' (from_abs_path sample_url_lib [lit ''out'']) \<noteq> None"
    using uri(1,3) by (auto simp: link_target_def sample_add_def uri_env_def apply_hunks_with_options_def apply_hunks_to_files_def apply_hunk_def
        resolve_path_def apply_add_file_def read_optional_file_text_for_delta_def write_file_with_missing_parent_retry_def
        print_summary_def summary_lines_def note_affected_def mem_not_found_def Let_def split: prod.splits)
  then show ?thesis
    using auto_approved_patch_contained [OF uri_env_frame verified approved, of default_options Map.empty w' r "from_abs_path sample_url_lib [lit ''out'']"]
      run limited by (auto simp: url)
qed

end
