(* ===== verification/Policy_Conversion.thy ===== *)
theory Policy_Conversion
  imports Policy_Edits File_Access
begin

text \<open>
  What edits and conversions of policies keep: an older policy survives the conversion to entries and
  back, and a denial survives the replacement of the rest of a policy.
\<close>

section \<open>Entries that grant writing\<close>

definition write_entries :: "FileSystemSandboxEntry list \<Rightarrow> FileSystemSandboxEntry list" where
  "write_entries entries = filter (\<lambda>entry. can_write (entry_access entry)) entries"

lemma write_entries_simps [simp]:
  "write_entries [] = []"
  "write_entries (entry # entries) = (if can_write (entry_access entry) then entry # write_entries entries else write_entries entries)"
  "write_entries (entries @ others) = write_entries entries @ write_entries others"
  by (simp_all add: write_entries_def)

lemma entry_fields [simp]:
  "entry_access (new_entry path access) = access" "entry_path (new_entry path access) = path"
  "entry_access (skip_missing_path path access) = access" "entry_path (skip_missing_path path access) = path"
  by (simp_all add: new_entry_def skip_missing_path_def)

lemma write_entries_append_default [simp]:
  "write_entries (append_default_read_only_entry_if_no_explicit_rule env entries path) = write_entries entries"
  "write_entries (append_default_read_only_project_root_subpath_if_no_explicit_rule env entries subpath) = write_entries entries"
  "write_entries (append_default_read_only_path_if_no_explicit_rule env entries native) = write_entries entries"
  by (simp_all add: append_default_read_only_entry_if_no_explicit_rule_def can_write_def
      append_default_read_only_project_root_subpath_if_no_explicit_rule_def append_default_read_only_path_if_no_explicit_rule_def)

lemma write_entries_foldl:
  assumes "\<And>entries x. write_entries (f entries x) = write_entries entries"
  shows "write_entries (foldl f entries xs) = write_entries entries"
  by (induction xs arbitrary: entries) (simp_all add: assms)

lemma write_entries_protect_root [simp]: "write_entries (protect_root env b entries root) = write_entries entries"
  unfolding protect_root_def by (rule write_entries_foldl) simp

lemma write_entries_protect_roots [simp]:
  "write_entries (foldl (protect_root env b) entries roots) = write_entries entries"
  by (rule write_entries_foldl) simp

lemma write_entries_workspace_write:
  "write_entries (policy_entries (workspace_write env roots exclude_tmpdir exclude_slash_tmp)) =
     new_entry (Special (ProjectRoots None)) Write #
     (if exclude_slash_tmp then [] else [new_entry (Special SlashTmp) Write]) @
     (if exclude_tmpdir then [] else [new_entry (Special Tmpdir) Write]) @
     map (\<lambda>path. new_entry (abs_path_entry env path) Write) roots"
proof -
  have "write_entries (map (\<lambda>path. new_entry (abs_path_entry env path) Write) roots) =
      map (\<lambda>path. new_entry (abs_path_entry env path) Write) roots"
    by (induction roots) (simp_all add: can_write_def)
  then show ?thesis
    by (simp add: workspace_write_def restricted_def can_write_def)
qed

lemma scan_write_entries:
  "scan_entries env cwd scan entries = scan_entries env cwd scan (write_entries entries)"
proof (induction entries arbitrary: scan)
  case (Cons entry entries)
  have "\<not> can_write (entry_access entry) \<Longrightarrow> scan_entry env cwd scan entry = Inr scan"
    by (simp add: scan_entry_def)
  then show ?case
    using Cons.IH by (cases "scan_entry env cwd scan entry") auto
qed simp

lemma has_root_write: "has_root_access policy can_write \<longleftrightarrow>
    policy_kind policy = Restricted \<and> list_ex (\<lambda>entry. entry_path entry = Special Root) (write_entries (policy_entries policy))"
  by (auto simp: has_root_access_def list_ex_iff write_entries_def)

section \<open>The round trip of an older policy\<close>

definition host_path :: "AbsolutePathBuf \<Rightarrow> bool" where
  "host_path path = list_all (\<lambda>name. name_text name \<and> 0 \<notin> set name) path"

fun legacy_ok :: "PolicyEnv \<Rightarrow> ustring \<Rightarrow> SandboxPolicy \<Rightarrow> bool" where
  "legacy_ok env cwd (WorkspaceWrite roots _ _ _) \<longleftrightarrow>
     distinct roots \<and> list_all host_path roots \<and> from_absolute_path (env_path env) cwd \<notin> Some ` set roots"
| "legacy_ok env cwd _ \<longleftrightarrow> True"

lemma dedup_from_distinct:
  "distinct paths \<Longrightarrow> set seen \<inter> set paths = {} \<Longrightarrow> dedup_from seen paths = paths"
  by (induction paths arbitrary: seen) auto

lemma dedup_distinct: "distinct paths \<Longrightarrow> dedup_absolute_paths paths = paths"
  by (simp add: dedup_absolute_paths_def dedup_from_distinct)

lemma scan_roots:
  assumes "url_laws (env_url env)" "list_all host_path roots" "cwd \<notin> Some ` set roots"
  shows "scan_entries env cwd scan (map (\<lambda>path. new_entry (abs_path_entry env path) Write) roots) =
    Inr (scan\<lparr>legacy_writable_roots := legacy_writable_roots scan @ roots\<rparr>)"
  using assms(2,3)
proof (induction roots arbitrary: scan)
  case (Cons root roots)
  have "to_abs_path (env_url env) (env_path env) (from_abs_path (env_url env) root) = Some root"
    using to_abs_path_from_abs_path [OF assms(1)] Cons.prems(1) by (simp add: host_path_def)
  then have "scan_entry env cwd scan (new_entry (abs_path_entry env root) Write) =
      Inr (scan\<lparr>legacy_writable_roots := legacy_writable_roots scan @ [root]\<rparr>)"
    using Cons.prems(2) by (auto simp: scan_entry_def abs_path_entry_def can_write_def)
  then show ?case
    using Cons by simp
qed simp

lemma scan_special:
  "scan_entry env cwd scan (new_entry (Special (ProjectRoots None)) Write) = Inr (scan\<lparr>workspace_root_writable := True\<rparr>)"
  "scan_entry env cwd scan (new_entry (Special SlashTmp) Write) = Inr (scan\<lparr>slash_tmp_writable := True\<rparr>)"
  "scan_entry env cwd scan (new_entry (Special Tmpdir) Write) = Inr (scan\<lparr>tmpdir_writable := True\<rparr>)"
  by (simp_all add: scan_entry_def can_write_def)

lemma workspace_write_kind: "policy_kind (workspace_write env roots exclude_tmpdir exclude_slash_tmp) = Restricted"
  by (simp add: workspace_write_def restricted_def)

lemma workspace_policy_for_cwd:
  "policy_kind (from_legacy_sandbox_policy_for_cwd env (WorkspaceWrite roots network exclude_tmpdir exclude_slash_tmp) cwd) = Restricted"
  "write_entries (policy_entries (from_legacy_sandbox_policy_for_cwd env (WorkspaceWrite roots network exclude_tmpdir exclude_slash_tmp) cwd)) =
     write_entries (policy_entries (workspace_write env roots exclude_tmpdir exclude_slash_tmp))"
  by (simp_all add: from_legacy_sandbox_policy_for_cwd_def Let_def workspace_write_kind split: option.split)

text \<open>C14: An older sandbox policy survives the conversion to file system entries and back, with the network
  access it had. Writable roots must be distinct, none of them the working directory itself, which the
  conversion folds into the workspace.\<close>

theorem legacy_policy_roundtrip:
  assumes "url_laws (env_url env)" "legacy_ok env cwd policy"
  shows "to_legacy_sandbox_policy env (from_legacy_sandbox_policy_for_cwd env policy cwd) (network_policy_of policy) cwd = Inr policy"
proof (cases policy)
  case (ReadOnly network)
  then show ?thesis
    by (auto simp: from_legacy_sandbox_policy_for_cwd_def to_legacy_sandbox_policy_def restricted_def network_policy_of_def
        scan_entry_def can_write_def empty_scan_def has_full_disk_write_access_def has_root_access_def)
next
  case (ExternalSandboxPolicy network)
  then show ?thesis
    by (cases network) (auto simp: from_legacy_sandbox_policy_for_cwd_def to_legacy_sandbox_policy_def external_sandbox_def
        network_policy_of_def)
next
  case (WorkspaceWrite roots network exclude_tmpdir exclude_slash_tmp)
  let ?policy = "from_legacy_sandbox_policy_for_cwd env policy cwd" and ?cwd = "from_absolute_path (env_path env) cwd"
  have ok: "distinct roots" "list_all host_path roots" "?cwd \<notin> Some ` set roots"
    using assms(2) WorkspaceWrite by simp_all
  note entries = workspace_policy_for_cwd [of env roots network exclude_tmpdir exclude_slash_tmp cwd, folded WorkspaceWrite,
      unfolded write_entries_workspace_write]
  have "scan_entries env ?cwd empty_scan (policy_entries ?policy) =
      Inr (empty_scan\<lparr>workspace_root_writable := True, legacy_writable_roots := roots,
        tmpdir_writable := \<not> exclude_tmpdir, slash_tmp_writable := \<not> exclude_slash_tmp\<rparr>)"
    using scan_write_entries [of env ?cwd empty_scan "policy_entries ?policy"]
    by (simp add: entries(2) scan_special scan_roots [OF assms(1) ok(2,3)] empty_scan_def)
  moreover have "\<not> has_full_disk_write_access env ?policy"
    using entries by (auto simp: has_full_disk_write_access_def has_root_write list_ex_iff abs_path_entry_def)
  ultimately show ?thesis
    using entries(1) WorkspaceWrite dedup_distinct [OF ok(1)]
    by (simp add: to_legacy_sandbox_policy_def network_policy_of_def)
qed (simp add: from_legacy_sandbox_policy_for_cwd_def to_legacy_sandbox_policy_def unrestricted_def network_policy_of_def
    unrestricted_legacy_policy_def)

theorem legacy_policy_roundtrip_witness:
  "to_legacy_sandbox_policy sample_policy_env
     (from_legacy_sandbox_policy_for_cwd sample_policy_env (WorkspaceWrite [[lit ''srv'', lit ''x'']] True False True) (lit ''/w''))
     NetworkEnabled (lit ''/w'') = Inr (WorkspaceWrite [[lit ''srv'', lit ''x'']] True False True)"
proof -
  have url: "env_url sample_policy_env = sample_url_lib" by (simp add: sample_policy_env_def)
  have "legacy_ok sample_policy_env (lit ''/w'') (WorkspaceWrite [[lit ''srv'', lit ''x'']] True False True)"
    by code_simp
  from legacy_policy_roundtrip [of sample_policy_env, unfolded url, OF sample_url_laws this]
  show ?thesis by (simp add: network_policy_of_def)
qed

section \<open>Denials\<close>

lemma push_missing_entries:
  assumes "entry \<in> set pushed"
  shows "\<exists>entry' \<in> set (foldl (push_missing_entry env) entries pushed). entry_eq (env_url env) entry' entry"
proof -
  have keeps: "set entries \<subseteq> set (foldl (push_missing_entry env) entries others)" for entries others
  proof (induction others arbitrary: entries)
    case (Cons e others)
    have "set entries \<subseteq> set (push_missing_entry env entries e)"
      by (auto simp: push_missing_entry_def)
    then show ?case
      using Cons.IH [of "push_missing_entry env entries e"] by (simp add: subset_trans)
  qed simp
  have same: "entry_eq (env_url env) e e" for e
    by (cases "entry_path e") (auto simp: entry_eq_def uri_eq_def)
  show ?thesis
    using assms
  proof (induction pushed arbitrary: entries)
    case (Cons e pushed)
    have pushed: "\<exists>entry' \<in> set (push_missing_entry env entries e). entry_eq (env_url env) entry' e"
      using same [of e] by (auto simp: push_missing_entry_def list_ex_iff)
    show ?case
    proof (cases "entry = e")
      case True
      then show ?thesis
        using pushed keeps [of "push_missing_entry env entries e" pushed] by auto
    next
      case False
      then show ?thesis using Cons by simp
    qed
  qed simp
qed

lemma preserved_policy:
  assumes "policy_kind self \<noteq> ExternalSandbox" "list_ex (\<lambda>entry. entry_access entry = Deny) (policy_entries existing)"
  shows "policy_kind (preserve_deny_read_restrictions_from env self existing) = Restricted"
    and "\<exists>entries. policy_entries (preserve_deny_read_restrictions_from env self existing) =
      foldl (push_missing_entry env) entries (deny_entries existing)"
  using assms by (cases "policy_kind self"; auto simp: preserve_deny_read_restrictions_from_def restricted_def)+

lemma entry_paths_eq:
  assumes "file_system_path_eq lib path' path" "root \<in> set (entry_paths lib ctx path)" "ordinary lib root"
  shows "root \<in> set (entry_paths lib ctx path')"
  using assms uri_eq_ordinary [of lib _ root]
  by (cases path; cases path') (auto simp: entry_paths_def)

lemma preserved_denial:
  assumes "policy_kind self \<noteq> ExternalSandbox" "(root, Deny) \<in> set (resolved_entries lib existing ctx)"
    "lib = env_url env" "ordinary lib root" "ordinary lib (context_cwd ctx)"
  shows "policy_kind (preserve_deny_read_restrictions_from env self existing) = Restricted \<and>
    (root, Deny) \<in> set (resolved_entries lib (preserve_deny_read_restrictions_from env self existing) ctx)"
proof -
  obtain entry where entry: "entry \<in> set (policy_entries existing)" "entry_access entry = Deny"
      "root \<in> set (entry_paths lib ctx (entry_path entry))"
    using resolved_entryE [OF assms(2)] by metis
  then have "list_ex (\<lambda>entry. entry_access entry = Deny) (policy_entries existing)" "entry \<in> set (deny_entries existing)"
    by (auto simp: list_ex_iff deny_entries_def)
  note preserved = preserved_policy [OF assms(1) this(1), of env] and deny = this(2)
  obtain entry' where "entry' \<in> set (policy_entries (preserve_deny_read_restrictions_from env self existing))"
      "entry_eq lib entry' entry"
    using preserved(2) push_missing_entries [OF deny, of env] assms(3) by metis
  then show ?thesis
    using preserved(1) resolved_entryI [of entry' _ root lib ctx] entry_paths_eq [OF _ entry(3) assms(4)] entry(2) assms(4,5)
    by (auto simp: entry_eq_def)
qed

text \<open>C15: A denial survives the replacement of the rest of a policy, also by a policy without restrictions:
  below a place that the existing policy denies, the new policy denies access too, unless one of its
  entries grants a place strictly inside. The one exception is a replacement that leaves enforcement to
  an external sandbox: it is taken as it is and grants everything.\<close>

theorem denial_survives_replacement:
  assumes "(root, Deny) \<in> set (resolved_entries (env_url env) existing ctx)"
    "ordinary (env_url env) root" "ordinary (env_url env) path" "ordinary (env_url env) (context_cwd ctx)"
    "uri_starts_with (env_url env) path root"
    "resolvable (env_url env) (resolved_entries (env_url env) (preserve_deny_read_restrictions_from env self existing) ctx)"
    "list_all (\<lambda>(inner, _). uri_starts_with (env_url env) path inner \<longrightarrow> uri_starts_with (env_url env) root inner)
       (resolved_entries (env_url env) (preserve_deny_read_restrictions_from env self existing) ctx)"
  shows "can_read (resolve_access (env_url env) (preserve_deny_read_restrictions_from env self existing) path ctx) \<longleftrightarrow>
    policy_kind self = ExternalSandbox"
proof (cases "policy_kind self = ExternalSandbox")
  case True
  then have "preserve_deny_read_restrictions_from env self existing = self"
    by (simp add: preserve_deny_read_restrictions_from_def)
  with True show ?thesis by (simp add: resolve_access_def can_read_def)
next
  case False
  let ?lib = "env_url env" and ?policy = "preserve_deny_read_restrictions_from env self existing"
  have kept: "policy_kind ?policy = Restricted" "(root, Deny) \<in> set (resolved_entries ?lib ?policy ctx)"
    using preserved_denial [OF False assms(1) refl assms(2,4)] by simp_all
  have "resolve_access ?lib ?policy path ctx = Deny"
    using resolve_access_governs [OF kept(1) assms(3,4,6)]
  proof
    assume "\<exists>inner. governs ?lib (resolved_entries ?lib ?policy ctx) path inner (resolve_access ?lib ?policy path ctx)"
    then obtain inner where governs: "governs ?lib (resolved_entries ?lib ?policy ctx) path inner (resolve_access ?lib ?policy path ctx)" ..
    have "uri_starts_with ?lib root inner"
      using assms(7) governsD(1,2) [OF governs] by (auto simp: list_all_iff)
    then have "Deny \<le> resolve_access ?lib ?policy path ctx"
      using governsD(3) [OF governs kept(2) assms(5)] by blast
    then show ?thesis
      by (cases "resolve_access ?lib ?policy path ctx") (simp_all add: less_eq_FileSystemAccessMode_def)
  qed simp
  then show ?thesis using False by (simp add: can_read_def)
qed

theorem denial_survives_replacement_witness:
  "\<not> can_read (resolve_access sample_url_lib
       (preserve_deny_read_restrictions_from sample_policy_env unrestricted (restricted [sample_path_entry [lit ''w'', lit ''x''] Deny]))
       (from_abs_path sample_url_lib [lit ''w'', lit ''x'', lit ''y'']) sample_context)"
proof -
  let ?existing = "restricted [sample_path_entry [lit ''w'', lit ''x''] Deny]"
  let ?path = "from_abs_path sample_url_lib [lit ''w'', lit ''x'', lit ''y'']" and ?root = "from_abs_path sample_url_lib [lit ''w'', lit ''x'']"
  let ?entries = "resolved_entries sample_url_lib (preserve_deny_read_restrictions_from sample_policy_env unrestricted ?existing) sample_context"
  have url: "env_url sample_policy_env = sample_url_lib" by (simp add: sample_policy_env_def)
  have "(?root, Deny) \<in> set (resolved_entries sample_url_lib ?existing sample_context)"
    "ordinary sample_url_lib ?root" "ordinary sample_url_lib ?path" "ordinary sample_url_lib (context_cwd sample_context)"
    "uri_starts_with sample_url_lib ?path ?root" "resolvable sample_url_lib ?entries"
    "list_all (\<lambda>(inner, _). uri_starts_with sample_url_lib ?path inner \<longrightarrow> uri_starts_with sample_url_lib ?root inner) ?entries"
    by code_simp+
  from denial_survives_replacement [of _ sample_policy_env, unfolded url, OF this]
  show ?thesis by (simp add: unrestricted_def)
qed

end
